(* ===== verification/Rust_Prelude.thy ===== *)
theory Rust_Prelude
  imports Main
begin

text \<open>
  Shared vocabulary of the development: Rust's characters, strings and machine integers
  as the input method uses them, and the generic facts on lists and byte offsets that the
  component theories share.

  A \<open>char\<close> is its scalar value, a \<open>String\<close> is the list of its scalars. Three
  lengths of a string occur in the code and are kept apart: scalars (\<open>chars().count()\<close>,
  here \<open>length\<close>), UTF-8 bytes (\<open>len()\<close>, here \<open>byte_len\<close>) and UTF-16 units
  (\<open>encode_utf16().count()\<close>, here \<open>utf16_len\<close>). Slicing at a byte offset that is
  not a character boundary panics in Rust; here it is \<open>None\<close>.
  Unsigned integers are natural numbers, with the width written out wherever the code
  checks or saturates.
\<close>

named_theorems str_simps \<open>byte and unit lengths of strings\<close>
named_theorems wf_intros \<open>preservation of the component invariants\<close>

type_synonym uchar = nat
type_synonym ustring = "uchar list"
type_synonym instant = nat

text \<open>ASCII literals.\<close>

definition ascii :: "string \<Rightarrow> ustring" where
  "ascii s = map of_char s"

lemma ascii_simps [simp]:
  "ascii [] = []"
  "ascii (c # s) = of_char c # ascii s"
  by (simp_all add: ascii_def)

subsection \<open>Machine integers\<close>

definition u32_max :: nat where "u32_max = 2 ^ 32 - 1"
definition u64_max :: nat where "u64_max = 2 ^ 64 - 1"

lemma u32_max_eq [simp]: "u32_max = 4294967295"
  by (simp add: u32_max_def)

lemma u64_max_eq [simp]: "u64_max = 18446744073709551615"
  by (simp add: u64_max_def)

definition u32_try_from :: "nat \<Rightarrow> nat option" where
  "u32_try_from n = (if n \<le> u32_max then Some n else None)"

text \<open>A cast \<open>n as u32\<close> keeps the low 32 bits.\<close>

definition as_u32 :: "nat \<Rightarrow> nat" where
  "as_u32 n = n mod 2 ^ 32"

lemma as_u32_id [simp]: "n \<le> u32_max \<Longrightarrow> as_u32 n = n"
  by (simp add: as_u32_def)

definition checked_add_u32 :: "nat \<Rightarrow> nat \<Rightarrow> nat option" where
  "checked_add_u32 a b = (if a + b \<le> u32_max then Some (a + b) else None)"

definition checked_add_u64 :: "nat \<Rightarrow> nat \<Rightarrow> nat option" where
  "checked_add_u64 a b = (if a + b \<le> u64_max then Some (a + b) else None)"

definition saturating_add_u64 :: "nat \<Rightarrow> nat \<Rightarrow> nat" where
  "saturating_add_u64 a b = min (a + b) u64_max"

definition checked_sub :: "nat \<Rightarrow> nat \<Rightarrow> nat option" where
  "checked_sub a b = (if b \<le> a then Some (a - b) else None)"

lemma u32_try_from_Some [simp]: "u32_try_from n = Some m \<longleftrightarrow> m = n \<and> n \<le> u32_max"
  by (auto simp: u32_try_from_def)

lemma u32_try_from_None [simp]: "u32_try_from n = None \<longleftrightarrow> u32_max < n"
  by (auto simp: u32_try_from_def)

lemma checked_add_u32_Some [simp]:
  "checked_add_u32 a b = Some c \<longleftrightarrow> c = a + b \<and> a + b \<le> u32_max"
  by (auto simp: checked_add_u32_def)

lemma checked_add_u64_Some [simp]:
  "checked_add_u64 a b = Some c \<longleftrightarrow> c = a + b \<and> a + b \<le> u64_max"
  by (auto simp: checked_add_u64_def)

lemma checked_add_u64_None [simp]: "checked_add_u64 a b = None \<longleftrightarrow> u64_max < a + b"
  by (auto simp: checked_add_u64_def)

lemma checked_sub_Some [simp]: "checked_sub a b = Some c \<longleftrightarrow> b \<le> a \<and> c = a - b"
  by (auto simp: checked_sub_def)

text \<open>\<open>rem_euclid\<close> by a positive modulus is the mathematical \<open>mod\<close>.\<close>

definition rem_euclid :: "int \<Rightarrow> int \<Rightarrow> int" where
  "rem_euclid a n = a mod n"

lemma rem_euclid_bounds: "0 < n \<Longrightarrow> 0 \<le> rem_euclid a n \<and> rem_euclid a n < n"
  by (simp add: rem_euclid_def)

subsection \<open>UTF-8 and UTF-16 lengths\<close>

definition utf8_width :: "uchar \<Rightarrow> nat" where
  "utf8_width c = (if c < 0x80 then 1 else if c < 0x800 then 2 else if c < 0x10000 then 3 else 4)"

definition utf16_width :: "uchar \<Rightarrow> nat" where
  "utf16_width c = (if c < 0x10000 then 1 else 2)"

definition byte_len :: "ustring \<Rightarrow> nat" where
  "byte_len s = sum_list (map utf8_width s)"

definition utf16_len :: "ustring \<Rightarrow> nat" where
  "utf16_len s = sum_list (map utf16_width s)"

lemma utf8_width_pos [simp]: "0 < utf8_width c"
  by (simp add: utf8_width_def)

lemma utf8_width_nonzero [simp]: "utf8_width c \<noteq> 0"
  by (simp add: utf8_width_def)

lemma utf16_width_pos [simp]: "0 < utf16_width c"
  by (simp add: utf16_width_def)

lemma byte_len_simps [simp, str_simps]:
  "byte_len [] = 0"
  "byte_len (c # s) = utf8_width c + byte_len s"
  "byte_len (s @ t) = byte_len s + byte_len t"
  by (simp_all add: byte_len_def)

lemma utf16_len_simps [simp, str_simps]:
  "utf16_len [] = 0"
  "utf16_len (c # s) = utf16_width c + utf16_len s"
  "utf16_len (s @ t) = utf16_len s + utf16_len t"
  by (simp_all add: utf16_len_def)

lemma byte_len_0 [simp]: "byte_len s = 0 \<longleftrightarrow> s = []"
  by (cases s) (simp_all)

lemma utf16_len_0 [simp]: "utf16_len s = 0 \<longleftrightarrow> s = []"
  by (cases s) (simp_all)

lemma length_le_byte_len: "length s \<le> byte_len s"
proof (induction s)
  case (Cons c s)
  then show ?case using utf8_width_pos [of c] by (simp del: utf8_width_pos)
qed simp

lemma length_le_utf16_len: "length s \<le> utf16_len s"
proof (induction s)
  case (Cons c s)
  then show ?case using utf16_width_pos [of c] by (simp del: utf16_width_pos)
qed simp

text \<open>Splitting a string at a byte offset: \<open>None\<close> when the offset is inside a character
  or past the end, where Rust's slicing panics.\<close>

fun split_bytes :: "nat \<Rightarrow> ustring \<Rightarrow> (ustring \<times> ustring) option" where
  "split_bytes n [] = (if n = 0 then Some ([], []) else None)"
| "split_bytes n (c # s) =
     (if n = 0 then Some ([], c # s)
      else if n < utf8_width c then None
      else map_option (\<lambda>(a, b). (c # a, b)) (split_bytes (n - utf8_width c) s))"

lemma split_bytes_append: "split_bytes (byte_len a) (a @ b) = Some (a, b)"
proof (induction a)
  case Nil
  show ?case by (cases b) simp_all
next
  case (Cons c a)
  then show ?case using utf8_width_pos [of c] by (simp del: utf8_width_pos)
qed

lemma split_bytes_Some:
  "split_bytes n s = Some (a, b) \<longleftrightarrow> s = a @ b \<and> n = byte_len a"
proof
  show "split_bytes n s = Some (a, b) \<Longrightarrow> s = a @ b \<and> n = byte_len a"
    by (induction n s arbitrary: a b rule: split_bytes.induct) (auto split: if_splits)
next
  show "s = a @ b \<and> n = byte_len a \<Longrightarrow> split_bytes n s = Some (a, b)"
    by (simp add: split_bytes_append)
qed

lemma split_bytes_0 [simp]: "split_bytes 0 s = Some ([], s)"
  by (simp add: split_bytes_Some)

lemma split_bytes_len [simp]: "split_bytes (byte_len s) s = Some (s, [])"
  by (simp add: split_bytes_Some)

text \<open>\<open>String::truncate\<close>: no effect past the end, a panic inside a character.\<close>

definition truncate_bytes :: "nat \<Rightarrow> ustring \<Rightarrow> ustring option" where
  "truncate_bytes n s = (if byte_len s \<le> n then Some s else map_option fst (split_bytes n s))"

definition is_char_boundary :: "ustring \<Rightarrow> nat \<Rightarrow> bool" where
  "is_char_boundary s n \<longleftrightarrow> split_bytes n s \<noteq> None"

lemma is_char_boundary_iff: "is_char_boundary s n \<longleftrightarrow> (\<exists>a b. s = a @ b \<and> n = byte_len a)"
  by (auto simp: is_char_boundary_def split_bytes_Some)

text \<open>\<open>char_indices().nth(k)\<close>: the byte offset of the \<open>k\<close>-th scalar, and the
  byte length when there is none, as \<open>map_or(len, ..)\<close> gives it.\<close>

definition char_offset :: "ustring \<Rightarrow> nat \<Rightarrow> nat" where
  "char_offset s k = byte_len (take k s)"

lemma split_at_char_offset [simp]: "split_bytes (char_offset s k) s = Some (take k s, drop k s)"
  by (simp add: char_offset_def split_bytes_Some)

subsection \<open>Substrings\<close>

definition starts_with :: "ustring \<Rightarrow> ustring \<Rightarrow> bool" where
  "starts_with s p \<longleftrightarrow> take (length p) s = p"

definition ends_with :: "ustring \<Rightarrow> ustring \<Rightarrow> bool" where
  "ends_with s p \<longleftrightarrow> length p \<le> length s \<and> drop (length s - length p) s = p"

definition strip_suffix :: "ustring \<Rightarrow> ustring \<Rightarrow> ustring option" where
  "strip_suffix s p = (if ends_with s p then Some (take (length s - length p) s) else None)"

definition strip_prefix :: "ustring \<Rightarrow> ustring \<Rightarrow> ustring option" where
  "strip_prefix s p = (if starts_with s p then Some (drop (length p) s) else None)"

lemma starts_with_iff: "starts_with s p \<longleftrightarrow> (\<exists>r. s = p @ r)"
  unfolding starts_with_def by (metis append_eq_conv_conj append_take_drop_id)

lemma ends_with_iff: "ends_with s p \<longleftrightarrow> (\<exists>r. s = r @ p)"
proof
  assume "ends_with s p"
  then show "\<exists>r. s = r @ p"
    unfolding ends_with_def by (metis append_take_drop_id)
qed (auto simp: ends_with_def)

lemma starts_with_append [simp]: "starts_with (p @ r) p"
  by (simp add: starts_with_def)

lemma ends_with_append [simp]: "ends_with (r @ p) p"
  by (simp add: ends_with_def)

lemma strip_suffix_Some: "strip_suffix s p = Some r \<longleftrightarrow> s = r @ p"
proof
  show "s = r @ p" if "strip_suffix s p = Some r"
    using that by (auto simp: strip_suffix_def ends_with_iff split: if_splits)
qed (simp add: strip_suffix_def)

lemma strip_prefix_Some: "strip_prefix s p = Some r \<longleftrightarrow> s = p @ r"
proof
  show "s = p @ r" if "strip_prefix s p = Some r"
    using that by (auto simp: strip_prefix_def starts_with_iff split: if_splits)
qed (simp add: strip_prefix_def)

subsection \<open>Lists\<close>

text \<open>\<open>iter().position(p)\<close>.\<close>

fun position :: "('a \<Rightarrow> bool) \<Rightarrow> 'a list \<Rightarrow> nat option" where
  "position p [] = None"
| "position p (x # xs) = (if p x then Some 0 else map_option Suc (position p xs))"

lemma position_None [simp]: "position p xs = None \<longleftrightarrow> (\<forall>x\<in>set xs. \<not> p x)"
  by (induction xs) auto

lemma position_SomeD:
  "position p xs = Some i \<Longrightarrow> i < length xs \<and> p (xs ! i) \<and> (\<forall>j<i. \<not> p (xs ! j))"
proof (induction xs arbitrary: i)
  case (Cons x xs)
  show ?case
  proof (cases "p x")
    case False
    with Cons.prems obtain k where k: "position p xs = Some k" "i = Suc k" by auto
    from Cons.IH [OF k(1)] False k(2) show ?thesis
      by (auto simp: less_Suc_eq_0_disj)
  qed (use Cons.prems in auto)
qed simp

text \<open>\<open>slice_of.get(i)\<close>.\<close>

definition get :: "'a list \<Rightarrow> nat \<Rightarrow> 'a option" where
  "get xs i = (if i < length xs then Some (xs ! i) else None)"

lemma get_Some [simp]: "get xs i = Some x \<longleftrightarrow> i < length xs \<and> xs ! i = x"
  by (auto simp: get_def)

lemma get_None [simp]: "get xs i = None \<longleftrightarrow> length xs \<le> i"
  by (auto simp: get_def)

text \<open>\<open>Vec::splice(from..to, new)\<close>.\<close>

definition splice :: "nat \<Rightarrow> nat \<Rightarrow> 'a list \<Rightarrow> 'a list \<Rightarrow> 'a list" where
  "splice from to new xs = take from xs @ new @ drop to xs"

lemma length_splice:
  "from \<le> to \<Longrightarrow> to \<le> length xs \<Longrightarrow>
   length (splice from to new xs) = from + length new + (length xs - to)"
  by (simp add: splice_def)

text \<open>The slice_of of scalars \<open>from..to\<close> as the code writes it: \<open>skip(from).take(to - from)\<close>.\<close>

definition slice_of :: "nat \<Rightarrow> nat \<Rightarrow> 'a list \<Rightarrow> 'a list" where
  "slice_of from to xs = take (to - from) (drop from xs)"

lemma length_slice [simp]: "length (slice_of i j xs) = min (j - i) (length xs - i)"
  by (simp add: slice_of_def min.commute)

lemma slice_append:
  "i \<le> j \<Longrightarrow> j \<le> k \<Longrightarrow> slice_of i j xs @ slice_of j k xs = slice_of i k xs"
proof -
  assume a: "i \<le> j" "j \<le> k"
  have "take (j - i + (k - j)) (drop i xs)
      = take (j - i) (drop i xs) @ take (k - j) (drop (j - i) (drop i xs))"
    by (rule take_add)
  then show ?thesis using a by (simp add: slice_of_def)
qed

lemma slice_full [simp]: "slice_of 0 (length xs) xs = xs"
  by (simp add: slice_of_def)

lemma slice_same [simp]: "slice_of i i xs = []"
  by (simp add: slice_of_def)

lemma slice_to_end: "slice_of i (length xs) xs = drop i xs"
  by (simp add: slice_of_def)

lemma slice_from_start: "slice_of 0 j xs = take j xs"
  by (simp add: slice_of_def)

lemma slice_append_left: "j \<le> length xs \<Longrightarrow> slice_of i j (xs @ ys) = slice_of i j xs"
  by (simp add: slice_of_def)

text \<open>\<open>slice_of::binary_search\<close>: the loop of the standard library on a half-open window.
  On a sorted slice_of it succeeds exactly on members.\<close>

function binary_search_in :: "nat list \<Rightarrow> nat \<Rightarrow> nat \<Rightarrow> nat \<Rightarrow> bool" where
  "binary_search_in xs x lo hi =
     (if lo < hi
      then (let mid = (lo + hi) div 2 in
            if xs ! mid = x then True
            else if xs ! mid < x then binary_search_in xs x (Suc mid) hi
            else binary_search_in xs x lo mid)
      else False)"
  by pat_completeness auto
termination
  by (relation "measure (\<lambda>(xs, x, lo, hi). hi - lo)") auto

declare binary_search_in.simps [simp del]

definition binary_search :: "nat list \<Rightarrow> nat \<Rightarrow> bool" where
  "binary_search xs x = binary_search_in xs x 0 (length xs)"

lemma binary_search_in_iff:
  "sorted xs \<Longrightarrow> hi \<le> length xs \<Longrightarrow>
   binary_search_in xs x lo hi \<longleftrightarrow> (\<exists>i. lo \<le> i \<and> i < hi \<and> xs ! i = x)"
proof (induction xs x lo hi rule: binary_search_in.induct)
  case (1 xs x lo hi)
  show ?case
  proof (cases "lo < hi")
    case False
    then show ?thesis by (subst binary_search_in.simps) auto
  next
    case True
    define mid where "mid = (lo + hi) div 2"
    have mid: "lo \<le> mid" "mid < hi" using True by (auto simp: mid_def)
    have mono: "xs ! i \<le> xs ! j" if "i \<le> j" "j < hi" for i j
      using "1.prems" that by (simp add: sorted_iff_nth_mono)
    consider "xs ! mid = x" | "xs ! mid < x" | "x < xs ! mid" by linarith
    then show ?thesis
    proof cases
      case 1
      then show ?thesis using mid True
        by (subst binary_search_in.simps) (auto simp: Let_def mid_def)
    next
      case 2
      have eq: "binary_search_in xs x lo hi = binary_search_in xs x (Suc mid) hi"
        using 2 True by (subst binary_search_in.simps) (simp add: Let_def flip: mid_def)
      have "mid < i" if "i < hi" "xs ! i = x" for i
        using mono [of i mid] mid 2 that by (metis leD not_less)
      then show ?thesis using 2 True mid "1.IH"(1) [OF True mid_def] "1.prems"
        unfolding eq by (metis Suc_le_eq less_imp_le_nat less_irrefl_nat order_le_less_trans)
    next
      case 3
      have eq: "binary_search_in xs x lo hi = binary_search_in xs x lo mid"
        using 3 True by (subst binary_search_in.simps) (simp add: Let_def flip: mid_def)
      have "i < mid" if "i < hi" "xs ! i = x" for i
        using mono [of mid i] 3 that by (metis leD not_less)
      then show ?thesis using 3 True mid "1.IH"(2) [OF True mid_def] "1.prems"
        unfolding eq by (metis less_irrefl_nat order_less_trans less_imp_le_nat order_trans)
    qed
  qed
qed

lemma binary_search_iff: "sorted xs \<Longrightarrow> binary_search xs x \<longleftrightarrow> x \<in> set xs"
  by (auto simp: binary_search_def binary_search_in_iff in_set_conv_nth)

end
