(* ===== verification/Intervals.thy ===== *)
theory Intervals
  imports Rust_Prelude
begin

text \<open>
  Consecutive non-empty intervals of the reading, the shape every clause list of the
  program has, and the interface \<open>interval_scan\<close> of the validators that walk such a
  list with a cursor. The wire validators of \<open>crates/ipc/src/clause.rs\<close> interpret it.
\<close>

subsection \<open>Tilings\<close>

fun tiles :: "nat \<Rightarrow> (nat \<times> nat) list \<Rightarrow> nat \<Rightarrow> bool" where
  "tiles a [] b \<longleftrightarrow> a = b"
| "tiles a ((s, e) # xs) b \<longleftrightarrow> s = a \<and> a < e \<and> tiles e xs b"

lemma tiles_append: "tiles a (xs @ ys) c \<longleftrightarrow> (\<exists>b. tiles a xs b \<and> tiles b ys c)"
  by (induction a xs c rule: tiles.induct) auto

lemma tiles_le: "tiles a xs b \<Longrightarrow> a \<le> b"
  by (induction a xs b rule: tiles.induct) auto

lemma tiles_less: "tiles a xs b \<Longrightarrow> xs \<noteq> [] \<Longrightarrow> a < b"
  by (induction a xs b rule: tiles.induct) (auto dest: tiles_le)

lemma tiles_functional: "tiles a xs b \<Longrightarrow> tiles a xs b' \<Longrightarrow> b = b'"
  by (induction a xs b rule: tiles.induct) auto

lemma tiles_mem: "tiles a xs b \<Longrightarrow> (s, e) \<in> set xs \<Longrightarrow> a \<le> s \<and> s < e \<and> e \<le> b"
  by (induction a xs b rule: tiles.induct) (auto dest: tiles_le)

lemma tiles_length: "tiles a xs b \<Longrightarrow> a + length xs \<le> b"
proof (induction a xs b rule: tiles.induct)
  case (2 a s e xs b)
  then have "e + length xs \<le> b" "a < e" by auto
  then show ?case by simp
qed simp

lemma tiles_nth:
  assumes "tiles a xs b" and "i < length xs"
  shows "tiles a (take i xs) (fst (xs ! i)) \<and> fst (xs ! i) < snd (xs ! i)
    \<and> tiles (snd (xs ! i)) (drop (Suc i) xs) b"
proof -
  from assms(1) have "tiles a (take i xs @ xs ! i # drop (Suc i) xs) b"
    using id_take_nth_drop [OF assms(2)] by simp
  then show ?thesis by (cases "xs ! i") (auto simp: tiles_append)
qed

lemma tiles_sorted_ends:
  "tiles a xs b \<Longrightarrow> i < j \<Longrightarrow> j < length xs \<Longrightarrow> snd (xs ! i) \<le> fst (xs ! j)"
proof -
  assume t: "tiles a xs b" and ij: "i < j" "j < length xs"
  from tiles_nth [OF t] ij have d: "tiles (snd (xs ! i)) (drop (Suc i) xs) b" by simp
  have "xs ! j \<in> set (drop (Suc i) xs)"
    using ij by (auto simp: in_set_conv_nth intro!: exI [of _ "j - Suc i"])
  with tiles_mem [OF d, of "fst (xs ! j)" "snd (xs ! j)"] show ?thesis by simp
qed

text \<open>Replacing a run of consecutive intervals by another tiling of the same range.\<close>

lemma tiles_splice:
  assumes "tiles a xs b" and "i \<le> j" and "j \<le> length xs"
    and "tiles a (take i xs) c" and "tiles c new d" and "tiles d (drop j xs) b"
  shows "tiles a (splice i j new xs) b"
  using assms by (auto simp: splice_def tiles_append)

lemma tiles_take_drop:
  assumes "tiles a xs b"
  obtains c where "tiles a (take i xs) c" and "tiles c (drop i xs) b"
  using assms tiles_append [of a "take i xs" "drop i xs" b] by auto

text \<open>The slices of a text along a tiling concatenate to the slice_of of the whole range.\<close>

lemma tiles_concat_slices:
  "tiles a xs b \<Longrightarrow> concat (map (\<lambda>(s, e). slice_of s e t) xs) = slice_of a b t"
proof (induction a xs b rule: tiles.induct)
  case (2 a s e xs b)
  then show ?case using tiles_le [of e xs b] slice_append [of a e b t] by auto
qed simp

subsection \<open>The contract of a cursor walk\<close>

text \<open>
  A validator keeps a cursor and some state, refuses an item that does not start at the
  cursor or is empty, updates the state by \<open>step\<close> (\<open>None\<close>: refused) and moves on.
  Which error it reports is its own business; the contract fixes when it accepts.
\<close>

fun steps :: "('s \<Rightarrow> 'a \<Rightarrow> 's option) \<Rightarrow> 's \<Rightarrow> 'a list \<Rightarrow> 's option" where
  "steps f s [] = Some s"
| "steps f s (x # xs) = (case f s x of None \<Rightarrow> None | Some s' \<Rightarrow> steps f s' xs)"

locale interval_scan =
  fixes lo :: "'a \<Rightarrow> nat"
    and hi :: "'a \<Rightarrow> nat"
    and step :: "'s \<Rightarrow> 'a \<Rightarrow> 's option"
    and scan :: "'s \<Rightarrow> nat \<Rightarrow> 'a list \<Rightarrow> 'e + 's \<times> nat"
  assumes scan_Nil: "scan s c [] = Inr (s, c)"
    and scan_Cons: "scan s c (x # xs) = Inr r \<longleftrightarrow>
      lo x = c \<and> c < hi x \<and> (\<exists>s'. step s x = Some s' \<and> scan s' (hi x) xs = Inr r)"
begin

lemma scan_accepts:
  "scan s c xs = Inr (s', d) \<longleftrightarrow>
   tiles c (map (\<lambda>x. (lo x, hi x)) xs) d \<and> steps step s xs = Some s'"
proof (induction xs arbitrary: s c)
  case Nil
  then show ?case by (auto simp: scan_Nil)
next
  case (Cons x xs)
  then show ?case by (auto simp: scan_Cons split: option.split)
qed

end

text \<open>
  The common instance: the state is the set of keys seen and the text so far; an item is
  refused when its key was seen or when it is not \<open>good\<close>.
\<close>

definition keyed_step ::
  "('a \<Rightarrow> 'k) \<Rightarrow> ('a \<Rightarrow> bool) \<Rightarrow> ('a \<Rightarrow> ustring) \<Rightarrow> 'k set \<times> ustring \<Rightarrow> 'a \<Rightarrow> ('k set \<times> ustring) option"
where
  "keyed_step key good surf st x =
     (if key x \<in> fst st \<or> \<not> good x then None
      else Some (insert (key x) (fst st), snd st @ surf x))"

lemma steps_keyed:
  "steps (keyed_step key good surf) (S, t) xs = Some (S', t') \<longleftrightarrow>
   distinct (map key xs) \<and> key ` set xs \<inter> S = {} \<and> (\<forall>x\<in>set xs. good x)
   \<and> S' = S \<union> key ` set xs \<and> t' = t @ concat (map surf xs)"
proof (induction xs arbitrary: S t)
  case (Cons x xs)
  show ?case
  proof (cases "key x \<in> S \<or> \<not> good x")
    case True
    then show ?thesis by (auto simp: keyed_step_def)
  next
    case False
    then have "keyed_step key good surf (S, t) x = Some (insert (key x) S, t @ surf x)"
      by (simp add: keyed_step_def)
    then show ?thesis using False by (auto simp: Cons.IH)
  qed
qed auto

locale keyed_scan = interval_scan lo hi "keyed_step key good surf" scan
  for lo :: "'a \<Rightarrow> nat" and hi :: "'a \<Rightarrow> nat" and key :: "'a \<Rightarrow> 'k" and good :: "'a \<Rightarrow> bool"
    and surf :: "'a \<Rightarrow> ustring"
    and scan :: "'k set \<times> ustring \<Rightarrow> nat \<Rightarrow> 'a list \<Rightarrow> 'e + ('k set \<times> ustring) \<times> nat"
begin

lemma keyed_accepts:
  "scan (S, t) c xs = Inr ((S', t'), d) \<longleftrightarrow>
   tiles c (map (\<lambda>x. (lo x, hi x)) xs) d \<and> distinct (map key xs) \<and> key ` set xs \<inter> S = {}
   \<and> (\<forall>x\<in>set xs. good x) \<and> S' = S \<union> key ` set xs \<and> t' = t @ concat (map surf xs)"
  by (simp add: scan_accepts steps_keyed)

end

end
