(* ===== verification/Clause_Wire.thy ===== *)
theory Clause_Wire
  imports Intervals
begin

text \<open>
  The clause payloads of \<open>crates/ipc/src/clause.rs\<close>: reading coordinates, the records
  that cross the pipe, and the validators both sides run on them. Reading positions are
  scalar offsets; a position is legal unless it would separate a combining (semi-)voiced
  sound mark from the scalar it modifies. The validators are translated with their order of
  checks, so that each reports the error the code reports; what they accept is characterised
  through the cursor contract of theory \<open>Intervals\<close>.
\<close>

section \<open>Data\<close>

type_synonym reading_position = nat
type_synonym clause_id = nat

record snapshot_identity =
  si_composition :: nat
  si_revision :: nat
  si_configuration_generation :: nat
  si_connection_generation :: nat

datatype clause_state = StReading | StConverted

record wire_clause =
  wc_id :: clause_id
  wc_reading_start :: reading_position
  wc_reading_end :: reading_position
  wc_state :: clause_state
  wc_surface :: ustring
  wc_candidate_token :: "ustring option"

record snapshot_clause_data =
  scd_reading :: ustring
  scd_conversion_revision :: nat
  scd_request_id :: nat
  scd_clauses :: "wire_clause list"
  scd_sentence_token :: "ustring option"

record clause_request_key =
  rk_identity :: snapshot_identity
  rk_baseline :: nat
  rk_conversion_revision :: nat
  rk_clause_id :: clause_id
  rk_request_id :: nat

record clause_range =
  cr_id :: clause_id
  cr_reading_start :: reading_position
  cr_reading_end :: reading_position

record preceding_surface =
  ps_clause_id :: clause_id
  ps_reading_start :: reading_position
  ps_reading_end :: reading_position
  ps_surface :: ustring

record clause_candidate =
  ca_surface :: ustring
  ca_token :: ustring
  ca_reading_start :: reading_position
  ca_reading_end :: reading_position

record clause_candidates_request =
  cq_key :: clause_request_key
  cq_reading :: ustring
  cq_reading_start :: reading_position
  cq_reading_end :: reading_position
  cq_preceding_surfaces :: "preceding_surface list"
  cq_include_prefix_candidates :: bool

record convert_clauses_request =
  vq_key :: clause_request_key
  vq_reading :: ustring
  vq_clauses :: "clause_range list"
  vq_preceding_surfaces :: "preceding_surface list"

datatype clause_unavailable_reason =
  InvalidRequest | Expired | Disconnected | NoCandidates | Busy

datatype clause_candidates_status =
  CandPending | CandReady "clause_candidate list" | CandUnavailable clause_unavailable_reason

datatype convert_clauses_status =
  ConvPending | ConvReady "wire_clause list" | ConvUnavailable clause_unavailable_reason

record commit_id =
  cid_client_instance :: ustring
  cid_sequence :: nat

datatype no_learning_reason = NlReading | NlInvalidated | NlNotLearningTarget

datatype interval_learning =
  LearnCandidate (lc_token: ustring) (lc_explicitly_selected: bool)
| LearnNone no_learning_reason

record commit_interval =
  ci_reading_start :: reading_position
  ci_reading_end :: reading_position
  ci_surface :: ustring
  ci_learning :: interval_learning

record commit_receipt =
  rc_commit_id :: commit_id
  rc_engine_epoch :: ustring
  rc_learning_generation :: nat
  rc_reading :: ustring
  rc_text :: ustring
  rc_intervals :: "commit_interval list"
  rc_sentence_token :: "ustring option"

datatype receipt_rejection =
  RejConflict | RejExpired | RejStaleLearningGeneration | RejInvalidToken | RejInvalidIntervals
| RejCapacity

datatype receipt_status = RsApplied | RsAlreadyProcessed | RsRejected receipt_rejection

datatype clause_validation_error = ErrReading | ErrRange | ErrDuplicateId | ErrSurface | ErrToken

type_synonym 'a validation = "clause_validation_error + 'a"

section \<open>Readings and their boundaries\<close>

definition normalize_char :: "uchar \<Rightarrow> uchar" where
  "normalize_char c = (if 0x30a1 \<le> c \<and> c \<le> 0x30f6 then c - 0x60 else c)"

definition normalize_reading :: "ustring \<Rightarrow> ustring" where
  "normalize_reading input = map normalize_char input"

lemma normalize_char_idem [simp]: "normalize_char (normalize_char c) = normalize_char c"
  unfolding normalize_char_def by (simp split: if_split; arith)

lemma normalize_reading_idem: "normalize_reading (normalize_reading s) = normalize_reading s"
  by (simp add: normalize_reading_def)

definition combining_mark :: "uchar \<Rightarrow> bool" where
  "combining_mark c \<longleftrightarrow> c = 0x3099 \<or> c = 0x309a"

text \<open>The loop over \<open>chars().enumerate().skip(1)\<close>, from index \<open>i\<close> on.\<close>

fun interior_boundaries :: "nat \<Rightarrow> ustring \<Rightarrow> nat list" where
  "interior_boundaries i [] = []"
| "interior_boundaries i (c # cs) =
     (if combining_mark c then interior_boundaries (Suc i) cs
      else i # interior_boundaries (Suc i) cs)"

definition legal_boundaries :: "ustring \<Rightarrow> reading_position list validation" where
  "legal_boundaries reading =
     (case u32_try_from (length reading) of
        None \<Rightarrow> Inl ErrRange
      | Some len \<Rightarrow>
          Inr (0 # interior_boundaries 1 (drop 1 reading) @ (if len \<noteq> 0 then [len] else [])))"

definition reading_slice ::
  "ustring \<Rightarrow> reading_position \<Rightarrow> reading_position \<Rightarrow> ustring option" where
  "reading_slice reading start end_pos =
     (if start > end_pos then None
      else if end_pos \<le> length reading then Some (slice_of start end_pos reading) else None)"

definition display_end :: "ustring \<Rightarrow> nat validation" where
  "display_end surface =
     (case u32_try_from (utf16_len surface) of None \<Rightarrow> Inl ErrRange | Some n \<Rightarrow> Inr n)"

text \<open>What the list of legal boundaries stands for.\<close>

definition legal :: "ustring \<Rightarrow> nat \<Rightarrow> bool" where
  "legal reading i \<longleftrightarrow> i \<le> length reading
     \<and> (i = 0 \<or> i = length reading \<or> \<not> combining_mark (reading ! i))"

lemma set_interior:
  "set (interior_boundaries i cs) = {i + k |k. k < length cs \<and> \<not> combining_mark (cs ! k)}"
proof (induction i cs rule: interior_boundaries.induct)
  case (2 i c cs)
  have split: "{i + k |k. k < length (c # cs) \<and> \<not> combining_mark ((c # cs) ! k)} =
     (if combining_mark c then {} else {i}) \<union>
     {Suc i + k |k. k < length cs \<and> \<not> combining_mark (cs ! k)}"
    by (auto simp: nth_Cons gr0_conv_Suc less_Suc_eq_0_disj)
  show ?case
    by (subst split) (use 2 in auto)
qed simp

lemma interior_bounds: "x \<in> set (interior_boundaries i cs) \<Longrightarrow> i \<le> x \<and> x < i + length cs"
  by (auto simp: set_interior)

lemma sorted_interior: "sorted_wrt (<) (interior_boundaries i cs)"
  by (induction i cs rule: interior_boundaries.induct) (auto dest!: interior_bounds)

lemma legal_boundaries_Inr:
  "legal_boundaries reading = Inr bs \<longleftrightarrow>
   length reading \<le> u32_max \<and>
   bs = 0 # interior_boundaries 1 (drop 1 reading) @ (if reading \<noteq> [] then [length reading] else [])"
  by (auto simp: legal_boundaries_def split: option.splits)

lemma set_legal_boundaries:
  assumes "legal_boundaries reading = Inr bs"
  shows "set bs = {i. legal reading i}"
proof (cases reading)
  case Nil
  then show ?thesis using assms by (auto simp: legal_boundaries_Inr legal_def)
next
  case (Cons c cs)
  have inner: "i \<in> set (interior_boundaries 1 cs)
      \<longleftrightarrow> 0 < i \<and> i < length reading \<and> \<not> combining_mark (reading ! i)" for i
  proof (cases i)
    case (Suc k)
    then have "i \<in> set (interior_boundaries 1 cs) \<longleftrightarrow> k < length cs \<and> \<not> combining_mark (cs ! k)"
      unfolding set_interior by simp
    then show ?thesis by (simp add: Suc Cons)
  qed (simp add: set_interior)
  have bs: "bs = 0 # interior_boundaries 1 cs @ [length reading]"
    using assms Cons by (simp add: legal_boundaries_Inr)
  have "i \<in> set bs \<longleftrightarrow> legal reading i" for i
    by (cases "i = 0 \<or> i = length reading") (use inner [of i] in \<open>auto simp: bs legal_def\<close>)
  then show ?thesis by blast
qed

lemma sorted_legal_boundaries:
  assumes "legal_boundaries reading = Inr bs"
  shows "sorted_wrt (<) bs"
  using assms by (cases reading)
    (auto simp: legal_boundaries_Inr sorted_wrt_append sorted_interior dest!: interior_bounds)

lemma legal_boundaries_search:
  assumes "legal_boundaries reading = Inr bs"
  shows "binary_search bs i \<longleftrightarrow> legal reading i"
  using binary_search_iff [OF strict_sorted_imp_sorted [OF sorted_legal_boundaries [OF assms]]]
    set_legal_boundaries [OF assms] by auto

lemma legal_boundaries_member:
  assumes "legal_boundaries reading = Inr bs"
  shows "i \<in> set bs \<longleftrightarrow> legal reading i"
  using set_legal_boundaries [OF assms] by auto

lemma last_legal_boundaries:
  assumes "legal_boundaries reading = Inr bs"
  shows "last bs = length reading"
  using assms by (auto simp: legal_boundaries_Inr)

lemma legal_0 [simp]: "legal reading 0"
  by (simp add: legal_def)

lemma legal_length [simp]: "legal reading (length reading)"
  by (simp add: legal_def)

lemma legal_le: "legal reading i \<Longrightarrow> i \<le> length reading"
  by (simp add: legal_def)

lemma reading_slice_Some:
  "reading_slice reading s e = Some t \<longleftrightarrow> s \<le> e \<and> e \<le> length reading \<and> t = slice_of s e reading"
  by (auto simp: reading_slice_def)

section \<open>The validators\<close>

text \<open>\<open>validate_clauses\<close>: the \<open>match clause.state\<close> of one clause, then the loop.\<close>

definition check_clause_state :: "ustring \<Rightarrow> nat \<Rightarrow> wire_clause \<Rightarrow> unit validation" where
  "check_clause_state reading cursor c =
     (case wc_state c of
        StReading \<Rightarrow>
          (if wc_candidate_token c \<noteq> None then Inl ErrToken
           else if reading_slice reading cursor (wc_reading_end c) \<noteq> Some (wc_surface c)
           then Inl ErrSurface else Inr ())
      | StConverted \<Rightarrow>
          (if (case wc_candidate_token c of None \<Rightarrow> True | Some t \<Rightarrow> t = []) then Inl ErrToken
           else if wc_surface c = [] then Inl ErrSurface else Inr ()))"

fun validate_clauses_loop ::
  "ustring \<Rightarrow> nat list \<Rightarrow> nat \<Rightarrow> clause_id set \<times> ustring \<Rightarrow> nat \<Rightarrow> wire_clause list
   \<Rightarrow> ((clause_id set \<times> ustring) \<times> nat) validation"
where
  "validate_clauses_loop reading bs end_pos st cursor [] = Inr (st, cursor)"
| "validate_clauses_loop reading bs end_pos st cursor (c # cs) =
     (if wc_id c \<in> fst st then Inl ErrDuplicateId
      else if wc_reading_start c \<noteq> cursor \<or> wc_reading_end c \<le> cursor \<or> wc_reading_end c > end_pos
        \<or> \<not> binary_search bs (wc_reading_end c) then Inl ErrRange
      else case check_clause_state reading cursor c of
        Inl e \<Rightarrow> Inl e
      | Inr _ \<Rightarrow> validate_clauses_loop reading bs end_pos
          (insert (wc_id c) (fst st), snd st @ wc_surface c) (wc_reading_end c) cs)"

definition validate_clauses ::
  "ustring \<Rightarrow> wire_clause list \<Rightarrow> reading_position \<Rightarrow> reading_position \<Rightarrow> ustring \<Rightarrow> unit validation"
where
  "validate_clauses reading clauses start end_pos t =
     (if normalize_reading reading \<noteq> reading then Inl ErrReading
      else case legal_boundaries reading of
        Inl e \<Rightarrow> Inl e
      | Inr bs \<Rightarrow>
          (if start > end_pos \<or> \<not> binary_search bs start \<or> \<not> binary_search bs end_pos
           then Inl ErrRange
           else case validate_clauses_loop reading bs end_pos ({}, []) start clauses of
             Inl e \<Rightarrow> Inl e
           | Inr (st, cursor) \<Rightarrow>
               (if cursor \<noteq> end_pos then Inl ErrRange
                else if snd st \<noteq> t then Inl ErrSurface else Inr ())))"

fun validate_preceding_loop ::
  "nat list \<Rightarrow> clause_id set \<times> ustring \<Rightarrow> nat \<Rightarrow> preceding_surface list
   \<Rightarrow> ((clause_id set \<times> ustring) \<times> nat) validation"
where
  "validate_preceding_loop bs st cursor [] = Inr (st, cursor)"
| "validate_preceding_loop bs st cursor (p # ps) =
     (if ps_clause_id p \<in> fst st then Inl ErrDuplicateId
      else if ps_reading_start p \<noteq> cursor \<or> ps_reading_end p \<le> cursor
        \<or> \<not> binary_search bs (ps_reading_end p) then Inl ErrRange
      else if ps_surface p = [] then Inl ErrSurface
      else validate_preceding_loop bs
        (insert (ps_clause_id p) (fst st), snd st @ ps_surface p) (ps_reading_end p) ps)"

definition validate_preceding ::
  "ustring \<Rightarrow> preceding_surface list \<Rightarrow> reading_position \<Rightarrow> unit validation"
where
  "validate_preceding reading preceding target =
     (if normalize_reading reading \<noteq> reading then Inl ErrReading
      else case legal_boundaries reading of
        Inl e \<Rightarrow> Inl e
      | Inr bs \<Rightarrow>
          (case validate_preceding_loop bs ({}, []) 0 preceding of
             Inl e \<Rightarrow> Inl e
           | Inr (_, cursor) \<Rightarrow>
               (if cursor \<noteq> target \<or> \<not> binary_search bs target then Inl ErrRange else Inr ())))"

definition snapshot_from_reading :: "ustring \<Rightarrow> nat \<Rightarrow> nat \<Rightarrow> snapshot_clause_data option" where
  "snapshot_from_reading reading conversion_revision request_id =
     (case (if reading = [] then Some []
            else case u32_try_from (length reading) of
              None \<Rightarrow> None
            | Some n \<Rightarrow> Some [\<lparr>wc_id = 1, wc_reading_start = 0, wc_reading_end = n,
                wc_state = StReading, wc_surface = reading, wc_candidate_token = None\<rparr>]) of
        None \<Rightarrow> None
      | Some clauses \<Rightarrow> Some \<lparr>scd_reading = reading, scd_conversion_revision = conversion_revision,
          scd_request_id = request_id, scd_clauses = clauses, scd_sentence_token = None\<rparr>)"

definition snapshot_validate :: "snapshot_clause_data \<Rightarrow> ustring \<Rightarrow> unit validation" where
  "snapshot_validate d t =
     (case u32_try_from (length (scd_reading d)) of
        None \<Rightarrow> Inl ErrRange
      | Some n \<Rightarrow> validate_clauses (scd_reading d) (scd_clauses d) 0 n t)"

definition candidates_request_validate :: "clause_candidates_request \<Rightarrow> unit validation" where
  "candidates_request_validate q =
     (case validate_preceding (cq_reading q) (cq_preceding_surfaces q) (cq_reading_start q) of
        Inl e \<Rightarrow> Inl e
      | Inr _ \<Rightarrow>
          (if cq_reading_start q \<ge> cq_reading_end q then Inl ErrRange
           else case legal_boundaries (cq_reading q) of
             Inl e \<Rightarrow> Inl e
           | Inr bs \<Rightarrow>
               (if cq_reading_end q \<notin> set bs
                  \<or> (\<exists>p\<in>set (cq_preceding_surfaces q). ps_clause_id p = rk_clause_id (cq_key q))
                then Inl ErrRange else Inr ())))"

fun validate_candidates_loop ::
  "clause_candidates_request \<Rightarrow> nat list \<Rightarrow> clause_candidate list \<Rightarrow> unit validation"
where
  "validate_candidates_loop q bs [] = Inr ()"
| "validate_candidates_loop q bs (c # cs) =
     (if ca_reading_start c \<noteq> cq_reading_start q \<or> ca_reading_end c \<le> cq_reading_start q
        \<or> ca_reading_end c > cq_reading_end q
        \<or> (\<not> cq_include_prefix_candidates q \<and> ca_reading_end c \<noteq> cq_reading_end q)
        \<or> ca_reading_end c \<notin> set bs then Inl ErrRange
      else if ca_surface c = [] then Inl ErrSurface
      else if ca_token c = [] then Inl ErrToken
      else validate_candidates_loop q bs cs)"

definition validate_candidates ::
  "clause_candidates_request \<Rightarrow> clause_candidate list \<Rightarrow> unit validation"
where
  "validate_candidates q candidates =
     (case candidates_request_validate q of
        Inl e \<Rightarrow> Inl e
      | Inr _ \<Rightarrow>
          (if candidates = [] then Inl ErrSurface
           else case legal_boundaries (cq_reading q) of
             Inl e \<Rightarrow> Inl e
           | Inr bs \<Rightarrow> validate_candidates_loop q bs candidates))"

fun convert_ranges_loop ::
  "nat list \<Rightarrow> clause_id set \<times> ustring \<Rightarrow> nat \<Rightarrow> clause_range list
   \<Rightarrow> ((clause_id set \<times> ustring) \<times> nat) validation"
where
  "convert_ranges_loop bs st cursor [] = Inr (st, cursor)"
| "convert_ranges_loop bs st cursor (r # rs) =
     (if cr_id r \<in> fst st then Inl ErrDuplicateId
      else if cr_reading_start r \<noteq> cursor \<or> cr_reading_end r \<le> cursor
        \<or> cr_reading_end r \<notin> set bs then Inl ErrRange
      else convert_ranges_loop bs (insert (cr_id r) (fst st), snd st) (cr_reading_end r) rs)"

definition convert_request_validate :: "convert_clauses_request \<Rightarrow> unit validation" where
  "convert_request_validate q =
     (case vq_clauses q of
        [] \<Rightarrow> Inl ErrRange
      | first # _ \<Rightarrow>
          (case validate_preceding (vq_reading q) (vq_preceding_surfaces q) (cr_reading_start first) of
             Inl e \<Rightarrow> Inl e
           | Inr _ \<Rightarrow>
               (if cr_id first \<noteq> rk_clause_id (vq_key q) then Inl ErrRange
                else case legal_boundaries (vq_reading q) of
                  Inl e \<Rightarrow> Inl e
                | Inr bs \<Rightarrow>
                    (case convert_ranges_loop bs
                        (ps_clause_id ` set (vq_preceding_surfaces q), []) (cr_reading_start first)
                        (vq_clauses q) of
                       Inl e \<Rightarrow> Inl e
                     | Inr _ \<Rightarrow> Inr ()))))"

definition range_matches :: "clause_range \<Rightarrow> wire_clause \<Rightarrow> bool" where
  "range_matches r c \<longleftrightarrow> cr_id r = wc_id c \<and> cr_reading_start r = wc_reading_start c
     \<and> cr_reading_end r = wc_reading_end c"

definition convert_validate_result ::
  "convert_clauses_request \<Rightarrow> wire_clause list \<Rightarrow> unit validation"
where
  "convert_validate_result q clauses =
     (case convert_request_validate q of
        Inl e \<Rightarrow> Inl e
      | Inr _ \<Rightarrow>
          (if length (vq_clauses q) \<noteq> length clauses
             \<or> \<not> (\<forall>(r, c) \<in> set (zip (vq_clauses q) clauses). range_matches r c)
           then Inl ErrRange
           else validate_clauses (vq_reading q) clauses
             (cr_reading_start (vq_clauses q ! 0)) (cr_reading_end (last (vq_clauses q)))
             (concat (map wc_surface clauses))))"

text \<open>\<open>CommitReceipt::validate\<close>; the token oracle is the caller's.\<close>

definition check_interval ::
  "(ustring \<Rightarrow> commit_interval \<Rightarrow> bool) \<Rightarrow> ustring \<Rightarrow> nat \<Rightarrow> commit_interval \<Rightarrow> unit validation"
where
  "check_interval token_matches reading cursor i =
     (if ci_surface i = [] then Inl ErrSurface
      else case ci_learning i of
        LearnCandidate token _ \<Rightarrow>
          (if token = [] \<or> \<not> token_matches token i then Inl ErrToken else Inr ())
      | LearnNone NlReading \<Rightarrow>
          (if reading_slice reading cursor (ci_reading_end i) \<noteq> Some (ci_surface i)
           then Inl ErrSurface else Inr ())
      | LearnNone _ \<Rightarrow> Inr ())"

fun receipt_loop ::
  "(ustring \<Rightarrow> commit_interval \<Rightarrow> bool) \<Rightarrow> ustring \<Rightarrow> nat list \<Rightarrow> ustring \<Rightarrow> nat
   \<Rightarrow> commit_interval list \<Rightarrow> (ustring \<times> nat) validation"
where
  "receipt_loop tm reading bs surface cursor [] = Inr (surface, cursor)"
| "receipt_loop tm reading bs surface cursor (i # is) =
     (if ci_reading_start i \<noteq> cursor \<or> ci_reading_end i \<le> cursor \<or> ci_reading_end i \<notin> set bs
      then Inl ErrRange
      else case check_interval tm reading cursor i of
        Inl e \<Rightarrow> Inl e
      | Inr _ \<Rightarrow> receipt_loop tm reading bs (surface @ ci_surface i) (ci_reading_end i) is)"

definition receipt_validate ::
  "(ustring \<Rightarrow> commit_interval \<Rightarrow> bool) \<Rightarrow> commit_receipt \<Rightarrow> unit validation"
where
  "receipt_validate token_matches r =
     (if normalize_reading (rc_reading r) \<noteq> rc_reading r then Inl ErrReading
      else case legal_boundaries (rc_reading r) of
        Inl e \<Rightarrow> Inl e
      | Inr bs \<Rightarrow>
          (case receipt_loop token_matches (rc_reading r) bs [] 0 (rc_intervals r) of
             Inl e \<Rightarrow> Inl e
           | Inr (surface, cursor) \<Rightarrow>
               (if cursor \<noteq> last bs then Inl ErrRange
                else if surface \<noteq> rc_text r then Inl ErrSurface else Inr ())))"

section \<open>What the validators accept\<close>

text \<open>The condition each clause of a snapshot satisfies on its own.\<close>

definition clause_ok :: "ustring \<Rightarrow> (nat \<Rightarrow> bool) \<Rightarrow> nat \<Rightarrow> wire_clause \<Rightarrow> bool" where
  "clause_ok reading boundary end_pos c \<longleftrightarrow>
     wc_reading_end c \<le> end_pos \<and> boundary (wc_reading_end c) \<and>
     (case wc_state c of
        StReading \<Rightarrow> wc_candidate_token c = None
          \<and> reading_slice reading (wc_reading_start c) (wc_reading_end c) = Some (wc_surface c)
      | StConverted \<Rightarrow> wc_surface c \<noteq> []
          \<and> (\<exists>t. wc_candidate_token c = Some t \<and> t \<noteq> []))"

definition preceding_ok :: "(nat \<Rightarrow> bool) \<Rightarrow> preceding_surface \<Rightarrow> bool" where
  "preceding_ok boundary p \<longleftrightarrow> boundary (ps_reading_end p) \<and> ps_surface p \<noteq> []"

definition interval_ok ::
  "(ustring \<Rightarrow> commit_interval \<Rightarrow> bool) \<Rightarrow> ustring \<Rightarrow> (nat \<Rightarrow> bool) \<Rightarrow> commit_interval \<Rightarrow> bool"
where
  "interval_ok token_matches reading boundary i \<longleftrightarrow>
     boundary (ci_reading_end i) \<and> ci_surface i \<noteq> [] \<and>
     (case ci_learning i of
        LearnCandidate token _ \<Rightarrow> token \<noteq> [] \<and> token_matches token i
      | LearnNone reason \<Rightarrow> reason = NlReading \<longrightarrow>
          reading_slice reading (ci_reading_start i) (ci_reading_end i) = Some (ci_surface i))"

definition receipt_step ::
  "(ustring \<Rightarrow> commit_interval \<Rightarrow> bool) \<Rightarrow> ustring \<Rightarrow> nat list \<Rightarrow> ustring \<Rightarrow> commit_interval
   \<Rightarrow> ustring option" where
  "receipt_step tm reading bs surface i =
     (if interval_ok tm reading (\<lambda>x. x \<in> set bs) i then Some (surface @ ci_surface i) else None)"

lemma check_clause_state_Inr:
  "check_clause_state reading (wc_reading_start c) c = Inr () \<and> wc_reading_end c \<le> end_pos
     \<and> boundary (wc_reading_end c) \<longleftrightarrow> clause_ok reading boundary end_pos c"
  by (auto simp: check_clause_state_def clause_ok_def split: clause_state.splits option.splits)

lemma check_interval_Inr:
  "check_interval tm reading (ci_reading_start i) i = Inr () \<and> boundary (ci_reading_end i)
     \<longleftrightarrow> interval_ok tm reading boundary i"
  by (cases "ci_learning i")
    (auto simp: check_interval_def interval_ok_def split: no_learning_reason.splits)

interpretation wire: keyed_scan wc_reading_start wc_reading_end wc_id
    "clause_ok reading (binary_search bs) end_pos" wc_surface
    "validate_clauses_loop reading bs end_pos"
  for reading bs end_pos
proof unfold_locales
  fix st :: "clause_id set \<times> ustring" and c x xs r
  show "validate_clauses_loop reading bs end_pos st c (x # xs) = Inr r \<longleftrightarrow>
      wc_reading_start x = c \<and> c < wc_reading_end x \<and>
      (\<exists>s'. keyed_step wc_id (clause_ok reading (binary_search bs) end_pos) wc_surface st x = Some s'
        \<and> validate_clauses_loop reading bs end_pos s' (wc_reading_end x) xs = Inr r)"
    using check_clause_state_Inr [of reading x end_pos "binary_search bs"]
    by (cases "check_clause_state reading c x") (auto simp: keyed_step_def)
qed simp

interpretation preceding: keyed_scan ps_reading_start ps_reading_end ps_clause_id
    "preceding_ok (binary_search bs)" ps_surface "validate_preceding_loop bs"
  for bs
  by unfold_locales (auto simp: keyed_step_def preceding_ok_def)

interpretation ranges: keyed_scan cr_reading_start cr_reading_end cr_id
    "\<lambda>r. cr_reading_end r \<in> set bs" "\<lambda>_. []" "convert_ranges_loop bs"
  for bs
  by unfold_locales (auto simp: keyed_step_def)

interpretation receipt: interval_scan ci_reading_start ci_reading_end
    "receipt_step tm reading bs" "receipt_loop tm reading bs"
  for tm reading bs
proof unfold_locales
  fix st :: ustring and c x xs r
  show "receipt_loop tm reading bs st c (x # xs) = Inr r \<longleftrightarrow>
      ci_reading_start x = c \<and> c < ci_reading_end x \<and>
      (\<exists>s'. receipt_step tm reading bs st x = Some s'
        \<and> receipt_loop tm reading bs s' (ci_reading_end x) xs = Inr r)"
    using check_interval_Inr [of tm reading x "\<lambda>i. i \<in> set bs"]
    by (cases "check_interval tm reading c x") (auto simp: receipt_step_def)
qed simp

lemma steps_receipt:
  "steps (receipt_step tm reading bs) t xs = Some t' \<longleftrightarrow>
   (\<forall>x\<in>set xs. interval_ok tm reading (\<lambda>i. i \<in> set bs) x) \<and> t' = t @ concat (map ci_surface xs)"
  by (induction xs arbitrary: t) (auto simp: receipt_step_def)

definition wire_ranges :: "wire_clause list \<Rightarrow> (nat \<times> nat) list" where
  "wire_ranges cs = map (\<lambda>c. (wc_reading_start c, wc_reading_end c)) cs"

definition receipt_ranges :: "commit_interval list \<Rightarrow> (nat \<times> nat) list" where
  "receipt_ranges is = map (\<lambda>i. (ci_reading_start i, ci_reading_end i)) is"

lemma sum_case_Inr:
  "(case r of Inl e \<Rightarrow> Inl e | Inr x \<Rightarrow> f x) = Inr y \<longleftrightarrow> (\<exists>x. r = Inr x \<and> f x = Inr y)"
  by (cases r) auto

lemma legal_boundaries_total:
  "length reading \<le> u32_max \<Longrightarrow> \<exists>bs. legal_boundaries reading = Inr bs"
  by (simp add: legal_boundaries_Inr)

lemma boundaries_cong:
  assumes "legal_boundaries reading = Inr bs"
  shows "binary_search bs = legal reading"
    and "(\<lambda>i. i \<in> set bs) = legal reading"
  using legal_boundaries_search [OF assms] legal_boundaries_member [OF assms] by auto

lemma legal_boundaries_too_long:
  "\<not> length reading \<le> u32_max \<Longrightarrow> legal_boundaries reading = Inl ErrRange"
  by (simp add: legal_boundaries_def u32_try_from_def)

lemma validate_clauses_Inr:
  "validate_clauses reading clauses start end_pos t = Inr () \<longleftrightarrow>
     normalize_reading reading = reading \<and> length reading \<le> u32_max \<and>
     start \<le> end_pos \<and> legal reading start \<and> legal reading end_pos \<and>
     tiles start (wire_ranges clauses) end_pos \<and> distinct (map wc_id clauses) \<and>
     (\<forall>c\<in>set clauses. clause_ok reading (legal reading) end_pos c) \<and>
     concat (map wc_surface clauses) = t"
proof (cases "length reading \<le> u32_max")
  case True
  then obtain bs where bs: "legal_boundaries reading = Inr bs"
    using legal_boundaries_total by blast
  have loop: "validate_clauses_loop reading bs end_pos ({}, []) start clauses = Inr ((S, u), d) \<longleftrightarrow>
      tiles start (wire_ranges clauses) d \<and> distinct (map wc_id clauses)
      \<and> (\<forall>c\<in>set clauses. clause_ok reading (legal reading) end_pos c)
      \<and> S = wc_id ` set clauses \<and> u = concat (map wc_surface clauses)" for S u d
    unfolding wire_ranges_def wire.keyed_accepts boundaries_cong [OF bs] by auto
  show ?thesis
    using True loop
    by (auto simp: validate_clauses_def bs boundaries_cong [OF bs] sum_case_Inr
        split: if_splits prod.splits)
qed (simp add: validate_clauses_def legal_boundaries_too_long)

text \<open>C19: a clause list is accepted exactly when the reading is normalised, the range ends are
  legal, the clauses tile the range in order with distinct identifiers and legal ends, every
  reading clause shows its own part of the reading and carries no token, every converted clause has
  a non-empty surface and token, and the surfaces spell the text.\<close>

theorem validate_clauses_accepts:
  "validate_clauses reading clauses start end_pos t = Inr () \<longleftrightarrow>
     normalize_reading reading = reading \<and> length reading \<le> u32_max \<and>
     start \<le> end_pos \<and> legal reading start \<and> legal reading end_pos \<and>
     tiles start (wire_ranges clauses) end_pos \<and> distinct (map wc_id clauses) \<and>
     (\<forall>c\<in>set clauses. clause_ok reading (legal reading) end_pos c) \<and>
     concat (map wc_surface clauses) = t"
  by (rule validate_clauses_Inr)

theorem validate_preceding_accepts:
  "validate_preceding reading ps target = Inr () \<longleftrightarrow>
     normalize_reading reading = reading \<and> length reading \<le> u32_max \<and> legal reading target \<and>
     tiles 0 (map (\<lambda>p. (ps_reading_start p, ps_reading_end p)) ps) target \<and>
     distinct (map ps_clause_id ps) \<and> (\<forall>p\<in>set ps. preceding_ok (legal reading) p)"
proof (cases "length reading \<le> u32_max")
  case True
  then obtain bs where bs: "legal_boundaries reading = Inr bs"
    using legal_boundaries_total by blast
  have loop: "validate_preceding_loop bs ({}, []) 0 ps = Inr ((S, u), d) \<longleftrightarrow>
      tiles 0 (map (\<lambda>p. (ps_reading_start p, ps_reading_end p)) ps) d \<and> distinct (map ps_clause_id ps)
      \<and> (\<forall>p\<in>set ps. preceding_ok (legal reading) p)
      \<and> S = ps_clause_id ` set ps \<and> u = concat (map ps_surface ps)" for S u d
    unfolding preceding.keyed_accepts boundaries_cong [OF bs] by auto
  show ?thesis
    using True loop
    by (auto simp: validate_preceding_def bs boundaries_cong [OF bs] sum_case_Inr
        split: if_splits prod.splits)
qed (simp add: validate_preceding_def legal_boundaries_too_long)

lemma receipt_validate_Inr:
  "receipt_validate token_matches r = Inr () \<longleftrightarrow>
     normalize_reading (rc_reading r) = rc_reading r \<and> length (rc_reading r) \<le> u32_max \<and>
     tiles 0 (receipt_ranges (rc_intervals r)) (length (rc_reading r)) \<and>
     (\<forall>i\<in>set (rc_intervals r). interval_ok token_matches (rc_reading r) (legal (rc_reading r)) i) \<and>
     concat (map ci_surface (rc_intervals r)) = rc_text r"
proof (cases "length (rc_reading r) \<le> u32_max")
  case True
  then obtain bs where bs: "legal_boundaries (rc_reading r) = Inr bs"
    using legal_boundaries_total by blast
  have loop: "receipt_loop token_matches (rc_reading r) bs [] 0 (rc_intervals r) = Inr (u, d) \<longleftrightarrow>
      tiles 0 (receipt_ranges (rc_intervals r)) d
      \<and> (\<forall>i\<in>set (rc_intervals r). interval_ok token_matches (rc_reading r) (legal (rc_reading r)) i)
      \<and> u = concat (map ci_surface (rc_intervals r))" for u d
    unfolding receipt_ranges_def receipt.scan_accepts steps_receipt boundaries_cong [OF bs] by auto
  show ?thesis
    using True loop
    by (auto simp: receipt_validate_def bs last_legal_boundaries [OF bs] sum_case_Inr
        split: if_splits prod.splits)
qed (simp add: receipt_validate_def legal_boundaries_too_long)

text \<open>A receipt is accepted exactly when its intervals tile the whole normalised reading at legal
  boundaries, no surface is empty, every learned interval has a token the engine recognises, every
  interval marked as reading shows the reading, and the surfaces spell the committed text.\<close>

theorem receipt_validate_accepts:
  "receipt_validate token_matches r = Inr () \<longleftrightarrow>
     normalize_reading (rc_reading r) = rc_reading r \<and> length (rc_reading r) \<le> u32_max \<and>
     tiles 0 (receipt_ranges (rc_intervals r)) (length (rc_reading r)) \<and>
     (\<forall>i\<in>set (rc_intervals r). interval_ok token_matches (rc_reading r) (legal (rc_reading r)) i) \<and>
     concat (map ci_surface (rc_intervals r)) = rc_text r"
  by (rule receipt_validate_Inr)

theorem validate_clauses_accepts_witness:
  "validate_clauses [0x304b, 0x3099, 0x304d]
     [\<lparr>wc_id = 1, wc_reading_start = 0, wc_reading_end = 2, wc_state = StReading,
        wc_surface = [0x304b, 0x3099], wc_candidate_token = None\<rparr>,
      \<lparr>wc_id = 2, wc_reading_start = 2, wc_reading_end = 3, wc_state = StConverted,
        wc_surface = [0x6728], wc_candidate_token = Some [0x74]\<rparr>]
     0 3 [0x304b, 0x3099, 0x6728] = Inr ()"
  unfolding validate_clauses_accepts
  by (simp add: normalize_reading_def normalize_char_def wire_ranges_def clause_ok_def legal_def
      combining_mark_def reading_slice_def slice_of_def)

theorem receipt_validate_accepts_witness:
  "receipt_validate (\<lambda>t i. t = [0x74])
     \<lparr>rc_commit_id = \<lparr>cid_client_instance = [0x69], cid_sequence = 1\<rparr>, rc_engine_epoch = [0x65],
      rc_learning_generation = 0, rc_reading = [0x304b, 0x304d], rc_text = [0x304b, 0x6728],
      rc_intervals =
       [\<lparr>ci_reading_start = 0, ci_reading_end = 1, ci_surface = [0x304b],
          ci_learning = LearnNone NlReading\<rparr>,
        \<lparr>ci_reading_start = 1, ci_reading_end = 2, ci_surface = [0x6728],
          ci_learning = LearnCandidate [0x74] True\<rparr>],
      rc_sentence_token = None\<rparr> = Inr ()"
  unfolding receipt_validate_accepts
  by (simp add: normalize_reading_def normalize_char_def receipt_ranges_def interval_ok_def legal_def
      combining_mark_def reading_slice_def slice_of_def)

section \<open>Consequences\<close>

lemma normalized_length_bound:
  "validate_clauses reading cs s e t = Inr () \<Longrightarrow> length reading \<le> u32_max"
  by (simp add: validate_clauses_Inr)

text \<open>The fallback snapshot that shows the reading itself always validates: for a normalised reading
  that fits the wire size, \<open>from_reading\<close> succeeds and its clause data is accepted for the
  reading as text.\<close>

theorem snapshot_from_reading_valid:
  assumes "normalize_reading reading = reading" and "length reading \<le> u32_max"
  shows "\<exists>d. snapshot_from_reading reading revision req = Some d \<and> snapshot_validate d reading = Inr ()"
proof (cases "reading = []")
  case True
  then show ?thesis
    by (simp add: snapshot_from_reading_def snapshot_validate_def validate_clauses_Inr
        wire_ranges_def normalize_reading_def u32_try_from_def)
next
  case False
  then show ?thesis using assms
    by (simp add: snapshot_from_reading_def snapshot_validate_def validate_clauses_Inr
        wire_ranges_def clause_ok_def reading_slice_def u32_try_from_def)
qed

theorem snapshot_from_reading_valid_witness:
  "\<exists>d. snapshot_from_reading [0x3042, 0x3044] 7 9 = Some d
     \<and> snapshot_validate d [0x3042, 0x3044] = Inr ()"
  by (rule snapshot_from_reading_valid) (simp_all add: normalize_reading_def normalize_char_def)

lemma convert_ranges_ids:
  "convert_request_validate q = Inr () \<Longrightarrow>
   vq_clauses q \<noteq> [] \<and> distinct (map cr_id (vq_clauses q)) \<and>
   cr_id (hd (vq_clauses q)) = rk_clause_id (vq_key q)"
  using ranges.keyed_accepts
  by (auto simp: convert_request_validate_def sum_case_Inr split: list.splits if_splits)

lemma convert_request_tiles:
  assumes "convert_request_validate q = Inr ()"
  shows "\<exists>d. tiles (cr_reading_start (hd (vq_clauses q)))
      (map (\<lambda>r. (cr_reading_start r, cr_reading_end r)) (vq_clauses q)) d
    \<and> (\<forall>r\<in>set (vq_clauses q). legal (vq_reading q) (cr_reading_end r))"
proof -
  from assms obtain first rest where v: "vq_clauses q = first # rest"
    by (auto simp: convert_request_validate_def split: list.splits)
  from assms v obtain bs res where bs: "legal_boundaries (vq_reading q) = Inr bs"
    and loop: "convert_ranges_loop bs (ps_clause_id ` set (vq_preceding_surfaces q), [])
        (cr_reading_start first) (vq_clauses q) = Inr res"
    by (auto simp: convert_request_validate_def sum_case_Inr split: if_splits)
  obtain S t d where res: "res = ((S, t), d)" by (cases res) auto
  from loop [unfolded res, THEN ranges.keyed_accepts [THEN iffD1]]
  show ?thesis using v legal_boundaries_member [OF bs] by auto
qed

lemma convert_result_ranges:
  assumes "convert_validate_result q clauses = Inr ()"
  shows "map (\<lambda>c. (wc_id c, wc_reading_start c, wc_reading_end c)) clauses
       = map (\<lambda>r. (cr_id r, cr_reading_start r, cr_reading_end r)) (vq_clauses q)
    \<and> tiles (cr_reading_start (hd (vq_clauses q))) (wire_ranges clauses)
        (cr_reading_end (last (vq_clauses q)))
    \<and> distinct (map wc_id clauses)"
proof -
  have req: "convert_request_validate q = Inr ()"
    and len: "length (vq_clauses q) = length clauses"
    and rm: "\<forall>(r, c) \<in> set (zip (vq_clauses q) clauses). range_matches r c"
    and v: "validate_clauses (vq_reading q) clauses (cr_reading_start (vq_clauses q ! 0))
      (cr_reading_end (last (vq_clauses q))) (concat (map wc_surface clauses)) = Inr ()"
    using assms by (auto simp: convert_validate_result_def sum_case_Inr split: if_splits)
  have ne: "vq_clauses q \<noteq> []" using convert_ranges_ids [OF req] by simp
  have "map (\<lambda>c. (wc_id c, wc_reading_start c, wc_reading_end c)) clauses
      = map (\<lambda>r. (cr_id r, cr_reading_start r, cr_reading_end r)) (vq_clauses q)"
  proof (rule nth_equalityI)
    fix i assume "i < length (map (\<lambda>c. (wc_id c, wc_reading_start c, wc_reading_end c)) clauses)"
    then have i: "i < length clauses" by simp
    then have "(vq_clauses q ! i, clauses ! i) \<in> set (zip (vq_clauses q) clauses)"
      using len by (simp add: in_set_zip) (metis fst_conv snd_conv)
    with rm have "range_matches (vq_clauses q ! i) (clauses ! i)" by blast
    with i len show "map (\<lambda>c. (wc_id c, wc_reading_start c, wc_reading_end c)) clauses ! i
        = map (\<lambda>r. (cr_id r, cr_reading_start r, cr_reading_end r)) (vq_clauses q) ! i"
      by (simp add: range_matches_def)
  qed (simp add: len)
  then show ?thesis using v ne by (simp add: validate_clauses_Inr hd_conv_nth)
qed

text \<open>An accepted conversion result covers exactly the requested intervals: same identifiers and
  bounds in the same order, contiguous from the first requested start, every surface non-empty or the
  reading itself.\<close>

theorem convert_result_matches_request:
  assumes "convert_validate_result q clauses = Inr ()"
  shows "map (\<lambda>c. (wc_id c, wc_reading_start c, wc_reading_end c)) clauses
       = map (\<lambda>r. (cr_id r, cr_reading_start r, cr_reading_end r)) (vq_clauses q)
    \<and> tiles (cr_reading_start (hd (vq_clauses q))) (wire_ranges clauses)
        (cr_reading_end (last (vq_clauses q)))
    \<and> distinct (map wc_id clauses)"
  using assms by (rule convert_result_ranges)

theorem convert_result_matches_request_witness:
  "\<exists>q clauses. convert_validate_result q clauses = Inr () \<and> clauses \<noteq> []
     \<and> map (\<lambda>c. (wc_id c, wc_reading_start c, wc_reading_end c)) clauses
       = map (\<lambda>r. (cr_id r, cr_reading_start r, cr_reading_end r)) (vq_clauses q)"
proof -
  let ?q = "\<lparr>vq_key = \<lparr>rk_identity = \<lparr>si_composition = 1, si_revision = 1,
        si_configuration_generation = 0, si_connection_generation = 0\<rparr>, rk_baseline = 1,
        rk_conversion_revision = 1, rk_clause_id = 4, rk_request_id = 2\<rparr>,
      vq_reading = [0x304b, 0x304d],
      vq_clauses = [\<lparr>cr_id = 4, cr_reading_start = 1, cr_reading_end = 2\<rparr>],
      vq_preceding_surfaces = [\<lparr>ps_clause_id = 3, ps_reading_start = 0, ps_reading_end = 1,
        ps_surface = [0x6728]\<rparr>]\<rparr>"
  let ?c = "[\<lparr>wc_id = 4, wc_reading_start = 1, wc_reading_end = 2, wc_state = StConverted,
      wc_surface = [0x6728], wc_candidate_token = Some [0x74]\<rparr>]"
  have pv: "validate_preceding (vq_reading ?q) (vq_preceding_surfaces ?q) 1 = Inr ()"
    by (simp add: validate_preceding_accepts preceding_ok_def normalize_reading_def
        normalize_char_def legal_def combining_mark_def)
  have rv: "convert_request_validate ?q = Inr ()"
    using pv by (simp add: convert_request_validate_def legal_boundaries_def u32_try_from_def)
  have cv: "validate_clauses (vq_reading ?q) ?c 1 2 [0x6728] = Inr ()"
    by (simp add: validate_clauses_Inr clause_ok_def normalize_reading_def
        normalize_char_def wire_ranges_def legal_def combining_mark_def)
  have v: "convert_validate_result ?q ?c = Inr ()"
    using cv rv by (simp add: convert_validate_result_def range_matches_def)
  show ?thesis
    using v convert_result_matches_request [OF v] by blast
qed

lemma validate_candidates_loop_Inr:
  "validate_candidates_loop q bs cs = Inr () \<longleftrightarrow>
   (\<forall>c\<in>set cs. ca_reading_start c = cq_reading_start q \<and> cq_reading_start q < ca_reading_end c
     \<and> ca_reading_end c \<le> cq_reading_end q
     \<and> (cq_include_prefix_candidates q \<or> ca_reading_end c = cq_reading_end q)
     \<and> ca_reading_end c \<in> set bs \<and> ca_surface c \<noteq> [] \<and> ca_token c \<noteq> [])"
  by (induction cs) auto

lemma validate_candidates_Inr:
  assumes "validate_candidates q cs = Inr ()"
  shows "cs \<noteq> [] \<and> candidates_request_validate q = Inr () \<and>
   (\<forall>c\<in>set cs. ca_reading_start c = cq_reading_start q \<and> cq_reading_start q < ca_reading_end c
     \<and> ca_reading_end c \<le> cq_reading_end q \<and> legal (cq_reading q) (ca_reading_end c)
     \<and> ca_surface c \<noteq> [] \<and> ca_token c \<noteq> [])"
  using assms
  by (auto simp: validate_candidates_def sum_case_Inr validate_candidates_loop_Inr
      legal_boundaries_member split: if_splits)

end
