(* ===== verification/Input_Journal.thy ===== *)
theory Input_Journal
  imports Clause_Wire
begin

text \<open>
  The input journal of \<open>crates/tip/src/input_journal.rs\<close>: which keys produced which part
  of the reading. A unit is an interval of the reading with the keys typed for it; the
  journal can give the original input of a range only when whole units cover it exactly.
  \<open>partition_point\<close> is the length of the leading run on which the predicate holds, which
  is what the standard library returns on a partitioned slice; \<open>journal_wf\<close> keeps every
  slice the code asks about partitioned.
\<close>

record input_unit =
  iu_start :: reading_position
  iu_end :: reading_position
  iu_original :: ustring

type_synonym input_journal = "input_unit list"

definition partition_point :: "('a \<Rightarrow> bool) \<Rightarrow> 'a list \<Rightarrow> nat" where
  "partition_point p xs = length (takeWhile p xs)"

definition journal_clear :: "input_journal \<Rightarrow> input_journal" where
  "journal_clear j = []"

fun replace_single_unit_original ::
  "input_journal \<Rightarrow> reading_position \<Rightarrow> uchar \<Rightarrow> input_journal"
where
  "replace_single_unit_original [] end_pos original = []"
| "replace_single_unit_original (u # us) end_pos original =
     (if iu_end u = end_pos \<and> iu_end u - iu_start u = 1 then u\<lparr>iu_original := [original]\<rparr> # us
      else u # replace_single_unit_original us end_pos original)"

definition journal_retain_prefix :: "input_journal \<Rightarrow> reading_position \<Rightarrow> input_journal" where
  "journal_retain_prefix j end_pos = take (partition_point (\<lambda>u. iu_end u \<le> end_pos) j) j"

definition journal_append ::
  "input_journal \<Rightarrow> reading_position \<Rightarrow> reading_position \<Rightarrow> ustring \<Rightarrow> input_journal"
where
  "journal_append j start end_pos original =
     (if start \<ge> end_pos \<or> original = [] then j
      else journal_retain_prefix j start
        @ [\<lparr>iu_start = start, iu_end = end_pos, iu_original = original\<rparr>])"

text \<open>\<open>original\<close>: the loop body over the units after the skipped ones.\<close>

fun original_loop ::
  "reading_position \<Rightarrow> reading_position \<Rightarrow> ustring \<Rightarrow> input_unit list \<Rightarrow> ustring option"
where
  "original_loop end_pos nxt acc [] = None"
| "original_loop end_pos nxt acc (u # us) =
     (if iu_start u \<noteq> nxt \<or> iu_end u > end_pos then None
      else if iu_end u = end_pos then Some (acc @ iu_original u)
      else original_loop end_pos (iu_end u) (acc @ iu_original u) us)"

definition journal_original ::
  "input_journal \<Rightarrow> reading_position \<Rightarrow> reading_position \<Rightarrow> ustring option"
where
  "journal_original j start end_pos =
     (if start \<ge> end_pos then None
      else original_loop end_pos start [] (dropWhile (\<lambda>u. iu_end u \<le> start) j))"

definition journal_remove_prefix :: "input_journal \<Rightarrow> nat \<Rightarrow> input_journal" where
  "journal_remove_prefix j count =
     map (\<lambda>u. u\<lparr>iu_start := iu_start u - count, iu_end := iu_end u - count\<rparr>)
       (filter (\<lambda>u. iu_start u \<ge> count) j)"

text \<open>\<open>detach_suffix\<close> returns the journal left behind and the detached suffix.\<close>

definition journal_detach_suffix ::
  "input_journal \<Rightarrow> reading_position \<Rightarrow> input_journal \<times> input_journal"
where
  "journal_detach_suffix j start =
     (let index = partition_point (\<lambda>u. iu_start u < start) j in
      (journal_retain_prefix (take index j) start, journal_remove_prefix (drop index j) start))"

definition journal_append_suffix ::
  "input_journal \<Rightarrow> input_journal \<Rightarrow> reading_position \<Rightarrow> input_journal \<times> bool"
where
  "journal_append_suffix j suffix start =
     (if suffix \<noteq> [] \<and> checked_add_u32 (iu_end (last suffix)) start = None then (j, False)
      else (j @ map (\<lambda>u. u\<lparr>iu_start := iu_start u + start, iu_end := iu_end u + start\<rparr>) suffix, True))"

section \<open>Well-formed journals\<close>

text \<open>Units are non-empty, in order, do not overlap, and stay within a limit; gaps are allowed.\<close>

fun journal_wf :: "nat \<Rightarrow> input_journal \<Rightarrow> nat \<Rightarrow> bool" where
  "journal_wf a [] b \<longleftrightarrow> a \<le> b"
| "journal_wf a (u # us) b \<longleftrightarrow> a \<le> iu_start u \<and> iu_start u < iu_end u
     \<and> iu_original u \<noteq> [] \<and> journal_wf (iu_end u) us b"

lemma journal_wf_le: "journal_wf a j b \<Longrightarrow> a \<le> b"
  by (induction a j b rule: journal_wf.induct) auto

lemma journal_wf_mono: "journal_wf a j b \<Longrightarrow> a' \<le> a \<Longrightarrow> b \<le> b' \<Longrightarrow> journal_wf a' j b'"
  by (induction a j b arbitrary: a' rule: journal_wf.induct) auto

lemma journal_wf_append:
  "journal_wf a (xs @ ys) c \<longleftrightarrow> (\<exists>b. journal_wf a xs b \<and> journal_wf b ys c)"
proof (induction xs arbitrary: a)
  case Nil
  show ?case by (auto intro: journal_wf_mono dest: journal_wf_le)
next
  case (Cons u us)
  then show ?case by auto
qed

lemma journal_wf_mem:
  "journal_wf a j b \<Longrightarrow> u \<in> set j \<Longrightarrow> a \<le> iu_start u \<and> iu_start u < iu_end u \<and> iu_end u \<le> b"
  by (induction a j b rule: journal_wf.induct) (auto dest: journal_wf_le)

lemma journal_wf_drop: "journal_wf a j b \<Longrightarrow> journal_wf a (drop n j) b"
proof (induction n arbitrary: a j)
  case (Suc n)
  show ?case
  proof (cases j)
    case (Cons u us)
    with Suc.prems have "journal_wf (iu_end u) us b" and "a \<le> iu_end u" by auto
    from Suc.IH [OF this(1)] this(2) show ?thesis
      unfolding Cons by (auto intro: journal_wf_mono)
  qed (use Suc.prems in simp)
qed simp

lemma retain_prefix_takeWhile: "journal_retain_prefix j e = takeWhile (\<lambda>u. iu_end u \<le> e) j"
  by (simp add: journal_retain_prefix_def partition_point_def flip: takeWhile_eq_take)

lemma journal_wf_takeWhile_end:
  "journal_wf a j b \<Longrightarrow> a \<le> e \<Longrightarrow> journal_wf a (takeWhile (\<lambda>u. iu_end u \<le> e) j) e"
  by (induction a j b rule: journal_wf.induct) auto

lemma retain_prefix_wf [wf_intros]:
  "journal_wf 0 j b \<Longrightarrow> journal_wf 0 (journal_retain_prefix j e) (min e b)"
proof -
  assume wf: "journal_wf 0 j b"
  have "journal_wf 0 (take n j) b" for n
    using wf journal_wf_append [of 0 "take n j" "drop n j" b] journal_wf_le
    by (auto intro: journal_wf_mono)
  moreover have "journal_wf 0 (journal_retain_prefix j e) e"
    unfolding retain_prefix_takeWhile using wf by (rule journal_wf_takeWhile_end) simp
  ultimately show ?thesis by (auto simp: journal_retain_prefix_def min_def)
qed

text \<open>The order of a well-formed journal partitions it at every position.\<close>

lemma retain_prefix_filter:
  "journal_wf a j b \<Longrightarrow> journal_retain_prefix j e = filter (\<lambda>u. iu_end u \<le> e) j"
  unfolding retain_prefix_takeWhile
proof (induction a j b rule: journal_wf.induct)
  case (2 a u us b)
  show ?case
  proof (cases "iu_end u \<le> e")
    case False
    have "iu_end v > e" if "v \<in> set us" for v
      using journal_wf_mem [of "iu_end u" us b v] that 2 False by auto
    then show ?thesis using False by (auto simp: filter_empty_conv not_le)
  qed (use 2 in auto)
qed simp

lemma journal_append_wf:
  assumes "journal_wf 0 j b" and "s \<le> b"
  shows "journal_wf 0 (journal_append j s e t) (max b e)"
proof (cases "s \<ge> e \<or> t = []")
  case True
  then show ?thesis using assms(1) by (auto simp: journal_append_def intro: journal_wf_mono)
next
  case False
  have "journal_wf 0 (journal_retain_prefix j s) s"
    using retain_prefix_wf [OF assms(1), of s] assms(2) by (simp add: min_def)
  then show ?thesis using False
    by (auto simp: journal_append_def journal_wf_append intro!: exI [of _ s])
qed

lemma remove_prefix_wf:
  "journal_wf a j b \<Longrightarrow> journal_wf (a - n) (journal_remove_prefix j n) (b - n)"
proof (induction a j b rule: journal_wf.induct)
  case (2 a u us b)
  then have IH: "journal_wf (iu_end u - n) (journal_remove_prefix us n) (b - n)"
    and u: "a \<le> iu_start u" "iu_start u < iu_end u" "iu_original u \<noteq> []" by auto
  show ?case
  proof (cases "n \<le> iu_start u")
    case True
    then show ?thesis using IH u
      by (simp add: journal_remove_prefix_def diff_le_mono diff_less_mono)
  next
    case False
    then have "journal_remove_prefix (u # us) n = journal_remove_prefix us n"
      by (simp add: journal_remove_prefix_def)
    then show ?thesis using IH u by (auto intro: journal_wf_mono)
  qed
qed (simp add: journal_remove_prefix_def)

lemma detach_suffix_wf:
  assumes "journal_wf 0 j b" and "s \<le> b"
  shows "journal_wf 0 (fst (journal_detach_suffix j s)) s"
    and "journal_wf 0 (snd (journal_detach_suffix j s)) (b - s)"
proof -
  let ?n = "partition_point (\<lambda>u. iu_start u < s) j"
  obtain c where c: "journal_wf 0 (take ?n j) c" "journal_wf c (drop ?n j) b"
    using assms(1) journal_wf_append [of 0 "take ?n j" "drop ?n j" b] by auto
  have "journal_wf 0 (take ?n j) b"
    using c journal_wf_le [OF c(2)] by (auto intro: journal_wf_mono)
  from retain_prefix_wf [OF this, of s] show "journal_wf 0 (fst (journal_detach_suffix j s)) s"
    using assms(2) by (simp add: journal_detach_suffix_def Let_def min_def)
  have "journal_wf 0 (drop ?n j) b" using assms(1) by (rule journal_wf_drop)
  from remove_prefix_wf [OF this, of s]
  show "journal_wf 0 (snd (journal_detach_suffix j s)) (b - s)"
    by (simp add: journal_detach_suffix_def Let_def)
qed

lemma shift_wf:
  "journal_wf a j b \<Longrightarrow>
   journal_wf (a + n) (map (\<lambda>u. u\<lparr>iu_start := iu_start u + n, iu_end := iu_end u + n\<rparr>) j) (b + n)"
  by (induction a j b rule: journal_wf.induct) auto

lemma append_suffix_wf:
  assumes "journal_wf 0 j s" and "journal_wf 0 suffix b"
  shows "journal_wf 0 (fst (journal_append_suffix j suffix s)) (s + b)"
proof -
  have "journal_wf s (map (\<lambda>u. u\<lparr>iu_start := iu_start u + s, iu_end := iu_end u + s\<rparr>) suffix) (s + b)"
    using shift_wf [OF assms(2), of s] by (simp add: add.commute)
  then show ?thesis using assms(1)
    by (auto simp: journal_append_suffix_def journal_wf_append intro: journal_wf_mono)
qed

lemma replace_single_wf:
  "journal_wf a j b \<Longrightarrow> journal_wf a (replace_single_unit_original j e c) b"
  by (induction j e c arbitrary: a rule: replace_single_unit_original.induct) auto

section \<open>What the journal answers\<close>

definition unit_ranges :: "input_unit list \<Rightarrow> (nat \<times> nat) list" where
  "unit_ranges us = map (\<lambda>u. (iu_start u, iu_end u)) us"

lemma original_loop_Some:
  "journal_wf nxt us b \<Longrightarrow> nxt < e \<Longrightarrow>
   original_loop e nxt acc us = Some t \<longleftrightarrow>
   (\<exists>xs ys. us = xs @ ys \<and> xs \<noteq> [] \<and> tiles nxt (unit_ranges xs) e
      \<and> t = acc @ concat (map iu_original xs))"
proof (induction us arbitrary: nxt acc)
  case Nil
  then show ?case by simp
next
  case (Cons u us)
  have split: "(\<exists>xs ys. u # us = xs @ ys \<and> xs \<noteq> [] \<and> tiles nxt (unit_ranges xs) e
      \<and> t = acc @ concat (map iu_original xs)) \<longleftrightarrow>
    (\<exists>xs ys. us = xs @ ys \<and> tiles nxt (unit_ranges (u # xs)) e
      \<and> t = acc @ iu_original u @ concat (map iu_original xs))" (is "?L = ?R")
  proof
    assume ?L
    then obtain xs ys where h: "u # us = xs @ ys" "xs \<noteq> []" "tiles nxt (unit_ranges xs) e"
      "t = acc @ concat (map iu_original xs)" by blast
    then obtain xs' where "xs = u # xs'" by (cases xs) auto
    with h show ?R by auto
  next
    assume ?R
    then obtain xs ys where "us = xs @ ys" "tiles nxt (unit_ranges (u # xs)) e"
      "t = acc @ iu_original u @ concat (map iu_original xs)" by blast
    then show ?L by (intro exI [of _ "u # xs"] exI [of _ ys]) simp
  qed
  have wf: "iu_start u < iu_end u" "journal_wf (iu_end u) us b" using Cons.prems by auto
  consider "iu_start u \<noteq> nxt \<or> iu_end u > e" | "iu_start u = nxt" "iu_end u = e"
    | "iu_start u = nxt" "iu_end u < e" by linarith
  then show ?case
  proof cases
    case 1
    then show ?thesis unfolding split by (auto simp: unit_ranges_def dest: tiles_le)
  next
    case 2
    have "tiles e (unit_ranges xs) e \<longleftrightarrow> xs = []" for xs
      using tiles_less [of e "unit_ranges xs" e] by (auto simp: unit_ranges_def)
    then show ?thesis using 2 wf unfolding split by (auto simp: unit_ranges_def)
  next
    case 3
    have "original_loop e nxt acc (u # us) = original_loop e (iu_end u) (acc @ iu_original u) us"
      using 3 by simp
    also have "\<dots> = Some t \<longleftrightarrow> (\<exists>xs ys. us = xs @ ys \<and> xs \<noteq> []
        \<and> tiles (iu_end u) (unit_ranges xs) e \<and> t = (acc @ iu_original u) @ concat (map iu_original xs))"
      using Cons.IH [OF wf(2) 3(2)] by simp
    finally show ?thesis unfolding split using 3 wf by (auto simp: unit_ranges_def)
  qed
qed

text \<open>The units skipped before the search are never part of an answer.\<close>

lemma covering_run_after_skip:
  assumes wf: "journal_wf 0 j b" and tl: "dropWhile (\<lambda>u. iu_end u \<le> s) j = us"
  shows "(\<exists>pre xs post. j = pre @ xs @ post \<and> xs \<noteq> [] \<and> tiles s (unit_ranges xs) e \<and> R xs)
    \<longleftrightarrow> (\<exists>xs ys. us = xs @ ys \<and> xs \<noteq> [] \<and> tiles s (unit_ranges xs) e \<and> R xs)"
    (is "?L \<longleftrightarrow> ?S")
proof
  assume ?L
  then obtain pre xs post where j: "j = pre @ xs @ post" "xs \<noteq> []"
    and t: "tiles s (unit_ranges xs) e" "R xs" by blast
  obtain v vs where xs: "xs = v # vs" using j(2) by (cases xs) auto
  with t have v: "iu_start v = s" "s < iu_end v" by (auto simp: unit_ranges_def)
  obtain c where c: "journal_wf 0 pre c" "journal_wf c (xs @ post) b"
    using wf j journal_wf_append by blast
  have "\<forall>w\<in>set pre. iu_end w \<le> s"
    using journal_wf_mem [OF c(1)] c(2) v xs by fastforce
  then have "us = xs @ post"
    using j xs v tl by (simp add: dropWhile_append2)
  then show ?S using j(2) t by blast
next
  assume ?S
  then show ?L using takeWhile_dropWhile_id [of "\<lambda>u. iu_end u \<le> s" j] tl by metis
qed

lemma skipped_starts_late:
  assumes "journal_wf 0 j b" and "dropWhile (\<lambda>u. iu_end u \<le> s) j = u # us" and "s \<le> iu_start u"
  shows "journal_wf s (u # us) b"
proof -
  have "journal_wf 0 (u # us) b"
    using journal_wf_drop [OF assms(1)] assms(2) by (metis dropWhile_eq_drop)
  then show ?thesis using assms(3) by simp
qed

text \<open>C30: on a well-formed journal, the original input of a range is available exactly when a run of
  whole consecutive units covers the range end to end, and it is then the keys of those units in
  order.\<close>

theorem journal_original_exact:
  assumes "journal_wf 0 j b"
  shows "journal_original j s e = Some t \<longleftrightarrow>
    (\<exists>pre xs post. j = pre @ xs @ post \<and> xs \<noteq> [] \<and> tiles s (unit_ranges xs) e
       \<and> t = concat (map iu_original xs))"
proof (cases "s < e")
  case False
  have "\<not> tiles s (unit_ranges xs) e" if "xs \<noteq> []" for xs
    using tiles_less [of s "unit_ranges xs" e] that False by (auto simp: unit_ranges_def)
  then show ?thesis using False by (auto simp: journal_original_def)
next
  case True
  define us where "us = dropWhile (\<lambda>u. iu_end u \<le> s) j"
  have lhs: "journal_original j s e = original_loop e s [] us"
    using True by (simp add: journal_original_def us_def)
  have run: "original_loop e s [] us = Some t \<longleftrightarrow>
    (\<exists>xs ys. us = xs @ ys \<and> xs \<noteq> [] \<and> tiles s (unit_ranges xs) e \<and> t = concat (map iu_original xs))"
  proof (cases us)
    case (Cons u rest)
    show ?thesis
    proof (cases "s \<le> iu_start u")
      case True2: True
      show ?thesis
        using original_loop_Some [OF skipped_starts_late [OF assms us_def [symmetric, unfolded Cons] True2] True]
        by (simp add: Cons)
    next
      case False
      then have "\<not> tiles s (unit_ranges xs) e" if "us = xs @ ys" "xs \<noteq> []" for xs ys
        using that Cons by (cases xs) (auto simp: unit_ranges_def)
      then show ?thesis using False Cons by auto
    qed
  qed simp
  show ?thesis
    unfolding lhs run by (rule covering_run_after_skip [OF assms us_def [symmetric], symmetric])
qed

theorem journal_original_exact_witness:
  "journal_original [\<lparr>iu_start = 0, iu_end = 2, iu_original = [0x6b, 0x79, 0x6f]\<rparr>,
     \<lparr>iu_start = 2, iu_end = 3, iu_original = [0x75]\<rparr>] 0 3 = Some [0x6b, 0x79, 0x6f, 0x75]"
proof -
  let ?j = "[\<lparr>iu_start = 0, iu_end = 2, iu_original = [0x6b, 0x79, 0x6f]\<rparr>,
     \<lparr>iu_start = 2, iu_end = 3, iu_original = [0x75]\<rparr>] :: input_journal"
  have wf: "journal_wf 0 ?j 3" by simp
  have "?j = [] @ ?j @ [] \<and> ?j \<noteq> [] \<and> tiles 0 (unit_ranges ?j) 3
      \<and> [0x6b, 0x79, 0x6f, 0x75] = concat (map iu_original ?j)"
    by (simp add: unit_ranges_def)
  then show ?thesis unfolding journal_original_exact [OF wf] by blast
qed

end
