(* ===== verification/Kana_Table.thy ===== *)
theory Kana_Table
  imports Rust_Prelude
begin

text \<open>
  The roman-to-kana tables of \<open>crates/tip/src/local_kana_composer.rs\<close>, entry by entry in
  the source's order: the fast path of \<open>lookup_roman\<close> and the constant \<open>ROMAN_KANA\<close>
  (split in two lists, joined below). Kana are given by their scalar values. The lemmas are the
  facts of the tables the composer relies on, each a check of all entries by evaluation.
\<close>

definition roman_fast :: "(ustring \<times> ustring) list" where
  "roman_fast = [
    (ascii ''a'', [0x3042]), (ascii ''i'', [0x3044]), (ascii ''u'', [0x3046]),
    (ascii ''e'', [0x3048]), (ascii ''o'', [0x304a]), (ascii ''ka'', [0x304b]),
    (ascii ''ki'', [0x304d]), (ascii ''ku'', [0x304f]), (ascii ''ke'', [0x3051]),
    (ascii ''ko'', [0x3053]), (ascii ''sa'', [0x3055]), (ascii ''si'', [0x3057]),
    (ascii ''su'', [0x3059]), (ascii ''se'', [0x305b]), (ascii ''so'', [0x305d]),
    (ascii ''ta'', [0x305f]), (ascii ''ti'', [0x3061]), (ascii ''tu'', [0x3064]),
    (ascii ''te'', [0x3066]), (ascii ''to'', [0x3068]), (ascii ''na'', [0x306a]),
    (ascii ''ni'', [0x306b]), (ascii ''nu'', [0x306c]), (ascii ''ne'', [0x306d]),
    (ascii ''no'', [0x306e])]"

definition roman_kana_head :: "(ustring \<times> ustring) list" where
  "roman_kana_head = [
    (ascii ''ltsu'', [0x3063]), (ascii ''xtsu'', [0x3063]), (ascii ''ltu'', [0x3063]),
    (ascii ''xtu'', [0x3063]), (ascii ''lya'', [0x3083]), (ascii ''lyu'', [0x3085]),
    (ascii ''lyo'', [0x3087]), (ascii ''xya'', [0x3083]), (ascii ''xyu'', [0x3085]),
    (ascii ''xyo'', [0x3087]), (ascii ''xn'', [0x3093]), (ascii ''xwa'', [0x308e]),
    (ascii ''lwa'', [0x308e]), (ascii ''xka'', [0x3095]), (ascii ''lka'', [0x3095]),
    (ascii ''xke'', [0x3096]), (ascii ''lke'', [0x3096]), (ascii ''wyi'', [0x3090]),
    (ascii ''wye'', [0x3091]), (ascii ''ye'', [0x3044, 0x3047]), (ascii ''va'', [0x3094, 0x3041]),
    (ascii ''vi'', [0x3094, 0x3043]), (ascii ''vu'', [0x3094]), (ascii ''ve'', [0x3094, 0x3047]),
    (ascii ''vo'', [0x3094, 0x3049]), (ascii ''kye'', [0x304d, 0x3047]),
    (ascii ''gye'', [0x304e, 0x3047]), (ascii ''qa'', [0x304f, 0x3041]),
    (ascii ''qwa'', [0x304f, 0x3041]), (ascii ''qi'', [0x304f, 0x3043]),
    (ascii ''qwi'', [0x304f, 0x3043]), (ascii ''qu'', [0x304f, 0x3045]),
    (ascii ''kwu'', [0x304f, 0x3045]), (ascii ''qwu'', [0x304f, 0x3045]),
    (ascii ''qe'', [0x304f, 0x3047]), (ascii ''qwe'', [0x304f, 0x3047]),
    (ascii ''qo'', [0x304f, 0x3049]), (ascii ''qwo'', [0x304f, 0x3049]),
    (ascii ''kya'', [0x304d, 0x3083]), (ascii ''kyu'', [0x304d, 0x3085]),
    (ascii ''kyo'', [0x304d, 0x3087]), (ascii ''gya'', [0x304e, 0x3083]),
    (ascii ''gyu'', [0x304e, 0x3085]), (ascii ''gyo'', [0x304e, 0x3087]),
    (ascii ''sha'', [0x3057, 0x3083]), (ascii ''shu'', [0x3057, 0x3085]),
    (ascii ''sho'', [0x3057, 0x3087]), (ascii ''she'', [0x3057, 0x3047]),
    (ascii ''sye'', [0x3057, 0x3047]), (ascii ''sya'', [0x3057, 0x3083]),
    (ascii ''syu'', [0x3057, 0x3085]), (ascii ''syo'', [0x3057, 0x3087]),
    (ascii ''zya'', [0x3058, 0x3083]), (ascii ''zyu'', [0x3058, 0x3085]),
    (ascii ''zyo'', [0x3058, 0x3087]), (ascii ''jya'', [0x3058, 0x3083]),
    (ascii ''jyu'', [0x3058, 0x3085]), (ascii ''jyo'', [0x3058, 0x3087]),
    (ascii ''ja'', [0x3058, 0x3083]), (ascii ''ju'', [0x3058, 0x3085]),
    (ascii ''je'', [0x3058, 0x3047]), (ascii ''jo'', [0x3058, 0x3087]),
    (ascii ''jyi'', [0x3058, 0x3043]), (ascii ''zye'', [0x3058, 0x3047]),
    (ascii ''jye'', [0x3058, 0x3047]), (ascii ''swa'', [0x3059, 0x3041]),
    (ascii ''swi'', [0x3059, 0x3043]), (ascii ''swu'', [0x3059, 0x3045]),
    (ascii ''swe'', [0x3059, 0x3047]), (ascii ''swo'', [0x3059, 0x3049]),
    (ascii ''cha'', [0x3061, 0x3083]), (ascii ''chu'', [0x3061, 0x3085]),
    (ascii ''cho'', [0x3061, 0x3087]), (ascii ''cya'', [0x3061, 0x3083]),
    (ascii ''cyu'', [0x3061, 0x3085]), (ascii ''cyo'', [0x3061, 0x3087]),
    (ascii ''tya'', [0x3061, 0x3083]), (ascii ''tyu'', [0x3061, 0x3085]),
    (ascii ''tyo'', [0x3061, 0x3087]), (ascii ''tyi'', [0x3061, 0x3043]),
    (ascii ''cyi'', [0x3061, 0x3043]), (ascii ''che'', [0x3061, 0x3047]),
    (ascii ''cye'', [0x3061, 0x3047]), (ascii ''tye'', [0x3061, 0x3047]),
    (ascii ''dya'', [0x3062, 0x3083]), (ascii ''dyu'', [0x3062, 0x3085]),
    (ascii ''dyo'', [0x3062, 0x3087]), (ascii ''dyi'', [0x3062, 0x3043]),
    (ascii ''dye'', [0x3062, 0x3047]), (ascii ''tha'', [0x3066, 0x3083]),
    (ascii ''thu'', [0x3066, 0x3085]), (ascii ''the'', [0x3066, 0x3047]),
    (ascii ''tho'', [0x3066, 0x3087]), (ascii ''twa'', [0x3068, 0x3041]),
    (ascii ''twi'', [0x3068, 0x3043]), (ascii ''twe'', [0x3068, 0x3047]),
    (ascii ''two'', [0x3068, 0x3049]), (ascii ''dha'', [0x3067, 0x3083]),
    (ascii ''dhu'', [0x3067, 0x3085]), (ascii ''dhe'', [0x3067, 0x3047]),
    (ascii ''dho'', [0x3067, 0x3087]), (ascii ''dwa'', [0x3069, 0x3041]),
    (ascii ''dwi'', [0x3069, 0x3043]), (ascii ''dwe'', [0x3069, 0x3047]),
    (ascii ''dwo'', [0x3069, 0x3049]), (ascii ''nya'', [0x306b, 0x3083]),
    (ascii ''nyu'', [0x306b, 0x3085]), (ascii ''nyo'', [0x306b, 0x3087]),
    (ascii ''nyi'', [0x306b, 0x3043]), (ascii ''nye'', [0x306b, 0x3047]),
    (ascii ''hya'', [0x3072, 0x3083]), (ascii ''hyu'', [0x3072, 0x3085]),
    (ascii ''hyo'', [0x3072, 0x3087]), (ascii ''hyi'', [0x3072, 0x3043]),
    (ascii ''hye'', [0x3072, 0x3047]), (ascii ''bya'', [0x3073, 0x3083]),
    (ascii ''byu'', [0x3073, 0x3085]), (ascii ''byo'', [0x3073, 0x3087]),
    (ascii ''byi'', [0x3073, 0x3043]), (ascii ''bye'', [0x3073, 0x3047]),
    (ascii ''pya'', [0x3074, 0x3083]), (ascii ''pyu'', [0x3074, 0x3085]),
    (ascii ''pyo'', [0x3074, 0x3087]), (ascii ''pyi'', [0x3074, 0x3043]),
    (ascii ''pye'', [0x3074, 0x3047]), (ascii ''mya'', [0x307f, 0x3083]),
    (ascii ''myu'', [0x307f, 0x3085]), (ascii ''myo'', [0x307f, 0x3087]),
    (ascii ''myi'', [0x307f, 0x3043]), (ascii ''mye'', [0x307f, 0x3047]),
    (ascii ''rya'', [0x308a, 0x3083]), (ascii ''ryu'', [0x308a, 0x3085]),
    (ascii ''ryo'', [0x308a, 0x3087]), (ascii ''ryi'', [0x308a, 0x3043]),
    (ascii ''rye'', [0x308a, 0x3047]), (ascii ''fya'', [0x3075, 0x3083]),
    (ascii ''fyu'', [0x3075, 0x3085]), (ascii ''fyo'', [0x3075, 0x3087]),
    (ascii ''fa'', [0x3075, 0x3041]), (ascii ''fi'', [0x3075, 0x3043]),
    (ascii ''fe'', [0x3075, 0x3047]), (ascii ''fo'', [0x3075, 0x3049]),
    (ascii ''hwa'', [0x3075, 0x3041]), (ascii ''hwi'', [0x3075, 0x3043]),
    (ascii ''hwe'', [0x3075, 0x3047])]"

definition roman_kana_tail :: "(ustring \<times> ustring) list" where
  "roman_kana_tail = [
    (ascii ''hwo'', [0x3075, 0x3049]), (ascii ''tsa'', [0x3064, 0x3041]),
    (ascii ''tsi'', [0x3064, 0x3043]), (ascii ''tse'', [0x3064, 0x3047]),
    (ascii ''tso'', [0x3064, 0x3049]), (ascii ''kwa'', [0x304f, 0x3041]),
    (ascii ''kwi'', [0x304f, 0x3043]), (ascii ''kwe'', [0x304f, 0x3047]),
    (ascii ''kwo'', [0x304f, 0x3049]), (ascii ''gwa'', [0x3050, 0x3041]),
    (ascii ''gwi'', [0x3050, 0x3043]), (ascii ''gwe'', [0x3050, 0x3047]),
    (ascii ''gwo'', [0x3050, 0x3049]), (ascii ''gwu'', [0x3050, 0x3045]),
    (ascii ''shi'', [0x3057]), (ascii ''chi'', [0x3061]), (ascii ''tsu'', [0x3064]),
    (ascii ''thi'', [0x3066, 0x3043]), (ascii ''dhi'', [0x3067, 0x3043]),
    (ascii ''twu'', [0x3068, 0x3045]), (ascii ''dwu'', [0x3069, 0x3045]),
    (ascii ''fwu'', [0x3075, 0x3045]), (ascii ''fwa'', [0x3075, 0x3041]),
    (ascii ''fwi'', [0x3075, 0x3043]), (ascii ''fwe'', [0x3075, 0x3047]),
    (ascii ''fwo'', [0x3075, 0x3049]), (ascii ''whi'', [0x3046, 0x3043]),
    (ascii ''whu'', [0x3046]), (ascii ''wha'', [0x3046, 0x3041]),
    (ascii ''whe'', [0x3046, 0x3047]), (ascii ''who'', [0x3046, 0x3049]),
    (ascii ''ca'', [0x304b]), (ascii ''ka'', [0x304b]), (ascii ''ki'', [0x304d]),
    (ascii ''cu'', [0x304f]), (ascii ''ku'', [0x304f]), (ascii ''ce'', [0x305b]),
    (ascii ''ke'', [0x3051]), (ascii ''co'', [0x3053]), (ascii ''ko'', [0x3053]),
    (ascii ''ga'', [0x304c]), (ascii ''gi'', [0x304e]), (ascii ''gu'', [0x3050]),
    (ascii ''ge'', [0x3052]), (ascii ''go'', [0x3054]), (ascii ''ci'', [0x3057]),
    (ascii ''sa'', [0x3055]), (ascii ''si'', [0x3057]), (ascii ''su'', [0x3059]),
    (ascii ''se'', [0x305b]), (ascii ''so'', [0x305d]), (ascii ''za'', [0x3056]),
    (ascii ''zi'', [0x3058]), (ascii ''ji'', [0x3058]), (ascii ''zu'', [0x305a]),
    (ascii ''ze'', [0x305c]), (ascii ''zo'', [0x305e]), (ascii ''ta'', [0x305f]),
    (ascii ''ti'', [0x3061]), (ascii ''tu'', [0x3064]), (ascii ''te'', [0x3066]),
    (ascii ''to'', [0x3068]), (ascii ''da'', [0x3060]), (ascii ''di'', [0x3062]),
    (ascii ''du'', [0x3065]), (ascii ''de'', [0x3067]), (ascii ''do'', [0x3069]),
    (ascii ''na'', [0x306a]), (ascii ''ni'', [0x306b]), (ascii ''nu'', [0x306c]),
    (ascii ''ne'', [0x306d]), (ascii ''no'', [0x306e]), (ascii ''ha'', [0x306f]),
    (ascii ''hi'', [0x3072]), (ascii ''hu'', [0x3075]), (ascii ''fu'', [0x3075]),
    (ascii ''he'', [0x3078]), (ascii ''ho'', [0x307b]), (ascii ''ba'', [0x3070]),
    (ascii ''bi'', [0x3073]), (ascii ''bu'', [0x3076]), (ascii ''be'', [0x3079]),
    (ascii ''bo'', [0x307c]), (ascii ''pa'', [0x3071]), (ascii ''pi'', [0x3074]),
    (ascii ''pu'', [0x3077]), (ascii ''pe'', [0x307a]), (ascii ''po'', [0x307d]),
    (ascii ''ma'', [0x307e]), (ascii ''mi'', [0x307f]), (ascii ''mu'', [0x3080]),
    (ascii ''me'', [0x3081]), (ascii ''mo'', [0x3082]), (ascii ''ya'', [0x3084]),
    (ascii ''yu'', [0x3086]), (ascii ''yo'', [0x3088]), (ascii ''ra'', [0x3089]),
    (ascii ''ri'', [0x308a]), (ascii ''ru'', [0x308b]), (ascii ''re'', [0x308c]),
    (ascii ''ro'', [0x308d]), (ascii ''wa'', [0x308f]), (ascii ''wi'', [0x3046, 0x3043]),
    (ascii ''we'', [0x3046, 0x3047]), (ascii ''wo'', [0x3092]), (ascii ''la'', [0x3041]),
    (ascii ''li'', [0x3043]), (ascii ''lu'', [0x3045]), (ascii ''le'', [0x3047]),
    (ascii ''lo'', [0x3049]), (ascii ''xa'', [0x3041]), (ascii ''xi'', [0x3043]),
    (ascii ''xu'', [0x3045]), (ascii ''xe'', [0x3047]), (ascii ''xo'', [0x3049]),
    (ascii ''zh'', [0x2190]), (ascii ''zj'', [0x2193]), (ascii ''zk'', [0x2191]),
    (ascii ''zl'', [0x2192]), (ascii ''a'', [0x3042]), (ascii ''i'', [0x3044]),
    (ascii ''u'', [0x3046]), (ascii ''wu'', [0x3046]), (ascii ''e'', [0x3048]),
    (ascii ''o'', [0x304a])]"

definition roman_kana :: "(ustring \<times> ustring) list" where
  "roman_kana = roman_kana_head @ roman_kana_tail"

section \<open>Facts of the tables\<close>

definition vowel :: "uchar \<Rightarrow> bool" where
  "vowel c \<longleftrightarrow> c = 0x61 \<or> c = 0x69 \<or> c = 0x75 \<or> c = 0x65 \<or> c = 0x6f"

text \<open>The entries that do not end in a vowel.\<close>

definition odd_romans :: "ustring list" where
  "odd_romans = [ascii ''xn'', ascii ''zh'', ascii ''zj'', ascii ''zk'', ascii ''zl'']"

text \<open>One check per entry: lower-case letters, no vowel before the last letter, a vowel or one of the
  exceptions at the end, no doubled first letter, after a first \<open>n\<close> a vowel or \<open>y\<close> and at most one letter more, the
  exceptions extended by nothing, and kana no longer than its spelling.\<close>

definition roman_shape :: "ustring \<Rightarrow> bool" where
  "roman_shape r \<longleftrightarrow> r \<noteq> [] \<and> list_all (\<lambda>c. 0x61 \<le> c \<and> c \<le> 0x7a) r
     \<and> list_all (\<lambda>c. \<not> vowel c) (butlast r)
     \<and> (vowel (last r) \<or> List.member odd_romans r)
     \<and> (case r of
          c # d # rest \<Rightarrow> c \<noteq> d \<and> (c = 0x6e \<longrightarrow> (vowel d \<or> d = 0x79) \<and> length rest \<le> 1)
            \<and> (List.member odd_romans [c, d] \<longrightarrow> rest = [])
        | _ \<Rightarrow> True)"

definition entry_shape :: "ustring \<times> ustring \<Rightarrow> bool" where
  "entry_shape e \<longleftrightarrow> roman_shape (fst e) \<and> snd e \<noteq> [] \<and> length (snd e) \<le> length (fst e)"

lemmas entry_check = entry_shape_def roman_shape_def vowel_def odd_romans_def List.member_iff

lemma roman_fast_shape: "list_all entry_shape roman_fast"
  by (simp add: roman_fast_def entry_check)

lemma roman_kana_head_shape: "list_all entry_shape roman_kana_head"
  by (simp add: roman_kana_head_def entry_check)

lemma roman_kana_tail_shape: "list_all entry_shape roman_kana_tail"
  by (simp add: roman_kana_tail_def entry_check)

lemma roman_kana_shape: "e \<in> set roman_kana \<Longrightarrow> entry_shape e"
  using roman_kana_head_shape roman_kana_tail_shape
  by (auto simp: roman_kana_def list_all_iff)

text \<open>The fast path agrees with the table: each of its spellings is in the table with that kana.\<close>

lemma roman_fast_in_table: "list_all (\<lambda>e. List.member roman_kana_tail e) roman_fast"
  by (simp add: roman_fast_def roman_kana_tail_def List.member_iff)

definition fast_agrees :: "ustring \<times> ustring \<Rightarrow> bool" where
  "fast_agrees e \<longleftrightarrow> list_all (\<lambda>f. fst f = fst e \<longrightarrow> snd f = snd e) roman_fast"

lemma fast_agrees_head: "list_all fast_agrees roman_kana_head"
  by (simp add: roman_kana_head_def roman_fast_def fast_agrees_def)

lemma fast_agrees_tail: "list_all fast_agrees roman_kana_tail"
  by (simp add: roman_kana_tail_def roman_fast_def fast_agrees_def)

lemma fast_agrees_table:
  "e \<in> set roman_kana \<Longrightarrow> f \<in> set roman_fast \<Longrightarrow> fst f = fst e \<Longrightarrow> snd f = snd e"
  using fast_agrees_head fast_agrees_tail
  by (auto simp: roman_kana_def list_all_iff fast_agrees_def)

end
