(* ===== verification/Kana_Composer.thy ===== *)
theory Kana_Composer
  imports Kana_Table Input_Journal
begin

text \<open>
  The local roman-to-kana composer of \<open>crates/tip/src/local_kana_composer.rs\<close>, which owns
  the canonical reading of a composition: text before the caret (\<open>stable\<close>), unfinished
  roman input at the caret (\<open>pending\<close>), text after it (\<open>suffix\<close>), the styled
  segments that replay them, and the input journal. Operations return \<open>None\<close> where the
  Rust code would panic (a slice inside a character, an unwrap of \<open>None\<close>); that they never do
  on a well-formed composer is proved in theory \<open>Kana_Composer_Spec\<close>.
  The grapheme segmentation of the external crate is the parameter \<open>gs\<close>.
\<close>

datatype input_style = StyleKana | StyleDirect

record replay_segment =
  sg_text :: ustring
  sg_style :: input_style

record local_kana_composer =
  lk_stable :: ustring
  lk_stable_segments :: "replay_segment list"
  lk_automatic_literals :: "nat list"
  lk_pending :: ustring
  lk_reading :: ustring
  lk_journal :: input_journal
  lk_suffix :: ustring
  lk_suffix_segments :: "replay_segment list"

definition composer_default :: local_kana_composer where
  "composer_default = \<lparr>lk_stable = [], lk_stable_segments = [], lk_automatic_literals = [],
     lk_pending = [], lk_reading = [], lk_journal = [], lk_suffix = [], lk_suffix_segments = []\<rparr>"

section \<open>Roman lookup\<close>

text \<open>\<open>Iterator::max_by_key\<close> keeps the last of several maximal elements.\<close>

fun max_by_len :: "(ustring \<times> ustring) option \<Rightarrow> (ustring \<times> ustring) list \<Rightarrow> (ustring \<times> ustring) option"
where
  "max_by_len best [] = best"
| "max_by_len best (e # es) =
     (case best of
        None \<Rightarrow> max_by_len (Some e) es
      | Some b \<Rightarrow> if byte_len (fst b) \<le> byte_len (fst e) then max_by_len (Some e) es
                 else max_by_len best es)"

definition lookup_roman :: "ustring \<Rightarrow> (ustring \<times> ustring) option" where
  "lookup_roman input =
     (case map_of roman_fast input of
        Some kana \<Rightarrow> Some (input, kana)
      | None \<Rightarrow> max_by_len None (filter (\<lambda>e. starts_with input (fst e)) roman_kana))"

definition ascii_alphabetic :: "uchar \<Rightarrow> bool" where
  "ascii_alphabetic c \<longleftrightarrow> 0x41 \<le> c \<and> c \<le> 0x5a \<or> 0x61 \<le> c \<and> c \<le> 0x7a"

definition is_roman_prefix :: "ustring \<Rightarrow> bool" where
  "is_roman_prefix input \<longleftrightarrow>
     (case input of [c] \<Rightarrow> ascii_alphabetic c | _ \<Rightarrow> False)
     \<or> list_ex (\<lambda>e. starts_with (fst e) input) roman_kana"

section \<open>Segments\<close>

definition append_segment ::
  "replay_segment list \<Rightarrow> ustring \<Rightarrow> input_style \<Rightarrow> replay_segment list"
where
  "append_segment segments t style =
     (if t = [] then segments
      else if segments \<noteq> [] \<and> sg_style (last segments) = style
      then butlast segments @ [(last segments)\<lparr>sg_text := sg_text (last segments) @ t\<rparr>]
      else segments @ [\<lparr>sg_text = t, sg_style = style\<rparr>])"

fun split_segments_loop ::
  "replay_segment list \<Rightarrow> replay_segment list \<Rightarrow> nat \<Rightarrow> replay_segment list
   \<Rightarrow> (replay_segment list \<times> replay_segment list) option"
where
  "split_segments_loop before after bytes [] = Some (before, after)"
| "split_segments_loop before after bytes (s # ss) =
     (let split = min bytes (byte_len (sg_text s)) in
      case split_bytes split (sg_text s) of
        None \<Rightarrow> None
      | Some (a, b) \<Rightarrow> split_segments_loop (append_segment before a (sg_style s))
          (append_segment after b (sg_style s)) (bytes - split) ss)"

definition split_segments ::
  "replay_segment list \<Rightarrow> nat \<Rightarrow> (replay_segment list \<times> replay_segment list) option"
where
  "split_segments segments bytes = split_segments_loop [] [] bytes segments"

fun truncate_segments :: "nat \<Rightarrow> replay_segment list \<Rightarrow> replay_segment list option" where
  "truncate_segments remaining [] = Some []"
| "truncate_segments remaining (s # ss) =
     (if remaining = 0 then map_option (Cons (s\<lparr>sg_text := []\<rparr>)) (truncate_segments 0 ss)
      else if remaining < byte_len (sg_text s) then
        (case truncate_bytes remaining (sg_text s) of
           None \<Rightarrow> None
         | Some t \<Rightarrow> map_option (Cons (s\<lparr>sg_text := t\<rparr>)) (truncate_segments 0 ss))
      else map_option (Cons s) (truncate_segments (remaining - byte_len (sg_text s)) ss))"

definition append_stable :: "local_kana_composer \<Rightarrow> ustring \<Rightarrow> input_style \<Rightarrow> local_kana_composer"
where
  "append_stable c t style = c\<lparr>lk_stable := lk_stable c @ t,
     lk_stable_segments := append_segment (lk_stable_segments c) t style\<rparr>"

definition append_input_unit ::
  "local_kana_composer \<Rightarrow> ustring \<Rightarrow> input_style \<Rightarrow> ustring \<Rightarrow> local_kana_composer"
where
  "append_input_unit c t style original =
     (let start = as_u32 (length (lk_stable c)) in
      (append_stable c t style)\<lparr>lk_journal :=
         journal_append (lk_journal c) start (as_u32 (start + as_u32 (length t))) original\<rparr>)"

definition truncate_stable :: "local_kana_composer \<Rightarrow> nat \<Rightarrow> local_kana_composer option" where
  "truncate_stable c len =
     (case (truncate_bytes len (lk_stable c), truncate_segments len (lk_stable_segments c)) of
        (Some kept, Some segments) \<Rightarrow> Some (c\<lparr>
          lk_automatic_literals := filter (\<lambda>offset. offset < len) (lk_automatic_literals c),
          lk_stable := kept,
          lk_journal := journal_retain_prefix (lk_journal c) (as_u32 (length kept)),
          lk_stable_segments := filter (\<lambda>s. sg_text s \<noteq> []) segments\<rparr>)
      | _ \<Rightarrow> None)"

definition refresh_reading :: "local_kana_composer \<Rightarrow> local_kana_composer" where
  "refresh_reading c = c\<lparr>lk_reading := lk_stable c @ lk_pending c @ lk_suffix c\<rparr>"

definition composer_cursor :: "local_kana_composer \<Rightarrow> reading_position" where
  "composer_cursor c = as_u32 (length (lk_stable c) + length (lk_pending c))"

definition cursor_at_end :: "local_kana_composer \<Rightarrow> bool" where
  "cursor_at_end c \<longleftrightarrow> lk_suffix c = []"

section \<open>Typing\<close>

text \<open>One round of the loop of \<open>advance_pending\<close>: what becomes a unit of the stable text
  (its text, style and keys), how many bytes of the pending input it consumes and whether it is a
  literal rejected by roman parsing; \<open>None\<close> when the loop returns.\<close>

definition next_unit :: "ustring \<Rightarrow> (ustring \<times> input_style \<times> ustring \<times> nat \<times> bool) option" where
  "next_unit pending =
     (if pending = [] then None
      else if pending = ascii ''ny'' then None
      else if starts_with pending (ascii ''nn'')
      then Some ([0x3093], StyleKana, ascii ''nn'', 2, False)
      else case lookup_roman pending of
        Some (roman, kana) \<Rightarrow> Some (kana, StyleKana, roman, byte_len roman, False)
      | None \<Rightarrow>
          (let first = hd pending; second = get pending 1 in
           if first = 0x6e \<and> second \<noteq> None
           then Some ([0x3093], StyleKana, ascii ''n'', utf8_width first, False)
           else if first \<noteq> 0x6e \<and> ascii_alphabetic first \<and> second = Some first
             \<and> first \<notin> {0x61, 0x69, 0x75, 0x65, 0x6f}
           then Some ([0x3063], StyleKana, [first], utf8_width first, False)
           else if is_roman_prefix pending then None
           else if ascii_alphabetic first
           then Some ([first], StyleDirect, [first], utf8_width first, True)
           else Some ([first], StyleKana, [first], utf8_width first, False)))"

definition apply_unit ::
  "local_kana_composer \<Rightarrow> ustring \<times> input_style \<times> ustring \<times> nat \<times> bool \<Rightarrow> local_kana_composer option"
where
  "apply_unit c w =
     (case w of (t, style, original, bytes, literal) \<Rightarrow>
        (case split_bytes bytes (lk_pending c) of
           None \<Rightarrow> None
         | Some (_, rest) \<Rightarrow>
             Some ((append_input_unit
               (if literal then c\<lparr>lk_automatic_literals :=
                  lk_automatic_literals c @ [byte_len (lk_stable c)]\<rparr> else c)
               t style original)\<lparr>lk_pending := rest\<rparr>)))"

lemma lk_pending_append_input_unit [simp]: "lk_pending (append_input_unit c t s k) = lk_pending c"
  by (simp add: append_input_unit_def append_stable_def Let_def)

lemma max_by_len_mem: "max_by_len best es = Some r \<Longrightarrow> r \<in> set es \<or> best = Some r"
  by (induction best es rule: max_by_len.induct) (auto split: option.splits if_splits)

lemma roman_fast_mem: "map_of roman_fast r = Some k \<Longrightarrow> entry_shape (r, k)"
  using roman_fast_shape by (auto simp: list_all_iff dest: map_of_SomeD)

lemma lookup_roman_shape:
  assumes "lookup_roman p = Some (r, k)"
  shows "entry_shape (r, k) \<and> starts_with p r"
proof (cases "map_of roman_fast p")
  case None
  with assms have "(r, k) \<in> set (filter (\<lambda>e. starts_with p (fst e)) roman_kana)"
    by (auto simp: lookup_roman_def dest: max_by_len_mem)
  then show ?thesis using roman_kana_shape by auto
next
  case (Some k')
  with assms show ?thesis using roman_fast_mem by (auto simp: lookup_roman_def starts_with_def)
qed

lemma lookup_roman_nonempty: "lookup_roman p = Some (r, k) \<Longrightarrow> r \<noteq> []"
  using lookup_roman_shape by (auto simp: entry_shape_def roman_shape_def)

lemma next_unit_bytes: "next_unit p = Some (t, st, k, n, l) \<Longrightarrow> 0 < n"
  by (rule gr0I) (auto simp: next_unit_def Let_def split: if_splits option.splits
      dest: lookup_roman_nonempty)

lemma apply_unit_pending:
  assumes "next_unit (lk_pending c) = Some w" and "apply_unit c w = Some c'"
  shows "length (lk_pending c') < length (lk_pending c)"
proof -
  obtain t st k n l where w: "w = (t, st, k, n, l)" by (cases w) auto
  from assms(2) obtain a rest where "split_bytes n (lk_pending c) = Some (a, rest)"
    and c': "lk_pending c' = rest"
    by (auto simp: w apply_unit_def split: option.splits prod.splits)
  then have "lk_pending c = a @ rest" "n = byte_len a" by (simp_all add: split_bytes_Some)
  moreover have "0 < n" using assms(1) next_unit_bytes by (simp add: w)
  ultimately show ?thesis using c' by (cases a) auto
qed

function advance_pending :: "local_kana_composer \<Rightarrow> local_kana_composer option" where
  "advance_pending c =
     (case next_unit (lk_pending c) of
        None \<Rightarrow> Some c
      | Some w \<Rightarrow> (case apply_unit c w of None \<Rightarrow> None | Some c' \<Rightarrow> advance_pending c'))"
  by pat_completeness auto
termination
  by (relation "measure (\<lambda>c. length (lk_pending c))") (auto dest: apply_unit_pending)

declare advance_pending.simps [simp del]

definition composer_push ::
  "local_kana_composer \<Rightarrow> uchar \<Rightarrow> input_style \<Rightarrow> local_kana_composer option"
where
  "composer_push c ch style =
     (let (left, suffix_journal) = journal_detach_suffix (lk_journal c) (composer_cursor c);
          c1 = c\<lparr>lk_journal := left\<rparr> in
      case (case style of
              StyleKana \<Rightarrow> advance_pending (c1\<lparr>lk_pending := lk_pending c1 @ [ch]\<rparr>)
            | StyleDirect \<Rightarrow>
                (let pending = lk_pending c1;
                     c2 = c1\<lparr>lk_automatic_literals := [], lk_pending := []\<rparr>;
                     c3 = append_input_unit c2 pending StyleDirect pending in
                 Some (append_input_unit c3 [ch] StyleDirect [ch]))) of
        None \<Rightarrow> None
      | Some c4 \<Rightarrow> Some (refresh_reading (c4\<lparr>lk_journal :=
          fst (journal_append_suffix (lk_journal c4) suffix_journal (composer_cursor c4))\<rparr>)))"

section \<open>Deleting\<close>

text \<open>\<open>reopen_roman_tail\<close>: literals rejected by roman parsing at the end of the stable
  text become pending again when they start a spelling.\<close>

fun reopen_loop ::
  "ustring \<Rightarrow> ustring \<Rightarrow> nat \<Rightarrow> (nat \<times> ustring) option \<Rightarrow> nat list \<Rightarrow> (nat \<times> ustring) option option"
where
  "reopen_loop body pending start reopen [] = Some reopen"
| "reopen_loop body pending start reopen (offset # offsets) =
     (if offset + 1 \<noteq> start then Some reopen
      else case split_bytes offset body of
        None \<Rightarrow> None
      | Some (_, tail) \<Rightarrow>
          (let candidate = tail @ pending in
           reopen_loop body pending offset
             (if is_roman_prefix candidate then Some (offset, candidate) else reopen) offsets))"

definition reopen_roman_tail :: "local_kana_composer \<Rightarrow> local_kana_composer option" where
  "reopen_roman_tail c =
     (case reopen_loop (lk_stable c) (lk_pending c) (byte_len (lk_stable c)) None
             (rev (lk_automatic_literals c)) of
        None \<Rightarrow> None
      | Some None \<Rightarrow> Some c
      | Some (Some (start, pending)) \<Rightarrow>
          map_option (\<lambda>c'. c'\<lparr>lk_pending := pending\<rparr>) (truncate_stable c start))"

text \<open>\<open>rev().find(|p| p < x)\<close> over the boundaries.\<close>

definition last_below :: "nat list \<Rightarrow> nat \<Rightarrow> nat option" where
  "last_below ps x = find (\<lambda>p. p < x) (rev ps)"

definition previous_boundary :: "ustring \<Rightarrow> nat \<Rightarrow> reading_position" where
  "previous_boundary body end_pos =
     (case legal_boundaries body of
        Inl _ \<Rightarrow> 0
      | Inr ps \<Rightarrow> (case last_below ps end_pos of None \<Rightarrow> 0 | Some p \<Rightarrow> p))"

definition delete_before_cursor ::
  "(ustring \<Rightarrow> ustring list) \<Rightarrow> local_kana_composer \<Rightarrow> bool \<Rightarrow> local_kana_composer option"
where
  "delete_before_cursor gs c reading_boundary =
     (let (left, suffix_journal) = journal_detach_suffix (lk_journal c) (composer_cursor c);
          c1 = c\<lparr>lk_journal := left\<rparr>;
          finish = (\<lambda>c'. refresh_reading (c'\<lparr>lk_journal :=
            fst (journal_append_suffix (lk_journal c') suffix_journal (composer_cursor c'))\<rparr>)) in
      if lk_pending c1 \<noteq> []
      then map_option finish (reopen_roman_tail (c1\<lparr>lk_pending := butlast (lk_pending c1)\<rparr>))
      else
        (let end_pos = composer_cursor c1;
             retained_len =
               (if reading_boundary
                then char_offset (lk_stable c1) (previous_boundary (lk_stable c1) end_pos)
                else case gs (lk_stable c1) of
                  [] \<Rightarrow> 0
                | clusters \<Rightarrow> byte_len (lk_stable c1) - byte_len (last clusters)) in
         case truncate_stable c1 retained_len of
           None \<Rightarrow> None
         | Some c2 \<Rightarrow> map_option finish (reopen_roman_tail c2)))"

definition composer_backspace ::
  "(ustring \<Rightarrow> ustring list) \<Rightarrow> local_kana_composer \<Rightarrow> local_kana_composer option" where
  "composer_backspace gs c = delete_before_cursor gs c False"

definition backspace_at_cursor ::
  "(ustring \<Rightarrow> ustring list) \<Rightarrow> local_kana_composer \<Rightarrow> local_kana_composer option" where
  "backspace_at_cursor gs c = delete_before_cursor gs c True"

definition composer_clear :: "local_kana_composer \<Rightarrow> local_kana_composer" where
  "composer_clear c = c\<lparr>lk_journal := journal_clear (lk_journal c), lk_suffix := [],
     lk_suffix_segments := [], lk_automatic_literals := [], lk_stable := [],
     lk_stable_segments := [], lk_pending := [], lk_reading := []\<rparr>"

definition reseed_reading :: "local_kana_composer \<Rightarrow> ustring \<Rightarrow> local_kana_composer" where
  "reseed_reading c reading =
     (let c1 = c\<lparr>lk_journal := journal_clear (lk_journal c), lk_suffix := [],
            lk_suffix_segments := [], lk_automatic_literals := [], lk_stable := [],
            lk_stable_segments := []\<rparr> in
      refresh_reading ((append_stable c1 reading StyleKana)\<lparr>lk_pending := []\<rparr>))"

section \<open>Moving the caret\<close>

definition replay_segments :: "local_kana_composer \<Rightarrow> replay_segment list" where
  "replay_segments c =
     fold (\<lambda>s segs. append_segment segs (sg_text s) (sg_style s)) (lk_suffix_segments c)
       (append_segment (lk_stable_segments c) (lk_pending c)
         (if lk_suffix c = [] then StyleKana else StyleDirect))"

definition freeze_pending :: "local_kana_composer \<Rightarrow> local_kana_composer" where
  "freeze_pending c =
     (if lk_pending c = [] then c
      else
        (let current = composer_cursor c;
             (left, suffix_journal) = journal_detach_suffix (lk_journal c) current;
             pending = lk_pending c;
             c1 = append_input_unit (c\<lparr>lk_journal := left, lk_pending := []\<rparr>) pending StyleDirect pending in
         c1\<lparr>lk_journal := fst (journal_append_suffix (lk_journal c1) suffix_journal current)\<rparr>))"

text \<open>\<open>rev().find(|p| p <= requested)\<close>.\<close>

definition last_at_most :: "nat list \<Rightarrow> nat \<Rightarrow> nat option" where
  "last_at_most ps x = find (\<lambda>p. p \<le> x) (rev ps)"

definition set_cursor ::
  "local_kana_composer \<Rightarrow> reading_position \<Rightarrow> (local_kana_composer \<times> bool) option"
where
  "set_cursor c requested =
     (case legal_boundaries (lk_reading c) of
        Inl _ \<Rightarrow> Some (c, False)
      | Inr ps \<Rightarrow>
          (let nxt = (case last_at_most ps requested of None \<Rightarrow> 0 | Some p \<Rightarrow> p) in
           if nxt = composer_cursor c then Some (c, False)
           else
             (let c1 = freeze_pending c; split = char_offset (lk_reading c1) nxt in
              case (split_bytes split (lk_reading c1), split_segments (replay_segments c1) split) of
                (Some (l, r), Some (before, after)) \<Rightarrow>
                  Some (c1\<lparr>lk_stable := l, lk_suffix := r, lk_stable_segments := before,
                    lk_suffix_segments := after, lk_automatic_literals := []\<rparr>, True)
              | _ \<Rightarrow> None)))"

definition move_cursor :: "local_kana_composer \<Rightarrow> int \<Rightarrow> (local_kana_composer \<times> bool) option" where
  "move_cursor c direction =
     (case legal_boundaries (lk_reading c) of
        Inl _ \<Rightarrow> Some (c, False)
      | Inr ps \<Rightarrow>
          (case (if direction > 0 then find (\<lambda>p. composer_cursor c < p) ps
                 else if direction < 0 then last_below ps (composer_cursor c)
                 else None) of
             None \<Rightarrow> Some (c, False)
           | Some p \<Rightarrow> set_cursor c p))"

definition delete_forward :: "local_kana_composer \<Rightarrow> (local_kana_composer \<times> bool) option" where
  "delete_forward c =
     (let current = composer_cursor c in
      case (case legal_boundaries (lk_reading c) of
              Inl _ \<Rightarrow> None | Inr ps \<Rightarrow> find (\<lambda>p. current < p) ps) of
        None \<Rightarrow> Some (c, False)
      | Some nxt \<Rightarrow>
          (let bytes = char_offset (lk_suffix c) (nxt - current);
               (left, suffix_journal) = journal_detach_suffix (lk_journal c) nxt;
               j1 = journal_retain_prefix left current;
               j2 = fst (journal_append_suffix j1 suffix_journal current) in
           case (split_bytes bytes (lk_suffix c), split_segments (lk_suffix_segments c) bytes) of
             (Some (_, rest), Some (_, remaining)) \<Rightarrow>
               Some (refresh_reading (c\<lparr>lk_journal := j2, lk_suffix := rest,
                 lk_suffix_segments := remaining\<rparr>), True)
           | _ \<Rightarrow> None))"

definition finalize_pending_n :: "local_kana_composer \<Rightarrow> local_kana_composer \<times> bool" where
  "finalize_pending_n c =
     (if lk_pending c \<noteq> ascii ''n'' then (c, False)
      else
        (let (left, suffix) = journal_detach_suffix (lk_journal c) (composer_cursor c);
             c1 = append_input_unit (c\<lparr>lk_journal := left, lk_pending := []\<rparr>) [0x3093] StyleKana
               (ascii ''n'') in
         (refresh_reading (c1\<lparr>lk_journal :=
            fst (journal_append_suffix (lk_journal c1) suffix (composer_cursor c1))\<rparr>), True)))"

definition preserve_last_literal_original ::
  "local_kana_composer \<Rightarrow> uchar \<Rightarrow> local_kana_composer" where
  "preserve_last_literal_original c original =
     (if lk_pending c = []
      then c\<lparr>lk_journal := replace_single_unit_original (lk_journal c) (composer_cursor c) original\<rparr>
      else c)"

section \<open>Keeping part of the reading\<close>

definition set_cursor_end :: "local_kana_composer \<Rightarrow> local_kana_composer option" where
  "set_cursor_end c =
     (if lk_suffix c = [] then Some c
      else map_option fst (set_cursor c (as_u32 (length (lk_reading c)))))"

definition composer_retain_prefix ::
  "local_kana_composer \<Rightarrow> ustring \<Rightarrow> (local_kana_composer \<times> bool) option"
where
  "composer_retain_prefix c pre =
     (if \<not> starts_with (lk_reading c) pre then Some (c, False)
      else case set_cursor_end c of
        None \<Rightarrow> None
      | Some c1 \<Rightarrow>
          (if byte_len pre \<le> byte_len (lk_stable c1)
           then map_option (\<lambda>c2. (refresh_reading (c2\<lparr>lk_pending := []\<rparr>), True))
                  (truncate_stable c1 (byte_len pre))
           else
             (case split_bytes (byte_len (lk_stable c1)) pre of
                None \<Rightarrow> None
              | Some (_, rest) \<Rightarrow>
                  Some (refresh_reading (append_input_unit (c1\<lparr>lk_pending := []\<rparr>) rest
                    StyleDirect rest), True))))"

text \<open>Byte offsets at which a cluster of \<open>gs\<close> starts.\<close>

fun cluster_starts :: "nat \<Rightarrow> ustring list \<Rightarrow> nat list" where
  "cluster_starts n [] = []"
| "cluster_starts n (g # gs) = n # cluster_starts (n + byte_len g) gs"

definition is_grapheme_boundary :: "(ustring \<Rightarrow> ustring list) \<Rightarrow> ustring \<Rightarrow> nat \<Rightarrow> bool" where
  "is_grapheme_boundary gs t index \<longleftrightarrow>
     index = 0 \<or> index = byte_len t \<or> index \<in> set (cluster_starts 0 (gs t))"

text \<open>The outer option is the panic, the inner one the function's own \<open>None\<close>.\<close>

fun stable_suffix_loop ::
  "nat \<Rightarrow> nat \<Rightarrow> replay_segment list \<Rightarrow> replay_segment list \<Rightarrow> (nat \<times> replay_segment list) option"
where
  "stable_suffix_loop start offset retained [] = Some (offset, retained)"
| "stable_suffix_loop start offset retained (s # ss) =
     (let end_pos = offset + byte_len (sg_text s) in
      if start < end_pos then
        (case split_bytes (start - offset) (sg_text s) of
           None \<Rightarrow> None
         | Some (_, tail) \<Rightarrow>
             stable_suffix_loop start end_pos (append_segment retained tail (sg_style s)) ss)
      else stable_suffix_loop start end_pos retained ss)"

definition stable_suffix_segments ::
  "(ustring \<Rightarrow> ustring list) \<Rightarrow> local_kana_composer \<Rightarrow> nat \<Rightarrow> replay_segment list option"
where
  "stable_suffix_segments gs c suffix_len =
     (if suffix_len = 0 then Some []
      else case checked_sub (byte_len (lk_stable c)) suffix_len of
        None \<Rightarrow> None
      | Some start \<Rightarrow>
          (if \<not> is_char_boundary (lk_stable c) start \<or> \<not> is_grapheme_boundary gs (lk_stable c) start
           then None
           else case stable_suffix_loop start 0 [] (lk_stable_segments c) of
             None \<Rightarrow> None
           | Some (offset, retained) \<Rightarrow>
               (if offset = byte_len (lk_stable c) then Some retained else None)))"

definition retained_stable_suffix ::
  "(ustring \<Rightarrow> ustring list) \<Rightarrow> local_kana_composer \<Rightarrow> ustring
   \<Rightarrow> (ustring \<times> replay_segment list) option"
where
  "retained_stable_suffix gs c suf =
     (if suf = [] \<or> \<not> ends_with (lk_reading c) suf then None
      else case (if lk_pending c = [] then Some suf else strip_suffix suf (lk_pending c)) of
        None \<Rightarrow> None
      | Some stable_suffix \<Rightarrow>
          (if \<not> ends_with (lk_stable c) stable_suffix then None
           else map_option (Pair stable_suffix) (stable_suffix_segments gs c (byte_len stable_suffix))))"

definition can_retain_suffix ::
  "(ustring \<Rightarrow> ustring list) \<Rightarrow> local_kana_composer \<Rightarrow> ustring \<Rightarrow> bool"
where
  "can_retain_suffix gs c suf =
     (if lk_suffix c \<noteq> []
      then suf \<noteq> [] \<and> ends_with (lk_reading c) suf
        \<and> is_grapheme_boundary gs (lk_reading c) (byte_len (lk_reading c) - byte_len suf)
      else retained_stable_suffix gs c suf \<noteq> None)"

definition retain_suffix ::
  "(ustring \<Rightarrow> ustring list) \<Rightarrow> local_kana_composer \<Rightarrow> ustring \<Rightarrow> (local_kana_composer \<times> bool) option"
where
  "retain_suffix gs c suf =
     (if lk_suffix c \<noteq> [] \<and> \<not> can_retain_suffix gs c suf then Some (c, False)
      else case set_cursor_end c of
        None \<Rightarrow> None
      | Some c1 \<Rightarrow>
          (case retained_stable_suffix gs c1 suf of
             None \<Rightarrow> Some (c1, False)
           | Some (stable_suffix, segments) \<Rightarrow>
               (let removed = byte_len (lk_stable c1) - byte_len stable_suffix in
                case split_bytes removed (lk_stable c1) of
                  None \<Rightarrow> None
                | Some (gone, _) \<Rightarrow>
                    Some (refresh_reading (c1\<lparr>
                      lk_journal := journal_remove_prefix (lk_journal c1) (as_u32 (length gone)),
                      lk_automatic_literals :=
                        List.map_filter (\<lambda>offset. checked_sub offset removed) (lk_automatic_literals c1),
                      lk_stable := stable_suffix,
                      lk_stable_segments := segments\<rparr>), True))))"

definition adopt_conversion_reading ::
  "local_kana_composer \<Rightarrow> ustring \<Rightarrow> (local_kana_composer \<times> bool) option"
where
  "adopt_conversion_reading c reading =
     (if lk_reading c = reading then Some (c, True)
      else
        (let normalized = normalize_reading (lk_reading c);
             final_n = lk_suffix c = [] \<and> lk_pending c = ascii ''n'' in
         case (if final_n then
                 (case strip_suffix normalized (ascii ''n'') of
                    None \<Rightarrow> None | Some s \<Rightarrow> Some (Some (s @ [0x3093])))
               else Some None) of
           None \<Rightarrow> None
         | Some resolved_n \<Rightarrow>
             (if normalized \<noteq> reading \<and> resolved_n \<noteq> Some reading then Some (c, False)
              else
                (let end_pos = as_u32 (length (lk_reading c)) in
                 case set_cursor c 0 of
                   None \<Rightarrow> None
                 | Some (c1, _) \<Rightarrow>
                     (case set_cursor c1 end_pos of
                        None \<Rightarrow> None
                      | Some (c2, _) \<Rightarrow>
                          Some (refresh_reading (append_stable
                            (c2\<lparr>lk_stable := [], lk_stable_segments := []\<rparr>) reading StyleDirect),
                            True))))))"

definition original_input ::
  "local_kana_composer \<Rightarrow> reading_position \<Rightarrow> reading_position \<Rightarrow> ustring option"
where
  "original_input c start end_pos =
     (if lk_pending c = [] then journal_original (lk_journal c) start end_pos
      else
        (let stable_end = as_u32 (length (lk_stable c));
             (j, suffix) = journal_detach_suffix (lk_journal c) (composer_cursor c);
             j1 = journal_append j stable_end (composer_cursor c) (lk_pending c);
             j2 = fst (journal_append_suffix j1 suffix (composer_cursor c)) in
         journal_original j2 start end_pos))"

definition reading_parts :: "local_kana_composer \<Rightarrow> ustring \<times> ustring" where
  "reading_parts c = (lk_stable c, lk_pending c)"

end
