(* ===== verification/Safe_Runs.thy ===== *)
theory Safe_Runs
  imports Main
begin

text \<open>
  The contract between a state machine and its invariant. A component provides its states, the steps between
  them and a property that the steps keep; a client of the component then relies on the property in every state
  the component can reach, and on every operation returning there.
\<close>

section \<open>Machines whose steps keep a property\<close>

locale safe_runs =
  fixes reach :: "'s \<Rightarrow> bool" and start :: "'s \<Rightarrow> bool" and step :: "'s \<Rightarrow> 's \<Rightarrow> bool" and good :: "'s \<Rightarrow> bool"
  assumes least: "reach s \<Longrightarrow> (\<And>s. start s \<Longrightarrow> P s) \<Longrightarrow> (\<And>s t. reach s \<Longrightarrow> P s \<Longrightarrow> step s t \<Longrightarrow> P t) \<Longrightarrow> P s"
    and start_good: "start s \<Longrightarrow> good s"
    and step_good: "good s \<Longrightarrow> step s t \<Longrightarrow> good t"
begin

lemma reach_good: "reach s \<Longrightarrow> good s"
  by (erule least) (blast intro: start_good step_good)+

end

section \<open>Machines whose operations return\<close>

text \<open>A machine driven by events: \<open>run\<close> is the operation, a panic is \<open>None\<close>; events the machine takes keep the property,
  and events that fit its bounds return.\<close>

locale event_machine =
  safe_runs reach start "\<lambda>s t. \<exists>e. takes s e \<and> run s e = Some t" good
  for reach :: "'s \<Rightarrow> bool" and start and takes :: "'s \<Rightarrow> 'e \<Rightarrow> bool" and run :: "'s \<Rightarrow> 'e \<Rightarrow> 's option" and good +
  fixes fits :: "'s \<Rightarrow> 'e \<Rightarrow> bool"
  assumes returns: "good s \<Longrightarrow> fits s e \<Longrightarrow> run s e \<noteq> None"
begin

lemma reach_returns: "reach s \<Longrightarrow> fits s e \<Longrightarrow> \<exists>t. run s e = Some t"
  using returns reach_good by blast

text \<open>What an event gives is good again when the machine takes the event.\<close>

lemma reach_returns_good: "reach s \<Longrightarrow> fits s e \<Longrightarrow> takes s e \<Longrightarrow> \<exists>t. run s e = Some t \<and> good t"
  using reach_returns reach_good step_good by blast

end

end
