(* ===== verification/Kana_Composer_Spec.thy ===== *)
theory Kana_Composer_Spec
  imports Kana_Composer Safe_Runs
begin

text \<open>
  What the composer promises. Typing key by key gives the same reading as parsing the whole
  key sequence at once (the tables are prefix-free, so no later key changes an earlier
  decision); and every operation on a well-formed composer returns without a panic and leaves
  it well formed: the reading is the stable text, the pending input and the suffix, and the
  replay segments spell it.
\<close>

section \<open>Incremental parsing is batch parsing\<close>

lemma roman_kana_prefix_free:
  assumes "e \<in> set roman_kana" and "f \<in> set roman_kana" and "fst f = fst e @ x"
  shows "x = []"
proof (rule ccontr)
  assume x: "x \<noteq> []"
  have re: "roman_shape (fst e)" and rf: "roman_shape (fst f)"
    using assms(1,2) [THEN roman_kana_shape] by (auto simp: entry_shape_def)
  have ne: "fst e \<noteq> []" using re by (simp add: roman_shape_def)
  have "last (fst e) \<in> set (butlast (fst f))"
    using assms(3) x ne by (simp add: butlast_append)
  then have "\<not> vowel (last (fst e))" using rf by (simp add: roman_shape_def list_all_iff)
  then have "fst e \<in> set odd_romans" using re by (simp add: roman_shape_def)
  moreover from this obtain c d where "fst e = [c, d]" by (auto simp: odd_romans_def)
  ultimately show False using rf assms(3) x by (simp add: roman_shape_def)
qed

lemma roman_fast_in_kana: "e \<in> set roman_fast \<Longrightarrow> e \<in> set roman_kana"
  using roman_fast_in_table by (auto simp: list_all_iff roman_kana_def)

lemma matches_comparable:
  "starts_with p (fst e) \<Longrightarrow> starts_with p (fst f) \<Longrightarrow>
   (\<exists>x. fst f = fst e @ x) \<or> (\<exists>x. fst e = fst f @ x)"
  unfolding starts_with_iff by (metis append_eq_append_conv2)

lemma matches_equal:
  assumes "e \<in> set roman_kana" and "f \<in> set roman_kana"
    and "starts_with p (fst e)" and "starts_with p (fst f)"
  shows "fst e = fst f"
  using matches_comparable [OF assms(3,4)]
proof
  assume "\<exists>x. fst f = fst e @ x"
  then obtain x where "fst f = fst e @ x" by blast
  with roman_kana_prefix_free [OF assms(1,2) this] show ?thesis by simp
next
  assume "\<exists>x. fst e = fst f @ x"
  then obtain x where "fst e = fst f @ x" by blast
  with roman_kana_prefix_free [OF assms(2,1) this] show ?thesis by simp
qed

lemma starts_with_extend: "starts_with p r \<Longrightarrow> starts_with (p @ s) r"
  by (auto simp: starts_with_iff)

lemma starts_with_prefix: "starts_with r (p @ s) \<Longrightarrow> starts_with r p"
  by (auto simp: starts_with_iff)

lemma starts_with_cases: "starts_with (p @ s) r \<Longrightarrow> starts_with p r \<or> starts_with r p"
  by (auto simp: starts_with_iff append_eq_append_conv2)

lemma max_by_len_const:
  "(\<forall>e\<in>set es. e = x) \<Longrightarrow> es \<noteq> [] \<or> best = Some x \<Longrightarrow> best = None \<or> best = Some x \<Longrightarrow>
   max_by_len best es = Some x"
  by (induction best es rule: max_by_len.induct) (auto split: option.splits)

lemma max_by_len_Some: "max_by_len (Some b) es \<noteq> None"
  by (induction es arbitrary: b) auto

lemma max_by_len_None: "max_by_len None es = None \<longleftrightarrow> es = []"
  using max_by_len_Some by (cases es) auto

lemma lookup_roman_extend:
  assumes "lookup_roman p = Some (r, k)"
  shows "lookup_roman (p @ s) = Some (r, k)"
proof (cases "s = []")
  case False
  have rp: "starts_with p r" using lookup_roman_shape [OF assms] by simp
  have table: "(r, k) \<in> set roman_kana"
  proof (cases "map_of roman_fast p")
    case None
    with assms show ?thesis by (auto simp: lookup_roman_def dest: max_by_len_mem)
  next
    case (Some k')
    with assms show ?thesis
      by (auto simp: lookup_roman_def dest: map_of_SomeD intro: roman_fast_in_kana)
  qed
  have same: "fst e = r" if "e \<in> set roman_kana" "starts_with (p @ s) (fst e)" for e
    using matches_equal [OF that(1) table that(2)] starts_with_extend [OF rp] by simp
  have "map_of roman_fast (p @ s) = None"
  proof (rule ccontr)
    assume "map_of roman_fast (p @ s) \<noteq> None"
    then obtain k' where "(p @ s, k') \<in> set roman_kana"
      by (auto dest!: map_of_SomeD intro: roman_fast_in_kana)
    then have "p @ s = r" using same [of "(p @ s, k')"] by (simp add: starts_with_def)
    then show False using rp False by (auto simp: starts_with_iff)
  qed
  then have eq: "lookup_roman (p @ s)
      = max_by_len None (filter (\<lambda>e. starts_with (p @ s) (fst e)) roman_kana)"
    by (simp add: lookup_roman_def)
  show ?thesis
  proof (cases "map_of roman_fast p")
    case None
    have "filter (\<lambda>e. starts_with (p @ s) (fst e)) roman_kana
        = filter (\<lambda>e. starts_with p (fst e)) roman_kana"
      using same rp starts_with_extend by (auto intro: filter_cong)
    then show ?thesis using eq assms None by (simp add: lookup_roman_def)
  next
    case (Some k')
    then have f: "(p, k) \<in> set roman_fast" "r = p"
      using assms by (auto simp: lookup_roman_def dest: map_of_SomeD)
    have "e = (r, k)" if "e \<in> set roman_kana" "starts_with (p @ s) (fst e)" for e
      using fast_agrees_table [OF that(1) f(1)] same [OF that] f(2) by (cases e) auto
    then have all: "\<forall>e\<in>set (filter (\<lambda>e. starts_with (p @ s) (fst e)) roman_kana). e = (r, k)"
      by simp
    have "(r, k) \<in> set (filter (\<lambda>e. starts_with (p @ s) (fst e)) roman_kana)"
      using table starts_with_extend [OF rp] by simp
    then have "filter (\<lambda>e. starts_with (p @ s) (fst e)) roman_kana \<noteq> []"
      by (metis empty_iff empty_set)
    then show ?thesis unfolding eq using max_by_len_const [OF all] by blast
  qed
qed (use assms in simp)

lemma lookup_roman_late:
  assumes "lookup_roman p = None" and "lookup_roman (p @ s) = Some (r, k)"
  shows "(r, k) \<in> set roman_kana" and "\<exists>x. r = p @ x \<and> x \<noteq> []"
proof -
  show table: "(r, k) \<in> set roman_kana"
  proof (cases "map_of roman_fast (p @ s)")
    case None
    with assms(2) show ?thesis by (auto simp: lookup_roman_def dest: max_by_len_mem)
  next
    case (Some k')
    with assms(2) show ?thesis
      by (auto simp: lookup_roman_def dest: map_of_SomeD intro: roman_fast_in_kana)
  qed
  have "\<not> starts_with p r"
  proof
    assume "starts_with p r"
    then have "(r, k) \<in> set (filter (\<lambda>e. starts_with p (fst e)) roman_kana)" using table by simp
    then have "filter (\<lambda>e. starts_with p (fst e)) roman_kana \<noteq> []" by (metis empty_iff empty_set)
    then have "lookup_roman p \<noteq> None"
      unfolding lookup_roman_def
      by (cases "map_of roman_fast p") (simp_all only: max_by_len_None option.case, simp_all)
    with assms(1) show False by simp
  qed
  moreover have "starts_with (p @ s) r" using lookup_roman_shape [OF assms(2)] by simp
  ultimately have "starts_with r p" using starts_with_cases by blast
  then obtain x where x: "r = p @ x" by (auto simp: starts_with_iff)
  have "x \<noteq> []" using \<open>\<not> starts_with p r\<close> x by (cases x) (auto simp: starts_with_def)
  then show "\<exists>x. r = p @ x \<and> x \<noteq> []" using x by blast
qed

lemma lookup_roman_late_prefix:
  assumes "lookup_roman p = None" and "lookup_roman (p @ s) = Some (r, k)"
  shows "is_roman_prefix p"
proof -
  from lookup_roman_late [OF assms] have "starts_with (fst (r, k)) p" by auto
  then show ?thesis
    using lookup_roman_late(1) [OF assms] unfolding is_roman_prefix_def list_ex_iff by blast
qed

lemma lookup_late_shape:
  assumes "lookup_roman (c # d # p) = None" and "lookup_roman ((c # d # p) @ s) = Some (r, k)"
  shows "c \<noteq> d" and "c = 0x6e \<Longrightarrow> d = 0x79 \<and> p = []"
proof -
  from lookup_roman_late [OF assms] obtain x where t: "(r, k) \<in> set roman_kana"
    and r: "r = c # d # p @ x" "x \<noteq> []" by auto
  from roman_kana_shape [OF t] have sh: "roman_shape r" by (simp add: entry_shape_def)
  then show "c \<noteq> d" by (simp add: r roman_shape_def)
  assume c: "c = 0x6e"
  have "d \<in> set (butlast r)" using r by (simp add: butlast_append)
  then have "\<not> vowel d" using sh by (simp add: roman_shape_def list_all_iff)
  then show "d = 0x79 \<and> p = []" using sh c r by (cases p) (auto simp: roman_shape_def)
qed

lemma lookup_roman_n: "lookup_roman [0x6e] = None"
proof (rule ccontr)
  assume "lookup_roman [0x6e] \<noteq> None"
  then obtain r k where l: "lookup_roman [0x6e] = Some (r, k)" by auto
  from lookup_roman_shape [OF this] have "entry_shape (r, k)" "starts_with [0x6e] r" by auto
  then have "r = [0x6e]" "roman_shape r"
    by (auto simp: entry_shape_def roman_shape_def starts_with_iff Cons_eq_append_conv)
  then show False by (simp add: roman_shape_def vowel_def odd_romans_def)
qed

lemma next_unit_nn: "starts_with p [0x6e, 0x6e] \<Longrightarrow>
   next_unit p = Some ([0x3093], StyleKana, [0x6e, 0x6e], 2, False)"
  by (auto simp: next_unit_def starts_with_iff)

lemma starts_with_2: "starts_with (c # d # p) [x, y] \<longleftrightarrow> c = x \<and> d = y"
  by (auto simp: starts_with_def numeral_2_eq_2)

lemma starts_with_2_short: "\<not> starts_with [c] [x, y]"
  by (simp add: starts_with_def)

text \<open>The rounds after a failed lookup, by the length of the pending input.\<close>

lemma next_unit_single:
  "lookup_roman [c] = None \<Longrightarrow> next_unit [c] =
     (if is_roman_prefix [c] then None
      else if ascii_alphabetic c then Some ([c], StyleDirect, [c], utf8_width c, True)
      else Some ([c], StyleKana, [c], utf8_width c, False))"
  using lookup_roman_n
  by (auto simp: next_unit_def starts_with_2_short Let_def get_def)

lemma next_unit_long:
  assumes "lookup_roman (c # d # p) = None" and "c # d # p \<noteq> [0x6e, 0x79]"
    and "\<not> (c = 0x6e \<and> d = 0x6e)"
  shows "next_unit (c # d # p) =
     (if c = 0x6e then Some ([0x3093], StyleKana, [0x6e], utf8_width c, False)
      else if ascii_alphabetic c \<and> d = c \<and> c \<notin> {0x61, 0x69, 0x75, 0x65, 0x6f}
      then Some ([0x3063], StyleKana, [c], utf8_width c, False)
      else if is_roman_prefix (c # d # p) then None
      else if ascii_alphabetic c then Some ([c], StyleDirect, [c], utf8_width c, True)
      else Some ([c], StyleKana, [c], utf8_width c, False))"
  using assms by (auto simp: next_unit_def starts_with_2 Let_def get_def)

lemma is_roman_prefix_extend:
  "is_roman_prefix (p @ s) \<Longrightarrow> p \<noteq> [] \<Longrightarrow> is_roman_prefix p"
proof -
  assume a: "is_roman_prefix (p @ s)" and ne: "p \<noteq> []"
  then obtain c p' where p: "p = c # p'" by (cases p) auto
  show ?thesis
  proof (cases "p' @ s = []")
    case True
    with a p show ?thesis by simp
  next
    case False
    with a p have "list_ex (\<lambda>e. starts_with (fst e) (p @ s)) roman_kana"
      by (auto simp: is_roman_prefix_def split: list.splits)
    then have "list_ex (\<lambda>e. starts_with (fst e) p) roman_kana"
      by (auto simp: list_ex_iff dest: starts_with_prefix)
    then show ?thesis by (simp add: is_roman_prefix_def)
  qed
qed

text \<open>A decision is never revised by later keys: first where the lookup failed, then in general.\<close>

lemma next_unit_extend_failed_single:
  assumes l: "lookup_roman [c] = None" and n: "next_unit [c] = Some w"
  shows "next_unit ([c] @ s) = Some w"
proof (cases s)
  case (Cons d p)
  from n l have np: "\<not> is_roman_prefix [c]" by (auto simp: next_unit_single split: if_splits)
  then have na: "\<not> ascii_alphabetic c" by (auto simp: is_roman_prefix_def)
  then have c: "c \<noteq> 0x6e" by (auto simp: ascii_alphabetic_def)
  have l2: "lookup_roman (c # d # p) = None"
    using lookup_roman_late_prefix [OF l, of s] np Cons by (cases "lookup_roman (c # d # p)") auto
  have "\<not> is_roman_prefix (c # d # p)"
    using is_roman_prefix_extend [of "[c]" s] np Cons by auto
  then show ?thesis
    using n l np na c Cons next_unit_long [OF l2] by (simp add: next_unit_single)
qed (use n in simp)

lemma next_unit_extend_failed_long:
  assumes l: "lookup_roman (c # d # p) = None" and n: "next_unit (c # d # p) = Some w"
  shows "next_unit ((c # d # p) @ s) = Some w"
proof -
  have ny: "c # d # p \<noteq> [0x6e, 0x79]" using n by (auto simp: next_unit_def)
  show ?thesis
  proof (cases "c = 0x6e \<and> d = 0x6e")
    case True
    then show ?thesis
      using n next_unit_nn [of "c # d # p"] next_unit_nn [of "(c # d # p) @ s"]
      by (simp add: starts_with_2)
  next
    case nn: False
    from next_unit_long [OF l ny nn] n
    consider (n) "c = 0x6e" | (dbl) "c \<noteq> 0x6e" "d = c" | (lit) "\<not> is_roman_prefix (c # d # p)"
      by (auto split: if_splits)
    then have l2: "lookup_roman (c # d # p @ s) = None"
    proof cases
      case n
      then show ?thesis using lookup_late_shape(2) [OF l, of s] ny
        by (cases "lookup_roman (c # d # p @ s)") auto
    next
      case dbl
      then show ?thesis using lookup_late_shape(1) [OF l, of s]
        by (cases "lookup_roman (c # d # p @ s)") auto
    next
      case lit
      then show ?thesis using lookup_roman_late_prefix [OF l, of s]
        by (cases "lookup_roman (c # d # p @ s)") auto
    qed
    have pre: "is_roman_prefix (c # d # p @ s) \<Longrightarrow> is_roman_prefix (c # d # p)"
      using is_roman_prefix_extend [of "c # d # p" s] by simp
    have ny2: "c # d # p @ s \<noteq> [0x6e, 0x79]" using ny by auto
    show ?thesis
      using n pre unfolding append_Cons next_unit_long [OF l2 ny2 nn] next_unit_long [OF l ny nn]
      by (auto split: if_splits)
  qed
qed

lemma next_unit_extend:
  assumes "next_unit p = Some w"
  shows "next_unit (p @ s) = Some w"
proof (cases "lookup_roman p")
  case None
  have "p \<noteq> []" using assms by (auto simp: next_unit_def)
  then consider c where "p = [c]" | c d q where "p = c # d # q" by (metis list.exhaust)
  then show ?thesis
  proof cases
    case 1
    then show ?thesis using next_unit_extend_failed_single None assms by blast
  next
    case 2
    then show ?thesis using next_unit_extend_failed_long None assms by blast
  qed
next
  case (Some rk)
  obtain r k where rk: "rk = (r, k)" by (cases rk)
  have np: "p \<noteq> []" "p \<noteq> [0x6e]" "p \<noteq> [0x6e, 0x79]"
    using assms Some lookup_roman_n by (auto simp: next_unit_def)
  have same: "p @ s \<noteq> [0x6e, 0x79]" using np by (auto simp: append_eq_Cons_conv)
  have nn: "starts_with (p @ s) [0x6e, 0x6e] \<longleftrightarrow> starts_with p [0x6e, 0x6e]"
    using np by (cases p rule: list.exhaust, simp, cases "tl p")
      (auto simp: starts_with_def take_Cons' split: if_splits)
  show ?thesis
    using assms np same nn Some lookup_roman_extend [of p r k s] rk
    by (auto simp: next_unit_def)
qed

text \<open>The consumed bytes are the first keys, and no more kana come out than keys went in.\<close>

lemma next_unit_split:
  assumes "next_unit p = Some (t, st, k, n, l)"
  shows "\<exists>a rest. p = a @ rest \<and> n = byte_len a \<and> a \<noteq> [] \<and> t \<noteq> [] \<and> k = a \<and> length t \<le> length a
    \<and> (l \<longrightarrow> (\<exists>c. a = [c] \<and> t = [c] \<and> utf8_width c = 1))"
proof -
  have ne: "p \<noteq> []" "p \<noteq> [0x6e, 0x79]" using assms by (auto simp: next_unit_def)
  then obtain c p' where p: "p = c # p'" by (cases p) auto
  show ?thesis
  proof (cases "starts_with p [0x6e, 0x6e]")
    case True
    then obtain rest where "p = [0x6e, 0x6e] @ rest" by (auto simp: starts_with_iff)
    then show ?thesis using assms True
      by (intro exI [of _ "[0x6e, 0x6e]"] exI [of _ rest]) (auto simp: next_unit_nn utf8_width_def)
  next
    case nn: False
    show ?thesis
    proof (cases "lookup_roman p")
      case None
      have "k = [c] \<and> n = byte_len [c] \<and> t \<noteq> [] \<and> length t \<le> 1
          \<and> (l \<longrightarrow> t = [c] \<and> ascii_alphabetic c)"
        using assms ne nn None p by (auto simp: next_unit_def Let_def split: if_splits)
      moreover have "ascii_alphabetic c \<Longrightarrow> utf8_width c = 1"
        by (auto simp: ascii_alphabetic_def utf8_width_def)
      ultimately show ?thesis using p by (intro exI [of _ "[c]"] exI [of _ p']) auto
    next
      case (Some rk)
      then obtain r q where rk: "lookup_roman p = Some (r, q)" by (cases rk) auto
      from lookup_roman_shape [OF rk] have "r \<noteq> []" "q \<noteq> []" "length q \<le> length r"
        and "\<exists>rest. p = r @ rest"
        by (auto simp: entry_shape_def roman_shape_def starts_with_iff)
      then show ?thesis using assms ne nn rk by (auto simp: next_unit_def)
    qed
  qed
qed

text \<open>The reference: all keys at once, rounds until none applies.\<close>

function kana_batch :: "ustring \<Rightarrow> ustring \<times> ustring" where
  "kana_batch p =
     (case next_unit p of
        None \<Rightarrow> ([], p)
      | Some (t, _, k, _, _) \<Rightarrow>
          (let (ts, q) = kana_batch (drop (length k) p) in (t @ ts, q)))"
  by pat_completeness auto
termination
  by (relation "measure length") (auto dest!: next_unit_split)

declare kana_batch.simps [simp del]

lemma kana_batch_None: "next_unit p = None \<Longrightarrow> kana_batch p = ([], p)"
  by (simp add: kana_batch.simps)

lemma kana_batch_Some:
  assumes "next_unit p = Some (t, st, k, n, l)" and "p = k @ rest"
  shows "kana_batch p = (t @ fst (kana_batch rest), snd (kana_batch rest))"
  using assms by (subst kana_batch.simps) (simp add: case_prod_unfold Let_def)

lemma kana_batch_append:
  "kana_batch (p @ s) =
     (fst (kana_batch p) @ fst (kana_batch (snd (kana_batch p) @ s)),
      snd (kana_batch (snd (kana_batch p) @ s)))"
proof (induction "length p" arbitrary: p rule: less_induct)
  case less
  show ?case
  proof (cases "next_unit p")
    case None
    then show ?thesis by (simp add: kana_batch_None)
  next
    case (Some w)
    obtain t st k n l where w: "next_unit p = Some (t, st, k, n, l)" using Some by (cases w) auto
    from next_unit_split [OF this] obtain rest where p: "p = k @ rest" and k: "k \<noteq> []" by auto
    have "length rest < length p" using p k by simp
    note IH = less [OF this]
    have e: "next_unit (p @ s) = Some (t, st, k, n, l)" using w by (rule next_unit_extend)
    have ps: "p @ s = k @ (rest @ s)" using p by simp
    show ?thesis
      by (simp add: kana_batch_Some [OF e ps] kana_batch_Some [OF w p] IH)
  qed
qed

section \<open>Well-formed composers\<close>

definition seg_text :: "replay_segment list \<Rightarrow> ustring" where
  "seg_text segs = concat (map sg_text segs)"

lemma seg_text_simps [simp]:
  "seg_text [] = []"
  "seg_text (s # segs) = sg_text s @ seg_text segs"
  "seg_text (segs @ segs') = seg_text segs @ seg_text segs'"
  by (simp_all add: seg_text_def)

definition literals_ok :: "ustring \<Rightarrow> nat list \<Rightarrow> bool" where
  "literals_ok body ls \<longleftrightarrow> (\<forall>o'\<in>set ls. o' < byte_len body \<and> is_char_boundary body o')"

definition text_wf :: "local_kana_composer \<Rightarrow> bool" where
  "text_wf c \<longleftrightarrow>
     lk_reading c = lk_stable c @ lk_pending c @ lk_suffix c
     \<and> seg_text (lk_stable_segments c) = lk_stable c
     \<and> seg_text (lk_suffix_segments c) = lk_suffix c
     \<and> literals_ok (lk_stable c) (lk_automatic_literals c)"

text \<open>The invariant without the cached reading, which operations restore at their end.\<close>

definition parts_wf :: "local_kana_composer \<Rightarrow> bool" where
  "parts_wf c \<longleftrightarrow>
     seg_text (lk_stable_segments c) = lk_stable c
     \<and> seg_text (lk_suffix_segments c) = lk_suffix c
     \<and> literals_ok (lk_stable c) (lk_automatic_literals c)"

lemma text_wf_parts: "text_wf c \<Longrightarrow> parts_wf c"
  by (simp add: text_wf_def parts_wf_def)

lemma refresh_wf [wf_intros]: "parts_wf c \<Longrightarrow> text_wf (refresh_reading c)"
  by (simp add: text_wf_def parts_wf_def refresh_reading_def)

lemma parts_wf_frame [simp]:
  "parts_wf (c\<lparr>lk_journal := j\<rparr>) = parts_wf c"
  "parts_wf (c\<lparr>lk_pending := p\<rparr>) = parts_wf c"
  "parts_wf (c\<lparr>lk_reading := r\<rparr>) = parts_wf c"
  by (simp_all add: parts_wf_def)

lemma text_wf_default [wf_intros]: "text_wf composer_default"
  by (simp add: text_wf_def composer_default_def literals_ok_def)

lemma text_wf_clear [wf_intros]: "text_wf (composer_clear c)"
  by (simp add: text_wf_def composer_clear_def literals_ok_def)

lemma literals_ok_Nil [simp]: "literals_ok body []"
  by (simp add: literals_ok_def)

lemma literals_ok_extend: "literals_ok body ls \<Longrightarrow> literals_ok (body @ t) ls"
  by (fastforce simp: literals_ok_def is_char_boundary_iff)

lemma seg_text_append_segment [simp]: "seg_text (append_segment segs t style) = seg_text segs @ t"
  by (cases segs rule: rev_cases) (simp_all add: append_segment_def)

lemma append_stable_parts:
  "parts_wf c \<Longrightarrow> parts_wf (append_stable c t style)"
  by (simp add: parts_wf_def append_stable_def literals_ok_extend)

lemma append_input_unit_parts:
  "parts_wf c \<Longrightarrow> parts_wf (append_input_unit c t style k)"
  by (simp add: append_input_unit_def Let_def append_stable_parts)

lemma append_input_unit_fields [simp]:
  "lk_stable (append_input_unit c t style k) = lk_stable c @ t"
  "lk_suffix (append_input_unit c t style k) = lk_suffix c"
  "lk_suffix_segments (append_input_unit c t style k) = lk_suffix_segments c"
  "lk_automatic_literals (append_input_unit c t style k) = lk_automatic_literals c"
  by (simp_all add: append_input_unit_def append_stable_def Let_def)

lemma apply_unit_wf:
  assumes "parts_wf c" and "next_unit (lk_pending c) = Some (t, st, k, n, l)"
  shows "\<exists>c' rest. apply_unit c (t, st, k, n, l) = Some c' \<and> parts_wf c'
    \<and> lk_pending c = k @ rest \<and> lk_pending c' = rest \<and> lk_stable c' = lk_stable c @ t
    \<and> lk_suffix c' = lk_suffix c \<and> lk_suffix_segments c' = lk_suffix_segments c"
proof -
  from next_unit_split [OF assms(2)] obtain rest where p: "lk_pending c = k @ rest"
    and n: "n = byte_len k" and lit: "l \<Longrightarrow> t \<noteq> []" and ne: "t \<noteq> []" by blast
  let ?c = "if l then c\<lparr>lk_automatic_literals := lk_automatic_literals c @ [byte_len (lk_stable c)]\<rparr>
    else c"
  have "parts_wf (append_input_unit ?c t st k)"
  proof (cases l)
    case True
    have "literals_ok (lk_stable c @ t) (lk_automatic_literals c @ [byte_len (lk_stable c)])"
      using assms(1) ne literals_ok_extend [of "lk_stable c" "lk_automatic_literals c" t]
      by (auto simp: parts_wf_def literals_ok_def is_char_boundary_iff neq_Nil_conv)
    then show ?thesis using assms(1) True
      by (simp add: parts_wf_def append_input_unit_def append_stable_def Let_def)
  qed (simp add: assms(1) append_input_unit_parts)
  then show ?thesis using p n
    by (auto simp: apply_unit_def split_bytes_append)
qed

lemma advance_pending_wf:
  "parts_wf c \<Longrightarrow> \<exists>c'. advance_pending c = Some c' \<and> parts_wf c'
     \<and> lk_stable c' = lk_stable c @ fst (kana_batch (lk_pending c))
     \<and> lk_pending c' = snd (kana_batch (lk_pending c))
     \<and> lk_suffix c' = lk_suffix c \<and> lk_suffix_segments c' = lk_suffix_segments c"
proof (induction c rule: advance_pending.induct)
  case (1 c)
  show ?case
  proof (cases "next_unit (lk_pending c)")
    case None
    then show ?thesis using "1.prems" by (subst advance_pending.simps) (simp add: kana_batch_None)
  next
    case (Some w)
    obtain t st k n l where w: "w = (t, st, k, n, l)" by (cases w) auto
    from apply_unit_wf [OF "1.prems"] Some w obtain c1 rest where c1: "apply_unit c w = Some c1"
      "parts_wf c1" "lk_pending c = k @ rest" "lk_pending c1 = rest" "lk_stable c1 = lk_stable c @ t"
      "lk_suffix c1 = lk_suffix c" "lk_suffix_segments c1 = lk_suffix_segments c" by blast
    from "1.IH" [OF Some c1(1,2)] Some c1 kana_batch_Some [OF Some [unfolded w] c1(3)]
    show ?thesis by (subst advance_pending.simps) auto
  qed
qed

lemma composer_push_wf:
  assumes "text_wf c"
  shows "\<exists>c'. composer_push c ch style = Some c' \<and> text_wf c' \<and> lk_suffix c' = lk_suffix c
    \<and> (lk_stable c', lk_pending c') =
      (case style of
         StyleKana \<Rightarrow> (lk_stable c @ fst (kana_batch (lk_pending c @ [ch])),
                      snd (kana_batch (lk_pending c @ [ch])))
       | StyleDirect \<Rightarrow> (lk_stable c @ lk_pending c @ [ch], []))"
proof -
  obtain left suff where d: "journal_detach_suffix (lk_journal c) (composer_cursor c) = (left, suff)"
    by (cases "journal_detach_suffix (lk_journal c) (composer_cursor c)")
  note pw = text_wf_parts [OF assms]
  show ?thesis
  proof (cases style)
    case StyleKana
    let ?c1 = "c\<lparr>lk_journal := left, lk_pending := lk_pending c @ [ch]\<rparr>"
    have "parts_wf ?c1" using pw by simp
    from advance_pending_wf [OF this] obtain c4 where "advance_pending ?c1 = Some c4" "parts_wf c4"
      "lk_stable c4 = lk_stable c @ fst (kana_batch (lk_pending c @ [ch]))"
      "lk_pending c4 = snd (kana_batch (lk_pending c @ [ch]))" "lk_suffix c4 = lk_suffix c" by auto
    then show ?thesis using StyleKana
      by (simp add: composer_push_def d refresh_wf) (simp add: refresh_reading_def)
  next
    case StyleDirect
    let ?c3 = "append_input_unit (c\<lparr>lk_journal := left, lk_automatic_literals := [],
      lk_pending := []\<rparr>) (lk_pending c) StyleDirect (lk_pending c)"
    have "parts_wf ?c3" using pw by (intro append_input_unit_parts) (simp add: parts_wf_def)
    then have "parts_wf (append_input_unit ?c3 [ch] StyleDirect [ch])"
      by (rule append_input_unit_parts)
    then show ?thesis using StyleDirect
      by (simp add: composer_push_def d Let_def refresh_wf) (simp add: refresh_reading_def)
  qed
qed

text \<open>Typing a sequence of keys in kana style.\<close>

fun type_keys :: "local_kana_composer \<Rightarrow> ustring \<Rightarrow> local_kana_composer option" where
  "type_keys c [] = Some c"
| "type_keys c (k # ks) =
     (case composer_push c k StyleKana of None \<Rightarrow> None | Some c' \<Rightarrow> type_keys c' ks)"

lemma kana_batch_done: "snd (kana_batch (snd (kana_batch p))) = snd (kana_batch p)
    \<and> fst (kana_batch (snd (kana_batch p))) = []"
proof (induction "length p" arbitrary: p rule: less_induct)
  case less
  show ?case
  proof (cases "next_unit p")
    case (Some w)
    obtain t st k n l where w: "next_unit p = Some (t, st, k, n, l)" using Some by (cases w) auto
    from next_unit_split [OF this] obtain rest where p: "p = k @ rest" and k: "k \<noteq> []" by auto
    then have "length rest < length p" by simp
    from less [OF this] show ?thesis unfolding kana_batch_Some [OF w p] by simp
  qed (simp add: kana_batch_None)
qed

text \<open>C32: typing a key sequence one key at a time never panics and yields exactly what parsing the
  pending input and all the keys at once yields: the same kana before the caret and the same
  unfinished roman tail, with the text after the caret untouched.\<close>

theorem typing_is_batch_parsing:
  assumes "text_wf c" and "kana_batch (lk_pending c) = ([], lk_pending c)"
  shows "\<exists>c'. type_keys c keys = Some c' \<and> text_wf c' \<and> lk_suffix c' = lk_suffix c
    \<and> lk_stable c' = lk_stable c @ fst (kana_batch (lk_pending c @ keys))
    \<and> lk_pending c' = snd (kana_batch (lk_pending c @ keys))"
  using assms
proof (induction keys arbitrary: c)
  case (Cons k ks)
  from composer_push_wf [OF Cons.prems(1), of k StyleKana] obtain c1 where
    c1: "composer_push c k StyleKana = Some c1" "text_wf c1" "lk_suffix c1 = lk_suffix c"
    "lk_stable c1 = lk_stable c @ fst (kana_batch (lk_pending c @ [k]))"
    "lk_pending c1 = snd (kana_batch (lk_pending c @ [k]))" by auto
  have "kana_batch (lk_pending c1) = ([], lk_pending c1)"
    using kana_batch_done [of "lk_pending c @ [k]"] c1(5) by (metis prod.collapse)
  from Cons.IH [OF c1(2) this] obtain c' where "type_keys c1 ks = Some c'" "text_wf c'"
    "lk_suffix c' = lk_suffix c1" "lk_stable c' = lk_stable c1 @ fst (kana_batch (lk_pending c1 @ ks))"
    "lk_pending c' = snd (kana_batch (lk_pending c1 @ ks))" by blast
  moreover have "kana_batch (lk_pending c @ k # ks) =
      (fst (kana_batch (lk_pending c @ [k])) @ fst (kana_batch (lk_pending c1 @ ks)),
       snd (kana_batch (lk_pending c1 @ ks)))"
    using kana_batch_append [of "lk_pending c @ [k]" ks] c1(5) by simp
  ultimately show ?case using c1 by simp
qed simp

theorem typing_is_batch_parsing_witness:
  "\<exists>c'. type_keys composer_default (ascii ''kka'') = Some c'
     \<and> lk_stable c' = fst (kana_batch (ascii ''kka''))
     \<and> lk_pending c' = snd (kana_batch (ascii ''kka''))"
proof -
  have "kana_batch (lk_pending composer_default) = ([], lk_pending composer_default)"
    by (simp add: composer_default_def kana_batch_None next_unit_def)
  from typing_is_batch_parsing [OF text_wf_default this, of "ascii ''kka''"]
  show ?thesis by (auto simp: composer_default_def)
qed

section \<open>No operation panics\<close>

text \<open>Two splits of one string, compared by byte length.\<close>

lemma bytes_shorter:
  assumes "a @ b = t @ r" and "byte_len a < byte_len t"
  shows "\<exists>t'. t = a @ t' \<and> b = t' @ r"
proof -
  from assms(1) consider u where "a = t @ u" | u where "t = a @ u" "b = u @ r"
    by (metis append_eq_append_conv2)
  then show ?thesis using assms(2) by cases auto
qed

lemma bytes_longer:
  assumes "a @ b = t @ r" and "byte_len t \<le> byte_len a"
  shows "\<exists>a'. a = t @ a' \<and> r = a' @ b"
proof -
  from assms(1) consider u where "a = t @ u" "r = u @ b" | u where "t = a @ u" "b = u @ r"
    by (metis append_eq_append_conv2)
  then show ?thesis using assms by cases auto
qed

lemma boundary_shorter:
  assumes "is_char_boundary (a @ r) n" and "n \<le> byte_len a"
  shows "is_char_boundary a n"
proof -
  from assms(1) obtain x y where x: "a @ r = x @ y" "n = byte_len x"
    by (auto simp: is_char_boundary_iff)
  show ?thesis using bytes_longer [OF x(1)] x(2) assms(2) by (auto simp: is_char_boundary_iff)
qed

lemma boundary_suffix:
  assumes "is_char_boundary (g @ s) n" and "byte_len g \<le> n"
  shows "is_char_boundary s (n - byte_len g)"
proof -
  from assms(1) obtain x y where x: "x @ y = g @ s" "n = byte_len x"
    by (metis is_char_boundary_iff)
  show ?thesis using bytes_longer [OF x(1)] x(2) assms(2) by (auto simp: is_char_boundary_iff)
qed

lemma truncate_segments_0: "\<exists>segs'. truncate_segments 0 segs = Some segs' \<and> seg_text segs' = []"
  by (induction segs) auto

lemma truncate_segments_split:
  "seg_text segs = a @ b \<Longrightarrow>
   \<exists>segs'. truncate_segments (byte_len a) segs = Some segs' \<and> seg_text segs' = a"
proof (induction segs arbitrary: a)
  case (Cons s ss)
  show ?case
  proof (cases "byte_len a < byte_len (sg_text s)")
    case True
    from bytes_shorter [OF _ True, of b "seg_text ss"] Cons.prems obtain t'
      where t: "sg_text s = a @ t'" by auto
    obtain segs0 where "truncate_segments 0 ss = Some segs0" "seg_text segs0 = []"
      using truncate_segments_0 by blast
    then show ?thesis using True t by (auto simp: truncate_bytes_def split_bytes_append)
  next
    case False
    from bytes_longer [of a b "sg_text s" "seg_text ss"] Cons.prems False obtain a'
      where a: "a = sg_text s @ a'" "seg_text ss = a' @ b" by auto
    from Cons.IH [OF a(2)] obtain segs' where
      s': "truncate_segments (byte_len a') ss = Some segs'" "seg_text segs' = a'" by blast
    then show ?thesis using a(1) False truncate_segments_0 [of ss]
      by (cases "byte_len a = 0") auto
  qed
qed simp

lemma seg_text_filter [simp]: "seg_text (filter (\<lambda>s. sg_text s \<noteq> []) segs) = seg_text segs"
  by (induction segs) auto

lemma truncate_stable_wf:
  assumes "parts_wf c" and "lk_stable c = a @ b"
  shows "\<exists>c'. truncate_stable c (byte_len a) = Some c' \<and> parts_wf c' \<and> lk_stable c' = a
    \<and> lk_pending c' = lk_pending c \<and> lk_suffix c' = lk_suffix c"
proof -
  obtain segs' where s: "truncate_segments (byte_len a) (lk_stable_segments c) = Some segs'"
    "seg_text segs' = a"
    using truncate_segments_split [of "lk_stable_segments c" a b] assms by (auto simp: parts_wf_def)
  have t: "truncate_bytes (byte_len a) (lk_stable c) = Some a"
    using assms(2) by (cases b) (auto simp: truncate_bytes_def split_bytes_append)
  have "literals_ok a (filter (\<lambda>o'. o' < byte_len a) (lk_automatic_literals c))"
    using assms boundary_shorter [of a b] by (auto simp: parts_wf_def literals_ok_def)
  then show ?thesis using s t assms(1)
    by (simp add: truncate_stable_def parts_wf_def)
qed

lemma reopen_loop_wf:
  assumes "\<forall>x\<in>set offsets. is_char_boundary body x"
    and "\<And>x q. reopen = Some (x, q) \<Longrightarrow> is_char_boundary body x"
  shows "\<exists>r. reopen_loop body pending start reopen offsets = Some r
    \<and> (\<forall>x q. r = Some (x, q) \<longrightarrow> is_char_boundary body x)"
  using assms
proof (induction body pending start reopen offsets rule: reopen_loop.induct)
  case (2 body pending start reopen offset offsets)
  show ?case
  proof (cases "offset + 1 = start")
    case True
    from "2.prems"(1) obtain a b where sp: "split_bytes offset body = Some (a, b)"
      by (auto simp: is_char_boundary_def)
    have "\<exists>r. reopen_loop body pending offset
        (if is_roman_prefix (b @ pending) then Some (offset, b @ pending) else reopen) offsets = Some r
        \<and> (\<forall>x q. r = Some (x, q) \<longrightarrow> is_char_boundary body x)"
      by (rule "2.IH" [of "(a, b)"]) (use True sp "2.prems" in \<open>auto split: if_splits\<close>)
    then show ?thesis using True sp by (simp add: Let_def)
  qed (use "2.prems" in auto)
qed auto

lemma reopen_roman_tail_wf:
  assumes "parts_wf c"
  shows "\<exists>c'. reopen_roman_tail c = Some c' \<and> parts_wf c' \<and> lk_suffix c' = lk_suffix c"
proof -
  have "\<forall>x\<in>set (rev (lk_automatic_literals c)). is_char_boundary (lk_stable c) x"
    using assms by (auto simp: parts_wf_def literals_ok_def)
  from reopen_loop_wf [OF this, of None "lk_pending c" "byte_len (lk_stable c)"]
  obtain r where r: "reopen_loop (lk_stable c) (lk_pending c) (byte_len (lk_stable c)) None
      (rev (lk_automatic_literals c)) = Some r"
    and b: "\<And>x q. r = Some (x, q) \<Longrightarrow> is_char_boundary (lk_stable c) x" by auto
  show ?thesis
  proof (cases r)
    case None
    then show ?thesis using r assms by (simp add: reopen_roman_tail_def)
  next
    case (Some xq)
    obtain x q where xq: "xq = (x, q)" by (cases xq)
    with b Some obtain u v where u: "lk_stable c = u @ v" "x = byte_len u"
      by (auto simp: is_char_boundary_iff)
    from truncate_stable_wf [OF assms u(1)] u(2) r Some xq show ?thesis
      by (auto simp: reopen_roman_tail_def)
  qed
qed

text \<open>The documented behaviour of the segmentation: clusters are consecutive pieces of the text.\<close>

definition segmentation :: "(ustring \<Rightarrow> ustring list) \<Rightarrow> bool" where
  "segmentation gs \<longleftrightarrow> (\<forall>t. concat (gs t) = t)"

lemma delete_before_cursor_wf:
  assumes "text_wf c" and "segmentation gs"
  shows "\<exists>c'. delete_before_cursor gs c rb = Some c' \<and> text_wf c' \<and> lk_suffix c' = lk_suffix c"
proof -
  obtain left suff where d: "journal_detach_suffix (lk_journal c) (composer_cursor c) = (left, suff)"
    by (cases "journal_detach_suffix (lk_journal c) (composer_cursor c)")
  note pw = text_wf_parts [OF assms(1)]
  let ?c1 = "c\<lparr>lk_journal := left\<rparr>"
  have fin: "text_wf (refresh_reading (c'\<lparr>lk_journal := j\<rparr>))" if "parts_wf c'" for c' j
    using that by (intro refresh_wf) simp
  show ?thesis
  proof (cases "lk_pending c = []")
    case False
    have "parts_wf (?c1\<lparr>lk_pending := butlast (lk_pending c)\<rparr>)" using pw by simp
    from reopen_roman_tail_wf [OF this] False fin show ?thesis
      by (auto simp: delete_before_cursor_def d Let_def) (simp add: refresh_reading_def)
  next
    case True
    define len where "len = (if rb
       then char_offset (lk_stable c) (previous_boundary (lk_stable c) (composer_cursor ?c1))
       else case gs (lk_stable c) of [] \<Rightarrow> 0
            | clusters \<Rightarrow> byte_len (lk_stable c) - byte_len (last clusters))"
    have "\<exists>a b. lk_stable c = a @ b \<and> len = byte_len a"
    proof (cases rb)
      case True
      then show ?thesis unfolding len_def char_offset_def
        by (metis append_take_drop_id)
    next
      case False
      have g: "concat (gs (lk_stable c)) = lk_stable c" using assms(2) by (simp add: segmentation_def)
      show ?thesis
      proof (cases "gs (lk_stable c)" rule: rev_cases)
        case (snoc ys y)
        obtain z zs where z: "ys @ [y] = z # zs" by (cases "ys @ [y]") auto
        then have "last (z # zs) = y" by (metis last_snoc)
        then have "len = byte_len (lk_stable c) - byte_len y"
          using False snoc z unfolding len_def by simp
        moreover have st: "lk_stable c = concat ys @ y" using g snoc by simp
        moreover from st have "byte_len (lk_stable c) = byte_len (concat ys) + byte_len y" by simp
        ultimately have "lk_stable c = concat ys @ y \<and> len = byte_len (concat ys)" by simp
        then show ?thesis by blast
      qed (use False len_def in auto)
    qed
    then obtain a b where ab: "lk_stable ?c1 = a @ b" "len = byte_len a" by auto
    have "parts_wf ?c1" using pw by simp
    from truncate_stable_wf [OF this ab(1)] obtain c2 where c2: "truncate_stable ?c1 len = Some c2"
      "parts_wf c2" "lk_suffix c2 = lk_suffix c" using ab(2) by auto
    from reopen_roman_tail_wf [OF c2(2)] obtain c3 where c3: "reopen_roman_tail c2 = Some c3"
      "parts_wf c3" "lk_suffix c3 = lk_suffix c2" by blast
    have "delete_before_cursor gs c rb = Some (refresh_reading (c3\<lparr>lk_journal :=
        fst (journal_append_suffix (lk_journal c3) suff (composer_cursor c3))\<rparr>))"
      using True c2(1) c3(1) unfolding len_def
      by (cases rb; cases "gs (lk_stable c)") (simp_all add: delete_before_cursor_def d Let_def)
    then show ?thesis using fin [OF c3(2)] c2(3) c3(3) by (simp add: refresh_reading_def)
  qed
qed

lemma seg_text_fold_append:
  "seg_text (fold (\<lambda>s segs. append_segment segs (sg_text s) (sg_style s)) ss segs)
   = seg_text segs @ seg_text ss"
  by (induction ss arbitrary: segs) auto

lemma replay_segments_text:
  "parts_wf c \<Longrightarrow> seg_text (replay_segments c) = lk_stable c @ lk_pending c @ lk_suffix c"
  by (simp add: replay_segments_def seg_text_fold_append parts_wf_def)

lemma split_segments_loop_text:
  "seg_text segs = a @ b \<Longrightarrow>
   \<exists>l r. split_segments_loop l0 r0 (byte_len a) segs = Some (l, r)
     \<and> seg_text l = seg_text l0 @ a \<and> seg_text r = seg_text r0 @ b"
proof (induction segs arbitrary: a b l0 r0)
  case (Cons s ss)
  show ?case
  proof (cases "byte_len a < byte_len (sg_text s)")
    case True
    from bytes_shorter [OF _ True, of b "seg_text ss"] Cons.prems obtain t'
      where t: "sg_text s = a @ t'" "b = t' @ seg_text ss" by auto
    from Cons.IH [of "[]" "seg_text ss" "append_segment l0 a (sg_style s)"
        "append_segment r0 t' (sg_style s)"]
    show ?thesis using t True by (auto simp: split_bytes_append Let_def min_def)
  next
    case False
    from bytes_longer [of a b "sg_text s" "seg_text ss"] Cons.prems False obtain a'
      where a: "a = sg_text s @ a'" "seg_text ss = a' @ b" by auto
    have sp: "split_bytes (byte_len (sg_text s)) (sg_text s) = Some (sg_text s, [])" by simp
    have app: "append_segment r0 [] (sg_style s) = r0" by (simp add: append_segment_def)
    from Cons.IH [OF a(2), of "append_segment l0 (sg_text s) (sg_style s)" r0]
    show ?thesis using a(1) False sp app by (auto simp: Let_def min_def)
  qed
qed simp

lemma split_segments_text:
  "seg_text segs = a @ b \<Longrightarrow>
   \<exists>l r. split_segments segs (byte_len a) = Some (l, r) \<and> seg_text l = a \<and> seg_text r = b"
  using split_segments_loop_text [of segs a b "[]" "[]"] by (simp add: split_segments_def)

lemma freeze_pending_wf:
  assumes "text_wf c"
  shows "parts_wf (freeze_pending c) \<and> lk_pending (freeze_pending c) = []
    \<and> lk_reading (freeze_pending c) = lk_reading c \<and> lk_suffix (freeze_pending c) = lk_suffix c
    \<and> lk_stable (freeze_pending c) = lk_stable c @ lk_pending c"
proof -
  obtain left suff where d: "journal_detach_suffix (lk_journal c) (composer_cursor c) = (left, suff)"
    by (cases "journal_detach_suffix (lk_journal c) (composer_cursor c)")
  have "parts_wf (append_input_unit (c\<lparr>lk_journal := left, lk_pending := []\<rparr>) (lk_pending c)
      StyleDirect (lk_pending c))"
    using text_wf_parts [OF assms] by (intro append_input_unit_parts) simp
  then show ?thesis using text_wf_parts [OF assms]
    by (simp add: freeze_pending_def d Let_def append_input_unit_def append_stable_def)
qed

lemma set_cursor_wf:
  assumes "text_wf c"
  shows "\<exists>c' moved. set_cursor c p = Some (c', moved) \<and> text_wf c' \<and> lk_reading c' = lk_reading c
    \<and> (moved \<longrightarrow> lk_pending c' = [] \<and> lk_automatic_literals c' = []) \<and> (\<not> moved \<longrightarrow> c' = c)"
proof (cases "legal_boundaries (lk_reading c)")
  case (Inl e)
  then have "set_cursor c p = Some (c, False)" by (simp add: set_cursor_def)
  then show ?thesis using assms by blast
next
  case (Inr ps)
  define nxt where "nxt = (case last_at_most ps p of None \<Rightarrow> 0 | Some q \<Rightarrow> q)"
  show ?thesis
  proof (cases "nxt = composer_cursor c")
    case True
    then have "set_cursor c p = Some (c, False)" using Inr by (simp add: set_cursor_def flip: nxt_def)
    then show ?thesis using assms by blast
  next
    case False
    let ?c1 = "freeze_pending c"
    note f = freeze_pending_wf [OF assms]
    have "seg_text (replay_segments ?c1) = lk_reading c"
      using f replay_segments_text [of ?c1] assms by (simp add: text_wf_def)
    then have "seg_text (replay_segments ?c1) = take nxt (lk_reading c) @ drop nxt (lk_reading c)"
      by simp
    from split_segments_text [OF this] obtain l r where
      "split_segments (replay_segments ?c1) (char_offset (lk_reading c) nxt) = Some (l, r)"
      "seg_text l = take nxt (lk_reading c)" "seg_text r = drop nxt (lk_reading c)"
      by (auto simp: char_offset_def)
    then show ?thesis using f Inr False
      by (intro exI [of _ "?c1\<lparr>lk_stable := take nxt (lk_reading c),
          lk_suffix := drop nxt (lk_reading c), lk_stable_segments := l, lk_suffix_segments := r,
          lk_automatic_literals := []\<rparr>"] exI [of _ True])
        (simp add: set_cursor_def Let_def text_wf_def flip: nxt_def)
  qed
qed

lemma move_cursor_wf:
  assumes "text_wf c"
  shows "\<exists>c' moved. move_cursor c d = Some (c', moved) \<and> text_wf c' \<and> lk_reading c' = lk_reading c"
  using assms set_cursor_wf [OF assms]
  by (auto simp: move_cursor_def split: sum.split option.split) metis+

lemma delete_forward_wf:
  assumes "text_wf c"
  shows "\<exists>c' deleted. delete_forward c = Some (c', deleted) \<and> text_wf c'
    \<and> lk_stable c' = lk_stable c \<and> lk_pending c' = lk_pending c"
proof -
  define nxt where "nxt = (case legal_boundaries (lk_reading c) of
     Inl _ \<Rightarrow> None | Inr ps \<Rightarrow> find (\<lambda>p. composer_cursor c < p) ps)"
  show ?thesis
  proof (cases nxt)
    case None
    then have "delete_forward c = Some (c, False)"
      by (simp add: delete_forward_def Let_def flip: nxt_def)
    then show ?thesis using assms by blast
  next
    case (Some n)
    let ?k = "n - composer_cursor c"
    obtain left suff where d: "journal_detach_suffix (lk_journal c) n = (left, suff)"
      by (cases "journal_detach_suffix (lk_journal c) n")
    note pw = text_wf_parts [OF assms]
    have "seg_text (lk_suffix_segments c) = take ?k (lk_suffix c) @ drop ?k (lk_suffix c)"
      using pw by (simp add: parts_wf_def)
    from split_segments_text [OF this] obtain l r where s:
      "split_segments (lk_suffix_segments c) (char_offset (lk_suffix c) ?k) = Some (l, r)"
      "seg_text r = drop ?k (lk_suffix c)" by (auto simp: char_offset_def)
    let ?c' = "\<lambda>j. c\<lparr>lk_journal := j, lk_suffix := drop ?k (lk_suffix c), lk_suffix_segments := r\<rparr>"
    have "parts_wf (?c' j)" for j using pw s(2) by (simp add: parts_wf_def)
    then have wf: "text_wf (refresh_reading (?c' j))" for j by (rule refresh_wf)
    have "\<exists>j. delete_forward c = Some (refresh_reading (?c' j), True)" using Some s(1)
      by (simp add: delete_forward_def Let_def d flip: nxt_def) blast
    then obtain j where "delete_forward c = Some (refresh_reading (?c' j), True)" by blast
    then show ?thesis using wf [of j]
      by (intro exI [of _ "refresh_reading (?c' j)"] exI [of _ True]) (simp add: refresh_reading_def)
  qed
qed

lemma finalize_pending_n_wf: "text_wf c \<Longrightarrow> text_wf (fst (finalize_pending_n c))"
proof -
  assume wf: "text_wf c"
  obtain left suff where d: "journal_detach_suffix (lk_journal c) (composer_cursor c) = (left, suff)"
    by (cases "journal_detach_suffix (lk_journal c) (composer_cursor c)")
  have "parts_wf (append_input_unit (c\<lparr>lk_journal := left, lk_pending := []\<rparr>) t st k)" for t st k
    using text_wf_parts [OF wf] by (intro append_input_unit_parts) simp
  then show ?thesis using wf
    by (auto simp: finalize_pending_n_def d Let_def intro!: refresh_wf)
qed

lemma preserve_literal_wf: "text_wf c \<Longrightarrow> text_wf (preserve_last_literal_original c x)"
  by (simp add: preserve_last_literal_original_def text_wf_def)

lemma reseed_wf: "text_wf (reseed_reading c r)"
proof -
  have "parts_wf (append_stable (c\<lparr>lk_journal := j, lk_suffix := [], lk_suffix_segments := [],
      lk_automatic_literals := [], lk_stable := [], lk_stable_segments := []\<rparr>) r StyleKana)" for j
    by (intro append_stable_parts) (simp add: parts_wf_def)
  then show ?thesis by (simp add: reseed_reading_def Let_def refresh_wf)
qed

lemma set_cursor_end_wf:
  assumes "text_wf c"
  shows "\<exists>c1. set_cursor_end c = Some c1 \<and> text_wf c1 \<and> lk_reading c1 = lk_reading c
    \<and> (c1 = c \<or> lk_pending c1 = [])"
proof (cases "lk_suffix c = []")
  case False
  from set_cursor_wf [OF assms, of "as_u32 (length (lk_reading c))"] obtain c' moved where
    "set_cursor c (as_u32 (length (lk_reading c))) = Some (c', moved)" "text_wf c'"
    "lk_reading c' = lk_reading c" "moved \<longrightarrow> lk_pending c' = []" "\<not> moved \<longrightarrow> c' = c" by blast
  then show ?thesis using False by (cases moved) (auto simp: set_cursor_end_def)
qed (use assms in \<open>simp add: set_cursor_end_def\<close>)

lemma composer_retain_prefix_wf:
  assumes "text_wf c"
  shows "\<exists>c' kept. composer_retain_prefix c pre = Some (c', kept) \<and> text_wf c'"
proof (cases "starts_with (lk_reading c) pre")
  case False
  then have "composer_retain_prefix c pre = Some (c, False)" by (simp add: composer_retain_prefix_def)
  then show ?thesis using assms by blast
next
  case True
  from set_cursor_end_wf [OF assms] obtain c1 where c1: "set_cursor_end c = Some c1" "text_wf c1"
    "lk_reading c1 = lk_reading c" by blast
  note pw = text_wf_parts [OF c1(2)]
  obtain r where r: "pre @ r = lk_stable c1 @ (lk_pending c1 @ lk_suffix c1)"
    using True c1(2,3) by (auto simp: starts_with_iff text_wf_def)
  show ?thesis
  proof (cases "byte_len pre \<le> byte_len (lk_stable c1)")
    case short: True
    obtain b where "lk_stable c1 = pre @ b"
      using bytes_longer [OF r [symmetric]] short by blast
    from truncate_stable_wf [OF pw this] obtain c2 where
      c2: "truncate_stable c1 (byte_len pre) = Some c2" "parts_wf c2" by blast
    then have "text_wf (refresh_reading (c2\<lparr>lk_pending := []\<rparr>))" by (intro refresh_wf) simp
    moreover have "composer_retain_prefix c pre =
        Some (refresh_reading (c2\<lparr>lk_pending := []\<rparr>), True)"
      using True c1 c2 short by (simp add: composer_retain_prefix_def)
    ultimately show ?thesis by blast
  next
    case False
    then obtain a' where a: "pre = lk_stable c1 @ a'"
      using bytes_longer [OF r] by auto
    have "parts_wf (append_input_unit (c1\<lparr>lk_pending := []\<rparr>) a' StyleDirect a')"
      using pw by (intro append_input_unit_parts) simp
    then have "text_wf (refresh_reading (append_input_unit (c1\<lparr>lk_pending := []\<rparr>) a' StyleDirect a'))"
      by (rule refresh_wf)
    moreover have "composer_retain_prefix c pre = Some (refresh_reading
        (append_input_unit (c1\<lparr>lk_pending := []\<rparr>) a' StyleDirect a'), True)"
      using True c1 False a by (simp add: composer_retain_prefix_def split_bytes_append)
    ultimately show ?thesis by blast
  qed
qed

lemma stable_suffix_loop_text:
  assumes "stable_suffix_loop start offset retained segs = Some (n, out)"
    and "seg_text segs = a @ b" and "byte_len a = start - offset"
    and "offset \<le> start \<or> a = []"
  shows "seg_text out = seg_text retained @ b"
  using assms
proof (induction start offset retained segs arbitrary: a b rule: stable_suffix_loop.induct)
  case (2 start offset retained s ss)
  let ?e = "offset + byte_len (sg_text s)"
  show ?case
  proof (cases "start < ?e")
    case True
    have "byte_len a < byte_len (sg_text s) \<or> a = []" using 2 True by auto
    then have "\<exists>t'. sg_text s = a @ t' \<and> b = t' @ seg_text ss"
      using bytes_shorter [of a b "sg_text s" "seg_text ss"] "2.prems"(2) by auto
    then obtain t' where t: "sg_text s = a @ t'" "b = t' @ seg_text ss" by blast
    have sp: "split_bytes (start - offset) (sg_text s) = Some (a, t')"
      using t(1) "2.prems"(3) by (simp add: split_bytes_Some)
    have "seg_text out = seg_text (append_segment retained t' (sg_style s)) @ seg_text ss"
      by (rule "2.IH"(1) [OF refl True sp refl, of "[]" "seg_text ss"])
        (use "2.prems"(1) True sp in \<open>auto simp: Let_def\<close>)
    then show ?thesis using t(2) by simp
  next
    case False
    then have le: "byte_len (sg_text s) \<le> byte_len a" using "2.prems"(3) by simp
    from bytes_longer [of a b "sg_text s" "seg_text ss"] "2.prems"(2) le obtain a'
      where a: "a = sg_text s @ a'" "seg_text ss = a' @ b" by auto
    have "offset \<le> start" using False by simp
    then show ?thesis
      using "2.IH"(2) [OF refl False _ a(2)] "2.prems"(1,3) a(1) False by (simp add: Let_def)
  qed
qed simp

lemma retained_stable_suffix_text:
  assumes "retained_stable_suffix gs c suf = Some (s', segs)" and "parts_wf c"
  shows "ends_with (lk_stable c) s' \<and> seg_text segs = s'"
proof -
  from assms(1) have e: "ends_with (lk_stable c) s'"
    and g: "stable_suffix_segments gs c (byte_len s') = Some segs"
    by (auto simp: retained_stable_suffix_def split: if_splits option.splits)
  from e obtain g0 where st: "lk_stable c = g0 @ s'" by (auto simp: ends_with_iff)
  show ?thesis
  proof (cases "s' = []")
    case True
    then show ?thesis using e g by (simp add: stable_suffix_segments_def)
  next
    case False
    then obtain n where "stable_suffix_loop (byte_len g0) 0 [] (lk_stable_segments c) = Some (n, segs)"
      using g st by (auto simp: stable_suffix_segments_def checked_sub_def split: if_splits option.splits)
    from stable_suffix_loop_text [OF this, of g0 s'] assms(2) st e show ?thesis
      by (simp add: parts_wf_def)
  qed
qed

lemma retain_suffix_wf:
  assumes "text_wf c"
  shows "\<exists>c' kept. retain_suffix gs c suf = Some (c', kept) \<and> text_wf c'"
proof (cases "lk_suffix c \<noteq> [] \<and> \<not> can_retain_suffix gs c suf")
  case True
  then have "retain_suffix gs c suf = Some (c, False)" by (simp add: retain_suffix_def)
  then show ?thesis using assms by blast
next
  case False
  from set_cursor_end_wf [OF assms] obtain c1 where c1: "set_cursor_end c = Some c1" "text_wf c1"
    by blast
  note pw = text_wf_parts [OF c1(2)]
  show ?thesis
  proof (cases "retained_stable_suffix gs c1 suf")
    case None
    then have "retain_suffix gs c suf = Some (c1, False)" using False c1 by (auto simp: retain_suffix_def)
    then show ?thesis using c1 by blast
  next
    case (Some r)
    obtain s' segs where r: "r = (s', segs)" by (cases r)
    from retained_stable_suffix_text [OF Some [unfolded r] pw] obtain g0
      where g: "lk_stable c1 = g0 @ s'" "seg_text segs = s'" by (auto simp: ends_with_iff)
    let ?lits = "List.map_filter (\<lambda>x. checked_sub x (byte_len g0)) (lk_automatic_literals c1)"
    have "literals_ok s' ?lits"
      using pw g boundary_suffix [of g0 s']
      by (auto simp: parts_wf_def literals_ok_def map_filter_def less_diff_conv2 checked_sub_def)
    then have "parts_wf (c1\<lparr>lk_journal := j, lk_automatic_literals := ?lits, lk_stable := s',
        lk_stable_segments := segs\<rparr>)" for j
      using pw g by (simp add: parts_wf_def)
    then have "text_wf (refresh_reading (c1\<lparr>lk_journal := j, lk_automatic_literals := ?lits,
        lk_stable := s', lk_stable_segments := segs\<rparr>))" for j
      by (rule refresh_wf)
    then show ?thesis using False c1 Some r g(1)
      by (auto simp: retain_suffix_def split_bytes_append Let_def)
  qed
qed

lemma adopt_conversion_reading_wf:
  assumes wf: "text_wf c" and len: "length (lk_reading c) \<le> u32_max"
  shows "\<exists>c' adopted. adopt_conversion_reading c r = Some (c', adopted) \<and> text_wf c'"
proof (cases "lk_reading c = r")
  case True
  then have "adopt_conversion_reading c r = Some (c, True)" by (simp add: adopt_conversion_reading_def)
  then show ?thesis using wf by blast
next
  case ne: False
  let ?norm = "normalize_reading (lk_reading c)"
  let ?n = "lk_suffix c = [] \<and> lk_pending c = ascii ''n''"
  have strip: "\<exists>s. strip_suffix ?norm (ascii ''n'') = Some s" if ?n
    using that wf
    by (simp add: strip_suffix_Some text_wf_def normalize_reading_def normalize_char_def)
  define res where "res = (if ?n then map_option (\<lambda>s. s @ [0x3093]) (strip_suffix ?norm (ascii ''n'')) else None)"
  have scrut: "(if ?n then (case strip_suffix ?norm (ascii ''n'') of
      None \<Rightarrow> None | Some s \<Rightarrow> Some (Some (s @ [0x3093]))) else Some None) = Some res"
    using strip by (auto simp: res_def)
  have body: "adopt_conversion_reading c r =
      (if ?norm \<noteq> r \<and> res \<noteq> Some r then Some (c, False)
       else (case set_cursor c 0 of None \<Rightarrow> None | Some (c1, _) \<Rightarrow>
         (case set_cursor c1 (as_u32 (length (lk_reading c))) of None \<Rightarrow> None | Some (c2, _) \<Rightarrow>
           Some (refresh_reading (append_stable (c2\<lparr>lk_stable := [], lk_stable_segments := []\<rparr>) r
             StyleDirect), True))))"
    unfolding adopt_conversion_reading_def Let_def scrut using ne by simp
  show ?thesis
  proof (cases "?norm \<noteq> r \<and> res \<noteq> Some r")
    case True
    then show ?thesis using body wf by auto
  next
    case False
    from set_cursor_wf [OF wf, of 0] obtain c1 m1 where c1: "set_cursor c 0 = Some (c1, m1)"
      "text_wf c1" "lk_reading c1 = lk_reading c" "m1 \<longrightarrow> lk_automatic_literals c1 = []"
      "\<not> m1 \<longrightarrow> c1 = c" by blast
    from set_cursor_wf [OF c1(2), of "as_u32 (length (lk_reading c))"] obtain c2 m2 where
      c2: "set_cursor c1 (as_u32 (length (lk_reading c))) = Some (c2, m2)" "text_wf c2"
      "m2 \<longrightarrow> lk_automatic_literals c2 = []" "\<not> m2 \<longrightarrow> c2 = c1" by blast
    have lit1: "lk_automatic_literals c1 = []"
    proof (cases m1)
      case False
      obtain ps where ps: "legal_boundaries (lk_reading c) = Inr ps"
        using legal_boundaries_total [OF len] by blast
      have "last_at_most ps 0 = Some 0 \<or> last_at_most ps 0 = None"
        by (auto simp: last_at_most_def find_Some_iff)
      then have "(case last_at_most ps 0 of None \<Rightarrow> 0 | Some q \<Rightarrow> q) = 0" by auto
      then have "composer_cursor c = 0"
        using c1(1) False ps by (auto simp: set_cursor_def Let_def split: if_splits option.splits)
      moreover have "length (lk_stable c) + length (lk_pending c) \<le> u32_max"
        using len wf by (simp add: text_wf_def)
      ultimately have "lk_stable c = []" by (simp add: composer_cursor_def)
      then show ?thesis using wf c1(5) False
        by (cases "lk_automatic_literals c") (auto simp: text_wf_def literals_ok_def)
    qed (use c1 in simp)
    have "lk_automatic_literals c2 = []" using lit1 c2 by (cases m2) auto
    then have "parts_wf (append_stable (c2\<lparr>lk_stable := [], lk_stable_segments := []\<rparr>) r StyleDirect)"
      using text_wf_parts [OF c2(2)] by (intro append_stable_parts) (simp add: parts_wf_def)
    then show ?thesis using body False c1(1) c2(1) refresh_wf by (auto split: prod.splits)
  qed
qed

section \<open>Sequences of operations\<close>

datatype composer_op =
  OpPush uchar input_style | OpBackspace | OpBackspaceAtCursor | OpClear | OpReseed ustring
| OpRetainPrefix ustring | OpRetainSuffix ustring | OpFinalizeN | OpPreserve uchar
| OpAdopt ustring | OpMove int | OpSetCursor reading_position | OpDeleteForward

fun run_op ::
  "(ustring \<Rightarrow> ustring list) \<Rightarrow> local_kana_composer \<Rightarrow> composer_op \<Rightarrow> local_kana_composer option"
where
  "run_op gs c (OpPush ch style) = composer_push c ch style"
| "run_op gs c OpBackspace = composer_backspace gs c"
| "run_op gs c OpBackspaceAtCursor = backspace_at_cursor gs c"
| "run_op gs c OpClear = Some (composer_clear c)"
| "run_op gs c (OpReseed r) = Some (reseed_reading c r)"
| "run_op gs c (OpRetainPrefix p) = map_option fst (composer_retain_prefix c p)"
| "run_op gs c (OpRetainSuffix s) = map_option fst (retain_suffix gs c s)"
| "run_op gs c OpFinalizeN = Some (fst (finalize_pending_n c))"
| "run_op gs c (OpPreserve ch) = Some (preserve_last_literal_original c ch)"
| "run_op gs c (OpAdopt r) = map_option fst (adopt_conversion_reading c r)"
| "run_op gs c (OpMove d) = map_option fst (move_cursor c d)"
| "run_op gs c (OpSetCursor p) = map_option fst (set_cursor c p)"
| "run_op gs c OpDeleteForward = map_option fst (delete_forward c)"

lemma run_op_wf:
  assumes "text_wf c" and "segmentation gs" and "length (lk_reading c) \<le> u32_max"
  shows "\<exists>c'. run_op gs c x = Some c' \<and> text_wf c'"
proof (cases x)
  case (OpPush ch style)
  then show ?thesis using composer_push_wf [OF assms(1), of ch style] by auto
next
  case OpBackspace
  then show ?thesis using delete_before_cursor_wf [OF assms(1,2), of False]
    by (auto simp: composer_backspace_def)
next
  case OpBackspaceAtCursor
  then show ?thesis using delete_before_cursor_wf [OF assms(1,2), of True]
    by (auto simp: backspace_at_cursor_def)
next
  case (OpRetainPrefix p)
  then show ?thesis using composer_retain_prefix_wf [OF assms(1), of p] by auto
next
  case (OpRetainSuffix s)
  then show ?thesis using retain_suffix_wf [OF assms(1), of gs s] by auto
next
  case (OpAdopt r)
  then show ?thesis using adopt_conversion_reading_wf [OF assms(1,3), of r] by auto
next
  case (OpMove d)
  then show ?thesis using move_cursor_wf [OF assms(1), of d] by auto
next
  case (OpSetCursor p)
  then show ?thesis using set_cursor_wf [OF assms(1), of p] by auto
next
  case OpDeleteForward
  then show ?thesis using delete_forward_wf [OF assms(1)] by auto
qed (use assms in \<open>auto intro: text_wf_clear reseed_wf finalize_pending_n_wf preserve_literal_wf\<close>)

text \<open>The composers a client can build, as long as readings fit the 32-bit positions.\<close>

inductive composer_reach :: "(ustring \<Rightarrow> ustring list) \<Rightarrow> local_kana_composer \<Rightarrow> bool" for gs where
  start: "composer_reach gs composer_default"
| step: "composer_reach gs c \<Longrightarrow> length (lk_reading c) \<le> u32_max \<Longrightarrow> run_op gs c x = Some c' \<Longrightarrow>
    composer_reach gs c'"

interpretation composer: event_machine "composer_reach gs" "\<lambda>c. c = composer_default"
    "\<lambda>c _. length (lk_reading c) \<le> u32_max" "run_op gs" "\<lambda>c. segmentation gs \<longrightarrow> text_wf c"
    "\<lambda>c _. segmentation gs \<and> length (lk_reading c) \<le> u32_max" for gs
proof unfold_locales
  fix P c
  assume "composer_reach gs c" and "\<And>c. c = composer_default \<Longrightarrow> P c"
    and "\<And>c c'. composer_reach gs c \<Longrightarrow> P c
      \<Longrightarrow> \<exists>x. length (lk_reading c) \<le> u32_max \<and> run_op gs c x = Some c' \<Longrightarrow> P c'"
  then show "P c" by (induction rule: composer_reach.induct) blast+
next
  fix c c'
  assume "segmentation gs \<longrightarrow> text_wf c" and "\<exists>x. length (lk_reading c) \<le> u32_max \<and> run_op gs c x = Some c'"
  then show "segmentation gs \<longrightarrow> text_wf c'" using run_op_wf [of c gs] by (metis option.inject)
next
  fix c x
  assume "segmentation gs \<longrightarrow> text_wf c" and "segmentation gs \<and> length (lk_reading c) \<le> u32_max"
  then show "run_op gs c x \<noteq> None" using run_op_wf [of c gs x] by auto
qed (simp add: text_wf_default)

text \<open>C33: no operation of the composer panics in any state a client can reach: it returns, the reading
  it shows is the stable text, the unfinished roman input and the text after the caret, and the replay
  segments spell exactly that reading.\<close>

theorem composer_never_panics:
  assumes "segmentation gs" and "composer_reach gs c" and "length (lk_reading c) \<le> u32_max"
  shows "\<exists>c'. run_op gs c x = Some c'
    \<and> lk_reading c' = lk_stable c' @ lk_pending c' @ lk_suffix c'
    \<and> seg_text (replay_segments c') = lk_reading c'"
proof -
  from composer.reach_returns_good [OF assms(2)] assms(1,3) obtain c'
    where c': "run_op gs c x = Some c'" "text_wf c'" by blast
  then show ?thesis
    using replay_segments_text [OF text_wf_parts [OF c'(2)]] by (auto simp: text_wf_def)
qed

theorem composer_never_panics_witness:
  "\<exists>c'. run_op (\<lambda>t. map (\<lambda>ch. [ch]) t) composer_default (OpPush 0x6b StyleKana) = Some c'
    \<and> lk_reading c' = lk_stable c' @ lk_pending c' @ lk_suffix c'
    \<and> seg_text (replay_segments c') = lk_reading c'"
proof (rule composer_never_panics)
  have "concat (map (\<lambda>ch. [ch]) t) = t" for t :: ustring by (induction t) auto
  then show "segmentation (\<lambda>t. map (\<lambda>ch. [ch]) t)" by (simp add: segmentation_def)
  show "composer_reach (\<lambda>t. map (\<lambda>ch. [ch]) t) composer_default" by (rule composer_reach.start)
  show "length (lk_reading composer_default) \<le> u32_max" by (simp add: composer_default_def)
qed

end
