(* ===== verification/Keymap_Settings.thy ===== *)
theory Keymap_Settings
  imports Rust_Text
begin

text \<open>
  The key binding vocabulary of \<open>crates/settings/src/keymap.rs\<close>: key names, chord
  syntax, default chords, validation and conflict detection. Errors carry the text their
  message quotes; the wording of the messages is not modelled.
\<close>

record key_chord =
  kc_vk :: nat
  kc_ctrl :: bool
  kc_shift :: bool
  kc_alt :: bool

datatype keymap_func =
  FnModeToggle | FnReconvert | FnFeedback | FnEphemeral | FnCommitUndo | FnTypoCorrect
| FnLlmConvert | FnToHiragana | FnToKatakana | FnToHankakuKana | FnToZenkakuEisu
| FnToHankakuEisu | FnNotationRotate | FnConvert

datatype func_group = GroupGlobal | GroupIdle | GroupComposing

datatype chord_error =
  DuplicateModifier ustring | SeveralKeys ustring | NoKey ustring | UnknownKey ustring
| AltNotAllowed | BareSpace | CtrlRequired

datatype binding = BindDefault | BindDisabled | BindChord key_chord

subsection \<open>Key names\<close>

definition named_keys :: "(ustring \<times> nat) list" where
  "named_keys =
    [(ascii ''Backspace'', 0x8),
     (ascii ''Tab'', 0x9),
     (ascii ''Space'', 0x20),
     (ascii ''Convert'', 0x1c),
     (ascii ''NonConvert'', 0x1d),
     (ascii ''Semicolon'', 0xba),
     (ascii ''Equal'', 0xbb),
     (ascii ''Comma'', 0xbc),
     (ascii ''Minus'', 0xbd),
     (ascii ''Period'', 0xbe),
     (ascii ''Slash'', 0xbf),
     (ascii ''Backquote'', 0xc0),
     (ascii ''HankakuZenkaku'', 0xf3),
     (ascii ''BracketLeft'', 0xdb),
     (ascii ''Backslash'', 0xdc),
     (ascii ''BracketRight'', 0xdd),
     (ascii ''Quote'', 0xde)]"

definition key_name_to_vk :: "ustring \<Rightarrow> nat option" where
  "key_name_to_vk name =
     (case map_of named_keys name of
        Some vk \<Rightarrow> Some vk
      | None \<Rightarrow>
     (case strip_prefix name (ascii ''Key'') of
        Some c \<Rightarrow> (case c of [b] \<Rightarrow> if is_ascii_uppercase b then Some b else None | _ \<Rightarrow> None)
      | None \<Rightarrow>
     (case strip_prefix name (ascii ''Digit'') of
        Some d \<Rightarrow> (case d of [b] \<Rightarrow> if is_ascii_digit b then Some (0x30 + (b - 0x30)) else None
                   | _ \<Rightarrow> None)
      | None \<Rightarrow>
     (case strip_prefix name (ascii ''F'') of
        Some n \<Rightarrow> (case parse_unsigned u32_max n of
            Some i \<Rightarrow> if 1 \<le> i \<and> i \<le> 24 \<and> n = show_nat i then Some (0x70 + i - 1) else None
          | None \<Rightarrow> None)
      | None \<Rightarrow> None))))"

definition vk_names :: "(nat \<times> ustring) list" where
  "vk_names =
    [(0x8, ascii ''Backspace''),
     (0x9, ascii ''Tab''),
     (0x1c, ascii ''Convert''),
     (0x1d, ascii ''NonConvert''),
     (0x20, ascii ''Space''),
     (0xba, ascii ''Semicolon''),
     (0xbb, ascii ''Equal''),
     (0xbc, ascii ''Comma''),
     (0xbd, ascii ''Minus''),
     (0xbe, ascii ''Period''),
     (0xbf, ascii ''Slash''),
     (0xc0, ascii ''Backquote''),
     (0xdb, ascii ''BracketLeft''),
     (0xdc, ascii ''Backslash''),
     (0xdd, ascii ''BracketRight''),
     (0xde, ascii ''Quote''),
     (0xf3, ascii ''HankakuZenkaku'')]"

text \<open>The arms of the source's match are disjoint, so their order does not matter.\<close>

definition vk_to_key_name :: "nat \<Rightarrow> ustring option" where
  "vk_to_key_name vk =
     (if 0x30 \<le> vk \<and> vk \<le> 0x39 then Some (ascii ''Digit'' @ show_nat (vk - 0x30))
      else if 0x41 \<le> vk \<and> vk \<le> 0x5A then Some (ascii ''Key'' @ [vk])
      else if 0x70 \<le> vk \<and> vk \<le> 0x87 then Some (ascii ''F'' @ show_nat (vk - 0x70 + 1))
      else map_of vk_names vk)"

subsection \<open>Chord syntax\<close>

text \<open>The loop over the parts: \<open>acc\<close> is the three modifier flags and the key name so far.\<close>

fun parse_parts ::
  "ustring \<Rightarrow> bool \<times> bool \<times> bool \<Rightarrow> ustring option \<Rightarrow> ustring list
   \<Rightarrow> chord_error + (bool \<times> bool \<times> bool) \<times> ustring option"
where
  "parse_parts s mods key [] = Inr (mods, key)"
| "parse_parts s (ctrl, shift, alt) key (p # ps) =
     (if p = ascii ''Ctrl'' \<and> \<not> ctrl then parse_parts s (True, shift, alt) key ps
      else if p = ascii ''Shift'' \<and> \<not> shift then parse_parts s (ctrl, True, alt) key ps
      else if p = ascii ''Alt'' \<and> \<not> alt then parse_parts s (ctrl, shift, True) key ps
      else if p = ascii ''Ctrl'' \<or> p = ascii ''Shift'' \<or> p = ascii ''Alt''
      then Inl (DuplicateModifier s)
      else if key \<noteq> None then Inl (SeveralKeys s)
      else parse_parts s (ctrl, shift, alt) (Some p) ps)"

definition parse_chord :: "ustring \<Rightarrow> chord_error + key_chord" where
  "parse_chord s =
     (case parse_parts s (False, False, False) None (split_on (of_char CHR ''+'') s) of
        Inl e \<Rightarrow> Inl e
      | Inr (_, None) \<Rightarrow> Inl (NoKey s)
      | Inr ((ctrl, shift, alt), Some name) \<Rightarrow>
          (case key_name_to_vk name of
             None \<Rightarrow> Inl (UnknownKey name)
           | Some vk \<Rightarrow> Inr \<lparr>kc_vk = vk, kc_ctrl = ctrl, kc_shift = shift, kc_alt = alt\<rparr>))"

definition format_chord :: "key_chord \<Rightarrow> ustring" where
  "format_chord c =
     (if kc_ctrl c then ascii ''Ctrl+'' else [])
     @ (if kc_shift c then ascii ''Shift+'' else [])
     @ (if kc_alt c then ascii ''Alt+'' else [])
     @ (case vk_to_key_name (kc_vk c) of Some n \<Rightarrow> n | None \<Rightarrow> ascii ''?'')"

definition resolve_binding :: "ustring option \<Rightarrow> binding" where
  "resolve_binding v =
     (case v of
        None \<Rightarrow> BindDefault
      | Some s \<Rightarrow>
          (if s = ascii ''none'' then BindDisabled
           else case parse_chord s of Inr c \<Rightarrow> BindChord c | Inl _ \<Rightarrow> BindDefault))"

subsection \<open>Functions, groups and default chords\<close>

definition all_funcs :: "keymap_func list" where
  "all_funcs =
    [FnModeToggle, FnReconvert, FnFeedback, FnEphemeral, FnCommitUndo, FnTypoCorrect,
     FnLlmConvert, FnToHiragana, FnToKatakana, FnToHankakuKana, FnToZenkakuEisu,
     FnToHankakuEisu, FnNotationRotate, FnConvert]"

fun func_group_of :: "keymap_func \<Rightarrow> func_group" where
  "func_group_of FnModeToggle = GroupGlobal"
| "func_group_of FnReconvert = GroupGlobal"
| "func_group_of FnFeedback = GroupGlobal"
| "func_group_of FnEphemeral = GroupIdle"
| "func_group_of FnCommitUndo = GroupIdle"
| "func_group_of _ = GroupComposing"

definition is_preserved :: "keymap_func \<Rightarrow> bool" where
  "is_preserved f \<longleftrightarrow> func_group_of f = GroupGlobal"

definition alt_allowed :: "keymap_func \<Rightarrow> bool" where
  "alt_allowed f = is_preserved f"

fun settings_field :: "keymap_func \<Rightarrow> ustring" where
  "settings_field FnModeToggle = ascii ''mode_toggle''"
| "settings_field FnReconvert = ascii ''reconvert''"
| "settings_field FnFeedback = ascii ''feedback''"
| "settings_field FnEphemeral = ascii ''ephemeral''"
| "settings_field FnCommitUndo = ascii ''commit_undo''"
| "settings_field FnTypoCorrect = ascii ''typo_correct''"
| "settings_field FnLlmConvert = ascii ''llm_convert''"
| "settings_field FnToHiragana = ascii ''to_hiragana''"
| "settings_field FnToKatakana = ascii ''to_katakana''"
| "settings_field FnToHankakuKana = ascii ''to_hankaku_kana''"
| "settings_field FnToZenkakuEisu = ascii ''to_zenkaku_eisu''"
| "settings_field FnToHankakuEisu = ascii ''to_hankaku_eisu''"
| "settings_field FnNotationRotate = ascii ''notation_rotate''"
| "settings_field FnConvert = ascii ''convert''"

definition bare_special :: "nat \<Rightarrow> bool \<Rightarrow> bool \<Rightarrow> bool \<Rightarrow> bool" where
  "bare_special vk ctrl shift alt \<longleftrightarrow>
     \<not> ctrl \<and> \<not> shift \<and> \<not> alt \<and> (vk = 0x1C \<or> vk = 0x1D \<or> vk = 0xF3)"

definition conflict_group :: "keymap_func \<Rightarrow> key_chord \<Rightarrow> func_group" where
  "conflict_group f chord =
     (if is_preserved f \<and> bare_special (kc_vk chord) (kc_ctrl chord) (kc_shift chord) (kc_alt chord)
      then (case f of FnReconvert \<Rightarrow> GroupIdle | _ \<Rightarrow> GroupGlobal)
      else func_group_of f)"

definition bare :: "nat \<Rightarrow> key_chord" where
  "bare vk = \<lparr>kc_vk = vk, kc_ctrl = False, kc_shift = False, kc_alt = False\<rparr>"

definition legacy_ephemeral_chord :: "ustring \<Rightarrow> key_chord" where
  "legacy_ephemeral_chord name =
     \<lparr>kc_vk = (if name = ascii ''f9'' then 0x78 else if name = ascii ''f10'' then 0x79 else 0x77),
      kc_ctrl = False, kc_shift = False, kc_alt = False\<rparr>"

fun default_chords :: "keymap_func \<Rightarrow> ustring \<Rightarrow> key_chord list" where
  "default_chords FnModeToggle _ = [bare 0x1D, (bare 0xBA)\<lparr>kc_alt := True\<rparr>, bare 0xF3]"
| "default_chords FnReconvert _ = [bare 0x1C, (bare 0xBF)\<lparr>kc_alt := True\<rparr>]"
| "default_chords FnFeedback _ = [(bare 0x1C)\<lparr>kc_ctrl := True\<rparr>, (bare 0xBF)\<lparr>kc_ctrl := True\<rparr>]"
| "default_chords FnEphemeral legacy = [legacy_ephemeral_chord legacy]"
| "default_chords FnCommitUndo _ = [(bare 0x08)\<lparr>kc_ctrl := True\<rparr>]"
| "default_chords FnTypoCorrect _ = [bare 0x09]"
| "default_chords FnLlmConvert _ = [(bare 0x09)\<lparr>kc_shift := True\<rparr>]"
| "default_chords FnToHiragana _ = [bare 0x75]"
| "default_chords FnToKatakana _ = [bare 0x76]"
| "default_chords FnToHankakuKana _ = [bare 0x77]"
| "default_chords FnToZenkakuEisu _ = [bare 0x78]"
| "default_chords FnToHankakuEisu _ = [bare 0x79]"
| "default_chords FnNotationRotate _ = [bare 0x1D]"
| "default_chords FnConvert _ = [bare 0x20, bare 0x1C]"

definition standalone_ok :: "nat \<Rightarrow> bool" where
  "standalone_ok vk \<longleftrightarrow> 0x70 \<le> vk \<and> vk \<le> 0x87 \<or> vk = 0x1C \<or> vk = 0x1D \<or> vk = 0x08 \<or> vk = 0x09 \<or> vk = 0xF3"

definition validate_binding :: "keymap_func \<Rightarrow> ustring \<Rightarrow> chord_error + unit" where
  "validate_binding f value =
     (if value = ascii ''none'' then Inr ()
      else case parse_chord value of
        Inl e \<Rightarrow> Inl e
      | Inr c \<Rightarrow>
          (if kc_alt c \<and> \<not> alt_allowed f then Inl AltNotAllowed
           else if kc_vk c = 0x20 then
             (if \<not> kc_ctrl c \<and> \<not> kc_shift c \<and> \<not> kc_alt c then Inl BareSpace else Inr ())
           else if \<not> standalone_ok (kc_vk c) \<and> \<not> kc_ctrl c \<and> \<not> kc_alt c then Inl CtrlRequired
           else Inr ()))"

subsection \<open>Settings and conflicts\<close>

record keymap_settings =
  ks_mode_toggle :: "ustring option"
  ks_reconvert :: "ustring option"
  ks_feedback :: "ustring option"
  ks_ephemeral :: "ustring option"
  ks_commit_undo :: "ustring option"
  ks_typo_correct :: "ustring option"
  ks_llm_convert :: "ustring option"
  ks_to_hiragana :: "ustring option"
  ks_to_katakana :: "ustring option"
  ks_to_hankaku_kana :: "ustring option"
  ks_to_zenkaku_eisu :: "ustring option"
  ks_to_hankaku_eisu :: "ustring option"
  ks_notation_rotate :: "ustring option"
  ks_convert :: "ustring option"

fun keymap_get :: "keymap_settings \<Rightarrow> keymap_func \<Rightarrow> ustring option" where
  "keymap_get km FnModeToggle = ks_mode_toggle km"
| "keymap_get km FnReconvert = ks_reconvert km"
| "keymap_get km FnFeedback = ks_feedback km"
| "keymap_get km FnEphemeral = ks_ephemeral km"
| "keymap_get km FnCommitUndo = ks_commit_undo km"
| "keymap_get km FnTypoCorrect = ks_typo_correct km"
| "keymap_get km FnLlmConvert = ks_llm_convert km"
| "keymap_get km FnToHiragana = ks_to_hiragana km"
| "keymap_get km FnToKatakana = ks_to_katakana km"
| "keymap_get km FnToHankakuKana = ks_to_hankaku_kana km"
| "keymap_get km FnToZenkakuEisu = ks_to_zenkaku_eisu km"
| "keymap_get km FnToHankakuEisu = ks_to_hankaku_eisu km"
| "keymap_get km FnNotationRotate = ks_notation_rotate km"
| "keymap_get km FnConvert = ks_convert km"

record conflict =
  cf_a :: keymap_func
  cf_b :: keymap_func
  cf_chord :: key_chord

record feature_flags =
  ff_ephemeral :: bool
  ff_feedback :: bool
  ff_typo :: bool
  ff_llm :: bool

fun feature_on :: "feature_flags \<Rightarrow> keymap_func \<Rightarrow> bool" where
  "feature_on ff FnEphemeral = ff_ephemeral ff"
| "feature_on ff FnFeedback = ff_feedback ff"
| "feature_on ff FnTypoCorrect = ff_typo ff"
| "feature_on ff FnLlmConvert = ff_llm ff"
| "feature_on ff _ = True"

fun collect_chords ::
  "ustring \<Rightarrow> feature_flags \<Rightarrow> (keymap_func \<times> ustring option) list \<Rightarrow> (keymap_func \<times> key_chord) list"
where
  "collect_chords legacy ff [] = []"
| "collect_chords legacy ff ((f, v) # es) =
     (if \<not> feature_on ff f then []
      else case resolve_binding v of
        BindDisabled \<Rightarrow> []
      | BindChord c \<Rightarrow> [(f, c)]
      | BindDefault \<Rightarrow> map (\<lambda>c. (f, c)) (default_chords f legacy))
     @ collect_chords legacy ff es"

definition clashes :: "keymap_func \<times> key_chord \<Rightarrow> keymap_func \<times> key_chord \<Rightarrow> bool" where
  "clashes x y =
     (let (fa, ca) = x; (fb, cb) = y; ga = conflict_group fa ca; gb = conflict_group fb cb;
          cross_group_ok = (ga \<noteq> gb \<and> ga \<noteq> GroupGlobal \<and> gb \<noteq> GroupGlobal);
          global_composing_exempt =
            (bare_special (kc_vk ca) (kc_ctrl ca) (kc_shift ca) (kc_alt ca)
             \<and> (case (ga, gb) of
                  (GroupGlobal, GroupComposing) \<Rightarrow> fa = FnModeToggle
                | (GroupComposing, GroupGlobal) \<Rightarrow> fb = FnModeToggle
                | _ \<Rightarrow> False))
      in ca = cb \<and> \<not> cross_group_ok \<and> \<not> global_composing_exempt)"

fun clash_pairs :: "(keymap_func \<times> key_chord) list \<Rightarrow> conflict list" where
  "clash_pairs [] = []"
| "clash_pairs (x # xs) =
     map (\<lambda>y. \<lparr>cf_a = fst x, cf_b = fst y, cf_chord = snd x\<rparr>) (filter (clashes x) xs)
     @ clash_pairs xs"

definition find_conflicts_in ::
  "(keymap_func \<times> ustring option) list \<Rightarrow> ustring \<Rightarrow> feature_flags \<Rightarrow> conflict list"
where
  "find_conflicts_in entries legacy ff = clash_pairs (collect_chords legacy ff entries)"

definition find_conflicts :: "keymap_settings \<Rightarrow> ustring \<Rightarrow> feature_flags \<Rightarrow> conflict list" where
  "find_conflicts km legacy ff =
     find_conflicts_in (map (\<lambda>f. (f, keymap_get km f)) all_funcs) legacy ff"

subsection \<open>Key names are a bijection\<close>

lemma split_on_plus_fresh: "of_char CHR ''+'' = (0x2B :: nat)"
  by simp

definition plain_name :: "ustring \<Rightarrow> bool" where
  "plain_name n \<longleftrightarrow> 0x2B \<notin> set n \<and> n \<noteq> ascii ''Ctrl'' \<and> n \<noteq> ascii ''Shift'' \<and> n \<noteq> ascii ''Alt''"

definition name_ok :: "nat \<Rightarrow> bool" where
  "name_ok vk = (case vk_to_key_name vk of None \<Rightarrow> True
     | Some n \<Rightarrow> key_name_to_vk n = Some vk \<and> plain_name n)"

lemma show_nat_digit: "n < 10 \<Longrightarrow> show_nat n = [0x30 + n]"
  by (subst show_nat.simps) simp

lemma name_of_digit:
  "is_ascii_digit b \<Longrightarrow> key_name_to_vk (ascii ''Digit'' @ [b]) = Some b"
  by (simp add: key_name_to_vk_def named_keys_def strip_prefix_def starts_with_def is_ascii_digit_def)

lemma name_of_letter:
  "is_ascii_uppercase b \<Longrightarrow> key_name_to_vk (ascii ''Key'' @ [b]) = Some b"
  by (simp add: key_name_to_vk_def named_keys_def strip_prefix_def starts_with_def)

lemma name_of_function_key:
  "1 \<le> i \<Longrightarrow> i \<le> 24 \<Longrightarrow> key_name_to_vk (ascii ''F'' @ show_nat i) = Some (0x70 + i - 1)"
  using parse_show_nat [of i u32_max]
  by (simp add: key_name_to_vk_def named_keys_def strip_prefix_def starts_with_def)

lemma vk_names_ok: "list_all (\<lambda>(vk, n). key_name_to_vk n = Some vk \<and> plain_name n) vk_names"
  by (simp add: vk_names_def plain_name_def key_name_to_vk_def named_keys_def)

lemma name_round:
  assumes "vk_to_key_name vk = Some n"
  shows "key_name_to_vk n = Some vk \<and> plain_name n"
proof -
  consider (digit) "0x30 \<le> vk" "vk \<le> 0x39" | (letter) "0x41 \<le> vk" "vk \<le> 0x5A"
    | (fkey) "0x70 \<le> vk" "vk \<le> 0x87" | (named) "map_of vk_names vk = Some n"
    using assms by (auto simp: vk_to_key_name_def split: if_splits)
  then show ?thesis
  proof cases
    case digit
    then have "n = ascii ''Digit'' @ [vk]"
      using assms by (auto simp: vk_to_key_name_def show_nat_digit)
    then show ?thesis using digit name_of_digit [of vk]
      by (simp add: is_ascii_digit_def plain_name_def)
  next
    case letter
    then have "n = ascii ''Key'' @ [vk]" using assms by (auto simp: vk_to_key_name_def)
    then show ?thesis using letter name_of_letter [of vk]
      by (simp add: is_ascii_uppercase_def plain_name_def)
  next
    case fkey
    then have "n = ascii ''F'' @ show_nat (vk - 0x70 + 1)" using assms by (auto simp: vk_to_key_name_def)
    then show ?thesis
      using fkey name_of_function_key [where i = "vk - 0x70 + 1"]
        show_nat_mem [where c = "0x2B" and n = "vk - 0x70 + 1"]
      by (auto simp: plain_name_def)
  next
    case named
    then show ?thesis using vk_names_ok by (auto simp: list_all_iff dest!: map_of_SomeD)
  qed
qed

lemma named_keys_ok: "list_all (\<lambda>(n, vk). vk_to_key_name vk = Some n) named_keys"
  by (simp add: named_keys_def vk_to_key_name_def vk_names_def)

lemma vk_of_name_known:
  assumes "key_name_to_vk n = Some vk"
  shows "vk_to_key_name vk = Some n"
proof (cases "map_of named_keys n")
  case (Some v)
  then show ?thesis using assms named_keys_ok
    by (auto simp: key_name_to_vk_def list_all_iff dest!: map_of_SomeD)
next
  case none: None
  show ?thesis
  proof (cases "strip_prefix n (ascii ''Key'')")
    case (Some c)
    have "(case c of [b] \<Rightarrow> if is_ascii_uppercase b then Some b else None | _ \<Rightarrow> None) = Some vk"
      using assms unfolding key_name_to_vk_def none Some by simp
    then have "n = ascii ''Key'' @ [vk] \<and> is_ascii_uppercase vk" using Some
      by (auto simp: strip_prefix_Some split: list.splits if_splits)
    then show ?thesis by (simp add: vk_to_key_name_def is_ascii_uppercase_def)
  next
    case nokey: None
    show ?thesis
    proof (cases "strip_prefix n (ascii ''Digit'')")
      case (Some d)
      have "(case d of [b] \<Rightarrow> if is_ascii_digit b then Some (0x30 + (b - 0x30)) else None | _ \<Rightarrow> None)
          = Some vk"
        using assms unfolding key_name_to_vk_def none nokey Some by simp
      then have "n = ascii ''Digit'' @ [vk] \<and> is_ascii_digit vk" using Some
        by (auto simp: strip_prefix_Some is_ascii_digit_def split: list.splits if_splits)
      then show ?thesis by (auto simp: vk_to_key_name_def is_ascii_digit_def show_nat_digit)
    next
      case None
      have "\<exists>i. n = ascii ''F'' @ show_nat i \<and> 1 \<le> i \<and> i \<le> 24 \<and> vk = 0x70 + i - 1"
        using assms unfolding key_name_to_vk_def none nokey None
        by (auto simp: strip_prefix_Some split: option.splits if_splits)
      then show ?thesis by (auto simp: vk_to_key_name_def)
    qed
  qed
qed

subsection \<open>Chord syntax round trip\<close>

lemma parse_parts_name:
  "plain_name n \<Longrightarrow> parse_parts s ms None [n] = Inr (ms, Some n)"
  by (cases ms) (simp add: plain_name_def)

lemma format_chord_parts:
  assumes "vk_to_key_name (kc_vk c) = Some n"
  shows "split_on 0x2B (format_chord c) =
    (if kc_ctrl c then [ascii ''Ctrl''] else []) @ (if kc_shift c then [ascii ''Shift''] else [])
    @ (if kc_alt c then [ascii ''Alt''] else []) @ [n]"
proof -
  have "0x2B \<notin> set n" using name_round [OF assms] by (simp add: plain_name_def)
  then have "split_on 0x2B n = [n]" by (rule split_on_fresh)
  then show ?thesis using assms by (simp add: format_chord_def)
qed

lemma parse_format_chord:
  assumes "vk_to_key_name (kc_vk c) = Some n"
  shows "parse_chord (format_chord c) = Inr c"
  using name_round [OF assms] format_chord_parts [OF assms]
  by (cases "kc_ctrl c"; cases "kc_shift c"; cases "kc_alt c") (auto simp: parse_chord_def plain_name_def)

lemma parse_chord_known: "parse_chord s = Inr c \<Longrightarrow> \<exists>n. vk_to_key_name (kc_vk c) = Some n"
  by (auto simp: parse_chord_def dest!: vk_of_name_known split: sum.splits prod.splits option.splits)

text \<open>C39: the chord syntax round trips: the canonical spelling of a chord parses back to that chord,
  exactly for the chords whose key has a name; and whatever text is accepted, with its modifiers in any
  order, its canonical spelling means the same chord.\<close>

theorem chord_round_trip:
  "(parse_chord (format_chord c) = Inr c \<longleftrightarrow> vk_to_key_name (kc_vk c) \<noteq> None)
   \<and> (\<nexists>s d. parse_chord s = Inr d \<and> parse_chord (format_chord d) \<noteq> Inr d)"
  using parse_format_chord parse_chord_known by (metis option.distinct(1) option.exhaust)

subsection \<open>Strict validation against lenient resolution\<close>

text \<open>What the settings application accepts for a function is what the text service binds, never its
  default: "none" disables, anything else is the parsed chord, which uses Alt only for a function the
  system registers and never captures a character key that is not combined with Ctrl, with Alt, or, for
  Space alone, with Shift.\<close>

theorem validated_binding_effective:
  "validate_binding f v = Inr () \<longleftrightarrow>
   resolve_binding (Some v) = BindDisabled
   \<or> (\<exists>c. resolve_binding (Some v) = BindChord c \<and> \<not> (kc_alt c \<and> \<not> is_preserved f)
      \<and> (kc_ctrl c \<or> kc_alt c \<or> standalone_ok (kc_vk c) \<or> kc_vk c = 0x20 \<and> kc_shift c))"
proof -
  have "\<not> standalone_ok 0x20" by (simp add: standalone_ok_def)
  then show ?thesis
    by (auto simp: validate_binding_def resolve_binding_def alt_allowed_def
        simp del: ascii_simps split: sum.splits if_splits)
qed

subsection \<open>Conflict detection\<close>

lemma clashes_commute: "clashes x y \<longleftrightarrow> clashes y x"
  by (cases x; cases y) (auto simp: clashes_def Let_def split: func_group.splits)

lemma clash_pairs_Nil: "clash_pairs xs = [] \<longleftrightarrow> sorted_wrt (\<lambda>x y. \<not> clashes x y) xs"
  by (induction xs) (auto simp: filter_empty_conv)

lemma clash_pairs_free:
  "clash_pairs xs = [] \<Longrightarrow> x \<in> set xs \<Longrightarrow> y \<in> set xs \<Longrightarrow> x \<noteq> y \<Longrightarrow> \<not> clashes x y"
proof (induction xs)
  case (Cons z zs)
  then show ?case by (auto simp: filter_empty_conv clashes_commute [of _ z])
qed simp

text \<open>The chords a setting makes effective.\<close>

definition effective_chords :: "ustring \<Rightarrow> keymap_func \<Rightarrow> ustring option \<Rightarrow> key_chord list" where
  "effective_chords legacy f v =
     (case resolve_binding v of BindDisabled \<Rightarrow> [] | BindChord c \<Rightarrow> [c]
      | BindDefault \<Rightarrow> default_chords f legacy)"

lemma collect_chords_mem:
  "(f, c) \<in> set (collect_chords legacy ff es) \<longleftrightarrow>
   (\<exists>v. (f, v) \<in> set es \<and> feature_on ff f \<and> c \<in> set (effective_chords legacy f v))"
proof (induction es)
  case (Cons e es)
  obtain g w where e: "e = (g, w)" by (cases e)
  have "set (collect_chords legacy ff (e # es)) =
      (if feature_on ff g then Pair g ` set (effective_chords legacy g w) else {})
      \<union> set (collect_chords legacy ff es)"
    by (auto simp: e effective_chords_def split: binding.splits)
  then show ?case using Cons by (auto simp: e)
qed simp

lemma all_funcs_complete: "f \<in> set all_funcs"
  by (cases f) (simp_all add: all_funcs_def)

definition bound :: "keymap_settings \<Rightarrow> ustring \<Rightarrow> feature_flags \<Rightarrow> keymap_func \<Rightarrow> key_chord \<Rightarrow> bool" where
  "bound km legacy ff f c \<longleftrightarrow> feature_on ff f \<and> c \<in> set (effective_chords legacy f (keymap_get km f))"

lemma bound_collected:
  "bound km legacy ff f c \<longleftrightarrow>
   (f, c) \<in> set (collect_chords legacy ff (map (\<lambda>f. (f, keymap_get km f)) all_funcs))"
  using all_funcs_complete [of f] by (auto simp: bound_def collect_chords_mem)

lemma no_conflict_bound:
  assumes "find_conflicts km legacy ff = []"
    and "bound km legacy ff f c" and "bound km legacy ff g c" and "f \<noteq> g"
  shows "\<not> clashes (f, c) (g, c)"
  using assms clash_pairs_free [of "collect_chords legacy ff (map (\<lambda>f. (f, keymap_get km f)) all_funcs)"
      "(f, c)" "(g, c)"]
  by (simp add: find_conflicts_def find_conflicts_in_def bound_collected)

lemma clashes_same_group:
  "conflict_group f c = conflict_group g c \<Longrightarrow> clashes (f, c) (g, c)"
  by (simp add: clashes_def split: func_group.splits)

text \<open>Two bound chords that cannot answer the same key press.\<close>

fun keys_apart :: "keymap_func \<times> key_chord \<Rightarrow> keymap_func \<times> key_chord \<Rightarrow> bool" where
  "keys_apart (f, c) (g, d) \<longleftrightarrow> c \<noteq> d
     \<or> {conflict_group f c, conflict_group g c} = {GroupIdle, GroupComposing}
     \<or> bare_special (kc_vk c) (kc_ctrl c) (kc_shift c) (kc_alt c)
       \<and> (f = FnModeToggle \<and> conflict_group g c = GroupComposing
        \<or> g = FnModeToggle \<and> conflict_group f c = GroupComposing)"

lemma clashes_keys_apart: "clashes x y \<longleftrightarrow> \<not> keys_apart x y"
proof (cases x; cases y)
  fix f c g d
  assume xy: "x = (f, c)" "y = (g, d)"
  have t: "conflict_group FnModeToggle c = GroupGlobal"
    by (simp add: conflict_group_def is_preserved_def)
  show ?thesis
    by (cases "c = d"; cases "conflict_group f c"; cases "conflict_group g c")
      (use t xy in \<open>auto simp: clashes_def doubleton_eq_iff\<close>)
qed

text \<open>Conflict detection is exact: it reports nothing exactly when no two enabled functions share an
  effective chord in contexts that can meet, that is unless one is limited to idle and the other to
  composing, or the chord is a bare conversion key shared by the mode toggle and a composing function.\<close>

theorem find_conflicts_exact:
  "find_conflicts km legacy ff = [] \<longleftrightarrow>
   sorted_wrt keys_apart (collect_chords legacy ff (map (\<lambda>f. (f, keymap_get km f)) all_funcs))"
proof -
  have "(\<lambda>x y. \<not> clashes x y) = keys_apart" by (simp add: fun_eq_iff clashes_keys_apart)
  then show ?thesis by (simp add: find_conflicts_def find_conflicts_in_def clash_pairs_Nil)
qed

end
