(* ===== verification/Keymap.thy ===== *)
theory Keymap
  imports Keymap_Settings "HOL-Library.Word"
begin

text \<open>
  The resolved key bindings of the text service and the role of a key event,
  \<open>crates/tip/src/keymap.rs\<close>. The identifiers under which a chord is registered with
  the system are abstract constructors (\<open>globals.rs\<close> gives them as GUIDs); the modifier
  bits of the Windows API are the parameters \<open>tm\<close>.
\<close>

datatype notation_kind = NotHiragana | NotKatakana | NotHankakuKana | NotZenkakuEisu | NotHankakuEisu

definition normalize_vk :: "nat \<Rightarrow> nat" where
  "normalize_vk vk = (if vk = 0x19 \<or> vk = 0xF4 then 0xF3 else vk)"

fun next_notation :: "notation_kind option \<Rightarrow> notation_kind" where
  "next_notation (Some NotKatakana) = NotHankakuKana"
| "next_notation (Some NotHankakuKana) = NotHiragana"
| "next_notation _ = NotKatakana"

definition notations_table :: "(keymap_func \<times> notation_kind) list" where
  "notations_table =
    [(FnToHiragana, NotHiragana), (FnToKatakana, NotKatakana), (FnToHankakuKana, NotHankakuKana),
     (FnToZenkakuEisu, NotZenkakuEisu), (FnToHankakuEisu, NotHankakuEisu)]"

record keymap =
  km_mode_toggle :: binding
  km_reconvert :: binding
  km_feedback :: binding
  km_ephemeral :: "key_chord option"
  km_commit_undo :: "key_chord option"
  km_typo :: "key_chord option"
  km_llm :: "key_chord option"
  km_notations :: "key_chord option list"
  km_notation_rotate :: "key_chord option"
  km_convert :: "key_chord option list"

definition sink_chord :: "ustring option \<Rightarrow> keymap_func \<Rightarrow> ustring \<Rightarrow> key_chord option" where
  "sink_chord v f legacy =
     (case resolve_binding v of
        BindDefault \<Rightarrow> Some (default_chords f legacy ! 0)
      | BindDisabled \<Rightarrow> None
      | BindChord c \<Rightarrow> Some c)"

definition convert_chords :: "ustring option \<Rightarrow> key_chord option list" where
  "convert_chords v =
     (case resolve_binding v of
        BindDefault \<Rightarrow> (let d = default_chords FnConvert [] in [Some (d ! 0), Some (d ! 1)])
      | BindDisabled \<Rightarrow> [None, None]
      | BindChord c \<Rightarrow> [Some c, None])"

text \<open>\<open>from_settings\<close> reads the key map and the legacy trigger of the settings.\<close>

definition keymap_from_settings :: "keymap_settings \<Rightarrow> ustring \<Rightarrow> keymap" where
  "keymap_from_settings km legacy =
     \<lparr>km_mode_toggle = resolve_binding (ks_mode_toggle km),
      km_reconvert = resolve_binding (ks_reconvert km),
      km_feedback = resolve_binding (ks_feedback km),
      km_ephemeral = sink_chord (ks_ephemeral km) FnEphemeral legacy,
      km_commit_undo = sink_chord (ks_commit_undo km) FnCommitUndo legacy,
      km_typo = sink_chord (ks_typo_correct km) FnTypoCorrect legacy,
      km_llm = sink_chord (ks_llm_convert km) FnLlmConvert legacy,
      km_notations = map (\<lambda>(f, _). sink_chord (keymap_get km f) f legacy) notations_table,
      km_notation_rotate = sink_chord (ks_notation_rotate km) FnNotationRotate legacy,
      km_convert = convert_chords (ks_convert km)\<rparr>"

subsection \<open>The role of a key event\<close>

datatype key_action =
  ActNone | ActConvert | ActReconvert | ActModeToggle | ActEphemeral | ActCommitUndo | ActTypo
| ActLlm | ActNotation notation_kind | ActNotationRotate

record action_input =
  ai_vk :: nat
  ai_ctrl :: bool
  ai_shift :: bool
  ai_alt :: bool
  ai_composing :: bool
  ai_showing :: bool
  ai_direct :: bool
  ai_undo_armed :: bool
  ai_ephemeral_enabled :: bool
  ai_typo_enabled :: bool
  ai_llm_enabled :: bool

definition chord_hits :: "key_chord option \<Rightarrow> nat \<Rightarrow> bool \<Rightarrow> bool \<Rightarrow> bool \<Rightarrow> bool" where
  "chord_hits c vk ctrl shift alt \<longleftrightarrow>
     (case c of None \<Rightarrow> False
      | Some c \<Rightarrow> kc_vk c = vk \<and> kc_ctrl c = ctrl \<and> kc_shift c = shift \<and> kc_alt c = alt)"

definition global_bare_special_hit ::
  "binding \<Rightarrow> keymap_func \<Rightarrow> nat \<Rightarrow> bool \<Rightarrow> bool \<Rightarrow> bool \<Rightarrow> bool"
where
  "global_bare_special_hit b f vk ctrl shift alt =
     (if \<not> bare_special vk ctrl shift alt then False
      else case b of
        BindDefault \<Rightarrow> list_ex (\<lambda>c. kc_vk c = vk \<and> \<not> kc_ctrl c \<and> \<not> kc_shift c \<and> \<not> kc_alt c)
          (default_chords f [])
      | BindChord c \<Rightarrow> kc_vk c = vk \<and> \<not> kc_ctrl c \<and> \<not> kc_shift c \<and> \<not> kc_alt c
      | BindDisabled \<Rightarrow> False)"

definition resolve_action :: "keymap \<Rightarrow> action_input \<Rightarrow> key_action" where
  "resolve_action km i =
     (let idle = (\<not> ai_composing i \<and> \<not> ai_showing i);
          hit = (\<lambda>c. chord_hits c (ai_vk i) (ai_ctrl i) (ai_shift i) (ai_alt i));
          rest =
            (if (ai_composing i \<or> ai_showing i) \<and> list_ex hit (km_convert km) then ActConvert
             else if global_bare_special_hit (km_mode_toggle km) FnModeToggle
               (ai_vk i) (ai_ctrl i) (ai_shift i) (ai_alt i) then ActModeToggle
             else if ai_direct i \<and> idle \<and> global_bare_special_hit (km_reconvert km) FnReconvert
               (ai_vk i) (ai_ctrl i) (ai_shift i) (ai_alt i) then ActReconvert
             else ActNone)
      in if ai_undo_armed i \<and> hit (km_commit_undo km) then ActCommitUndo
         else if ai_ephemeral_enabled i \<and> ai_direct i \<and> idle \<and> hit (km_ephemeral km) then ActEphemeral
         else if ai_composing i \<and> \<not> ai_direct i then
           (if ai_typo_enabled i \<and> hit (km_typo km) then ActTypo
            else if ai_llm_enabled i \<and> hit (km_llm km) then ActLlm
            else case find (\<lambda>(idx, _). hit (km_notations km ! idx)) (enumerate 0 notations_table) of
              Some (_, (_, n)) \<Rightarrow> ActNotation n
            | None \<Rightarrow> (if hit (km_notation_rotate km) then ActNotationRotate else rest))
         else rest)"

subsection \<open>Registration with the system\<close>

datatype preserved_guid =
  GuidModeToggle | GuidModeToggleUs | GuidModeToggleHz | GuidReconvert | GuidReconvertUs
| GuidFeedback | GuidFeedbackUs

record tf_mods =
  tm_control :: "32 word"
  tm_shift :: "32 word"
  tm_alt :: "32 word"

record preserved_reg =
  pr_guid :: preserved_guid
  pr_vk :: nat
  pr_modifiers :: "32 word"
  pr_desc :: ustring

unbundle bit_operations_syntax

definition chord_mods :: "tf_mods \<Rightarrow> key_chord \<Rightarrow> 32 word" where
  "chord_mods tm c =
     (if kc_ctrl c then tm_control tm else 0) OR (if kc_shift c then tm_shift tm else 0)
     OR (if kc_alt c then tm_alt tm else 0)"

definition preserved_reg_of ::
  "preserved_guid \<Rightarrow> nat \<Rightarrow> 32 word \<Rightarrow> string \<Rightarrow> preserved_reg"
where
  "preserved_reg_of g vk m d = \<lparr>pr_guid = g, pr_vk = vk, pr_modifiers = m, pr_desc = ascii d\<rparr>"

definition build_preserved_regs :: "tf_mods \<Rightarrow> keymap \<Rightarrow> bool \<Rightarrow> preserved_reg list" where
  "build_preserved_regs tm km feedback_enabled =
     (case km_mode_toggle km of
        BindDefault \<Rightarrow>
          [preserved_reg_of GuidModeToggle 0x1D 0 ''nospacekey mode toggle'',
           preserved_reg_of GuidModeToggleUs 0xBA (tm_alt tm) ''nospacekey mode toggle (US)'',
           preserved_reg_of GuidModeToggleHz 0xF3 0 ''nospacekey mode toggle (hankaku/zenkaku)'']
      | BindChord c \<Rightarrow>
          [preserved_reg_of GuidModeToggle (kc_vk c) (chord_mods tm c) ''nospacekey mode toggle'']
      | BindDisabled \<Rightarrow> [])
     @ (case km_reconvert km of
        BindDefault \<Rightarrow>
          [preserved_reg_of GuidReconvert 0x1C 0 ''nospacekey reconvert'',
           preserved_reg_of GuidReconvertUs 0xBF (tm_alt tm) ''nospacekey reconvert (US)'']
      | BindChord c \<Rightarrow>
          [preserved_reg_of GuidReconvert (kc_vk c) (chord_mods tm c) ''nospacekey reconvert'']
      | BindDisabled \<Rightarrow> [])
     @ (if feedback_enabled then
        (case km_feedback km of
           BindDefault \<Rightarrow>
             [preserved_reg_of GuidFeedback 0x1C (tm_control tm) ''nospacekey feedback'',
              preserved_reg_of GuidFeedbackUs 0xBF (tm_control tm) ''nospacekey feedback (US)'']
         | BindChord c \<Rightarrow>
             [preserved_reg_of GuidFeedback (kc_vk c) (chord_mods tm c) ''nospacekey feedback'']
         | BindDisabled \<Rightarrow> [])
        else [])"

section \<open>Correctness\<close>

text \<open>The chord a key event presses.\<close>

definition event_chord :: "action_input \<Rightarrow> key_chord" where
  "event_chord i = \<lparr>kc_vk = ai_vk i, kc_ctrl = ai_ctrl i, kc_shift = ai_shift i, kc_alt = ai_alt i\<rparr>"

lemma chord_hits_event:
  "chord_hits c (ai_vk i) (ai_ctrl i) (ai_shift i) (ai_alt i) \<longleftrightarrow> c = Some (event_chord i)"
  by (cases c) (auto simp: chord_hits_def event_chord_def)

lemma sink_chord_effective:
  "length (default_chords f legacy) = 1 \<Longrightarrow>
   sink_chord v f legacy = Some c \<longleftrightarrow> c \<in> set (effective_chords legacy f v)"
  by (cases "default_chords f legacy") (auto simp: sink_chord_def effective_chords_def split: binding.splits)

lemma convert_chords_effective:
  "Some c \<in> set (convert_chords v) \<longleftrightarrow> c \<in> set (effective_chords legacy FnConvert v)"
  by (auto simp: convert_chords_def effective_chords_def split: binding.splits)

definition event_bare_special :: "action_input \<Rightarrow> bool" where
  "event_bare_special i \<longleftrightarrow> bare_special (ai_vk i) (ai_ctrl i) (ai_shift i) (ai_alt i)"

lemma global_hit_effective:
  assumes "default_chords f legacy = default_chords f []"
  shows "global_bare_special_hit (resolve_binding v) f (ai_vk i) (ai_ctrl i) (ai_shift i) (ai_alt i)
    \<longleftrightarrow> event_bare_special i \<and> event_chord i \<in> set (effective_chords legacy f v)"
proof (cases "event_bare_special i")
  case True
  have "(kc_vk c = ai_vk i \<and> \<not> kc_ctrl c \<and> \<not> kc_shift c \<and> \<not> kc_alt c) \<longleftrightarrow> c = event_chord i"
    for c :: key_chord
    using True by (auto simp: event_bare_special_def bare_special_def event_chord_def)
  then show ?thesis using True assms
    by (auto simp: global_bare_special_hit_def event_bare_special_def effective_chords_def list_ex_iff
        split: binding.splits)
qed (simp add: global_bare_special_hit_def event_bare_special_def)

subsection \<open>The cascade in terms of bound chords\<close>

definition input_flags :: "bool \<Rightarrow> action_input \<Rightarrow> feature_flags" where
  "input_flags feedback i =
     \<lparr>ff_ephemeral = ai_ephemeral_enabled i, ff_feedback = feedback, ff_typo = ai_typo_enabled i,
      ff_llm = ai_llm_enabled i\<rparr>"

definition bound_now :: "keymap_settings \<Rightarrow> ustring \<Rightarrow> bool \<Rightarrow> action_input \<Rightarrow> keymap_func \<Rightarrow> bool" where
  "bound_now km legacy feedback i f = bound km legacy (input_flags feedback i) f (event_chord i)"

lemma find_notation:
  "(case find (\<lambda>(idx, _). P idx) (enumerate 0 notations_table) of
      Some (_, (_, n)) \<Rightarrow> ActNotation n | None \<Rightarrow> r) =
   (if P 0 then ActNotation NotHiragana else if P 1 then ActNotation NotKatakana
    else if P 2 then ActNotation NotHankakuKana else if P 3 then ActNotation NotZenkakuEisu
    else if P 4 then ActNotation NotHankakuEisu else r)"
  by (simp add: notations_table_def numeral_eq_Suc)

text \<open>Each slot of the resolved map answers the event exactly when the event's chord is effective.\<close>

definition effective_now :: "keymap_settings \<Rightarrow> ustring \<Rightarrow> action_input \<Rightarrow> keymap_func \<Rightarrow> bool" where
  "effective_now km legacy i f \<longleftrightarrow> event_chord i \<in> set (effective_chords legacy f (keymap_get km f))"

lemma slot_hits:
  "sink_chord (ks_ephemeral km) FnEphemeral legacy = Some (event_chord i) \<longleftrightarrow> effective_now km legacy i FnEphemeral"
  "sink_chord (ks_commit_undo km) FnCommitUndo legacy = Some (event_chord i) \<longleftrightarrow> effective_now km legacy i FnCommitUndo"
  "sink_chord (ks_typo_correct km) FnTypoCorrect legacy = Some (event_chord i) \<longleftrightarrow> effective_now km legacy i FnTypoCorrect"
  "sink_chord (ks_llm_convert km) FnLlmConvert legacy = Some (event_chord i) \<longleftrightarrow> effective_now km legacy i FnLlmConvert"
  "sink_chord (ks_to_hiragana km) FnToHiragana legacy = Some (event_chord i) \<longleftrightarrow> effective_now km legacy i FnToHiragana"
  "sink_chord (ks_to_katakana km) FnToKatakana legacy = Some (event_chord i) \<longleftrightarrow> effective_now km legacy i FnToKatakana"
  "sink_chord (ks_to_hankaku_kana km) FnToHankakuKana legacy = Some (event_chord i)
     \<longleftrightarrow> effective_now km legacy i FnToHankakuKana"
  "sink_chord (ks_to_zenkaku_eisu km) FnToZenkakuEisu legacy = Some (event_chord i)
     \<longleftrightarrow> effective_now km legacy i FnToZenkakuEisu"
  "sink_chord (ks_to_hankaku_eisu km) FnToHankakuEisu legacy = Some (event_chord i)
     \<longleftrightarrow> effective_now km legacy i FnToHankakuEisu"
  "sink_chord (ks_notation_rotate km) FnNotationRotate legacy = Some (event_chord i)
     \<longleftrightarrow> effective_now km legacy i FnNotationRotate"
  by (simp_all add: effective_now_def sink_chord_effective)

lemma group_hits:
  "list_ex (\<lambda>c. c = Some (event_chord i)) (convert_chords (ks_convert km)) \<longleftrightarrow> effective_now km legacy i FnConvert"
  "global_bare_special_hit (resolve_binding (ks_mode_toggle km)) FnModeToggle
     (ai_vk i) (ai_ctrl i) (ai_shift i) (ai_alt i)
   \<longleftrightarrow> event_bare_special i \<and> effective_now km legacy i FnModeToggle"
  "global_bare_special_hit (resolve_binding (ks_reconvert km)) FnReconvert
     (ai_vk i) (ai_ctrl i) (ai_shift i) (ai_alt i)
   \<longleftrightarrow> event_bare_special i \<and> effective_now km legacy i FnReconvert"
  using convert_chords_effective [of "event_chord i" "ks_convert km" legacy]
    global_hit_effective [of FnModeToggle legacy _ i] global_hit_effective [of FnReconvert legacy _ i]
  by (auto simp: effective_now_def list_ex_iff)

lemma resolve_action_cascade:
  fixes km legacy feedback i
  defines "B \<equiv> bound_now km legacy feedback i"
    and "busy \<equiv> ai_composing i \<or> ai_showing i"
    and "edit \<equiv> ai_composing i \<and> \<not> ai_direct i"
  shows "resolve_action (keymap_from_settings km legacy) i =
    (if ai_undo_armed i \<and> B FnCommitUndo then ActCommitUndo
     else if ai_direct i \<and> \<not> busy \<and> B FnEphemeral then ActEphemeral
     else if edit \<and> B FnTypoCorrect then ActTypo
     else if edit \<and> B FnLlmConvert then ActLlm
     else if edit \<and> B FnToHiragana then ActNotation NotHiragana
     else if edit \<and> B FnToKatakana then ActNotation NotKatakana
     else if edit \<and> B FnToHankakuKana then ActNotation NotHankakuKana
     else if edit \<and> B FnToZenkakuEisu then ActNotation NotZenkakuEisu
     else if edit \<and> B FnToHankakuEisu then ActNotation NotHankakuEisu
     else if edit \<and> B FnNotationRotate then ActNotationRotate
     else if busy \<and> B FnConvert then ActConvert
     else if event_bare_special i \<and> B FnModeToggle then ActModeToggle
     else if ai_direct i \<and> \<not> busy \<and> event_bare_special i \<and> B FnReconvert then ActReconvert
     else ActNone)"
proof -
  have B: "B f \<longleftrightarrow> feature_on (input_flags feedback i) f \<and> effective_now km legacy i f" for f
    by (simp add: B_def bound_now_def bound_def effective_now_def)
  have nots: "km_notations (keymap_from_settings km legacy) =
      [sink_chord (ks_to_hiragana km) FnToHiragana legacy, sink_chord (ks_to_katakana km) FnToKatakana legacy,
       sink_chord (ks_to_hankaku_kana km) FnToHankakuKana legacy,
       sink_chord (ks_to_zenkaku_eisu km) FnToZenkakuEisu legacy,
       sink_chord (ks_to_hankaku_eisu km) FnToHankakuEisu legacy]"
    by (simp add: notations_table_def keymap_from_settings_def)
  have fields: "km_commit_undo (keymap_from_settings km legacy) = sink_chord (ks_commit_undo km) FnCommitUndo legacy"
    "km_ephemeral (keymap_from_settings km legacy) = sink_chord (ks_ephemeral km) FnEphemeral legacy"
    "km_typo (keymap_from_settings km legacy) = sink_chord (ks_typo_correct km) FnTypoCorrect legacy"
    "km_llm (keymap_from_settings km legacy) = sink_chord (ks_llm_convert km) FnLlmConvert legacy"
    "km_notation_rotate (keymap_from_settings km legacy)
       = sink_chord (ks_notation_rotate km) FnNotationRotate legacy"
    "km_convert (keymap_from_settings km legacy) = convert_chords (ks_convert km)"
    "km_mode_toggle (keymap_from_settings km legacy) = resolve_binding (ks_mode_toggle km)"
    "km_reconvert (keymap_from_settings km legacy) = resolve_binding (ks_reconvert km)"
    by (simp_all add: keymap_from_settings_def)
  have nth: "[a, b, c, d, e] ! 0 = a" "[a, b, c, d, e] ! 1 = b" "[a, b, c, d, e] ! 2 = c"
    "[a, b, c, d, e] ! 3 = d" "[a, b, c, d, e] ! 4 = e" for a b c d e :: "key_chord option"
    by simp_all
  show ?thesis
    unfolding resolve_action_def chord_hits_event find_notation nots fields Let_def nth
      slot_hits group_hits [where legacy = legacy] B busy_def edit_def
    by (cases "ai_composing i"; cases "ai_direct i"; cases "ai_showing i")
      (simp_all add: input_flags_def)
qed

subsection \<open>A conflict free configuration shadows nothing\<close>

fun function_action :: "keymap_func \<Rightarrow> key_action" where
  "function_action FnModeToggle = ActModeToggle"
| "function_action FnReconvert = ActReconvert"
| "function_action FnFeedback = ActNone"
| "function_action FnEphemeral = ActEphemeral"
| "function_action FnCommitUndo = ActCommitUndo"
| "function_action FnTypoCorrect = ActTypo"
| "function_action FnLlmConvert = ActLlm"
| "function_action FnToHiragana = ActNotation NotHiragana"
| "function_action FnToKatakana = ActNotation NotKatakana"
| "function_action FnToHankakuKana = ActNotation NotHankakuKana"
| "function_action FnToZenkakuEisu = ActNotation NotZenkakuEisu"
| "function_action FnToHankakuEisu = ActNotation NotHankakuEisu"
| "function_action FnNotationRotate = ActNotationRotate"
| "function_action FnConvert = ActConvert"

text \<open>The contexts in which a function answers the key sink.\<close>

fun listens :: "action_input \<Rightarrow> keymap_func \<Rightarrow> bool" where
  "listens i FnCommitUndo \<longleftrightarrow> ai_undo_armed i"
| "listens i FnEphemeral \<longleftrightarrow> ai_direct i \<and> \<not> ai_composing i \<and> \<not> ai_showing i"
| "listens i FnReconvert \<longleftrightarrow>
     event_bare_special i \<and> ai_direct i \<and> \<not> ai_composing i \<and> \<not> ai_showing i"
| "listens i FnModeToggle \<longleftrightarrow> event_bare_special i"
| "listens i FnFeedback \<longleftrightarrow> False"
| "listens i FnConvert \<longleftrightarrow> ai_composing i \<or> ai_showing i"
| "listens i _ \<longleftrightarrow> ai_composing i \<and> \<not> ai_direct i"

lemma conflict_group_event:
  "conflict_group FnReconvert (event_chord i) = (if event_bare_special i then GroupIdle else GroupGlobal)"
  "conflict_group FnModeToggle (event_chord i) = GroupGlobal"
  "\<not> is_preserved f \<Longrightarrow> conflict_group f (event_chord i) = func_group_of f"
  by (simp_all add: conflict_group_def is_preserved_def event_bare_special_def event_chord_def)

lemma no_conflict_now:
  assumes "find_conflicts km legacy (input_flags feedback i) = []"
    and "bound_now km legacy feedback i f" and "bound_now km legacy feedback i g" and "f \<noteq> g"
  shows "keys_apart (f, event_chord i) (g, event_chord i)"
  using no_conflict_bound [OF assms(1)] assms(2-4) clashes_keys_apart by (auto simp: bound_now_def)

text \<open>The precedence that is meant: an armed undo answers in every context and before a function of the composition,
  and a function of the composition answers before the mode toggle.\<close>

definition preempted :: "keymap_settings \<Rightarrow> ustring \<Rightarrow> bool \<Rightarrow> action_input \<Rightarrow> keymap_func \<Rightarrow> bool" where
  "preempted km legacy feedback i f \<longleftrightarrow>
     f \<noteq> FnCommitUndo \<and> (ai_composing i \<or> ai_showing i) \<and> ai_undo_armed i \<and> bound_now km legacy feedback i FnCommitUndo
     \<or> f = FnModeToggle \<and> (\<exists>g. func_group_of g = GroupComposing \<and> listens i g \<and> bound_now km legacy feedback i g)"

text \<open>C40: With a conflict free configuration the resolution of a key is settled for every function and context: the
  key event resolves to the action of a function exactly when the pressed chord is one of its effective chords, the
  function answers in the context, and no function that is meant to go first answers too. Those are the armed undo,
  which also answers while composing, and for the mode toggle the functions of the composition. No other function
  shadows another, and no event resolves to a function whose chord was not pressed. Feedback is left out: it is
  answered by the system registration alone.\<close>

theorem resolve_action_unshadowed:
  assumes free: "find_conflicts km legacy (input_flags feedback i) = []" and "f \<noteq> FnFeedback"
  shows "resolve_action (keymap_from_settings km legacy) i = function_action f
    \<longleftrightarrow> bound km legacy (input_flags feedback i) f (event_chord i) \<and> listens i f \<and> \<not> preempted km legacy feedback i f"
proof -
  let ?B = "bound_now km legacy feedback i"
  have apart: "\<not> (?B g \<and> ?B h)" if "g \<noteq> h" "\<not> keys_apart (g, event_chord i) (h, event_chord i)" for g h
    using no_conflict_now [OF free] that by blast
  have comp: "\<not> (?B g \<and> ?B h)"
    if "g \<noteq> h" "func_group_of g = GroupComposing" "func_group_of h = GroupComposing" for g h
    using that by (intro apart) (auto simp: conflict_group_def is_preserved_def doubleton_eq_iff)
  have idle: "\<not> (?B g \<and> ?B h)" if "g \<noteq> h" "g \<in> {FnEphemeral, FnCommitUndo}"
    "h \<in> {FnEphemeral, FnCommitUndo, FnModeToggle, FnReconvert}" for g h
    using that by (intro apart) (auto simp: conflict_group_def is_preserved_def doubleton_eq_iff)
  have glob: "\<not> (?B FnModeToggle \<and> ?B FnReconvert)"
    by (intro apart) (auto simp: conflict_group_def is_preserved_def doubleton_eq_iff)
  note cascade = resolve_action_cascade [of km legacy i feedback]
  have only: "?B f \<and> listens i f" if "resolve_action (keymap_from_settings km legacy) i = function_action f"
    using that assms(2) unfolding cascade by (cases f) (simp_all split: if_splits)
  have first: "\<not> preempted km legacy feedback i f"
    if "resolve_action (keymap_from_settings km legacy) i = function_action f"
  proof
    assume "preempted km legacy feedback i f"
    then consider "f \<noteq> FnCommitUndo" "ai_undo_armed i" "?B FnCommitUndo"
      | g where "f = FnModeToggle" "func_group_of g = GroupComposing" "listens i g" "?B g"
      by (auto simp: preempted_def)
    then show False
    proof cases
      case 1
      then have "resolve_action (keymap_from_settings km legacy) i = ActCommitUndo" unfolding cascade by simp
      then show False using that 1(1) by (cases f) simp_all
    next
      case 2
      then have "resolve_action (keymap_from_settings km legacy) i \<noteq> ActModeToggle"
        unfolding cascade by (cases g) simp_all
      then show False using that 2(1) by simp
    qed
  qed
  have all: "resolve_action (keymap_from_settings km legacy) i = function_action f"
    if f: "?B f" "listens i f" "\<not> preempted km legacy feedback i f"
  proof (cases "f = FnCommitUndo")
    case True
    then show ?thesis unfolding cascade using f by simp
  next
    case other: False
    show ?thesis
    proof (cases "ai_composing i \<or> ai_showing i")
      case True
      have u: "\<not> (ai_undo_armed i \<and> ?B FnCommitUndo)" using f(3) other True by (simp add: preempted_def)
      show ?thesis
      proof (cases "f = FnModeToggle")
        case t: True
        have none: "\<not> (listens i g \<and> ?B g)" if "func_group_of g = GroupComposing" for g
          using f(3) t that by (auto simp: preempted_def)
        show ?thesis unfolding cascade
          using u True t f(1,2) none [of FnTypoCorrect] none [of FnLlmConvert] none [of FnToHiragana] none [of FnToKatakana]
            none [of FnToHankakuKana] none [of FnToZenkakuEisu] none [of FnToHankakuEisu] none [of FnNotationRotate]
            none [of FnConvert] by simp
      next
        case nt: False
        have c: "func_group_of f = GroupComposing" using f(2) True other nt by (cases f) simp_all
        have "\<not> ?B g" if "g \<noteq> f" "func_group_of g = GroupComposing" for g
          using comp [of g f] that c f(1) by blast
        then show ?thesis unfolding cascade using u True f(1,2) c by (cases f) simp_all
      qed
    next
      case False
      have c: "f \<in> {FnEphemeral, FnCommitUndo, FnModeToggle, FnReconvert}"
        using f(2) False assms(2) by (cases f) simp_all
      have "\<not> ?B g" if "g \<noteq> f" "g \<in> {FnEphemeral, FnCommitUndo}" for g
        using idle [of g f] that c f(1) by blast
      moreover have "\<not> ?B FnModeToggle" if "f = FnReconvert" using that glob f(1) by blast
      ultimately show ?thesis unfolding cascade using False f(1,2) c by (cases f) simp_all
    qed
  qed
  show ?thesis using only first all by (auto simp: bound_now_def)
qed

theorem resolve_action_unshadowed_witness:
  "resolve_action (keymap_from_settings
      \<lparr>ks_mode_toggle = None, ks_reconvert = None, ks_feedback = None, ks_ephemeral = None,
       ks_commit_undo = None, ks_typo_correct = None, ks_llm_convert = None, ks_to_hiragana = None,
       ks_to_katakana = None, ks_to_hankaku_kana = None, ks_to_zenkaku_eisu = None,
       ks_to_hankaku_eisu = None, ks_notation_rotate = None, ks_convert = None\<rparr> [])
     \<lparr>ai_vk = 0x1D, ai_ctrl = False, ai_shift = False, ai_alt = False, ai_composing = True,
      ai_showing = False, ai_direct = False, ai_undo_armed = False, ai_ephemeral_enabled = True,
      ai_typo_enabled = True, ai_llm_enabled = True\<rparr> = ActNotationRotate"
  (is "resolve_action (keymap_from_settings ?km []) ?i = _")
proof -
  have "find_conflicts ?km [] (input_flags True ?i) = []"
    by (simp add: find_conflicts_def find_conflicts_in_def all_funcs_def resolve_binding_def
        input_flags_def clashes_keys_apart bare_def legacy_ephemeral_chord_def conflict_group_def
        is_preserved_def bare_special_def doubleton_eq_iff)
  from resolve_action_unshadowed [OF this, of FnNotationRotate] show ?thesis
    by (simp add: preempted_def bound_def effective_chords_def resolve_binding_def event_chord_def bare_def)
qed

subsection \<open>System registrations\<close>

lemma bare_mods [simp]: "chord_mods tm (bare vk) = 0"
  by (simp add: chord_mods_def bare_def)

definition registered_chords :: "tf_mods \<Rightarrow> key_chord list \<Rightarrow> (nat \<times> 32 word) list" where
  "registered_chords tm cs = map (\<lambda>c. (kc_vk c, chord_mods tm c)) cs"

text \<open>The keys registered with the system are, in order, exactly the effective chords of the mode
  toggle, of reconversion and, when enabled, of feedback, the chords the conflict check reasons about;
  no registration identifier is used twice, so unregistering by identifier is exact.\<close>

theorem preserved_regs_are_effective_chords:
  "map (\<lambda>r. (pr_vk r, pr_modifiers r)) (build_preserved_regs tm (keymap_from_settings km legacy) fb)
   = registered_chords tm (effective_chords legacy FnModeToggle (ks_mode_toggle km)
       @ effective_chords legacy FnReconvert (ks_reconvert km)
       @ (if fb then effective_chords legacy FnFeedback (ks_feedback km) else []))
   \<and> distinct (map pr_guid (build_preserved_regs tm (keymap_from_settings km legacy) fb))"
proof -
  have fields: "km_mode_toggle (keymap_from_settings km legacy) = resolve_binding (ks_mode_toggle km)"
    "km_reconvert (keymap_from_settings km legacy) = resolve_binding (ks_reconvert km)"
    "km_feedback (keymap_from_settings km legacy) = resolve_binding (ks_feedback km)"
    by (simp_all add: keymap_from_settings_def)
  show ?thesis
    unfolding build_preserved_regs_def fields effective_chords_def registered_chords_def
    by (cases "resolve_binding (ks_mode_toggle km)"; cases "resolve_binding (ks_reconvert km)";
        cases "resolve_binding (ks_feedback km)"; cases fb)
      (simp_all add: preserved_reg_of_def bare_def chord_mods_def)
qed

text \<open>Rotation from any notation enters the kana cycle and then repeats with period three.\<close>

lemma next_notation_cycle:
  "(next_notation \<circ> Some \<circ> next_notation \<circ> Some \<circ> next_notation \<circ> Some) (next_notation n) = next_notation n"
  by (cases n rule: next_notation.cases) simp_all

lemma normalize_vk_idem: "normalize_vk (normalize_vk vk) = normalize_vk vk"
  by (simp add: normalize_vk_def)

end
