(* ===== verification/Symbols.thy ===== *)
theory Symbols
  imports Rust_Text "HOL-Library.Word"
begin

text \<open>
  Full width symbols, \<open>crates/settings/src/symbol.rs\<close>: the single mapping of a typed
  symbol to its full width form, the bit mask of individually selected symbols and its
  catalogue. A \<open>BTreeSet\<close> of characters is a list whose order does not matter.
\<close>

unbundle bit_operations_syntax

definition is_ascii_punctuation :: "uchar \<Rightarrow> bool" where
  "is_ascii_punctuation c \<longleftrightarrow> 0x21 \<le> c \<and> c \<le> 0x2F \<or> 0x3A \<le> c \<and> c \<le> 0x40
     \<or> 0x5B \<le> c \<and> c \<le> 0x60 \<or> 0x7B \<le> c \<and> c \<le> 0x7E"

type_synonym symbol_char_set = "128 word"

definition symbols_all :: symbol_char_set where
  "symbols_all = push_bit 94 1 - 1"

definition symbols_empty :: symbol_char_set where
  "symbols_empty = 0"

definition bit_index :: "uchar \<Rightarrow> nat option" where
  "bit_index c = (if 0x21 \<le> c \<and> c \<le> 0x7E then Some (c - 0x21) else None)"

definition symbols_contains :: "symbol_char_set \<Rightarrow> uchar \<Rightarrow> bool" where
  "symbols_contains m c = (case bit_index c of Some i \<Rightarrow> m AND push_bit i 1 \<noteq> 0 | None \<Rightarrow> False)"

definition symbols_is_empty :: "symbol_char_set \<Rightarrow> bool" where
  "symbols_is_empty m \<longleftrightarrow> m = 0"

definition symbols_bitand :: "symbol_char_set \<Rightarrow> symbol_char_set \<Rightarrow> symbol_char_set" where
  "symbols_bitand a b = a AND b"

definition symbols_from :: "uchar list \<Rightarrow> symbol_char_set" where
  "symbols_from cs =
     fold (\<lambda>c m. case bit_index c of Some i \<Rightarrow> m OR push_bit i 1 | None \<Rightarrow> m) cs 0"

definition zenkaku_of :: "uchar \<Rightarrow> uchar" where
  "zenkaku_of c = c - 0x21 + 0xFF01"

definition zenkaku_symbol :: "uchar \<Rightarrow> bool \<Rightarrow> bool \<Rightarrow> symbol_char_set \<Rightarrow> uchar option" where
  "zenkaku_symbol c punct_full_width symbol_full_width chars =
     (if c = 0x2D then Some 0x30FC
      else if c = 0x2C then (if punct_full_width then Some 0x3001 else None)
      else if c = 0x2E then (if punct_full_width then Some 0x3002 else None)
      else if \<not> (symbol_full_width \<and> symbols_contains chars c) then None
      else if c = 0x2F then Some 0x30FB
      else if c = 0x5B then Some 0x300C
      else if c = 0x5D then Some 0x300D
      else if is_ascii_punctuation c then Some (zenkaku_of c)
      else None)"

text \<open>The catalogue; the \<open>expect\<close> on the preview is the outer option.\<close>

definition symbol_targets :: "(uchar \<times> uchar) list option" where
  "symbol_targets =
     those (map (\<lambda>c. map_option (\<lambda>full. (c, full)) (zenkaku_symbol c False True symbols_all))
       (filter (\<lambda>c. is_ascii_punctuation c \<and> \<not> (c = 0x2D \<or> c = 0x2C \<or> c = 0x2E)) [0x21..<0x7F]))"

definition default_full_width_chars :: "uchar list" where
  "default_full_width_chars = (case symbol_targets of Some ts \<Rightarrow> map fst ts | None \<Rightarrow> [])"

datatype json_value =
  JNull | JBool bool | JNumber int | JString ustring | JArray "json_value list"
| JObject "(ustring \<times> json_value) list"

fun single_char :: "json_value \<Rightarrow> uchar option" where
  "single_char (JString [c]) = Some c"
| "single_char _ = None"

definition de_symbol_chars :: "json_value \<Rightarrow> uchar list" where
  "de_symbol_chars v =
     (case v of JArray items \<Rightarrow> List.map_filter single_char items | _ \<Rightarrow> default_full_width_chars)"

section \<open>The mask is the set\<close>

lemma bit_single: "bit (push_bit i 1 :: 'a :: len word) n \<longleftrightarrow> n = i \<and> n < LENGTH('a)"
  unfolding bit_push_bit_iff bit_1_iff by (auto simp: possible_bit_word)

lemma and_push_bit_one: "(m :: 'a :: len word) AND push_bit i 1 \<noteq> 0 \<longleftrightarrow> bit m i"
proof
  assume "bit m i"
  then have "bit (m AND push_bit i 1) i"
    unfolding bit_and_iff bit_single by (simp add: bit_imp_le_length)
  then show "m AND push_bit i 1 \<noteq> 0" by (metis bit_0_eq bot_apply bot_bool_def)
next
  assume "m AND push_bit i 1 \<noteq> 0"
  then obtain n where "bit (m AND push_bit i 1) n" by (auto simp: bit_eq_iff)
  then show "bit m i" unfolding bit_and_iff bit_single by auto
qed

lemma contains_bit: "symbols_contains m c \<longleftrightarrow> 0x21 \<le> c \<and> c \<le> 0x7E \<and> bit m (c - 0x21)"
  using and_push_bit_one [of m "c - 0x21"] by (auto simp: symbols_contains_def bit_index_def)

lemma symbols_from_bit:
  "bit (fold (\<lambda>c m. case bit_index c of Some i \<Rightarrow> m OR push_bit i 1 | None \<Rightarrow> m) cs (m :: 128 word)) n
   \<longleftrightarrow> bit m n \<or> (\<exists>c\<in>set cs. 0x21 \<le> c \<and> c \<le> 0x7E \<and> n = c - 0x21)"
proof (induction cs arbitrary: m)
  case (Cons c cs)
  show ?case
  proof (cases "0x21 \<le> c \<and> c \<le> 0x7E")
    case True
    then have "bit (m OR push_bit (c - 0x21) 1) n \<longleftrightarrow> bit m n \<or> n = c - 0x21"
      unfolding bit_or_iff bit_single by auto
    then show ?thesis using Cons True by (auto simp: bit_index_def simp del: push_bit_of_1)
  qed (use Cons in \<open>auto simp: bit_index_def\<close>)
qed simp

lemma symbols_all_mask: "symbols_all = mask 94"
  by (simp add: symbols_all_def mask_eq_exp_minus_1 push_bit_eq_mult)

lemma contains_all: "symbols_contains symbols_all c \<longleftrightarrow> 0x21 \<le> c \<and> c \<le> 0x7E"
  unfolding contains_bit symbols_all_mask bit_mask_iff by (auto simp: possible_bit_word)

text \<open>The 128-bit mask represents exactly the selected characters of the printable ASCII range; the
  intersection of masks is the intersection of the sets, and the full mask contains all of the range.\<close>

theorem symbol_mask_exact:
  "(symbols_contains (symbols_from cs) c \<longleftrightarrow> c \<in> set cs \<and> 0x21 \<le> c \<and> c \<le> 0x7E)
   \<and> (symbols_contains (symbols_bitand a b) c \<longleftrightarrow> symbols_contains a c \<and> symbols_contains b c)
   \<and> (symbols_contains symbols_all c \<longleftrightarrow> 0x21 \<le> c \<and> c \<le> 0x7E)
   \<and> \<not> symbols_contains symbols_empty c"
proof (intro conjI)
  show "symbols_contains (symbols_from cs) c \<longleftrightarrow> c \<in> set cs \<and> 0x21 \<le> c \<and> c \<le> 0x7E"
    unfolding contains_bit symbols_from_def symbols_from_bit by (auto dest!: eq_diff_iff [THEN iffD1, rotated 2])
  show "symbols_contains (symbols_bitand a b) c \<longleftrightarrow> symbols_contains a c \<and> symbols_contains b c"
    by (auto simp: contains_bit symbols_bitand_def bit_and_iff)
  show "symbols_contains symbols_all c \<longleftrightarrow> 0x21 \<le> c \<and> c \<le> 0x7E" by (rule contains_all)
  show "\<not> symbols_contains symbols_empty c" by (simp add: contains_bit symbols_empty_def)
qed

section \<open>The mapping keeps keys apart\<close>

text \<open>No two typed symbols fold to the same full width character, whatever the toggles and selections,
  so the typed key can always be recovered.\<close>

theorem zenkaku_symbol_injective:
  "\<nexists>c d p s m p' s' m' x. c \<noteq> d
     \<and> zenkaku_symbol c p s m = Some x \<and> zenkaku_symbol d p' s' m' = Some x"
proof -
  have "c = d" if "zenkaku_symbol c p s m = Some x" "zenkaku_symbol d p' s' m' = Some x"
    for c d p s m p' s' m' x
    using that
    by (auto simp: zenkaku_symbol_def zenkaku_of_def is_ascii_punctuation_def split: if_splits)
  then show ?thesis by blast
qed

lemma those_map: "those (map f xs) = None \<longleftrightarrow> (\<exists>x\<in>set xs. f x = None)"
  by (induction xs) (auto split: option.splits)

lemma symbol_targets_total: "symbol_targets \<noteq> None"
proof -
  have "zenkaku_symbol c False True symbols_all \<noteq> None" if "is_ascii_punctuation c"
    "c \<noteq> 0x2D" "c \<noteq> 0x2C" "c \<noteq> 0x2E" for c
    using that by (auto simp: zenkaku_symbol_def contains_all is_ascii_punctuation_def)
  then show ?thesis by (auto simp: symbol_targets_def those_map)
qed

end
