(* ===== verification/Conversion_Queue.thy ===== *)
theory Conversion_Queue
  imports Clause_Wire Keymap Safe_Runs
begin

text \<open>
  The queue of accepted operations that survives engine waits,
  \<open>crates/tip/src/conversion_queue.rs\<close>. A deque is a list with its front first. The
  payload counter is a machine integer: an operation that would take it below zero is
  \<open>None\<close>, and \<open>queue_run_total\<close> shows that it never happens.
\<close>

record operation_target =
  ot_clause :: "clause_id option"
  ot_start :: reading_position
  ot_end :: reading_position
  ot_candidate_window :: bool

datatype text_style = StyleKanaText | StyleDirectText

datatype conversion_action =
  ActMoveClause int
| ActMoveReading int
| ActReadingHome
| ActReadingEnd
| ActResizeClause int
| ActCandidate int
| ActCommit
| ActCancel
| ActInsert (ins_text: ustring) (ins_original: "ustring option") (ins_style: text_style)
    (ins_direct_commit: bool)
| ActBackspace
| ActDelete
| ActHome operation_target
| ActEnd operation_target
| ActTransform notation_kind operation_target
| ActRotateNotation operation_target

fun is_insert :: "conversion_action \<Rightarrow> bool" where
  "is_insert (ActInsert _ _ _ _) = True"
| "is_insert _ = False"

fun payload_units :: "conversion_action \<Rightarrow> nat" where
  "payload_units (ActInsert text original _ _) =
     utf16_len text + (case original of None \<Rightarrow> 0 | Some s \<Rightarrow> utf16_len s)"
| "payload_units _ = 0"

datatype queue_admission = QAccepted | QFull | QTooLarge

datatype candidate_wait_disposition = WaitDefer | WaitImmediate | WaitCommit | WaitCommitThenInsert | WaitClose | WaitNoop

fun wait_disposition :: "conversion_action \<Rightarrow> bool \<Rightarrow> candidate_wait_disposition" where
  "wait_disposition action True = WaitDefer"
| "wait_disposition (ActCandidate _) False = WaitDefer"
| "wait_disposition (ActHome _) False = WaitDefer"
| "wait_disposition (ActEnd _) False = WaitDefer"
| "wait_disposition ActDelete False = WaitNoop"
| "wait_disposition ActCommit False = WaitCommit"
| "wait_disposition (ActInsert _ _ _ _) False = WaitCommitThenInsert"
| "wait_disposition ActCancel False = WaitClose"
| "wait_disposition _ False = WaitImmediate"

record conversion_queue =
  cq_actions :: "conversion_action list"
  cq_units :: nat
  cq_deadline :: "instant option"
  cq_waiting :: bool
  cq_commit_failed :: bool
  cq_initial_reading :: "ustring option"
  cq_owner_lost :: bool
  cq_unwritten_commit :: "ustring option"
  cq_suppress_commit_prediction :: bool

definition queue_default :: conversion_queue where
  "queue_default =
     \<lparr>cq_actions = [], cq_units = 0, cq_deadline = None, cq_waiting = False,
      cq_commit_failed = False, cq_initial_reading = None, cq_owner_lost = False,
      cq_unwritten_commit = None, cq_suppress_commit_prediction = False\<rparr>"

definition queue_clear :: "conversion_queue \<Rightarrow> conversion_queue" where
  "queue_clear q = queue_default"

definition queue_front :: "conversion_queue \<Rightarrow> conversion_action option" where
  "queue_front q = (case cq_actions q of [] \<Rightarrow> None | a # _ \<Rightarrow> Some a)"

definition has_commit :: "conversion_queue \<Rightarrow> bool" where
  "has_commit q = list_ex (\<lambda>a. a = ActCommit) (cq_actions q)"

definition complete_front :: "conversion_queue \<Rightarrow> conversion_queue option" where
  "complete_front q =
     (if cq_owner_lost q then Some q
      else let finish = (\<lambda>q. if cq_actions q = [] \<and> \<not> cq_waiting q
                           then q\<lparr>cq_deadline := None, cq_initial_reading := None\<rparr> else q)
      in case cq_actions q of
        [] \<Rightarrow> Some (finish q)
      | a # rest \<Rightarrow>
          (let q1 = q\<lparr>cq_actions := rest\<rparr>;
               q2 = (if a = ActCommit
                     then q1\<lparr>cq_initial_reading := None, cq_suppress_commit_prediction := False\<rparr>
                     else q1)
           in map_option (\<lambda>u. finish (q2\<lparr>cq_units := u\<rparr>)) (checked_sub (cq_units q2) (payload_units a))))"

definition queue_detach :: "conversion_queue \<Rightarrow> ustring option \<Rightarrow> bool \<Rightarrow> conversion_queue option" where
  "queue_detach q commit_body body_applied =
     (if cq_owner_lost q then Some q
      else
       (let q1 = q\<lparr>cq_waiting := False\<rparr>;
            q2 = (if \<not> list_ex (\<lambda>a. a = ActCommit \<or> is_insert a \<or> a = ActBackspace \<or> a = ActDelete)
                        (cq_actions q1)
                  then q1\<lparr>cq_actions := [], cq_units := 0\<rparr> else q1)
        in case (if body_applied \<and> queue_front q2 = Some ActCommit then complete_front q2 else Some q2) of
             None \<Rightarrow> None
           | Some q3 \<Rightarrow>
               (let q4 = q3\<lparr>cq_unwritten_commit := if body_applied then None else commit_body\<rparr>
                in Some (if cq_actions q4 = [] \<and> cq_unwritten_commit q4 = None then queue_clear q4
                         else q4\<lparr>cq_owner_lost := True, cq_waiting := False, cq_deadline := None,
                                 cq_commit_failed := True\<rparr>))))"

definition push_commit_then_mapped_insert ::
  "conversion_queue \<Rightarrow> ustring \<Rightarrow> ustring option \<Rightarrow> text_style \<Rightarrow> bool
   \<Rightarrow> conversion_queue \<times> queue_admission"
where
  "push_commit_then_mapped_insert q text original style direct_commit =
     (if cq_owner_lost q then (q, QFull)
      else let insert = ActInsert text original style direct_commit; units = payload_units insert
      in if 4096 < units then (q, QTooLarge)
         else if 64 < length (cq_actions q) + 2 \<or> 4096 < cq_units q + units then (q, QFull)
         else (q\<lparr>cq_actions := cq_actions q @ [ActCommit] @ [insert], cq_units := cq_units q + units\<rparr>,
               QAccepted))"

definition push_commit_then_insert ::
  "conversion_queue \<Rightarrow> ustring \<Rightarrow> text_style \<Rightarrow> bool \<Rightarrow> conversion_queue \<times> queue_admission"
where
  "push_commit_then_insert q text style direct_commit =
     push_commit_then_mapped_insert q text None style direct_commit"

text \<open>\<open>begin\<close>: the first wait fixes the deadline, later waits keep it.\<close>

definition queue_begin :: "conversion_queue \<Rightarrow> instant \<Rightarrow> ustring option \<Rightarrow> conversion_queue" where
  "queue_begin q now initial_reading =
     (if cq_owner_lost q then q
      else q\<lparr>cq_deadline := (case cq_deadline q of None \<Rightarrow> Some (now + 1200) | Some d \<Rightarrow> Some d),
             cq_initial_reading := (case cq_initial_reading q of None \<Rightarrow> initial_reading | Some r \<Rightarrow> Some r),
             cq_waiting := True\<rparr>)"

definition queue_push :: "conversion_queue \<Rightarrow> conversion_action \<Rightarrow> conversion_queue \<times> queue_admission" where
  "queue_push q action =
     (if cq_owner_lost q then (q, QFull)
      else if 4096 < payload_units action then (q, QTooLarge)
      else if 64 \<le> length (cq_actions q) \<or> 4096 < cq_units q + payload_units action then (q, QFull)
      else (q\<lparr>cq_units := cq_units q + payload_units action, cq_actions := cq_actions q @ [action]\<rparr>,
            QAccepted))"

definition push_reserving_commit ::
  "conversion_queue \<Rightarrow> conversion_action \<Rightarrow> conversion_queue \<times> queue_admission"
where
  "push_reserving_commit q action =
     (if 63 \<le> length (cq_actions q) then (q, QFull) else queue_push q action)"

definition prepend_commit_for_insert :: "conversion_queue \<Rightarrow> conversion_queue \<times> bool" where
  "prepend_commit_for_insert q =
     (if 64 \<le> length (cq_actions q)
        \<or> \<not> (case cq_actions q of [] \<Rightarrow> False | a # _ \<Rightarrow> is_insert a) then (q, False)
      else (q\<lparr>cq_actions := ActCommit # cq_actions q\<rparr>, True))"

definition prepend_capacity_commit :: "conversion_queue \<Rightarrow> conversion_queue \<times> bool" where
  "prepend_capacity_commit q =
     (if queue_front q = Some ActCommit then (q, True)
      else if length (cq_actions q) < 64 then (q\<lparr>cq_actions := ActCommit # cq_actions q\<rparr>, True)
      else case cq_actions q of
        [] \<Rightarrow> (q, False)
      | a # rest \<Rightarrow>
          (if \<not> is_insert a then (q\<lparr>cq_actions := ActCommit # rest\<rparr>, True) else (q, False)))"

fun exhaustible :: "conversion_action \<Rightarrow> bool" where
  "exhaustible (ActResizeClause _) = True"
| "exhaustible ActBackspace = True"
| "exhaustible ActDelete = True"
| "exhaustible (ActTransform _ _) = True"
| "exhaustible (ActRotateNotation _) = True"
| "exhaustible ActCancel = True"
| "exhaustible (ActCandidate _) = True"
| "exhaustible _ = False"

definition commit_exhausted_action :: "conversion_queue \<Rightarrow> conversion_queue \<times> bool" where
  "commit_exhausted_action q =
     (case cq_actions q of
        [] \<Rightarrow> (q, False)
      | a # rest \<Rightarrow> (if exhaustible a then (q\<lparr>cq_actions := ActCommit # rest\<rparr>, True) else (q, False)))"

definition consume_front_insert_prefix :: "conversion_queue \<Rightarrow> nat \<Rightarrow> conversion_queue option" where
  "consume_front_insert_prefix q chars =
     (case cq_actions q of
        ActInsert text original style direct # rest \<Rightarrow>
          (let remaining = drop chars text
           in case checked_sub (utf16_len text) (utf16_len remaining) of None \<Rightarrow> None | Some d \<Rightarrow>
              (case checked_sub (cq_units q) d of None \<Rightarrow> None | Some u \<Rightarrow>
                (case original of
                   None \<Rightarrow> Some (q\<lparr>cq_units := u, cq_actions := ActInsert remaining None style direct # rest\<rparr>)
                 | Some org \<Rightarrow>
                     (let remaining_org = drop chars org
                      in case checked_sub (utf16_len org) (utf16_len remaining_org) of None \<Rightarrow> None
                       | Some d2 \<Rightarrow> (case checked_sub u d2 of None \<Rightarrow> None | Some u2 \<Rightarrow>
                           Some (q\<lparr>cq_units := u2,
                             cq_actions := ActInsert remaining (Some remaining_org) style direct # rest\<rparr>))))))
      | _ \<Rightarrow> Some q)"

definition queue_resolved :: "conversion_queue \<Rightarrow> conversion_queue" where
  "queue_resolved q =
     (if cq_owner_lost q then q
      else let q1 = q\<lparr>cq_waiting := False, cq_initial_reading := None\<rparr>
      in if cq_actions q1 = [] then q1\<lparr>cq_deadline := None\<rparr> else q1)"

definition queue_expired :: "conversion_queue \<Rightarrow> instant \<Rightarrow> bool" where
  "queue_expired q now \<longleftrightarrow>
     cq_waiting q \<and> (case cq_deadline q of None \<Rightarrow> False | Some d \<Rightarrow> d \<le> now)"

fun window_after :: "bool \<Rightarrow> conversion_action list \<Rightarrow> bool" where
  "window_after open_w [] = open_w"
| "window_after open_w (a # as) =
     (case a of
        ActCandidate _ \<Rightarrow> window_after True as
      | ActMoveClause _ \<Rightarrow> window_after False as
      | ActResizeClause _ \<Rightarrow> window_after False as
      | ActTransform _ _ \<Rightarrow> window_after False as
      | ActRotateNotation _ \<Rightarrow> window_after False as
      | ActCancel \<Rightarrow> window_after False as
      | ActCommit \<Rightarrow> open_w
      | _ \<Rightarrow> window_after open_w as)"

definition logical_window_open :: "conversion_queue \<Rightarrow> bool" where
  "logical_window_open q = window_after False (cq_actions q)"

definition survives_failure :: "conversion_action \<Rightarrow> bool" where
  "survives_failure a \<longleftrightarrow> is_insert a \<or> a = ActBackspace \<or> a = ActDelete \<or> a = ActCancel"

definition fail_wait :: "conversion_queue \<Rightarrow> conversion_queue" where
  "fail_wait q =
     (if cq_owner_lost q then q
      else let q1 = q\<lparr>cq_waiting := False\<rparr>;
        retained = (case position (\<lambda>a. a = ActCommit) (cq_actions q1) of
            Some barrier \<Rightarrow> filter survives_failure (take barrier (cq_actions q1)) @ drop barrier (cq_actions q1)
          | None \<Rightarrow> filter survives_failure (cq_actions q1));
        q2 = q1\<lparr>cq_actions := retained, cq_units := sum_list (map payload_units retained)\<rparr>
      in if cq_actions q2 = [] then q2\<lparr>cq_deadline := None, cq_initial_reading := None\<rparr> else q2)"

definition supersede_calculation :: "conversion_queue \<Rightarrow> conversion_queue \<times> bool" where
  "supersede_calculation q =
     (if cq_owner_lost q \<or> cq_commit_failed q
        \<or> list_ex (\<lambda>a. a = ActCommit \<or> is_insert a \<or> a = ActBackspace \<or> a = ActDelete \<or> a = ActCancel)
            (cq_actions q)
      then (q, False) else (queue_clear q, True))"

definition cancel_before_commit :: "conversion_queue \<Rightarrow> conversion_queue \<times> bool" where
  "cancel_before_commit q =
     (if cq_owner_lost q \<or> has_commit q then (q, False) else (queue_clear q, True))"

section \<open>Bounds and accepted text\<close>

datatype queue_op =
  QPush conversion_action
| QPushReserving conversion_action
| QPushCommitInsert ustring "ustring option" text_style bool
| QBegin instant "ustring option"
| QResolved
| QFailWait
| QCompleteFront
| QConsume nat
| QPrependForInsert
| QPrependCapacity
| QExhausted
| QDetach "ustring option" bool
| QSupersede
| QCancelBeforeCommit
| QClear

fun run_queue_op :: "conversion_queue \<Rightarrow> queue_op \<Rightarrow> conversion_queue option" where
  "run_queue_op q (QPush a) = Some (fst (queue_push q a))"
| "run_queue_op q (QPushReserving a) = Some (fst (push_reserving_commit q a))"
| "run_queue_op q (QPushCommitInsert t r st d) = Some (fst (push_commit_then_mapped_insert q t r st d))"
| "run_queue_op q (QBegin now r) = Some (queue_begin q now r)"
| "run_queue_op q QResolved = Some (queue_resolved q)"
| "run_queue_op q QFailWait = Some (fail_wait q)"
| "run_queue_op q QCompleteFront = complete_front q"
| "run_queue_op q (QConsume n) = consume_front_insert_prefix q n"
| "run_queue_op q QPrependForInsert = Some (fst (prepend_commit_for_insert q))"
| "run_queue_op q QPrependCapacity = Some (fst (prepend_capacity_commit q))"
| "run_queue_op q QExhausted = Some (fst (commit_exhausted_action q))"
| "run_queue_op q (QDetach body applied) = queue_detach q body applied"
| "run_queue_op q QSupersede = Some (fst (supersede_calculation q))"
| "run_queue_op q QCancelBeforeCommit = Some (fst (cancel_before_commit q))"
| "run_queue_op q QClear = Some (queue_clear q)"

definition queue_ok :: "conversion_queue \<Rightarrow> bool" where
  "queue_ok q \<longleftrightarrow> length (cq_actions q) \<le> 64 \<and> cq_units q = sum_list (map payload_units (cq_actions q))
     \<and> cq_units q \<le> 4096 \<and> (cq_waiting q \<longrightarrow> cq_deadline q \<noteq> None)
     \<and> (cq_owner_lost q \<longrightarrow> \<not> cq_waiting q \<and> cq_commit_failed q)"

text \<open>The characters of the accepted insertions still queued, oldest first.\<close>

fun action_text :: "conversion_action \<Rightarrow> ustring" where
  "action_text (ActInsert t _ _ _) = t"
| "action_text _ = []"

definition queued_text :: "conversion_queue \<Rightarrow> ustring" where
  "queued_text q = concat (map action_text (cq_actions q))"

lemma payload_not_insert: "\<not> is_insert a \<Longrightarrow> payload_units a = 0"
  by (cases a) simp_all

lemma text_not_insert: "\<not> is_insert a \<Longrightarrow> action_text a = []"
  by (cases a) simp_all

lemma exhaustible_not_insert: "exhaustible a \<Longrightarrow> \<not> is_insert a"
  by (cases a) simp_all

lemma front_Some: "queue_front q = Some a \<longleftrightarrow> (\<exists>rest. cq_actions q = a # rest)"
  by (auto simp: queue_front_def split: list.splits)

lemma queue_ok_default: "queue_ok queue_default"
  by (simp add: queue_ok_def queue_default_def)

lemma queue_push_ok: "queue_ok q \<Longrightarrow> queue_ok (fst (queue_push q a))"
  by (simp add: queue_ok_def queue_push_def)

lemma queue_push_text:
  "queued_text (fst (queue_push q a)) =
   queued_text q @ (if snd (queue_push q a) = QAccepted then action_text a else [])"
  by (simp add: queue_push_def queued_text_def)

lemma push_reserving_ok: "queue_ok q \<Longrightarrow> queue_ok (fst (push_reserving_commit q a))"
  by (simp add: push_reserving_commit_def queue_push_ok)

lemma push_reserving_text:
  "queued_text (fst (push_reserving_commit q a)) =
   queued_text q @ (if snd (push_reserving_commit q a) = QAccepted then action_text a else [])"
  by (simp add: push_reserving_commit_def queue_push_text)

lemma push_commit_insert_ok: "queue_ok q \<Longrightarrow> queue_ok (fst (push_commit_then_mapped_insert q t r st d))"
  by (simp add: queue_ok_def push_commit_then_mapped_insert_def Let_def)

lemma push_commit_insert_text:
  "queued_text (fst (push_commit_then_mapped_insert q t r st d)) = queued_text q @
   (if snd (push_commit_then_mapped_insert q t r st d) = QAccepted then t else [])"
  by (simp add: push_commit_then_mapped_insert_def queued_text_def Let_def)

lemma queue_begin_ok: "queue_ok q \<Longrightarrow> queue_ok (queue_begin q now r)"
  by (simp add: queue_ok_def queue_begin_def split: option.splits)

lemma queue_resolved_ok: "queue_ok q \<Longrightarrow> queue_ok (queue_resolved q)"
  by (simp add: queue_ok_def queue_resolved_def Let_def)

lemma begin_resolved_text [simp]:
  "queued_text (queue_begin q now r) = queued_text q" "queued_text (queue_resolved q) = queued_text q"
  by (simp_all add: queued_text_def queue_begin_def queue_resolved_def Let_def)

text \<open>Removing the front: the payload never underflows.\<close>

lemma complete_front_effect:
  assumes "queue_ok q"
  shows "\<exists>q'. complete_front q = Some q' \<and> queue_ok q' \<and> cq_owner_lost q' = cq_owner_lost q
    \<and> cq_unwritten_commit q' = cq_unwritten_commit q
    \<and> cq_actions q' = (if cq_owner_lost q then cq_actions q else tl (cq_actions q))"
proof (cases "cq_owner_lost q")
  case True
  then show ?thesis using assms by (simp add: complete_front_def)
next
  case False
  show ?thesis
  proof (cases "cq_actions q")
    case Nil
    then show ?thesis using assms False by (auto simp: complete_front_def queue_ok_def)
  next
    case (Cons a rest)
    then have "checked_sub (cq_units q) (payload_units a) = Some (sum_list (map payload_units rest))"
      using assms by (simp add: queue_ok_def)
    then show ?thesis using Cons False assms
      by (cases "a = ActCommit") (auto simp: complete_front_def queue_ok_def Let_def)
  qed
qed

lemma consume_effect:
  assumes "queue_ok q"
  shows "\<exists>q'. consume_front_insert_prefix q n = Some q' \<and> queue_ok q'
    \<and> queued_text q = (case cq_actions q of a # _ \<Rightarrow> take n (action_text a) | [] \<Rightarrow> []) @ queued_text q'"
proof (cases "\<exists>t r st d rest. cq_actions q = ActInsert t r st d # rest")
  case False
  then have "consume_front_insert_prefix q n = Some q"
    by (auto simp: consume_front_insert_prefix_def split: list.splits conversion_action.splits)
  moreover have "(case cq_actions q of a # _ \<Rightarrow> take n (action_text a) | [] \<Rightarrow> []) = []"
  proof (cases "cq_actions q")
    case (Cons a rest)
    with False have "\<not> is_insert a" by (cases a) auto
    then show ?thesis using Cons text_not_insert by simp
  qed simp
  ultimately show ?thesis using assms by simp
next
  case True
  then obtain t r st d rest where a: "cq_actions q = ActInsert t r st d # rest" by blast
  have u: "utf16_len t = utf16_len (take n t) + utf16_len (drop n t)" for t :: ustring
    by (metis append_take_drop_id utf16_len_simps(3))
  have sub: "checked_sub (k + utf16_len x) (utf16_len (take n x)) = Some (k + utf16_len (drop n x))"
    "checked_sub (utf16_len x) (utf16_len (drop n x)) = Some (utf16_len (take n x))" for x k
    using u [of x] by simp_all
  have queued: "queued_text q = take n t @ drop n t @ concat (map action_text rest)"
    using a by (simp add: queued_text_def)
  let ?u = "sum_list (map payload_units rest)"
  have units: "cq_units q = utf16_len t + (case r of None \<Rightarrow> 0 | Some s \<Rightarrow> utf16_len s) + ?u"
    using assms a by (simp add: queue_ok_def)
  let ?q = "q\<lparr>cq_units := utf16_len (drop n t) + (case r of None \<Rightarrow> 0 | Some s \<Rightarrow> utf16_len (drop n s)) + ?u,
    cq_actions := ActInsert (drop n t) (map_option (drop n) r) st d # rest\<rparr>"
  have "consume_front_insert_prefix q n = Some ?q"
  proof (cases r)
    case None
    have d: "checked_sub (cq_units q) (utf16_len (take n t)) = Some (utf16_len (drop n t) + ?u)"
      using units None u [of t] by simp
    show ?thesis by (simp add: consume_front_insert_prefix_def Let_def a None sub(2) d del: checked_sub_Some)
  next
    case (Some org)
    have d: "checked_sub (cq_units q) (utf16_len (take n t)) = Some (utf16_len (drop n t) + utf16_len org + ?u)"
      using units Some u [of t] by simp
    have d2: "checked_sub (utf16_len (drop n t) + utf16_len org + ?u) (utf16_len (take n org))
        = Some (utf16_len (drop n t) + utf16_len (drop n org) + ?u)"
      using u [of org] by simp
    show ?thesis
      by (simp add: consume_front_insert_prefix_def Let_def a Some sub(2) d d2 del: checked_sub_Some)
  qed
  moreover have "utf16_len (drop n x) \<le> utf16_len x" for x using u [of x] by linarith
  then have "cq_units ?q \<le> cq_units q" using units by (cases r) (simp_all add: add_mono)
  then have "queue_ok ?q" using assms a by (cases r) (simp_all add: queue_ok_def)
  moreover have "queued_text ?q = drop n t @ concat (map action_text rest)"
    by (simp add: queued_text_def)
  ultimately show ?thesis using queued a by (intro exI [of _ ?q]) simp
qed

lemma replace_front_ok:
  "queue_ok q \<Longrightarrow> cq_actions q = a # rest \<Longrightarrow> \<not> is_insert a \<Longrightarrow>
   queue_ok (q\<lparr>cq_actions := ActCommit # rest\<rparr>) \<and>
   queued_text (q\<lparr>cq_actions := ActCommit # rest\<rparr>) = queued_text q"
  by (simp add: queue_ok_def queued_text_def payload_not_insert text_not_insert)

lemma prepend_ok:
  "queue_ok q \<Longrightarrow> length (cq_actions q) < 64 \<Longrightarrow>
   queue_ok (q\<lparr>cq_actions := ActCommit # cq_actions q\<rparr>) \<and>
   queued_text (q\<lparr>cq_actions := ActCommit # cq_actions q\<rparr>) = queued_text q"
  by (simp add: queue_ok_def queued_text_def)

lemma prepend_for_insert_ok:
  "queue_ok q \<Longrightarrow> queue_ok (fst (prepend_commit_for_insert q))
    \<and> queued_text (fst (prepend_commit_for_insert q)) = queued_text q"
  using prepend_ok [of q] by (simp add: prepend_commit_for_insert_def)

lemma prepend_capacity_ok:
  "queue_ok q \<Longrightarrow> queue_ok (fst (prepend_capacity_commit q))
    \<and> queued_text (fst (prepend_capacity_commit q)) = queued_text q"
  using prepend_ok [of q] replace_front_ok [of q]
  by (simp add: prepend_capacity_commit_def split: list.split)

lemma exhausted_ok:
  "queue_ok q \<Longrightarrow> queue_ok (fst (commit_exhausted_action q))
    \<and> queued_text (fst (commit_exhausted_action q)) = queued_text q"
  using replace_front_ok [of q] exhaustible_not_insert
  by (simp add: commit_exhausted_action_def split: list.split)

lemma no_insert_text: "\<forall>a\<in>set as. \<not> is_insert a \<Longrightarrow> concat (map action_text as) = []"
  using text_not_insert by (induction as) simp_all

lemma no_insert_units: "\<forall>a\<in>set as. \<not> is_insert a \<Longrightarrow> sum_list (map payload_units as) = 0"
  using payload_not_insert by (induction as) simp_all

lemma filter_survives:
  "concat (map action_text (filter survives_failure as)) = concat (map action_text as)"
  "sum_list (map payload_units (filter survives_failure as)) = sum_list (map payload_units as)"
proof -
  have "\<not> survives_failure a \<Longrightarrow> \<not> is_insert a" for a by (auto simp: survives_failure_def)
  then show "concat (map action_text (filter survives_failure as)) = concat (map action_text as)"
    "sum_list (map payload_units (filter survives_failure as)) = sum_list (map payload_units as)"
    using text_not_insert payload_not_insert by (induction as) auto
qed

text \<open>The list a failed wait retains.\<close>

definition after_failure :: "conversion_action list \<Rightarrow> conversion_action list" where
  "after_failure as = (case position (\<lambda>a. a = ActCommit) as of
     Some b \<Rightarrow> filter survives_failure (take b as) @ drop b as
   | None \<Rightarrow> filter survives_failure as)"

lemma after_failure_keeps:
  "concat (map action_text (after_failure as)) = concat (map action_text as)"
  "sum_list (map payload_units (after_failure as)) = sum_list (map payload_units as)"
  "length (after_failure as) \<le> length as"
proof -
  have s: "concat (map action_text (take b as)) @ concat (map action_text (drop b as))
      = concat (map action_text as)"
    "sum_list (map payload_units (take b as)) + sum_list (map payload_units (drop b as))
      = sum_list (map payload_units as)" for b
    by (metis append_take_drop_id concat_append map_append, metis append_take_drop_id map_append sum_list_append)
  show "concat (map action_text (after_failure as)) = concat (map action_text as)"
    "sum_list (map payload_units (after_failure as)) = sum_list (map payload_units as)"
    using s by (auto simp: after_failure_def filter_survives split: option.split)
  have "length (filter survives_failure (take b as)) + (length as - b) \<le> length as" if "b \<le> length as" for b
    using length_filter_le [of survives_failure "take b as"] that by simp
  then show "length (after_failure as) \<le> length as"
    by (auto simp: after_failure_def dest!: position_SomeD split: option.split)
qed

lemma fail_wait_unfold:
  "fail_wait q =
    (if cq_owner_lost q then q
     else let r = after_failure (cq_actions q);
              q2 = q\<lparr>cq_waiting := False, cq_actions := r, cq_units := sum_list (map payload_units r)\<rparr>
          in if r = [] then q2\<lparr>cq_deadline := None, cq_initial_reading := None\<rparr> else q2)"
proof -
  have f: "cq_actions (q\<lparr>cq_waiting := False\<rparr>) = cq_actions q"
    "\<And>r u. cq_actions (q\<lparr>cq_waiting := False, cq_actions := r, cq_units := u\<rparr>) = r" by simp_all
  show ?thesis unfolding fail_wait_def after_failure_def Let_def f ..
qed

lemma fail_wait_actions:
  "cq_actions (fail_wait q) = (if cq_owner_lost q then cq_actions q else after_failure (cq_actions q))"
  by (simp add: fail_wait_unfold Let_def)

lemma fail_wait_ok: "queue_ok q \<Longrightarrow> queue_ok (fail_wait q)"
  using after_failure_keeps [of "cq_actions q"]
  by (simp add: fail_wait_unfold Let_def queue_ok_def)

lemma fail_wait_text [simp]: "queued_text (fail_wait q) = queued_text q"
  by (simp add: queued_text_def fail_wait_actions after_failure_keeps)

text \<open>Losing the owner: only a front commit whose body reached the document leaves.\<close>

lemma detach_effect:
  assumes ok: "queue_ok q"
  shows "\<exists>q'. queue_detach q body applied = Some q' \<and> queue_ok q' \<and> queued_text q' = queued_text q"
proof (cases "cq_owner_lost q")
  case True
  then show ?thesis using ok by (simp add: queue_detach_def)
next
  case False
  define q1 where "q1 = q\<lparr>cq_waiting := False\<rparr>"
  define q2 where "q2 = (if \<not> list_ex (\<lambda>a. a = ActCommit \<or> is_insert a \<or> a = ActBackspace \<or> a = ActDelete)
      (cq_actions q1) then q1\<lparr>cq_actions := [], cq_units := 0\<rparr> else q1)"
  have ok2: "queue_ok q2" and t2: "queued_text q2 = queued_text q" and l2: "\<not> cq_owner_lost q2"
    using ok False no_insert_text [of "cq_actions q"]
    by (auto simp: q1_def q2_def queue_ok_def queued_text_def list_ex_iff)
  have "\<exists>q3. (if applied \<and> queue_front q2 = Some ActCommit then complete_front q2 else Some q2) = Some q3
      \<and> queue_ok q3 \<and> queued_text q3 = queued_text q2 \<and> \<not> cq_owner_lost q3"
  proof (cases "applied \<and> queue_front q2 = Some ActCommit")
    case True
    then obtain rest where "cq_actions q2 = ActCommit # rest" by (auto simp: front_Some)
    with complete_front_effect [OF ok2] l2 True show ?thesis by (auto simp: queued_text_def)
  qed (use ok2 l2 in auto)
  then obtain q3 where q3: "(if applied \<and> queue_front q2 = Some ActCommit then complete_front q2
      else Some q2) = Some q3" "queue_ok q3" "queued_text q3 = queued_text q2" by blast
  show ?thesis using False q3 t2 queue_ok_default
    unfolding queue_detach_def Let_def q1_def [symmetric] q2_def [symmetric]
    by (auto simp: queue_clear_def queue_ok_def queued_text_def queue_default_def)
qed

lemma supersede_effect:
  "queue_ok q \<Longrightarrow> queue_ok (fst (supersede_calculation q))
    \<and> queued_text (fst (supersede_calculation q)) = queued_text q"
  using queue_ok_default no_insert_text [of "cq_actions q"]
  by (auto simp: supersede_calculation_def queue_clear_def queued_text_def queue_default_def list_ex_iff)

lemma cancel_ok: "queue_ok q \<Longrightarrow> queue_ok (fst (cancel_before_commit q))"
  using queue_ok_default by (simp add: cancel_before_commit_def queue_clear_def)

text \<open>What one operation adds to and removes from the accepted text; the two explicit cancels, which
  discard what is queued, are kept apart.\<close>

fun discards :: "queue_op \<Rightarrow> bool" where
  "discards QCancelBeforeCommit = True"
| "discards QClear = True"
| "discards _ = False"

fun admitted_text :: "conversion_queue \<Rightarrow> queue_op \<Rightarrow> ustring" where
  "admitted_text q (QPush a) = (if snd (queue_push q a) = QAccepted then action_text a else [])"
| "admitted_text q (QPushReserving a) =
     (if snd (push_reserving_commit q a) = QAccepted then action_text a else [])"
| "admitted_text q (QPushCommitInsert t r st d) =
     (if snd (push_commit_then_mapped_insert q t r st d) = QAccepted then t else [])"
| "admitted_text q _ = []"

definition front_text :: "conversion_queue \<Rightarrow> ustring" where
  "front_text q = (case cq_actions q of a # _ \<Rightarrow> action_text a | [] \<Rightarrow> [])"

fun delivered_text :: "conversion_queue \<Rightarrow> queue_op \<Rightarrow> ustring" where
  "delivered_text q QCompleteFront = (if cq_owner_lost q then [] else front_text q)"
| "delivered_text q (QConsume n) = take n (front_text q)"
| "delivered_text q _ = []"

lemma run_queue_op_effect:
  assumes "queue_ok q"
  shows "\<exists>q'. run_queue_op q op = Some q' \<and> queue_ok q'
    \<and> (\<not> discards op \<longrightarrow> queued_text q @ admitted_text q op = delivered_text q op @ queued_text q')"
proof (cases op)
  case (QPush a)
  then show ?thesis using queue_push_ok [OF assms] queue_push_text by simp
next
  case (QPushReserving a)
  then show ?thesis using push_reserving_ok [OF assms] push_reserving_text by simp
next
  case (QPushCommitInsert t r st d)
  then show ?thesis using push_commit_insert_ok [OF assms] push_commit_insert_text by simp
next
  case QCompleteFront
  then show ?thesis using complete_front_effect [OF assms]
    by (cases "cq_actions q") (auto simp: queued_text_def front_text_def)
next
  case (QConsume n)
  then show ?thesis using consume_effect [OF assms, of n]
    by (auto simp: front_text_def split: list.splits)
next
  case (QDetach body applied)
  then show ?thesis using detach_effect [OF assms, of body applied] by auto
qed (use assms queue_begin_ok queue_resolved_ok fail_wait_ok prepend_for_insert_ok prepend_capacity_ok
      exhausted_ok supersede_effect cancel_ok queue_ok_default in \<open>simp_all add: queue_clear_def\<close>)

text \<open>The queues a client can build, with the text accepted and delivered since the last discard.\<close>

inductive queue_run :: "ustring \<Rightarrow> ustring \<Rightarrow> conversion_queue \<Rightarrow> bool" where
  start: "queue_run [] [] queue_default"
| step: "queue_run acc dlv q \<Longrightarrow> \<not> discards op \<Longrightarrow> run_queue_op q op = Some q' \<Longrightarrow>
    queue_run (acc @ admitted_text q op) (dlv @ delivered_text q op) q'"
| discard: "queue_run acc dlv q \<Longrightarrow> discards op \<Longrightarrow> run_queue_op q op = Some q' \<Longrightarrow>
    queue_run (dlv @ queued_text q') dlv q'"

text \<open>The queue with its account of accepted and delivered text as a machine.\<close>

type_synonym queue_account = "ustring \<times> ustring \<times> conversion_queue"

definition run_account :: "queue_account \<Rightarrow> queue_op \<Rightarrow> queue_account option" where
  "run_account a op =
     (case a of (acc, dlv, q) \<Rightarrow> map_option (\<lambda>q'.
        if discards op then (dlv @ queued_text q', dlv, q')
        else (acc @ admitted_text q op, dlv @ delivered_text q op, q')) (run_queue_op q op))"

definition account_ok :: "queue_account \<Rightarrow> bool" where
  "account_ok a \<longleftrightarrow> (case a of (acc, dlv, q) \<Rightarrow> queue_ok q \<and> acc = dlv @ queued_text q)"

lemma account_start: "account_ok ([], [], queue_default)"
proof -
  have "queued_text queue_default = []" by (simp add: queued_text_def queue_default_def)
  then show ?thesis by (simp add: account_ok_def queue_ok_default)
qed

lemma account_step:
  assumes "account_ok a"
  shows "\<exists>b. run_account a op = Some b \<and> account_ok b"
proof (cases a)
  case (fields acc dlv q)
  then have q: "queue_ok q" "acc = dlv @ queued_text q" using assms by (simp_all add: account_ok_def)
  obtain q' where r: "run_queue_op q op = Some q'" "queue_ok q'"
    "\<not> discards op \<longrightarrow> queued_text q @ admitted_text q op = delivered_text q op @ queued_text q'"
    using run_queue_op_effect [OF q(1)] by blast
  show ?thesis
    by (cases "discards op") (use q(2) r fields in \<open>simp_all add: run_account_def account_ok_def\<close>)
qed

interpretation queue: event_machine "\<lambda>(acc, dlv, q). queue_run acc dlv q" "\<lambda>a. a = ([], [], queue_default)"
    "\<lambda>_ _. True" run_account account_ok "\<lambda>_ _. True"
proof unfold_locales
  fix P a
  assume r: "case a of (acc, dlv, q) \<Rightarrow> queue_run acc dlv q" and start: "\<And>a. a = ([], [], queue_default) \<Longrightarrow> P a"
    and keep: "\<And>a b. case a of (acc, dlv, q) \<Rightarrow> queue_run acc dlv q \<Longrightarrow> P a
      \<Longrightarrow> \<exists>op. True \<and> run_account a op = Some b \<Longrightarrow> P b"
  obtain acc dlv q where a: "a = (acc, dlv, q)" by (cases a)
  have "queue_run acc dlv q" using r a by simp
  then have "P (acc, dlv, q)"
  proof (induction rule: queue_run.induct)
    case (step acc dlv q op q')
    have "run_account (acc, dlv, q) op = Some (acc @ admitted_text q op, dlv @ delivered_text q op, q')"
      using step.hyps by (simp add: run_account_def)
    then show ?case using keep [of "(acc, dlv, q)"] step.hyps(1) step.IH by auto
  next
    case (discard acc dlv q op q')
    have "run_account (acc, dlv, q) op = Some (dlv @ queued_text q', dlv, q')"
      using discard.hyps by (simp add: run_account_def)
    then show ?case using keep [of "(acc, dlv, q)"] discard.hyps(1) discard.IH by auto
  qed (use start in simp)
  then show "P a" using a by simp
next
  fix a b
  assume "account_ok a" "\<exists>op. True \<and> run_account a op = Some b"
  then show "account_ok b" using account_step [of a] by (metis option.inject)
next
  fix a op
  assume "account_ok a"
  then show "run_account a op \<noteq> None" using account_step [of a op] by fastforce
qed (simp add: account_start)

lemma queue_run_ok: "queue_run acc dlv q \<Longrightarrow> queue_ok q \<and> acc = dlv @ queued_text q"
  using queue.reach_good [of "(acc, dlv, q)"] by (simp add: account_ok_def)

text \<open>C35: in every reachable state the next queue operation returns without underflow, and then at most
  64 operations with at most 4096 payload units are queued, the counter is exactly their payload, and a
  wait always has a deadline.\<close>

theorem queue_bounded:
  assumes "queue_run acc dlv q"
  shows "\<exists>q'. run_queue_op q op = Some q' \<and> length (cq_actions q') \<le> 64
    \<and> cq_units q' = sum_list (map payload_units (cq_actions q')) \<and> cq_units q' \<le> 4096
    \<and> \<not> (cq_waiting q' \<and> cq_deadline q' = None)"
  using run_queue_op_effect [of q op] queue_run_ok [OF assms] by (auto simp: queue_ok_def)

theorem queue_bounded_witness:
  "\<exists>q'. run_queue_op queue_default (QPush (ActInsert [0x3042] None StyleKanaText False)) = Some q'
    \<and> length (cq_actions q') \<le> 64
    \<and> cq_units q' = sum_list (map payload_units (cq_actions q')) \<and> cq_units q' \<le> 4096
    \<and> \<not> (cq_waiting q' \<and> cq_deadline q' = None)"
  by (rule queue_bounded [OF queue_run.start])

text \<open>C34: accepted text is never lost, duplicated or reordered: after any sequence of admissions, waits,
  failed waits, barriers, partial and full deliveries and an owner loss, the text accepted so far is the
  text delivered followed by the text still queued, in order. Only the explicit cancels discard.\<close>

theorem queue_text_fifo:
  assumes "queue_run acc dlv q"
  shows "acc = dlv @ queued_text q"
  using queue_run_ok [OF assms] by simp

theorem queue_text_fifo_witness:
  "[0x3042, 0x3044, 0x3046] = [0x3042] @ queued_text
     \<lparr>cq_actions = [ActInsert [0x3044, 0x3046] None StyleKanaText False], cq_units = 2, cq_deadline = None,
      cq_waiting = False, cq_commit_failed = False, cq_initial_reading = None, cq_owner_lost = False,
      cq_unwritten_commit = None, cq_suppress_commit_prediction = False\<rparr>"
proof -
  let ?a = "ActInsert [0x3042, 0x3044, 0x3046] None StyleKanaText False"
  have one: "queue_run ([] @ [0x3042, 0x3044, 0x3046]) ([] @ []) (fst (queue_push queue_default ?a))"
    using queue_run.step [OF queue_run.start, of "QPush ?a"]
    by (simp add: queue_push_def queue_default_def utf16_width_def)
  have "queue_run ([0x3042, 0x3044, 0x3046] @ []) ([] @ [0x3042])
     \<lparr>cq_actions = [ActInsert [0x3044, 0x3046] None StyleKanaText False], cq_units = 2, cq_deadline = None,
      cq_waiting = False, cq_commit_failed = False, cq_initial_reading = None, cq_owner_lost = False,
      cq_unwritten_commit = None, cq_suppress_commit_prediction = False\<rparr>"
    using queue_run.step [OF one, of "QConsume 1"]
    by (simp add: queue_push_def queue_default_def consume_front_insert_prefix_def front_text_def
        utf16_width_def checked_sub_def numeral_2_eq_2)
  from queue_text_fifo [OF this] show ?thesis by simp
qed

subsection \<open>Failed waits and lost owners\<close>

lemma position_append: "\<forall>x\<in>set xs. \<not> p x \<Longrightarrow> p y \<Longrightarrow> position p (xs @ y # ys) = Some (length xs)"
  by (induction xs) auto

text \<open>What the user did to the document: typing, deleting, cancelling and committing. The other actions
  move, resize, choose or convert, and mean nothing without the calculation that failed.\<close>

fun document_action :: "conversion_action \<Rightarrow> bool" where
  "document_action ActCommit \<longleftrightarrow> True"
| "document_action ActCancel \<longleftrightarrow> True"
| "document_action (ActInsert _ _ _ _) \<longleftrightarrow> True"
| "document_action ActBackspace \<longleftrightarrow> True"
| "document_action ActDelete \<longleftrightarrow> True"
| "document_action (ActMoveClause _) \<longleftrightarrow> False"
| "document_action (ActMoveReading _) \<longleftrightarrow> False"
| "document_action ActReadingHome \<longleftrightarrow> False"
| "document_action ActReadingEnd \<longleftrightarrow> False"
| "document_action (ActResizeClause _) \<longleftrightarrow> False"
| "document_action (ActCandidate _) \<longleftrightarrow> False"
| "document_action (ActHome _) \<longleftrightarrow> False"
| "document_action (ActEnd _) \<longleftrightarrow> False"
| "document_action (ActTransform _ _) \<longleftrightarrow> False"
| "document_action (ActRotateNotation _) \<longleftrightarrow> False"

fun commit_action :: "conversion_action \<Rightarrow> bool" where
  "commit_action ActCommit \<longleftrightarrow> True"
| "commit_action _ \<longleftrightarrow> False"

lemma survives_document: "survives_failure a \<longleftrightarrow> document_action a \<and> \<not> commit_action a"
  by (cases a) (simp_all add: survives_failure_def)

lemma commit_action_iff: "commit_action a \<longleftrightarrow> a = ActCommit"
  by (cases a) simp_all

lemma after_failure_cut:
  "after_failure as = filter survives_failure (takeWhile (\<lambda>a. \<not> commit_action a) as) @ dropWhile (\<lambda>a. \<not> commit_action a) as"
proof (cases "ActCommit \<in> set as")
  case True
  then obtain xs ys where as: "as = xs @ ActCommit # ys" "ActCommit \<notin> set xs" by (meson split_list_first)
  then have "position (\<lambda>a. a = ActCommit) as = Some (length xs)"
    using position_append [of xs "\<lambda>a. a = ActCommit"] by auto
  moreover have "takeWhile (\<lambda>a. \<not> commit_action a) as = xs" "dropWhile (\<lambda>a. \<not> commit_action a) as = ActCommit # ys"
    using as by (auto simp: commit_action_iff takeWhile_append dropWhile_append)
  ultimately show ?thesis using as(1) by (simp add: after_failure_def)
next
  case False
  then have p: "position (\<lambda>a. a = ActCommit) as = None" by auto
  moreover have "takeWhile (\<lambda>a. \<not> commit_action a) as = as" "dropWhile (\<lambda>a. \<not> commit_action a) as = []"
    using False by (auto simp: commit_action_iff takeWhile_eq_all_conv dropWhile_eq_Nil_conv)
  ultimately show ?thesis by (simp only: after_failure_def p option.case append_Nil2)
qed

text \<open>C36: A failed wait of a queue that has its owner loses nothing the user did to the document: all document actions
  stay, in their order, and with them the text that is queued; from the first commit on the queue is unchanged; and of
  what was queued before it nothing but the document actions stays, so no calculation is left to wait for. The wait is
  over, the count of units is exact, and the deadline and the first reading go exactly when nothing is left.\<close>

theorem failed_wait_keeps_document_actions:
  assumes "\<not> cq_owner_lost q" and "q' = fail_wait q"
  shows "filter document_action (cq_actions q') = filter document_action (cq_actions q)
    \<and> queued_text q' = queued_text q
    \<and> dropWhile (\<lambda>a. \<not> commit_action a) (cq_actions q') = dropWhile (\<lambda>a. \<not> commit_action a) (cq_actions q)
    \<and> list_all document_action (takeWhile (\<lambda>a. \<not> commit_action a) (cq_actions q'))
    \<and> cq_units q' = sum_list (map payload_units (cq_actions q')) \<and> \<not> cq_waiting q'
    \<and> (cq_deadline q', cq_initial_reading q')
        = (if cq_actions q' = [] then (None, None) else (cq_deadline q, cq_initial_reading q))"
proof -
  let ?as = "cq_actions q" and ?c = "\<lambda>a. \<not> commit_action a"
  let ?kept = "filter survives_failure (takeWhile ?c ?as)"
  have q': "cq_actions q' = ?kept @ dropWhile ?c ?as"
    using assms by (simp add: fail_wait_unfold Let_def after_failure_cut)
  have kept: "filter document_action ?kept = filter document_action (takeWhile ?c ?as)"
    by (auto simp: survives_document dest: set_takeWhileD intro: filter_cong)
  have plain: "\<And>a. a \<in> set ?kept \<Longrightarrow> ?c a" by (auto simp: survives_document)
  have rest: "takeWhile ?c (dropWhile ?c as) = []" "dropWhile ?c (dropWhile ?c as) = dropWhile ?c as" for as
    by (induction as) auto
  have cut: "dropWhile ?c (cq_actions q') = dropWhile ?c ?as" "takeWhile ?c (cq_actions q') = ?kept"
    unfolding q' by (simp_all only: dropWhile_append2 [OF plain] takeWhile_append2 [OF plain] rest append_Nil2)
  have "filter document_action (cq_actions q') = filter document_action ?as"
    unfolding q' using kept by (metis filter_append takeWhile_dropWhile_id)
  moreover have "list_all document_action ?kept" by (auto simp: list_all_iff survives_document)
  moreover have "queued_text q' = queued_text q"
    using assms after_failure_keeps(1) [of ?as] by (simp add: queued_text_def fail_wait_actions)
  ultimately show ?thesis using cut assms by (simp add: fail_wait_unfold Let_def)
qed

theorem failed_wait_keeps_document_actions_witness:
  "filter document_action (cq_actions (fail_wait (queue_default\<lparr>cq_actions := [ActMoveClause 1, ActBackspace, ActCommit,
      ActCandidate 1], cq_waiting := True\<rparr>))) = [ActBackspace, ActCommit]"
  using failed_wait_keeps_document_actions [of "queue_default\<lparr>cq_actions := [ActMoveClause 1, ActBackspace, ActCommit,
      ActCandidate 1], cq_waiting := True\<rparr>", OF _ refl]
  by (simp add: queue_default_def)

fun owner_checked :: "queue_op \<Rightarrow> bool" where
  "owner_checked QClear = False"
| "owner_checked (QConsume _) = False"
| "owner_checked QPrependForInsert = False"
| "owner_checked QPrependCapacity = False"
| "owner_checked QExhausted = False"
| "owner_checked _ = True"

text \<open>Once the owner of the queue is lost, nothing is admitted, completed, superseded, cancelled or
  detached again: every operation that checks ownership leaves the queue as it is.\<close>

theorem owner_lost_frozen:
  assumes "cq_owner_lost q" and "owner_checked op"
  shows "run_queue_op q op = Some q \<and> admitted_text q op = [] \<and> delivered_text q op = []"
  using assms
  by (cases op) (simp_all add: queue_push_def push_reserving_commit_def push_commit_then_mapped_insert_def
      queue_begin_def queue_resolved_def fail_wait_def complete_front_def queue_detach_def
      supersede_calculation_def cancel_before_commit_def)

theorem owner_lost_frozen_witness:
  "run_queue_op (queue_default\<lparr>cq_owner_lost := True, cq_actions := [ActCommit]\<rparr>) QCompleteFront
     = Some (queue_default\<lparr>cq_owner_lost := True, cq_actions := [ActCommit]\<rparr>)"
  using owner_lost_frozen [of "queue_default\<lparr>cq_owner_lost := True, cq_actions := [ActCommit]\<rparr>" QCompleteFront]
  by simp

text \<open>Reserving admission leaves room for the barrier that must precede the edit.\<close>

lemma reserved_barrier:
  "push_reserving_commit q a = (q', QAccepted) \<Longrightarrow> snd (prepend_capacity_commit q')"
  by (auto simp: push_reserving_commit_def queue_push_def prepend_capacity_commit_def split: if_splits)

text \<open>A later wait never extends the deadline of the first.\<close>

lemma begin_keeps_deadline:
  "\<not> cq_owner_lost q \<Longrightarrow> cq_deadline (queue_begin (queue_begin q t r) t' r') = cq_deadline (queue_begin q t r)"
  by (simp add: queue_begin_def split: option.split)

end
