(* ===== verification/Input_State.thy ===== *)
theory Input_State
  imports Symbols Keymap Clause_Wire
begin

text \<open>
  The input state of the text service and its pure text routines,
  \<open>crates/tip/src/input_state.rs\<close>. A counter that would leave 64 bits is \<open>None\<close>.
\<close>

datatype phase = Composing | AwaitingLlm

record input_state =
  is_raw :: ustring
  is_composing :: bool
  is_live_seq :: nat
  is_llm_seq :: nat
  is_phase :: phase
  is_notation_fixed :: "notation_kind option"
  is_latin_from :: "nat option"

definition input_state_default :: input_state where
  "input_state_default =
     \<lparr>is_raw = [], is_composing = False, is_live_seq = 0, is_llm_seq = 0, is_phase = Composing,
      is_notation_fixed = None, is_latin_from = None\<rparr>"

datatype input_action =
  StartOrUpdatePreedit ustring | RequestConvert | CommitPreedit | RequestLlmConvert | PassKey

definition on_char :: "input_state \<Rightarrow> uchar \<Rightarrow> input_state \<times> input_action" where
  "on_char s ch =
     (let s' = s\<lparr>is_raw := is_raw s @ [ch], is_composing := True, is_notation_fixed := None\<rparr>
      in (s', StartOrUpdatePreedit (is_raw s')))"

definition on_char_latin :: "input_state \<Rightarrow> uchar \<Rightarrow> input_state \<times> input_action" where
  "on_char_latin s ch =
     (let s' = (if is_latin_from s = None then s\<lparr>is_latin_from := Some (byte_len (is_raw s))\<rparr> else s)
      in on_char s' ch)"

definition latin_mode :: "input_state \<Rightarrow> bool" where
  "latin_mode s \<longleftrightarrow> is_composing s \<and> is_latin_from s \<noteq> None"

definition on_space :: "input_state \<Rightarrow> input_action" where
  "on_space s = (if is_composing s then RequestConvert else PassKey)"

definition on_enter :: "input_state \<Rightarrow> input_action" where
  "on_enter s = (if is_composing s then CommitPreedit else PassKey)"

definition on_backspace :: "input_state \<Rightarrow> input_state \<times> input_action" where
  "on_backspace s =
     (if is_composing s then
        (let s1 = s\<lparr>is_raw := butlast (is_raw s)\<rparr>;
             s2 = (if is_raw s1 = [] then s1\<lparr>is_composing := False, is_latin_from := None\<rparr>
                   else case is_latin_from s1 of
                     Some lf \<Rightarrow> (if byte_len (is_raw s1) < lf
                       then s1\<lparr>is_latin_from := Some (byte_len (is_raw s1))\<rparr> else s1)
                   | None \<Rightarrow> s1);
             s3 = s2\<lparr>is_notation_fixed := None\<rparr>
         in (s3, StartOrUpdatePreedit (is_raw s3)))
      else (s, PassKey))"

definition state_reset :: "input_state \<Rightarrow> input_state" where
  "state_reset s =
     s\<lparr>is_raw := [], is_composing := False, is_phase := Composing, is_notation_fixed := None,
       is_latin_from := None\<rparr>"

definition resume_composing :: "input_state \<Rightarrow> input_state" where
  "resume_composing s = s\<lparr>is_composing := True\<rparr>"

definition reseed_after_partial_commit :: "input_state \<Rightarrow> ustring \<Rightarrow> nat option \<Rightarrow> input_state" where
  "reseed_after_partial_commit s remaining latin_from =
     s\<lparr>is_raw := remaining, is_composing := True, is_phase := Composing, is_notation_fixed := None,
       is_latin_from := latin_from\<rparr>"

definition bump_live_seq :: "input_state \<Rightarrow> (input_state \<times> nat) option" where
  "bump_live_seq s = map_option (\<lambda>n. (s\<lparr>is_live_seq := n\<rparr>, n)) (checked_add_u64 (is_live_seq s) 1)"

definition on_tab :: "input_state \<Rightarrow> input_action" where
  "on_tab s = (if is_composing s \<and> is_phase s = Composing then RequestLlmConvert else PassKey)"

definition bump_llm_seq :: "input_state \<Rightarrow> (input_state \<times> nat) option" where
  "bump_llm_seq s = map_option (\<lambda>n. (s\<lparr>is_llm_seq := n\<rparr>, n)) (checked_add_u64 (is_llm_seq s) 1)"

definition awaiting_llm :: "input_state \<Rightarrow> bool" where
  "awaiting_llm s \<longleftrightarrow> is_phase s = AwaitingLlm"

definition set_awaiting_llm :: "input_state \<Rightarrow> bool \<Rightarrow> input_state" where
  "set_awaiting_llm s on = s\<lparr>is_phase := if on then AwaitingLlm else Composing\<rparr>"

subsection \<open>What Enter commits\<close>

definition should_consult_live_engine :: "bool \<Rightarrow> notation_kind option \<Rightarrow> bool" where
  "should_consult_live_engine live_enabled notation_fixed \<longleftrightarrow> live_enabled \<and> notation_fixed = None"

datatype live_enter_plan = EngineCommit ustring | DirectCommit ustring

definition plan_live_enter :: "ustring option \<Rightarrow> ustring \<Rightarrow> ustring \<Rightarrow> live_enter_plan" where
  "plan_live_enter live live_text last_reading =
     (case (case live of Some t \<Rightarrow> (if t \<noteq> [] then Some t else None) | None \<Rightarrow> None) of
        Some t \<Rightarrow> EngineCommit t
      | None \<Rightarrow> DirectCommit (if live_text \<noteq> [] then live_text else last_reading))"

definition preedit_after_candidates_closed :: "ustring option \<Rightarrow> ustring \<Rightarrow> ustring \<Rightarrow> ustring option" where
  "preedit_after_candidates_closed live live_text last_reading =
     (let text = (case plan_live_enter live live_text last_reading of EngineCommit t \<Rightarrow> t | DirectCommit t \<Rightarrow> t)
      in if text \<noteq> [] then Some text else None)"

definition commit_text :: "unit + ustring list \<Rightarrow> nat \<Rightarrow> ustring \<Rightarrow> ustring" where
  "commit_text result selected fallback_reading =
     (case result of
        Inr cands \<Rightarrow>
          (if cands \<noteq> [] then (if selected < length cands then cands ! selected else cands ! 0)
           else fallback_reading)
      | Inl _ \<Rightarrow> fallback_reading)"

definition is_fresh_live :: "nat \<Rightarrow> nat \<Rightarrow> bool" where
  "is_fresh_live resp_seq current_seq \<longleftrightarrow> resp_seq = current_seq"

subsection \<open>Text routines\<close>

text \<open>The source counts trailing bytes; the characters counted here are single bytes and no byte of a
  longer character is an ASCII letter or a hyphen, so the two counts agree.\<close>

definition latin_char :: "uchar \<Rightarrow> bool" where
  "latin_char c \<longleftrightarrow> is_ascii_lowercase c \<or> is_ascii_uppercase c \<or> c = 0x2D"

definition latin_run_span :: "ustring \<Rightarrow> nat" where
  "latin_run_span s = length (takeWhile latin_char (rev s))"

definition is_control :: "uchar \<Rightarrow> bool" where
  "is_control c \<longleftrightarrow> c \<le> 0x1F \<or> 0x7F \<le> c \<and> c \<le> 0x9F"

definition is_separator :: "uchar \<Rightarrow> bool" where
  "is_separator c \<longleftrightarrow> is_control c \<or> c = 0xFFFC \<or> c = 0x2028 \<or> c = 0x2029"

definition sanitize_left_context :: "ustring \<Rightarrow> ustring option" where
  "sanitize_left_context raw =
     (let tail = rev (takeWhile (\<lambda>c. \<not> is_separator c) (rev raw));
          tail' = dropWhile (\<lambda>c. c = 0xFFFD) tail;
          clamped = drop (length tail' - 40) tail'
      in if clamped = [] then None else Some clamped)"

definition to_kana_reading_char :: "uchar \<Rightarrow> uchar" where
  "to_kana_reading_char ch = (if ch = 0x2D then 0x30FC else ch)"

definition latin_reconvert_reading :: "ustring \<Rightarrow> ustring" where
  "latin_reconvert_reading s = map to_kana_reading_char s"

definition to_katakana :: "ustring \<Rightarrow> ustring" where
  "to_katakana s = map (\<lambda>c. if 0x3041 \<le> c \<and> c \<le> 0x3096 then c + 0x60 else c) s"

definition hankaku_table :: "(uchar \<times> ustring) list" where
  "hankaku_table =
    [(0x3042, [0xFF71]),
     (0x3044, [0xFF72]),
     (0x3046, [0xFF73]),
     (0x3048, [0xFF74]),
     (0x304A, [0xFF75]),
     (0x304B, [0xFF76]),
     (0x304D, [0xFF77]),
     (0x304F, [0xFF78]),
     (0x3051, [0xFF79]),
     (0x3053, [0xFF7A]),
     (0x3055, [0xFF7B]),
     (0x3057, [0xFF7C]),
     (0x3059, [0xFF7D]),
     (0x305B, [0xFF7E]),
     (0x305D, [0xFF7F]),
     (0x305F, [0xFF80]),
     (0x3061, [0xFF81]),
     (0x3064, [0xFF82]),
     (0x3066, [0xFF83]),
     (0x3068, [0xFF84]),
     (0x306A, [0xFF85]),
     (0x306B, [0xFF86]),
     (0x306C, [0xFF87]),
     (0x306D, [0xFF88]),
     (0x306E, [0xFF89]),
     (0x306F, [0xFF8A]),
     (0x3072, [0xFF8B]),
     (0x3075, [0xFF8C]),
     (0x3078, [0xFF8D]),
     (0x307B, [0xFF8E]),
     (0x307E, [0xFF8F]),
     (0x307F, [0xFF90]),
     (0x3080, [0xFF91]),
     (0x3081, [0xFF92]),
     (0x3082, [0xFF93]),
     (0x3084, [0xFF94]),
     (0x3086, [0xFF95]),
     (0x3088, [0xFF96]),
     (0x3089, [0xFF97]),
     (0x308A, [0xFF98]),
     (0x308B, [0xFF99]),
     (0x308C, [0xFF9A]),
     (0x308D, [0xFF9B]),
     (0x308F, [0xFF9C]),
     (0x3092, [0xFF66]),
     (0x3093, [0xFF9D]),
     (0x304C, [0xFF76, 0xFF9E]),
     (0x304E, [0xFF77, 0xFF9E]),
     (0x3050, [0xFF78, 0xFF9E]),
     (0x3052, [0xFF79, 0xFF9E]),
     (0x3054, [0xFF7A, 0xFF9E]),
     (0x3056, [0xFF7B, 0xFF9E]),
     (0x3058, [0xFF7C, 0xFF9E]),
     (0x305A, [0xFF7D, 0xFF9E]),
     (0x305C, [0xFF7E, 0xFF9E]),
     (0x305E, [0xFF7F, 0xFF9E]),
     (0x3060, [0xFF80, 0xFF9E]),
     (0x3062, [0xFF81, 0xFF9E]),
     (0x3065, [0xFF82, 0xFF9E]),
     (0x3067, [0xFF83, 0xFF9E]),
     (0x3069, [0xFF84, 0xFF9E]),
     (0x3070, [0xFF8A, 0xFF9E]),
     (0x3073, [0xFF8B, 0xFF9E]),
     (0x3076, [0xFF8C, 0xFF9E]),
     (0x3079, [0xFF8D, 0xFF9E]),
     (0x307C, [0xFF8E, 0xFF9E]),
     (0x3071, [0xFF8A, 0xFF9F]),
     (0x3074, [0xFF8B, 0xFF9F]),
     (0x3077, [0xFF8C, 0xFF9F]),
     (0x307A, [0xFF8D, 0xFF9F]),
     (0x307D, [0xFF8E, 0xFF9F]),
     (0x3094, [0xFF73, 0xFF9E]),
     (0x3041, [0xFF67]),
     (0x3043, [0xFF68]),
     (0x3045, [0xFF69]),
     (0x3047, [0xFF6A]),
     (0x3049, [0xFF6B]),
     (0x3083, [0xFF6C]),
     (0x3085, [0xFF6D]),
     (0x3087, [0xFF6E]),
     (0x3063, [0xFF6F]),
     (0x30FC, [0xFF70]),
     (0x3002, [0xFF61]),
     (0x3001, [0xFF64]),
     (0x300C, [0xFF62]),
     (0x300D, [0xFF63]),
     (0x30FB, [0xFF65])]"

definition hankaku_char :: "uchar \<Rightarrow> ustring" where
  "hankaku_char c = (case map_of hankaku_table c of Some v \<Rightarrow> v | None \<Rightarrow> [c])"

definition to_hankaku_kana :: "ustring \<Rightarrow> ustring" where
  "to_hankaku_kana s = concat (map hankaku_char s)"

definition to_zenkaku_ascii :: "ustring \<Rightarrow> ustring" where
  "to_zenkaku_ascii s =
     map (\<lambda>c. if c = 0x20 then 0x3000 else if 0x21 \<le> c \<and> c \<le> 0x7E then zenkaku_of c else c) s"

definition to_zenkaku_digits :: "ustring \<Rightarrow> ustring" where
  "to_zenkaku_digits s = map (\<lambda>c. if 0x30 \<le> c \<and> c \<le> 0x39 then c - 0x30 + 0xFF10 else c) s"

definition should_widen_digits ::
  "bool \<Rightarrow> bool \<Rightarrow> bool \<Rightarrow> notation_kind option \<Rightarrow> ustring \<Rightarrow> bool"
where
  "should_widen_digits number_full_width direct latin notation_fixed source \<longleftrightarrow>
     (let halfwidth_notation = (case notation_fixed of
        Some NotHankakuEisu \<Rightarrow> True | Some NotHankakuKana \<Rightarrow> True | _ \<Rightarrow> False)
      in number_full_width \<and> \<not> direct \<and> \<not> latin \<and> \<not> halfwidth_notation
         \<and> \<not> (source = ascii ''candidate'' \<or> source = ascii ''candidate_prefix'' \<or> source = ascii ''clause''))"

definition clause_target_utf16 :: "ustring list \<Rightarrow> nat \<Rightarrow> nat \<times> nat" where
  "clause_target_utf16 segments selected =
     (sum_list (map utf16_len (take selected segments)),
      (case get segments selected of Some s \<Rightarrow> utf16_len s | None \<Rightarrow> 0))"

datatype insert_style = InsertKana | InsertDirect

datatype reconvert_kind = ReconvertNone | ReconvertLatin | ReconvertSurface | ReconvertNonKana

definition is_kana :: "uchar \<Rightarrow> bool" where
  "is_kana c \<longleftrightarrow> 0x3041 \<le> c \<and> c \<le> 0x309F \<or> 0x30A0 \<le> c \<and> c \<le> 0x30FF"

definition classify_reconvert_selection :: "ustring \<Rightarrow> reconvert_kind" where
  "classify_reconvert_selection s =
     (if s = [] then ReconvertNone
      else if list_all (\<lambda>c. is_ascii_lowercase c \<or> is_ascii_uppercase c \<or> c = 0x2D) s then ReconvertLatin
      else if list_all is_kana s then ReconvertSurface
      else ReconvertNonKana)"

section \<open>The kana and latin parts of the raw input\<close>

datatype input_op =
  InChar uchar | InCharLatin uchar | InBackspace | InReset | InResume
| InReseed ustring "nat option" | InAwaitLlm bool

fun run_input :: "input_state \<Rightarrow> input_op \<Rightarrow> input_state" where
  "run_input s (InChar c) = fst (on_char s c)"
| "run_input s (InCharLatin c) = fst (on_char_latin s c)"
| "run_input s InBackspace = fst (on_backspace s)"
| "run_input s InReset = state_reset s"
| "run_input s InResume = resume_composing s"
| "run_input s (InReseed r lf) = reseed_after_partial_commit s r lf"
| "run_input s (InAwaitLlm b) = set_awaiting_llm s b"

text \<open>A caller that reseeds passes a latin start inside the new text.\<close>

fun input_op_ok :: "input_op \<Rightarrow> bool" where
  "input_op_ok (InReseed r (Some n)) = is_char_boundary r n"
| "input_op_ok _ = True"

definition latin_ok :: "input_state \<Rightarrow> bool" where
  "latin_ok s \<longleftrightarrow> (case is_latin_from s of None \<Rightarrow> True
     | Some n \<Rightarrow> is_char_boundary (is_raw s) n \<and> is_composing s)"

lemma boundary_prefix: "is_char_boundary (a @ b) (byte_len a)"
  by (auto simp: is_char_boundary_iff)

lemma boundary_snoc: "is_char_boundary s n \<Longrightarrow> is_char_boundary (s @ t) n"
  using boundary_prefix [of _ "_ @ t"] by (auto simp: is_char_boundary_iff [of s])

lemma boundary_end [simp]: "is_char_boundary s (byte_len s)"
  by (auto simp: is_char_boundary_iff)

lemma boundary_butlast:
  assumes "is_char_boundary s n" and "n \<le> byte_len (butlast s)"
  shows "is_char_boundary (butlast s) n"
proof (cases s rule: rev_cases)
  case (snoc ys y)
  from assms(1) snoc obtain a b where ab: "ys @ [y] = a @ b" "n = byte_len a"
    by (auto simp: is_char_boundary_iff)
  with assms(2) snoc obtain b' where "ys = a @ b'"
    by (cases b rule: rev_cases) auto
  moreover have "butlast s = ys" using snoc by simp
  ultimately show ?thesis using ab boundary_prefix [of a b'] by simp
qed (use assms in simp)

lemma run_input_ok: "latin_ok s \<Longrightarrow> input_op_ok op \<Longrightarrow> latin_ok (run_input s op)"
proof (cases op)
  case InBackspace
  assume "latin_ok s"
  with InBackspace show ?thesis
    by (auto simp: latin_ok_def on_backspace_def Let_def boundary_butlast split: option.split)
qed (auto simp: latin_ok_def on_char_def on_char_latin_def state_reset_def resume_composing_def
    reseed_after_partial_commit_def set_awaiting_llm_def Let_def boundary_snoc
    split: option.splits elim: input_op_ok.elims)

text \<open>Replaying a lost session splits the raw input into its kana part and its latin part at the byte
  position of the state.\<close>

definition replay_parts :: "input_state \<Rightarrow> (ustring \<times> ustring) option" where
  "replay_parts s = (case is_latin_from s of None \<Rightarrow> Some (is_raw s, [])
     | Some n \<Rightarrow> split_bytes n (is_raw s))"

lemma run_inputs_ok:
  "latin_ok s \<Longrightarrow> list_all input_op_ok ops \<Longrightarrow> latin_ok (foldl run_input s ops)"
  by (induction ops arbitrary: s) (simp_all add: run_input_ok)

text \<open>Whatever keys are typed, deleted, reseeded or reset, the position at which the latin part of the
  raw input starts is a character boundary inside it, so splitting the input for a replay never panics,
  and latin mode ends with the composition.\<close>

theorem latin_split_never_panics:
  assumes "list_all input_op_ok ops"
  shows "\<exists>kana latin. replay_parts (foldl run_input input_state_default ops) = Some (kana, latin)
    \<and> kana @ latin = is_raw (foldl run_input input_state_default ops)
    \<and> (latin_mode (foldl run_input input_state_default ops)
       \<longleftrightarrow> is_latin_from (foldl run_input input_state_default ops) \<noteq> None)"
proof -
  let ?s = "foldl run_input input_state_default ops"
  have "latin_ok ?s" by (rule run_inputs_ok) (use assms in \<open>simp_all add: latin_ok_def input_state_default_def\<close>)
  then show ?thesis
    using split_bytes_Some [of _ "is_raw ?s"]
    by (cases "is_latin_from ?s") (fastforce simp: latin_ok_def replay_parts_def latin_mode_def
        is_char_boundary_iff)+
qed

theorem latin_split_never_panics_witness:
  "\<exists>kana latin. replay_parts (foldl run_input input_state_default
      [InChar 0x3042, InCharLatin 0x41, InBackspace, InBackspace]) = Some (kana, latin)
    \<and> kana @ latin = is_raw (foldl run_input input_state_default
      [InChar 0x3042, InCharLatin 0x41, InBackspace, InBackspace])"
  using latin_split_never_panics [of "[InChar 0x3042, InCharLatin 0x41, InBackspace, InBackspace]"]
  by (auto simp only: list.pred_inject input_op_ok.simps)

section \<open>Notation conversion loses nothing\<close>

text \<open>Katakana folds back to the same reading the hiragana has.\<close>

lemma normalize_to_katakana: "normalize_reading (to_katakana s) = normalize_reading s"
  by (simp add: normalize_reading_def to_katakana_def normalize_char_def)

definition is_mark :: "uchar \<Rightarrow> bool" where
  "is_mark c \<longleftrightarrow> c = 0xFF9E \<or> c = 0xFF9F"

definition half_range :: "uchar \<Rightarrow> bool" where
  "half_range c \<longleftrightarrow> 0xFF61 \<le> c \<and> c \<le> 0xFF9F"

definition half_shape :: "uchar \<times> ustring \<Rightarrow> bool" where
  "half_shape e = (case snd e of
     [b] \<Rightarrow> half_range b \<and> \<not> is_mark b
   | [b, m] \<Rightarrow> half_range b \<and> \<not> is_mark b \<and> is_mark m
   | _ \<Rightarrow> False)"

lemma hankaku_shapes: "list_all half_shape hankaku_table"
  by (simp add: hankaku_table_def half_shape_def half_range_def is_mark_def)

lemma hankaku_values_distinct: "distinct (map snd hankaku_table)"
  by (simp add: hankaku_table_def)

lemma hankaku_keys_full: "list_all (\<lambda>e. \<not> half_range (fst e)) hankaku_table"
  by (simp add: hankaku_table_def half_range_def)

lemma hankaku_char_shape:
  assumes "\<not> half_range c"
  shows "(\<exists>b. hankaku_char c = [b] \<and> \<not> is_mark b) \<or>
    (\<exists>b m. hankaku_char c = [b, m] \<and> \<not> is_mark b \<and> is_mark m)"
proof (cases "map_of hankaku_table c")
  case None
  have "\<not> is_mark c" using assms by (auto simp: half_range_def is_mark_def)
  then show ?thesis using None by (simp add: hankaku_char_def)
next
  case (Some v)
  then have "half_shape (c, v)" using hankaku_shapes map_of_SomeD by (fastforce simp: list_all_iff)
  then show ?thesis using Some by (auto simp: hankaku_char_def half_shape_def split: list.splits)
qed

lemma hankaku_char_inj:
  assumes "\<not> half_range c" and "\<not> half_range d" and eq: "hankaku_char c = hankaku_char d"
  shows "c = d"
proof -
  have half: "\<exists>b r. v = b # r \<and> half_range b" if "map_of hankaku_table x = Some v" for x v
  proof -
    have "half_shape (x, v)" using that hankaku_shapes map_of_SomeD by (fastforce simp: list_all_iff)
    then show ?thesis by (auto simp: half_shape_def split: list.splits)
  qed
  show ?thesis
  proof (cases "map_of hankaku_table c")
    case None
    then show ?thesis using assms half [of d] by (auto simp: hankaku_char_def split: option.splits)
  next
    case (Some v)
    show ?thesis
    proof (cases "map_of hankaku_table d")
      case None
      then show ?thesis using assms half [OF Some] Some by (auto simp: hankaku_char_def)
    next
      case (Some w)
      have "(c, v) \<in> set hankaku_table" "(d, w) \<in> set hankaku_table"
        using \<open>map_of hankaku_table c = Some v\<close> Some by (auto dest: map_of_SomeD)
      moreover have "v = w" using eq \<open>map_of hankaku_table c = Some v\<close> Some by (simp add: hankaku_char_def)
      ultimately show ?thesis using hankaku_values_distinct
        by (auto simp: distinct_map dest: inj_onD [of snd _ "(c, w)" "(d, w)"])
    qed
  qed
qed

lemma hankaku_no_mark_first:
  "list_all (\<lambda>c. \<not> half_range c) s \<Longrightarrow> to_hankaku_kana s = x # r \<Longrightarrow> \<not> is_mark x"
  using hankaku_char_shape by (cases s) (fastforce simp: to_hankaku_kana_def)+

lemma to_hankaku_kana_inject:
  "list_all (\<lambda>c. \<not> half_range c) s \<Longrightarrow> list_all (\<lambda>c. \<not> half_range c) t \<Longrightarrow>
   to_hankaku_kana s = to_hankaku_kana t \<Longrightarrow> s = t"
proof (induction s arbitrary: t)
  case Nil
  then show ?case using hankaku_char_shape by (cases t) (fastforce simp: to_hankaku_kana_def)+
next
  case (Cons c s)
  obtain d u where t: "t = d # u"
    using Cons.prems hankaku_char_shape [of c] by (cases t) (auto simp: to_hankaku_kana_def)
  let ?x = "to_hankaku_kana s" and ?y = "to_hankaku_kana u"
  have eq: "hankaku_char c @ ?x = hankaku_char d @ ?y"
    using Cons.prems(3) t by (simp add: to_hankaku_kana_def)
  have free: "\<not> half_range c" "\<not> half_range d" using Cons.prems t by simp_all
  have rest: "\<not> is_mark a" if "?x = a # r" for a r
    using hankaku_no_mark_first [OF _ that] Cons.prems by auto
  have rest': "\<not> is_mark a" if "a # r = ?y" for a r
    using hankaku_no_mark_first [OF _ that [symmetric]] Cons.prems t by auto
  have "hankaku_char c = hankaku_char d"
    using hankaku_char_shape [OF free(1)] hankaku_char_shape [OF free(2)] eq rest rest' by fastforce
  with hankaku_char_inj [OF free] eq have "c = d" "?x = ?y" by auto
  then show ?case using Cons t by simp
qed

text \<open>The half width notation is reversible: two readings free of half width characters that convert to
  the same half width text are equal, although voiced kana become two characters.\<close>

theorem hankaku_reversible: "inj_on to_hankaku_kana {s. list_all (\<lambda>c. \<not> half_range c) s}"
  using to_hankaku_kana_inject by (auto intro!: inj_onI)

section \<open>Contexts and targets\<close>

text \<open>The left context handed to the engine is a suffix of the document text of at most 40 characters
  without any control, embedding or separator character, and it is absent exactly when nothing but split
  surrogate marks follows the last separator.\<close>

theorem left_context_clean:
  "(\<exists>t. sanitize_left_context raw = Some t \<and> t \<noteq> [] \<and> length t \<le> 40 \<and> ends_with raw t
      \<and> \<not> list_ex is_separator t)
   \<or> sanitize_left_context raw = None
     \<and> list_all (\<lambda>c. c = 0xFFFD) (takeWhile (\<lambda>c. \<not> is_separator c) (rev raw))"
proof -
  define tl0 where "tl0 = rev (takeWhile (\<lambda>c. \<not> is_separator c) (rev raw))"
  define tl where "tl = dropWhile (\<lambda>c. c = 0xFFFD) tl0"
  have s: "sanitize_left_context raw =
      (if drop (length tl - 40) tl = [] then None else Some (drop (length tl - 40) tl))"
    unfolding sanitize_left_context_def tl_def tl0_def Let_def ..
  have e0: "raw = rev (dropWhile (\<lambda>c. \<not> is_separator c) (rev raw)) @ tl0"
    unfolding tl0_def rev_append [symmetric] by simp
  have e1: "tl0 = takeWhile (\<lambda>c. c = 0xFFFD) tl0 @ tl" by (simp add: tl_def)
  have suffix: "ends_with raw (drop n tl)" for n
    using e0 e1 by (metis append.assoc append_take_drop_id ends_with_iff)
  have "set (drop n tl) \<subseteq> set tl0" for n
    unfolding tl_def by (meson set_drop_subset set_dropWhileD subset_code(1) subset_trans)
  then have clean: "\<not> list_ex is_separator (drop n tl)" for n
    by (auto simp: list_ex_iff tl0_def dest: set_takeWhileD)
  show ?thesis
  proof (cases "tl = []")
    case True
    then have "list_all (\<lambda>c. c = 0xFFFD) tl0" by (simp add: tl_def dropWhile_eq_Nil_conv list_all_iff)
    then have "list_all (\<lambda>c. c = 0xFFFD) (takeWhile (\<lambda>c. \<not> is_separator c) (rev raw))"
      by (simp add: tl0_def list_all_iff)
    moreover have "sanitize_left_context raw = None" unfolding s True by simp
    ultimately show ?thesis by blast
  next
    case False
    then have "drop (length tl - 40) tl \<noteq> []" by (cases tl) auto
    then show ?thesis using s suffix clean by auto
  qed
qed

text \<open>The display targets of consecutive clauses are adjacent intervals of UTF-16 units that start at
  zero and end at the length of the displayed text.\<close>

theorem clause_targets_tile:
  "clause_target_utf16 segments 0 = (0, case segments of [] \<Rightarrow> 0 | s # _ \<Rightarrow> utf16_len s)
   \<and> fst (clause_target_utf16 segments (Suc k))
     = fst (clause_target_utf16 segments k) + snd (clause_target_utf16 segments k)
   \<and> fst (clause_target_utf16 segments (length segments)) = utf16_len (concat segments)"
proof -
  have "utf16_len (concat segments) = sum_list (map utf16_len segments)"
    by (induction segments) simp_all
  moreover have "sum_list (map utf16_len (take (Suc k) segments)) =
      sum_list (map utf16_len (take k segments)) + (if k < length segments then utf16_len (segments ! k) else 0)"
    by (auto simp: take_Suc_conv_app_nth)
  ultimately show ?thesis
    by (auto simp: clause_target_utf16_def get_def split: list.split)
qed

text \<open>The commit after closing the candidates is the text that was put back on display.\<close>

lemma displayed_is_committed:
  "preedit_after_candidates_closed live live_text reading = Some t \<Longrightarrow>
   plan_live_enter live live_text reading \<in> {EngineCommit t, DirectCommit t}"
  by (auto simp: preedit_after_candidates_closed_def Let_def split: live_enter_plan.splits if_splits)

lemma latin_run_split:
  "\<exists>a b. text = a @ b \<and> length b = latin_run_span text \<and> byte_len b = latin_run_span text
     \<and> list_all latin_char b \<and> (a = [] \<or> \<not> latin_char (last a))"
proof -
  let ?b = "rev (takeWhile latin_char (rev text))" and ?a = "rev (dropWhile latin_char (rev text))"
  have e: "text = ?a @ ?b" unfolding rev_append [symmetric] by simp
  have l: "list_all latin_char ?b" by (auto simp: list_all_iff dest: set_takeWhileD)
  have w: "list_all latin_char s \<Longrightarrow> byte_len s = length s" for s
    by (induction s) (auto simp: latin_char_def is_ascii_lowercase_def is_ascii_uppercase_def utf8_width_def)
  have "?a = [] \<or> \<not> latin_char (last ?a)"
    using hd_dropWhile [of latin_char "rev text"] by (auto simp: last_rev)
  then show ?thesis using e l w [OF l] by (intro exI [of _ ?a] exI [of _ ?b]) (simp add: latin_run_span_def)
qed

end
