(* ===== verification/Prediction.thy ===== *)
theory Prediction
  imports Rust_Prelude
begin

text \<open>
  The inline prediction state machine, \<open>crates/tip/src/prediction_state.rs\<close>: a commit
  arms a debounce, the debounce becomes one pending request, and its timely result becomes the
  ghost text. Times are milliseconds; additions saturate at 64 bits as in the source.
\<close>

definition debounce_ms :: nat where "debounce_ms = 300"
definition deadline_ms :: nat where "deadline_ms = 400"
definition min_context_chars :: nat where "min_context_chars = 8"
definition max_context_chars :: nat where "max_context_chars = 256"
definition max_prediction_chars :: nat where "max_prediction_chars = 16"
definition min_prediction_chars :: nat where "min_prediction_chars = 2"

definition add_millis :: "instant \<Rightarrow> nat \<Rightarrow> instant" where
  "add_millis t v = saturating_add_u64 t v"

type_synonym prediction_anchor = nat

datatype commit_source =
  SrcEnter | SrcCandidate | SrcClause | SrcAcceptedPrediction | SrcLiveAuto | SrcPartial
| SrcImplicitSettle

fun starts_prediction :: "commit_source \<Rightarrow> bool" where
  "starts_prediction SrcEnter = True"
| "starts_prediction SrcCandidate = True"
| "starts_prediction SrcClause = True"
| "starts_prediction SrcAcceptedPrediction = True"
| "starts_prediction _ = False"

record prediction_request =
  pq_seq :: nat
  pq_context_before :: ustring
  pq_anchor :: prediction_anchor
  pq_deadline_at :: instant

record prediction_ghost =
  pg_seq :: nat
  pg_text :: ustring
  pg_anchor :: prediction_anchor

datatype invalidation =
  InvInput | InvCaretMoved | InvSelectionChanged | InvFocusChanged | InvModeChanged | InvDisabled

definition clears_context :: "invalidation \<Rightarrow> bool" where
  "clears_context r \<longleftrightarrow> r \<noteq> InvInput"

record pending_request =
  pp_seq :: nat
  pp_anchor :: prediction_anchor
  pp_deadline_at :: instant

record prediction_state =
  pr_context_before :: ustring
  pr_next_seq :: nat
  pr_debounce :: "(instant \<times> prediction_anchor) option"
  pr_pending :: "pending_request option"
  pr_ghost :: "prediction_ghost option"
  pr_suppressed :: "ustring option"

definition prediction_default :: prediction_state where
  "prediction_default =
     \<lparr>pr_context_before = [], pr_next_seq = 0, pr_debounce = None, pr_pending = None, pr_ghost = None,
      pr_suppressed = None\<rparr>"

definition prediction_invalidate :: "prediction_state \<Rightarrow> invalidation \<Rightarrow> prediction_state" where
  "prediction_invalidate s reason =
     (let s1 = s\<lparr>pr_next_seq := saturating_add_u64 (pr_next_seq s) 1, pr_debounce := None,
                 pr_pending := None, pr_ghost := None\<rparr>
      in if clears_context reason then s1\<lparr>pr_context_before := [], pr_suppressed := None\<rparr> else s1)"

definition prediction_on_commit ::
  "prediction_state \<Rightarrow> commit_source \<Rightarrow> ustring \<Rightarrow> prediction_anchor \<Rightarrow> instant \<Rightarrow> prediction_state"
where
  "prediction_on_commit s source text anchor now =
     (if \<not> starts_prediction source then prediction_invalidate s InvCaretMoved
      else
       (let s1 = (if pr_debounce s \<noteq> None \<or> pr_pending s \<noteq> None \<or> pr_ghost s \<noteq> None
                  then s\<lparr>pr_next_seq := saturating_add_u64 (pr_next_seq s) 1, pr_debounce := None,
                         pr_pending := None, pr_ghost := None\<rparr> else s);
            context1 = pr_context_before s1 @ text;
            context2 = (if max_context_chars < length context1
                        then drop (length context1 - max_context_chars) context1 else context1);
            s2 = s1\<lparr>pr_suppressed := None, pr_context_before := context2\<rparr>
        in if min_context_chars \<le> length (pr_context_before s2)
           then s2\<lparr>pr_debounce := Some (add_millis now debounce_ms, anchor)\<rparr> else s2))"

definition context_suppressed :: "prediction_state \<Rightarrow> bool" where
  "context_suppressed s \<longleftrightarrow> pr_suppressed s = Some (pr_context_before s)"

definition prediction_poll ::
  "prediction_state \<Rightarrow> instant \<Rightarrow> prediction_state \<times> prediction_request option"
where
  "prediction_poll s now =
     (if context_suppressed s then (s\<lparr>pr_debounce := None\<rparr>, None)
      else case pr_debounce s of
        None \<Rightarrow> (s, None)
      | Some (due_at, anchor) \<Rightarrow>
          (if now < due_at then (s, None)
           else
            (let s1 = s\<lparr>pr_debounce := None, pr_next_seq := saturating_add_u64 (pr_next_seq s) 1\<rparr>;
                 request = \<lparr>pq_seq = pr_next_seq s1, pq_context_before = pr_context_before s1,
                            pq_anchor = anchor, pq_deadline_at = add_millis now deadline_ms\<rparr>
             in (s1\<lparr>pr_pending := Some \<lparr>pp_seq = pq_seq request, pp_anchor = pq_anchor request,
                                       pp_deadline_at = pq_deadline_at request\<rparr>\<rparr>, Some request))))"

definition prediction_on_result ::
  "prediction_state \<Rightarrow> nat \<Rightarrow> ustring \<Rightarrow> instant \<Rightarrow> prediction_state \<times> prediction_ghost option"
where
  "prediction_on_result s seq text now =
     (case pr_pending s of
        None \<Rightarrow> (s, None)
      | Some pending \<Rightarrow>
          (if seq \<noteq> pp_seq pending then (s, None)
           else
            (let s1 = s\<lparr>pr_pending := None\<rparr>
             in if pp_deadline_at pending < now then (s1, None)
                else
                 (let text' = take max_prediction_chars text
                  in if length text' < min_prediction_chars then (s1, None)
                     else
                      (let ghost = \<lparr>pg_seq = seq, pg_text = text', pg_anchor = pp_anchor pending\<rparr>
                       in (s1\<lparr>pr_ghost := Some ghost\<rparr>, Some ghost))))))"

definition expire_pending :: "prediction_state \<Rightarrow> instant \<Rightarrow> prediction_state \<times> bool" where
  "expire_pending s now =
     (case pr_pending s of
        None \<Rightarrow> (s, False)
      | Some pending \<Rightarrow>
          (if now \<le> pp_deadline_at pending then (s, False) else (s\<lparr>pr_pending := None\<rparr>, True)))"

definition has_activity :: "prediction_state \<Rightarrow> bool" where
  "has_activity s \<longleftrightarrow> pr_debounce s \<noteq> None \<or> pr_pending s \<noteq> None \<or> pr_ghost s \<noteq> None"

definition has_private_state :: "prediction_state \<Rightarrow> bool" where
  "has_private_state s \<longleftrightarrow> has_activity s \<or> pr_context_before s \<noteq> [] \<or> pr_suppressed s \<noteq> None"

definition accept_ghost ::
  "prediction_state \<Rightarrow> prediction_anchor \<Rightarrow> instant \<Rightarrow> prediction_state \<times> ustring option"
where
  "accept_ghost s anchor now =
     (case pr_ghost s of
        None \<Rightarrow> (s, None)
      | Some g \<Rightarrow>
          (prediction_on_commit (s\<lparr>pr_ghost := None\<rparr>) SrcAcceptedPrediction (pg_text g) anchor now,
           Some (pg_text g)))"

definition dismiss_ghost :: "prediction_state \<Rightarrow> prediction_state \<times> bool" where
  "dismiss_ghost s =
     (case pr_ghost s of
        None \<Rightarrow> (s, False)
      | Some g \<Rightarrow> (s\<lparr>pr_ghost := None, pr_suppressed := Some (pr_context_before s)\<rparr>, True))"

section \<open>Runs\<close>

datatype prediction_event =
  EvCommit commit_source ustring prediction_anchor instant
| EvPoll instant
| EvInvalidate invalidation
| EvResult nat ustring instant
| EvExpire instant
| EvAccept prediction_anchor instant
| EvDismiss

fun prediction_step :: "prediction_state \<Rightarrow> prediction_event \<Rightarrow> prediction_state" where
  "prediction_step s (EvCommit src text a now) = prediction_on_commit s src text a now"
| "prediction_step s (EvPoll now) = fst (prediction_poll s now)"
| "prediction_step s (EvInvalidate r) = prediction_invalidate s r"
| "prediction_step s (EvResult seq text now) = fst (prediction_on_result s seq text now)"
| "prediction_step s (EvExpire now) = fst (expire_pending s now)"
| "prediction_step s (EvAccept a now) = fst (accept_ghost s a now)"
| "prediction_step s EvDismiss = fst (dismiss_ghost s)"

text \<open>The request an event issues, if it issues one.\<close>

fun issued_by :: "prediction_state \<Rightarrow> prediction_event \<Rightarrow> prediction_request list" where
  "issued_by s (EvPoll now) = (case snd (prediction_poll s now) of Some r \<Rightarrow> [r] | None \<Rightarrow> [])"
| "issued_by s _ = []"

text \<open>Reachable states together with the requests issued so far, the latest first.\<close>

inductive prediction_run :: "prediction_request list \<Rightarrow> prediction_state \<Rightarrow> bool" where
  start: "prediction_run [] prediction_default"
| step: "prediction_run rs s \<Longrightarrow> prediction_run (issued_by s ev @ rs) (prediction_step s ev)"

inductive_cases prediction_run_cases: "prediction_run rs s"

definition single_activity :: "prediction_state \<Rightarrow> bool" where
  "single_activity s \<longleftrightarrow>
     \<not> (pr_debounce s \<noteq> None \<and> pr_pending s \<noteq> None) \<and> \<not> (pr_debounce s \<noteq> None \<and> pr_ghost s \<noteq> None)
     \<and> \<not> (pr_pending s \<noteq> None \<and> pr_ghost s \<noteq> None)"

definition requests_ok :: "prediction_request list \<Rightarrow> prediction_state \<Rightarrow> bool" where
  "requests_ok rs s \<longleftrightarrow>
     (\<forall>r\<in>set rs. pq_seq r \<le> pr_next_seq s \<and> min_context_chars \<le> length (pq_context_before r))
     \<and> pr_next_seq s \<le> u64_max
     \<and> (pr_next_seq s < u64_max \<longrightarrow> sorted_wrt (\<lambda>a b. pq_seq b < pq_seq a) rs)
     \<and> (\<forall>p. pr_pending s = Some p \<longrightarrow> (\<exists>r rest. rs = r # rest \<and> pp_seq p = pq_seq r
          \<and> pp_anchor p = pq_anchor r \<and> pp_deadline_at p = pq_deadline_at r
          \<and> pq_context_before r = pr_context_before s))
     \<and> (\<forall>g. pr_ghost s = Some g \<longrightarrow> (\<exists>r rest. rs = r # rest \<and> pg_seq g = pq_seq r
          \<and> pg_anchor g = pq_anchor r \<and> pq_context_before r = pr_context_before s
          \<and> min_prediction_chars \<le> length (pg_text g) \<and> length (pg_text g) \<le> max_prediction_chars))"

definition prediction_ok :: "prediction_request list \<Rightarrow> prediction_state \<Rightarrow> bool" where
  "prediction_ok rs s \<longleftrightarrow> length (pr_context_before s) \<le> max_context_chars \<and> single_activity s
     \<and> requests_ok rs s
     \<and> (pr_debounce s \<noteq> None \<longrightarrow> min_context_chars \<le> length (pr_context_before s))"

lemmas prediction_ok_defs = prediction_ok_def requests_ok_def single_activity_def

lemma idle_ok:
  "prediction_ok rs s \<Longrightarrow> pr_next_seq s \<le> n \<Longrightarrow> n \<le> u64_max \<Longrightarrow>
   length c \<le> max_context_chars \<Longrightarrow> (d \<noteq> None \<longrightarrow> min_context_chars \<le> length c) \<Longrightarrow>
   prediction_ok rs \<lparr>pr_context_before = c, pr_next_seq = n, pr_debounce = d, pr_pending = None,
     pr_ghost = None, pr_suppressed = sc\<rparr>"
  by (fastforce simp: prediction_ok_defs)

lemma next_seq_grows: "n \<le> u64_max \<Longrightarrow> n \<le> saturating_add_u64 n k \<and> saturating_add_u64 n k \<le> u64_max"
  by (simp add: saturating_add_u64_def)

lemma invalidate_ok: "prediction_ok rs s \<Longrightarrow> prediction_ok rs (prediction_invalidate s r)"
proof -
  assume ok: "prediction_ok rs s"
  then have n: "pr_next_seq s \<le> u64_max" by (simp add: prediction_ok_defs)
  show ?thesis
    using idle_ok [OF ok, of "saturating_add_u64 (pr_next_seq s) 1" "[]" None None]
      idle_ok [OF ok, of "saturating_add_u64 (pr_next_seq s) 1" "pr_context_before s" None "pr_suppressed s"]
      next_seq_grows [OF n, of 1] ok
    by (cases s) (auto simp: prediction_invalidate_def Let_def prediction_ok_def)
qed

lemma on_commit_ok: "prediction_ok rs s \<Longrightarrow> prediction_ok rs (prediction_on_commit s src text a now)"
proof (cases "starts_prediction src")
  case False
  then show "prediction_ok rs s \<Longrightarrow> ?thesis" by (simp add: prediction_on_commit_def invalidate_ok)
next
  case True
  assume ok: "prediction_ok rs s"
  then have n: "pr_next_seq s \<le> u64_max" by (simp add: prediction_ok_defs)
  define c where "c = (let c1 = pr_context_before s @ text in
     if max_context_chars < length c1 then drop (length c1 - max_context_chars) c1 else c1)"
  define d where "d = (if min_context_chars \<le> length c then Some (add_millis now debounce_ms, a) else None)"
  define m where "m = (if has_activity s then saturating_add_u64 (pr_next_seq s) 1 else pr_next_seq s)"
  have "prediction_on_commit s src text a now = \<lparr>pr_context_before = c, pr_next_seq = m, pr_debounce = d,
     pr_pending = None, pr_ghost = None, pr_suppressed = None\<rparr>"
    using True by (cases s; cases "pr_debounce s")
      (auto simp: prediction_on_commit_def c_def d_def m_def has_activity_def Let_def)
  moreover have "length (if k < length x then drop (length x - k) x else x) \<le> k" for x :: ustring and k
    by simp
  then have "length c \<le> max_context_chars" unfolding c_def Let_def .
  ultimately show ?thesis
    using idle_ok [OF ok, of m c d None] next_seq_grows [OF n, of 1] n by (simp add: m_def d_def)
qed

lemma drop_pending_ok: "prediction_ok rs s \<Longrightarrow> prediction_ok rs (s\<lparr>pr_pending := None\<rparr>)"
  by (auto simp: prediction_ok_defs)

lemma drop_ghost_ok: "prediction_ok rs s \<Longrightarrow> prediction_ok rs (s\<lparr>pr_ghost := None, pr_suppressed := x\<rparr>)"
  by (auto simp: prediction_ok_defs)

lemma on_result_ok: "prediction_ok rs s \<Longrightarrow> prediction_ok rs (fst (prediction_on_result s seq text now))"
  by (auto simp: prediction_on_result_def Let_def drop_pending_ok split: option.split)
    (auto simp: prediction_ok_defs)

lemma poll_ok:
  assumes ok: "prediction_ok rs s"
  shows "prediction_ok (issued_by s (EvPoll now) @ rs) (fst (prediction_poll s now))"
proof (cases "context_suppressed s")
  case True
  have "prediction_ok rs (s\<lparr>pr_debounce := None\<rparr>)" using ok by (auto simp: prediction_ok_defs)
  then show ?thesis using True by (simp add: prediction_poll_def)
next
  case False
  show ?thesis
  proof (cases "pr_debounce s")
    case None
    then show ?thesis using ok False by (simp add: prediction_poll_def)
  next
    case (Some da)
    obtain due anchor where da: "da = (due, anchor)" by (cases da)
    show ?thesis
    proof (cases "now < due")
      case True
      then show ?thesis using ok False Some da by (simp add: prediction_poll_def)
    next
      case late: False
      have idle: "pr_pending s = None" "pr_ghost s = None"
        using ok Some by (auto simp: prediction_ok_defs)
      have "\<forall>r\<in>set rs. pq_seq r \<le> pr_next_seq s" using ok by (auto simp: prediction_ok_defs)
      then have "saturating_add_u64 (pr_next_seq s) 1 < u64_max \<Longrightarrow>
          \<forall>r\<in>set rs. pq_seq r < saturating_add_u64 (pr_next_seq s) 1"
        by (auto simp: saturating_add_u64_def)
      then show ?thesis using ok False Some da late idle
        by (fastforce simp: prediction_poll_def Let_def prediction_ok_defs saturating_add_u64_def)
    qed
  qed
qed

lemma prediction_step_ok:
  "prediction_ok rs s \<Longrightarrow> prediction_ok (issued_by s ev @ rs) (prediction_step s ev)"
proof (cases ev)
  case (EvAccept a now)
  assume "prediction_ok rs s"
  then show ?thesis
    using EvAccept on_commit_ok drop_ghost_ok [of rs s "pr_suppressed s"]
    by (cases s) (auto simp: accept_ghost_def split: option.split)
next
  case (EvExpire now)
  then show "prediction_ok rs s \<Longrightarrow> ?thesis"
    by (auto simp: expire_pending_def drop_pending_ok split: option.split)
next
  case EvDismiss
  then show "prediction_ok rs s \<Longrightarrow> ?thesis"
    by (auto simp: dismiss_ghost_def drop_ghost_ok split: option.split)
next
  case (EvPoll now)
  then show "prediction_ok rs s \<Longrightarrow> ?thesis" using poll_ok by auto
qed (simp_all add: on_commit_ok invalidate_ok on_result_ok)

lemma prediction_run_ok: "prediction_run rs s \<Longrightarrow> prediction_ok rs s"
proof (induction rule: prediction_run.induct)
  case start
  then show ?case by (simp add: prediction_ok_defs prediction_default_def max_context_chars_def)
qed (rule prediction_step_ok)

text \<open>In every reachable state at most one of the debounce, the pending request and the ghost exists,
  the private context never exceeds 256 characters, and no request is issued for a context of fewer than
  eight.\<close>

theorem prediction_exclusive:
  assumes "prediction_run rs s"
  shows "length (pr_context_before s) \<le> 256
    \<and> \<not> (pr_debounce s \<noteq> None \<and> (pr_pending s \<noteq> None \<or> pr_ghost s \<noteq> None))
    \<and> \<not> (pr_pending s \<noteq> None \<and> pr_ghost s \<noteq> None)
    \<and> list_all (\<lambda>r. 8 \<le> length (pq_context_before r)) rs"
  using prediction_run_ok [OF assms]
  by (auto simp: prediction_ok_defs max_context_chars_def min_context_chars_def list_all_iff)

theorem prediction_exclusive_witness:
  "length (pr_context_before (prediction_step prediction_default (EvCommit SrcEnter [0x3042] 7 0))) \<le> 256"
  using prediction_exclusive [OF prediction_run.step [OF prediction_run.start, of "EvCommit SrcEnter [0x3042] 7 0"]]
  by simp

text \<open>C37: a ghost is only ever shown for the latest request, within its deadline and for exactly the context
  the request was made for; while sequence numbers have not saturated, a result of any earlier request has
  a different number and is dropped. The ghost has two to sixteen characters of the answer.\<close>

theorem ghost_is_current:
  assumes run: "prediction_run rs s" and shown: "prediction_on_result s seq text now = (s', Some g)"
  shows "\<exists>r rest. rs = r # rest \<and> seq = pq_seq r \<and> now \<le> pq_deadline_at r
    \<and> pq_context_before r = pr_context_before s'
    \<and> g = \<lparr>pg_seq = seq, pg_text = take 16 text, pg_anchor = pq_anchor r\<rparr> \<and> 2 \<le> length (pg_text g)
    \<and> (pr_next_seq s = u64_max \<or> seq \<notin> pq_seq ` set rest)"
proof -
  from shown obtain p where p: "pr_pending s = Some p" "seq = pp_seq p" "now \<le> pp_deadline_at p"
    "g = \<lparr>pg_seq = seq, pg_text = take 16 text, pg_anchor = pp_anchor p\<rparr>" "2 \<le> length (take 16 text)"
    "pr_context_before s' = pr_context_before s"
    by (auto simp: prediction_on_result_def Let_def max_prediction_chars_def min_prediction_chars_def
        not_less split: option.splits if_splits)
  from prediction_run_ok [OF run] p(1) obtain r rest where r: "rs = r # rest" "pp_seq p = pq_seq r"
    "pp_anchor p = pq_anchor r" "pp_deadline_at p = pq_deadline_at r"
    "pq_context_before r = pr_context_before s"
    and sorted: "pr_next_seq s < u64_max \<Longrightarrow> sorted_wrt (\<lambda>a b. pq_seq b < pq_seq a) rs"
    and le: "pr_next_seq s \<le> u64_max"
    by (auto simp: prediction_ok_defs)
  have "pr_next_seq s = u64_max \<or> seq \<notin> pq_seq ` set rest"
    using sorted le r p(2) by (cases "pr_next_seq s = u64_max") auto
  then show ?thesis using r p by auto
qed

theorem ghost_is_current_witness:
  "\<exists>(r :: prediction_request) (rest :: prediction_request list) s'. prediction_on_result
      (prediction_step (prediction_step prediction_default (EvCommit SrcEnter [1, 2, 3, 4, 5, 6, 7, 8] 9 0)) (EvPoll 300))
      1 [0x3042, 0x3044] 500 = (s', Some \<lparr>pg_seq = 1, pg_text = [0x3042, 0x3044], pg_anchor = pq_anchor r\<rparr>)
    \<and> pq_context_before r = pr_context_before s' \<and> (1 :: nat) \<notin> pq_seq ` set rest"
proof -
  let ?c = "prediction_step prediction_default (EvCommit SrcEnter [1, 2, 3, 4, 5, 6, 7, 8] 9 0)"
  let ?s = "prediction_step ?c (EvPoll 300)"
  have run: "prediction_run (issued_by ?c (EvPoll 300) @ issued_by prediction_default
      (EvCommit SrcEnter [1, 2, 3, 4, 5, 6, 7, 8] 9 0) @ []) ?s"
    by (intro prediction_run.intros)
  have c: "?c = \<lparr>pr_context_before = [1, 2, 3, 4, 5, 6, 7, 8], pr_next_seq = 0, pr_debounce = Some (300, 9),
      pr_pending = None, pr_ghost = None, pr_suppressed = None\<rparr>"
    by (simp add: prediction_default_def prediction_on_commit_def max_context_chars_def
        min_context_chars_def add_millis_def debounce_ms_def saturating_add_u64_def)
  have s: "?s = \<lparr>pr_context_before = [1, 2, 3, 4, 5, 6, 7, 8], pr_next_seq = 1, pr_debounce = None,
      pr_pending = Some \<lparr>pp_seq = 1, pp_anchor = 9, pp_deadline_at = 700\<rparr>, pr_ghost = None,
      pr_suppressed = None\<rparr>"
    unfolding c by (simp add: prediction_poll_def context_suppressed_def saturating_add_u64_def
        add_millis_def deadline_ms_def Let_def)
  obtain s' where r: "prediction_on_result ?s 1 [0x3042, 0x3044] 500 =
      (s', Some \<lparr>pg_seq = 1, pg_text = [0x3042, 0x3044], pg_anchor = 9\<rparr>)"
    unfolding s
    by (simp add: prediction_on_result_def max_prediction_chars_def min_prediction_chars_def Let_def)
  from ghost_is_current [OF run r] obtain q :: prediction_request and rest :: "prediction_request list" where q: "pq_context_before q = pr_context_before s'"
    "\<lparr>pg_seq = 1, pg_text = [0x3042, 0x3044], pg_anchor = 9\<rparr> =
      \<lparr>pg_seq = 1, pg_text = take 16 [0x3042, 0x3044], pg_anchor = pq_anchor q\<rparr>"
    "pr_next_seq ?s = u64_max \<or> 1 \<notin> pq_seq ` set rest" by blast
  moreover have "pr_next_seq ?s \<noteq> u64_max" unfolding s by simp
  ultimately have "1 \<notin> pq_seq ` set rest" by blast
  then show ?thesis using q(1,2) r by (intro exI [of _ q] exI [of _ rest] exI [of _ s']) simp
qed

text \<open>After a dismissal nothing is requested until the context changes.\<close>

lemma dismissed_is_quiet:
  "pr_ghost s \<noteq> None \<Longrightarrow> snd (prediction_poll (fst (dismiss_ghost s)) now) = None"
  by (auto simp: dismiss_ghost_def prediction_poll_def context_suppressed_def)

text \<open>Every invalidation but plain input erases all private state.\<close>

lemma invalidate_erases: "r \<noteq> InvInput \<Longrightarrow> \<not> has_private_state (prediction_invalidate s r)"
  by (simp add: prediction_invalidate_def clears_context_def has_private_state_def has_activity_def Let_def)

end
