(* ===== verification/Apply_State.thy ===== *)
theory Apply_State
  imports Rust_Prelude
begin

text \<open>
  One display operation against the host document, \<open>crates/tip/src/apply_state.rs\<close>. The
  cells of the source are the fields of a record; a status code is an integer of which only the sign
  matters.
\<close>

record apply_identity =
  aid_context_token :: nat
  aid_composition_token :: nat
  aid_display_revision :: nat
  aid_operation_id :: nat

datatype apply_outcome = NotApplied | TextAppliedRepairPending | Applied | Deferred

record apply_report =
  arp_outcome :: apply_outcome
  arp_text_applied :: bool
  arp_stale :: bool

definition body_applied :: "apply_report \<Rightarrow> bool" where
  "body_applied r \<longleftrightarrow> arp_text_applied r \<and> \<not> arp_stale r"

definition fully_applied :: "apply_report \<Rightarrow> bool" where
  "fully_applied r \<longleftrightarrow> arp_outcome r = Applied \<and> \<not> arp_stale r"

record apply_state =
  as_outcome :: apply_outcome
  as_executed :: bool
  as_text_applied :: bool
  as_text_consumed :: bool
  as_stale :: bool
  as_request_hresult :: "int option"
  as_session_hresult :: "int option"

definition apply_default :: apply_state where
  "apply_default =
     \<lparr>as_outcome = NotApplied, as_executed = False, as_text_applied = False, as_text_consumed = False,
      as_stale = False, as_request_hresult = None, as_session_hresult = None\<rparr>"

definition apply_report_of :: "apply_state \<Rightarrow> apply_report" where
  "apply_report_of s =
     \<lparr>arp_outcome = as_outcome s, arp_text_applied = as_text_applied s, arp_stale = as_stale s\<rparr>"

definition body_outcome :: "apply_state \<Rightarrow> apply_outcome" where
  "body_outcome s = (if as_text_applied s then TextAppliedRepairPending else NotApplied)"

definition apply_begin :: "apply_state \<Rightarrow> bool \<Rightarrow> apply_state \<times> bool" where
  "apply_begin s current =
     (let s1 = s\<lparr>as_executed := True\<rparr>
      in if \<not> current \<or> as_stale s1
         then (s1\<lparr>as_stale := True, as_outcome := body_outcome s1\<rparr>, False)
         else (s1\<lparr>as_outcome := body_outcome s1\<rparr>, True))"

definition apply_wrote_text :: "apply_state \<Rightarrow> apply_state" where
  "apply_wrote_text s = s\<lparr>as_text_applied := True, as_outcome := TextAppliedRepairPending\<rparr>"

definition apply_complete :: "apply_state \<Rightarrow> int \<Rightarrow> apply_state" where
  "apply_complete s code =
     (let s1 = s\<lparr>as_session_hresult := Some code\<rparr>
      in s1\<lparr>as_outcome := if 0 \<le> code \<and> \<not> as_stale s1 then Applied else body_outcome s1\<rparr>)"

definition apply_prepare_request :: "apply_state \<Rightarrow> apply_state" where
  "apply_prepare_request s = s\<lparr>as_executed := False\<rparr>"

definition apply_requested :: "apply_state \<Rightarrow> int \<Rightarrow> int option \<Rightarrow> int \<Rightarrow> apply_state" where
  "apply_requested s request session async_status =
     (let s1 = s\<lparr>as_request_hresult := Some request\<rparr>
      in if \<not> as_executed s1
         then (let s2 = s1\<lparr>as_session_hresult := session\<rparr>
               in if 0 \<le> request \<and> session = Some async_status then s2\<lparr>as_outcome := Deferred\<rparr> else s2)
         else s1)"

definition take_text_applied :: "apply_state \<Rightarrow> apply_state \<times> bool" where
  "take_text_applied s =
     (if as_text_applied s then (s\<lparr>as_text_consumed := True\<rparr>, \<not> as_text_consumed s) else (s, False))"

definition exact_shift :: "int \<Rightarrow> int \<Rightarrow> bool" where
  "exact_shift requested moved \<longleftrightarrow> requested = moved"

section \<open>Runs\<close>

datatype apply_event =
  ApBegin bool | ApWrote | ApComplete int | ApPrepare | ApRequested int "int option" int | ApTake

fun apply_step :: "apply_state \<Rightarrow> apply_event \<Rightarrow> apply_state" where
  "apply_step s (ApBegin current) = fst (apply_begin s current)"
| "apply_step s ApWrote = apply_wrote_text s"
| "apply_step s (ApComplete code) = apply_complete s code"
| "apply_step s ApPrepare = apply_prepare_request s"
| "apply_step s (ApRequested r ss a) = apply_requested s r ss a"
| "apply_step s ApTake = fst (take_text_applied s)"

text \<open>How often the events of a run hand the written body over to a consumer.\<close>

fun handovers :: "apply_state \<Rightarrow> apply_event list \<Rightarrow> nat" where
  "handovers s [] = 0"
| "handovers s (e # es) =
     (if e = ApTake \<and> snd (take_text_applied s) then 1 else 0) + handovers (apply_step s e) es"

lemmas apply_ops = apply_begin_def apply_wrote_text_def apply_complete_def apply_prepare_request_def
  apply_requested_def take_text_applied_def Let_def

lemma step_consumed [simp]: "as_text_consumed s \<Longrightarrow> as_text_consumed (apply_step s e)"
  by (cases e) (simp_all add: apply_ops)

lemma step_stale [simp]: "as_stale s \<Longrightarrow> as_stale (apply_step s e)"
  by (cases e) (simp_all add: apply_ops)

lemma step_text_applied [simp]: "as_text_applied s \<Longrightarrow> as_text_applied (apply_step s e)"
  by (cases e) (simp_all add: apply_ops)

lemma consumed_no_handover: "as_text_consumed s \<Longrightarrow> handovers s es = 0"
  by (induction s es rule: handovers.induct) (auto simp: take_text_applied_def split: if_splits)

lemma handovers_once: "handovers s es \<le> 1"
proof (induction s es rule: handovers.induct)
  case (2 s e es)
  show ?case
  proof (cases "e = ApTake \<and> snd (take_text_applied s)")
    case True
    then have "as_text_consumed (apply_step s e)" by (auto simp: take_text_applied_def split: if_splits)
    then show ?thesis using True consumed_no_handover by simp
  qed (use 2 in auto)
qed simp

lemma step_invents_nothing:
  "e \<noteq> ApWrote \<Longrightarrow> as_text_applied (apply_step s e) = as_text_applied s"
  by (cases e) (simp_all add: apply_ops)

lemma no_write_no_handover: "\<not> as_text_applied s \<Longrightarrow> ApWrote \<notin> set es \<Longrightarrow> handovers s es = 0"
proof (induction s es rule: handovers.induct)
  case (2 s e es)
  then show ?case using step_invents_nothing [of e s] by (auto simp: take_text_applied_def)
qed simp

text \<open>In any sequence of requests, sessions and polls the written body is handed to a consumer at most
  once, and never unless text was really written: a deferred or merely successful request status cannot
  stand in for it.\<close>

theorem body_consumed_once:
  "handovers apply_default es \<le> (if ApWrote \<in> set es then 1 else 0)"
  using handovers_once [of apply_default es] no_write_no_handover [of apply_default es]
  by (simp add: apply_default_def)

lemma stale_run: "as_stale s \<Longrightarrow> as_stale (foldl apply_step s es)"
  by (induction es arbitrary: s) simp_all

text \<open>Revocation is final: once an operation has been begun for a document that is no longer current, no
  later event makes it count as applied, in part or in full, and no later session may begin.\<close>

theorem revoked_stays_revoked:
  "\<not> body_applied (apply_report_of (foldl apply_step (fst (apply_begin s False)) es))
   \<and> \<not> fully_applied (apply_report_of (foldl apply_step (fst (apply_begin s False)) es))
   \<and> \<not> snd (apply_begin (foldl apply_step (fst (apply_begin s False)) es) current)"
proof -
  have "as_stale (foldl apply_step (fst (apply_begin s False)) es)"
    by (rule stale_run) (simp add: apply_begin_def Let_def)
  then show ?thesis by (simp add: body_applied_def fully_applied_def apply_report_of_def apply_begin_def Let_def)
qed

end
