(* ===== verification/Conversion_Mode.thy ===== *)
theory Conversion_Mode
  imports "HOL-Library.Word"
begin

text \<open>
  The conversion mode word, \<open>crates/tip/src/conversion_mode.rs\<close>. Reading a Windows
  VARIANT is a parameter: whether its tag is the 32-bit integer one, and the integer it converts to.
\<close>

unbundle bit_operations_syntax

type_synonym conv_mode = "32 word"

definition convmode_native :: conv_mode where "convmode_native = 0x0001"
definition convmode_fullshape :: conv_mode where "convmode_fullshape = 0x0008"

definition mode_from_compartment_value :: "bool \<Rightarrow> int option \<Rightarrow> conv_mode" where
  "mode_from_compartment_value vt_is_i4 value =
     (if \<not> vt_is_i4 then convmode_native
      else case value of Some i \<Rightarrow> word_of_int i | None \<Rightarrow> convmode_native)"

definition is_direct :: "conv_mode \<Rightarrow> bool" where
  "is_direct m \<longleftrightarrow> m AND convmode_native = 0"

definition toggled :: "conv_mode \<Rightarrow> conv_mode" where
  "toggled m = m XOR convmode_native"

definition to_direct :: "conv_mode \<Rightarrow> conv_mode" where
  "to_direct m = m AND NOT (convmode_native OR convmode_fullshape)"

definition should_apply_default_direct :: "bool \<Rightarrow> bool \<Rightarrow> bool" where
  "should_apply_default_direct enabled already_applied \<longleftrightarrow> enabled \<and> \<not> already_applied"

definition default_direct_success :: "bool \<Rightarrow> bool \<Rightarrow> bool \<Rightarrow> bool" where
  "default_direct_success compartment_available needs_write write_ok \<longleftrightarrow>
     compartment_available \<and> (\<not> needs_write \<or> write_ok)"

definition langbar_direct_for_additem :: "bool \<Rightarrow> bool \<Rightarrow> bool \<Rightarrow> bool" where
  "langbar_direct_for_additem will_apply compartment_available live_is_direct =
     (if will_apply \<and> compartment_available then True else live_is_direct)"

definition should_notify_langbar :: "bool \<Rightarrow> bool \<Rightarrow> bool" where
  "should_notify_langbar cell_is_direct target_is_direct \<longleftrightarrow> cell_is_direct \<noteq> target_is_direct"

definition effective_is_direct :: "bool \<Rightarrow> bool \<Rightarrow> bool \<Rightarrow> bool" where
  "effective_is_direct owned langbar_is_direct live_is_direct =
     (if owned then langbar_is_direct else live_is_direct)"

definition toggle_before_mode :: "bool \<Rightarrow> bool \<Rightarrow> conv_mode \<Rightarrow> conv_mode" where
  "toggle_before_mode owned langbar_is_direct live =
     (if \<not> owned then live
      else if langbar_is_direct then to_direct live else live OR convmode_native)"

lemma native_bit: "bit convmode_native n \<longleftrightarrow> n = 0"
  by (simp add: convmode_native_def bit_1_iff)

lemma fullshape_bit: "bit convmode_fullshape n \<longleftrightarrow> n = 3"
proof -
  have e: "convmode_fullshape = push_bit 3 1" by (simp add: convmode_fullshape_def)
  show ?thesis unfolding e bit_push_bit_iff bit_1_iff by auto
qed

lemma is_direct_bit: "is_direct m \<longleftrightarrow> \<not> bit m 0"
  by (simp add: is_direct_def convmode_native_def and_one_eq bit_0 even_iff_mod_2_eq_zero)

lemma toggled_bit: "bit (toggled m) n \<longleftrightarrow> (if n = 0 then \<not> bit m 0 else bit m n)"
  by (auto simp: toggled_def bit_xor_iff native_bit)

lemma to_direct_bit: "bit (to_direct m) n \<longleftrightarrow> bit m n \<and> n \<noteq> 0 \<and> n \<noteq> 3"
  by (auto simp: to_direct_def bit_and_iff bit_not_iff bit_or_iff native_bit fullshape_bit
      dest: bit_imp_le_length)

text \<open>Pressing the mode key always flips what the user sees: the mode written by a toggle is direct
  exactly when the effective mode before was not, whether or not the service owns the mode and even when
  the host has changed the stored word behind its back; and without ownership only the one bit changes.\<close>

theorem toggle_flips_visible_mode:
  "is_direct (toggled (toggle_before_mode owned langbar live))
     \<longleftrightarrow> \<not> effective_is_direct owned langbar (is_direct live)"
  by (auto simp: is_direct_bit toggled_bit toggle_before_mode_def effective_is_direct_def to_direct_bit
      bit_or_iff native_bit)

text \<open>Starting in direct mode clears exactly the native and full shape bits, keeps every other bit, and
  is stable; toggling twice restores the word.\<close>

theorem direct_mode_bits:
  "bit (to_direct m) n = (bit m n \<and> n \<noteq> 0 \<and> n \<noteq> 3) \<and> is_direct (to_direct m)
   \<and> to_direct (to_direct m) = to_direct m \<and> toggled (toggled m) = m"
proof -
  have "to_direct (to_direct m) = to_direct m"
    by (rule bit_eqI) (simp add: to_direct_bit)
  moreover have "toggled (toggled m) = m"
    by (rule bit_eqI) (auto simp: toggled_bit)
  ultimately show ?thesis by (simp add: to_direct_bit is_direct_bit)
qed

end
