(* ===== verification/Candidate_State.thy ===== *)
theory Candidate_State
  imports Rust_Prelude
begin

text \<open>
  The candidate list shared by the presenter and the UI element,
  \<open>crates/tip/src/candidate_state.rs\<close>. The selection arithmetic is 32-bit signed; a sum
  outside its range or a zero modulus is \<open>None\<close>.
\<close>

record candidate_state =
  cs_items :: "ustring list"
  cs_selected :: nat

definition i32_in_range :: "int \<Rightarrow> bool" where
  "i32_in_range x \<longleftrightarrow> - (2 ^ 31) \<le> x \<and> x < 2 ^ 31"

definition as_i32 :: "nat \<Rightarrow> int" where
  "as_i32 n = (let m = int (n mod 2 ^ 32) in if m < 2 ^ 31 then m else m - 2 ^ 32)"

definition candidates_new :: candidate_state where
  "candidates_new = \<lparr>cs_items = [], cs_selected = 0\<rparr>"

definition candidates_set :: "candidate_state \<Rightarrow> ustring list \<Rightarrow> nat \<Rightarrow> candidate_state" where
  "candidates_set s items selected =
     s\<lparr>cs_selected := if items = [] then 0 else min selected (length items - 1), cs_items := items\<rparr>"

definition candidates_count :: "candidate_state \<Rightarrow> nat" where
  "candidates_count s = length (cs_items s)"

definition string_at :: "candidate_state \<Rightarrow> nat \<Rightarrow> ustring option" where
  "string_at s i = get (cs_items s) i"

definition move_selection :: "candidate_state \<Rightarrow> int \<Rightarrow> candidate_state option" where
  "move_selection s delta =
     (if cs_items s = [] then Some s
      else let n = as_i32 (length (cs_items s)); x = as_i32 (cs_selected s) + delta
      in if \<not> i32_in_range x \<or> n = 0 then None
         else Some (s\<lparr>cs_selected := nat (x mod \<bar>n\<bar>)\<rparr>))"

definition set_selection :: "candidate_state \<Rightarrow> nat \<Rightarrow> candidate_state" where
  "set_selection s index =
     (if cs_items s = [] then s else s\<lparr>cs_selected := min index (length (cs_items s) - 1)\<rparr>)"

definition resolve_commit :: "candidate_state \<Rightarrow> nat \<Rightarrow> (nat \<times> ustring) option" where
  "resolve_commit s sel =
     (case string_at s sel of
        Some t \<Rightarrow> Some (sel, t)
      | None \<Rightarrow> map_option (\<lambda>t. (0, t)) (string_at s 0))"

definition request_selection :: "candidate_state \<Rightarrow> bool \<Rightarrow> nat \<Rightarrow> candidate_state \<times> bool \<times> bool" where
  "request_selection s selection_dirty index =
     (if candidates_count s = 0 then (s, selection_dirty, False)
      else (set_selection s index, True, True))"

definition selection_ok :: "candidate_state \<Rightarrow> bool" where
  "selection_ok s \<longleftrightarrow>
     (if cs_items s = [] then cs_selected s = 0 else cs_selected s < length (cs_items s))"

lemma selection_ok_new: "selection_ok candidates_new"
  by (simp add: selection_ok_def candidates_new_def)

lemma selection_ok_set: "selection_ok (candidates_set s items sel)"
  by (cases items) (auto simp: selection_ok_def candidates_set_def)

lemma selection_ok_set_selection: "selection_ok s \<Longrightarrow> selection_ok (set_selection s i)"
  by (cases "cs_items s") (auto simp: selection_ok_def set_selection_def)

lemma as_i32_small: "n < 2 ^ 31 \<Longrightarrow> as_i32 n = int n"
  by (simp add: as_i32_def Let_def)

text \<open>With fewer than 2^31 candidates, moving the selection by a delta that keeps the sum in 32 bits
  never fails, wraps around the list in both directions, keeps the selection in range, and is undone by the
  opposite move.\<close>

theorem move_selection_cyclic:
  assumes "selection_ok s" and "cs_items s \<noteq> []" and "length (cs_items s) < 2 ^ 31"
    and "i32_in_range (int (cs_selected s) + delta)"
    and "i32_in_range (int (nat ((int (cs_selected s) + delta) mod int (length (cs_items s)))) - delta)"
  shows "\<exists>s'. move_selection s delta = Some s' \<and> selection_ok s'
    \<and> int (cs_selected s') = (int (cs_selected s) + delta) mod int (length (cs_items s))
    \<and> move_selection s' (- delta) = Some s"
proof -
  let ?n = "int (length (cs_items s))"
  let ?k = "nat ((int (cs_selected s) + delta) mod ?n)"
  have n: "0 < ?n" using assms(2) by simp
  have k: "int ?k = (int (cs_selected s) + delta) mod ?n" "?k < length (cs_items s)"
    using n by (simp_all add: nat_less_iff)
  have sel: "cs_selected s < length (cs_items s)" using assms(1,2) by (simp add: selection_ok_def)
  have a: "as_i32 (length (cs_items s)) = ?n" "as_i32 (cs_selected s) = int (cs_selected s)"
    "as_i32 ?k = int ?k" using assms(3) sel k(2) by (simp_all add: as_i32_small)
  have m: "move_selection s delta = Some (s\<lparr>cs_selected := ?k\<rparr>)"
    using assms(2,4) n a by (simp add: move_selection_def)
  have "(int ?k - delta) mod ?n = int (cs_selected s) mod ?n"
    unfolding k(1) by (simp add: mod_diff_left_eq)
  then have "(int ?k + - delta) mod ?n = int (cs_selected s)" using sel by simp
  then have "move_selection (s\<lparr>cs_selected := ?k\<rparr>) (- delta) = Some s"
    using assms(2,5) n a by (simp add: move_selection_def)
  then show ?thesis using m k assms(2) by (intro exI [of _ "s\<lparr>cs_selected := ?k\<rparr>"]) (simp add: selection_ok_def)
qed

theorem move_selection_cyclic_witness:
  "\<exists>s'. move_selection \<lparr>cs_items = [[1], [2], [3]], cs_selected = 0\<rparr> (- 1) = Some s' \<and> selection_ok s'
    \<and> int (cs_selected s') = 2"
  using move_selection_cyclic [of "\<lparr>cs_items = [[1], [2], [3]], cs_selected = 0\<rparr>" "- 1"]
  by (auto simp: selection_ok_def i32_in_range_def)

text \<open>The index sent to the engine and the text committed always belong to the same candidate, and a
  commit is refused only when there is no candidate.\<close>

theorem resolve_commit_consistent:
  "(case resolve_commit s sel of
      Some (i, t) \<Rightarrow> i < length (cs_items s) \<and> cs_items s ! i = t
    | None \<Rightarrow> cs_items s = [])"
  by (auto simp: resolve_commit_def string_at_def get_def split: option.split)

end
