(* ===== verification/Framing.thy ===== *)
theory Framing
  imports Rust_Prelude "HOL-Library.Word"
begin

text \<open>
  The length prefixed frames of the engine connection, \<open>crates/ipc/src/framing.rs\<close>. The
  reader and writer are byte buffers; the JSON library is a parameter, \<open>ser\<close> and
  \<open>de\<close>, of which the round trip uses only that parsing a serialised message gives it back.
\<close>

type_synonym byte = "8 word"

datatype io_error = IoInvalidInput nat nat | IoInvalidData nat nat | IoJson | IoUnexpectedEof

definition max_request_frame_len :: nat where "max_request_frame_len = 256 * 1024"
definition max_response_frame_len :: nat where "max_response_frame_len = 16 * 1024 * 1024"

definition serialize_frame ::
  "('a \<Rightarrow> byte list option) \<Rightarrow> 'a \<Rightarrow> nat \<Rightarrow> (nat \<Rightarrow> nat \<Rightarrow> io_error) \<Rightarrow> io_error + byte list"
where
  "serialize_frame ser msg max_len kind =
     (case ser msg of
        None \<Rightarrow> Inl IoJson
      | Some body \<Rightarrow>
          (if max_len < length body \<or> u32_try_from (length body) = None
           then Inl (kind (length body) max_len) else Inr body))"

text \<open>The four little endian bytes of a 32-bit length.\<close>

definition to_le_bytes :: "nat \<Rightarrow> byte list" where
  "to_le_bytes n = map (\<lambda>i. word_of_nat (n div 256 ^ i)) [0, 1, 2, 3]"

definition from_le_bytes :: "byte list \<Rightarrow> nat" where
  "from_le_bytes bs = foldr (\<lambda>b n. unat b + 256 * n) bs 0"

definition write_limited ::
  "('a \<Rightarrow> byte list option) \<Rightarrow> nat \<Rightarrow> byte list \<Rightarrow> 'a \<Rightarrow> byte list \<times> (io_error + unit)"
where
  "write_limited ser max_len w msg =
     (case serialize_frame ser msg max_len IoInvalidInput of
        Inl e \<Rightarrow> (w, Inl e)
      | Inr body \<Rightarrow> (w @ to_le_bytes (as_u32 (length body)) @ body, Inr ()))"

definition write_frame ::
  "('a \<Rightarrow> byte list option) \<Rightarrow> byte list \<Rightarrow> 'a \<Rightarrow> byte list \<times> (io_error + unit)"
where
  "write_frame ser w msg = write_limited ser max_response_frame_len w msg"

definition write_request_frame ::
  "('a \<Rightarrow> byte list option) \<Rightarrow> byte list \<Rightarrow> 'a \<Rightarrow> byte list \<times> (io_error + unit)"
where
  "write_request_frame ser w msg = write_limited ser max_request_frame_len w msg"

text \<open>\<open>read_exact\<close> takes all the bytes it asks for or fails.\<close>

definition read_exact :: "nat \<Rightarrow> byte list \<Rightarrow> io_error + byte list \<times> byte list" where
  "read_exact n r = (if n \<le> length r then Inr (take n r, drop n r) else Inl IoUnexpectedEof)"

definition read_frame ::
  "(byte list \<Rightarrow> 'a option) \<Rightarrow> byte list \<Rightarrow> io_error + 'a \<times> byte list"
where
  "read_frame de r =
     (case read_exact 4 r of
        Inl e \<Rightarrow> Inl e
      | Inr (len_buf, r1) \<Rightarrow>
          (let len = from_le_bytes len_buf
           in if max_response_frame_len < len then Inl (IoInvalidData len max_response_frame_len)
              else case read_exact len r1 of
                Inl e \<Rightarrow> Inl e
              | Inr (body, r2) \<Rightarrow>
                  (case de body of None \<Rightarrow> Inl IoJson | Some m \<Rightarrow> Inr (m, r2))))"

text \<open>Reading all frames of a stream.\<close>

fun read_frames :: "(byte list \<Rightarrow> 'a option) \<Rightarrow> nat \<Rightarrow> byte list \<Rightarrow> io_error + 'a list \<times> byte list" where
  "read_frames de 0 r = Inr ([], r)"
| "read_frames de (Suc k) r =
     (case read_frame de r of
        Inl e \<Rightarrow> Inl e
      | Inr (m, r') \<Rightarrow>
          (case read_frames de k r' of Inl e \<Rightarrow> Inl e | Inr (ms, r'') \<Rightarrow> Inr (m # ms, r'')))"

definition write_all ::
  "('a \<Rightarrow> byte list option) \<Rightarrow> byte list \<Rightarrow> 'a list \<Rightarrow> byte list"
where
  "write_all ser w msgs = foldl (\<lambda>w m. fst (write_frame ser w m)) w msgs"

section \<open>Round trip\<close>

lemma le_length [simp]: "length (to_le_bytes n) = 4"
  by (simp add: to_le_bytes_def)

lemma le_round_trip:
  assumes "n < 2 ^ 32"
  shows "from_le_bytes (to_le_bytes n) = n"
proof -
  define a b c where "a = n div 256" and "b = a div 256" and "c = b div 256"
  have u: "unat (word_of_nat k :: byte) = k mod 256" for k by (simp add: unat_of_nat)
  have p: "n div 256 ^ 0 = n" "n div 256 ^ 1 = a" "n div 256 ^ 2 = b" "n div 256 ^ 3 = c"
    unfolding a_def b_def c_def by (simp_all flip: div_mult2_eq)
  have "c < 256" using assms unfolding a_def b_def c_def by (simp flip: div_mult2_eq)
  then have "c mod 256 = c" by simp
  moreover have "n = n mod 256 + 256 * a" "a = a mod 256 + 256 * b" "b = b mod 256 + 256 * c"
    unfolding a_def b_def c_def by simp_all
  ultimately have "n mod 256 + 256 * (a mod 256 + 256 * (b mod 256 + 256 * (c mod 256))) = n" by presburger
  moreover have "from_le_bytes (to_le_bytes n) =
      n mod 256 + 256 * (a mod 256 + 256 * (b mod 256 + 256 * (c mod 256)))"
    by (simp only: to_le_bytes_def from_le_bytes_def list.map foldr.simps comp_apply u p id_apply mult_0_right
        add_0_right)
  ultimately show ?thesis by simp
qed

definition frame_ok :: "('a \<Rightarrow> byte list option) \<Rightarrow> nat \<Rightarrow> 'a \<Rightarrow> bool" where
  "frame_ok ser max_len m \<longleftrightarrow> (\<exists>b. ser m = Some b \<and> length b \<le> max_len)"

lemma write_limited_ok:
  assumes "ser m = Some b" and "length b \<le> max_len" and "max_len \<le> max_response_frame_len"
  shows "write_limited ser max_len w m = (w @ to_le_bytes (length b) @ b, Inr ())"
proof -
  have "length b \<le> u32_max" using assms by (simp add: max_response_frame_len_def)
  moreover from this have "as_u32 (length b) = length b" by (rule as_u32_id)
  ultimately show ?thesis using assms
    by (simp add: write_limited_def serialize_frame_def del: u32_max_eq)
qed

lemma read_frame_ok:
  assumes "de b = Some m" and "length b \<le> max_response_frame_len"
  shows "read_frame de (to_le_bytes (length b) @ b @ rest) = Inr (m, rest)"
proof -
  have "length b < 2 ^ 32" using assms(2) by (simp add: max_response_frame_len_def)
  then show ?thesis using assms le_round_trip [of "length b"]
    by (simp add: read_frame_def read_exact_def)
qed

lemma read_written:
  assumes "\<And>m b. ser m = Some b \<Longrightarrow> de b = Some m"
    and "\<forall>m\<in>set msgs. frame_ok ser max_response_frame_len m"
  shows "\<exists>tail. write_all ser w msgs = w @ tail
    \<and> read_frames de (length msgs) (tail @ rest) = Inr (msgs, rest)"
  using assms(2)
proof (induction msgs arbitrary: w)
  case (Cons m msgs)
  then obtain b where b: "ser m = Some b" "length b \<le> max_response_frame_len"
    by (auto simp: frame_ok_def)
  let ?f = "to_le_bytes (length b) @ b"
  have step: "fst (write_frame ser w m) = w @ ?f"
    using write_limited_ok [of ser m b max_response_frame_len w] b by (simp add: write_frame_def)
  from Cons.IH [of "w @ ?f"] Cons.prems obtain tail where
    tail: "write_all ser (w @ ?f) msgs = (w @ ?f) @ tail"
      "read_frames de (length msgs) (tail @ rest) = Inr (msgs, rest)" by auto
  have "read_frame de ((?f @ tail) @ rest) = Inr (m, tail @ rest)"
    using read_frame_ok [of de b m "tail @ rest"] assms(1) [OF b(1)] b(2) by simp
  then show ?case using step tail
    by (intro exI [of _ "?f @ tail"]) (simp add: write_all_def)
qed (simp add: write_all_def)

text \<open>Messages written one after the other are read back as the same messages in the same order, and
  whatever follows them in the stream is left unread, for any JSON library whose parser inverts its
  serialiser and any messages that serialise within the limit.\<close>

theorem frames_round_trip:
  assumes "\<And>m b. ser m = Some b \<Longrightarrow> de b = Some m"
    and "\<forall>m\<in>set msgs. frame_ok ser max_response_frame_len m"
  shows "read_frames de (length msgs) (write_all ser [] msgs @ rest) = Inr (msgs, rest)"
  using read_written [OF assms, where w = "[]"] by auto

theorem frames_round_trip_witness:
  "read_frames (\<lambda>b. case b of [x] \<Rightarrow> Some x | _ \<Rightarrow> None) (length [7, 9 :: byte])
     (write_all (\<lambda>x. Some [x]) [] [7, 9] @ [1]) = Inr ([7, 9], [1])"
  by (rule frames_round_trip) (auto simp: frame_ok_def max_response_frame_len_def)

text \<open>A request over 256 KiB is refused with nothing written, not even its length; and a peer that
  announces more than 16 MiB is refused before any of its body is read, whatever the parser.\<close>

theorem frame_limits:
  assumes "ser m = Some b" and "max_request_frame_len < length b"
    and "length hdr = 4" and "max_response_frame_len < from_le_bytes hdr"
  shows "write_request_frame ser w m = (w, Inl (IoInvalidInput (length b) max_request_frame_len))
    \<and> read_frame de (hdr @ body) = Inl (IoInvalidData (from_le_bytes hdr) max_response_frame_len)"
  using assms
  by (simp add: write_request_frame_def write_limited_def serialize_frame_def read_frame_def read_exact_def)

theorem frame_limits_witness:
  "write_request_frame (\<lambda>n. Some (replicate n (0 :: byte))) [] 262145 = ([], Inl (IoInvalidInput 262145 262144))
   \<and> read_frame (\<lambda>b. Some b) ([0, 0, 0, 255] @ [0]) = Inl (IoInvalidData 4278190080 16777216)"
proof -
  have "max_request_frame_len = 262144" "max_response_frame_len = 16777216"
    by (simp_all add: max_request_frame_len_def max_response_frame_len_def)
  moreover have "from_le_bytes [0, 0, 0, 255] = 4278190080" by (simp add: from_le_bytes_def)
  ultimately show ?thesis
    using frame_limits [where ser = "\<lambda>n. Some (replicate n (0 :: byte))" and m = 262145
        and b = "replicate 262145 0" and hdr = "[0, 0, 0, 255]" and w = "[]" and de = "\<lambda>b. Some b"
        and body = "[0]"]
    by simp
qed

end
