(* ===== verification/Clause_Model.thy ===== *)
theory Clause_Model
  imports Clause_Wire Input_State "HOL-Library.AList"
begin

text \<open>
  Clause selection and surfaces, \<open>crates/tip/src/clause_conversion.rs\<close>: the state of a
  conversion and its local edits, which need no reply of the engine. Hash maps are association lists
  with distinct keys. \<open>None\<close> is a panic. The last grapheme start
  (\<open>grapheme.rs\<close>, over a Unicode crate) is the parameter \<open>lgs\<close>.
\<close>

section \<open>State\<close>

datatype operation_mode = ModeEditing | ModeConverting

datatype surface_source =
  SurfReading
| SurfCandidate (sc_token: ustring) (sc_explicitly_selected: bool)
| SurfLocal

fun is_candidate :: "surface_source \<Rightarrow> bool" where
  "is_candidate (SurfCandidate _ _) = True"
| "is_candidate _ = False"

record local_clause =
  cl_id :: clause_id
  cl_start :: reading_position
  cl_end :: reading_position
  cl_surface :: ustring
  cl_source :: surface_source

datatype candidate_window =
  WinClosed
| WinLoading clause_request_key
| WinReady clause_id "clause_candidate list" nat

record issued_candidates =
  ic_request :: clause_candidates_request
  ic_deadline :: instant
  ic_conversion :: "convert_clauses_request option"
  ic_rebaseline_used :: bool
  ic_advance :: int

record cached_candidates =
  cc_start :: reading_position
  cc_end :: reading_position
  cc_preceding :: "preceding_surface list"
  cc_candidates :: "clause_candidate list"

datatype local_edit_outcome =
  OutUnchanged | OutChanged | OutReadingChanged | OutEmpty | OutEditing | OutExhausted

datatype cancel_stage = CancelNone | CancelSelectedReading

record learning_identity =
  li_engine_epoch :: ustring
  li_learning_generation :: nat

record clause_conversion =
  cv_learning_identity :: "learning_identity option"
  cv_mode :: operation_mode
  cv_reading :: ustring
  cv_identity :: snapshot_identity
  cv_baseline :: nat
  cv_revision :: nat
  cv_clauses :: "local_clause list"
  cv_selected :: nat
  cv_window :: candidate_window
  cv_sentence_token :: "ustring option"
  cv_issued :: "(nat \<times> issued_candidates) list"
  cv_cache :: "(clause_id \<times> cached_candidates) list"
  cv_last_request_id :: nat
  cv_next_clause_id :: "nat option"
  cv_boundary_request :: "issued_candidates option"
  cv_cancel_stage :: cancel_stage
  cv_user_driven :: bool
  cv_editing_clause :: "clause_id option"
  cv_notation_cycle :: "(notation_kind \<times> reading_position \<times> reading_position \<times> ustring \<times> nat) option"

section \<open>Construction\<close>

text \<open>A validated converted clause has a token; without one the source's \<open>expect\<close> panics.\<close>

definition local_of_wire :: "wire_clause \<Rightarrow> local_clause option" where
  "local_of_wire c =
     map_option (\<lambda>src. \<lparr>cl_id = wc_id c, cl_start = wc_reading_start c, cl_end = wc_reading_end c,
         cl_surface = wc_surface c, cl_source = src\<rparr>)
       (case wc_state c of
          StReading \<Rightarrow> Some SurfReading
        | StConverted \<Rightarrow> map_option (\<lambda>t. SurfCandidate t False) (wc_candidate_token c))"

fun locals_of_wire :: "wire_clause list \<Rightarrow> local_clause list option" where
  "locals_of_wire [] = Some []"
| "locals_of_wire (c # cs) =
     (case local_of_wire c of None \<Rightarrow> None
      | Some l \<Rightarrow> map_option ((#) l) (locals_of_wire cs))"

definition clause_from_snapshot ::
  "snapshot_identity \<Rightarrow> nat \<Rightarrow> snapshot_clause_data \<Rightarrow> ustring
   \<Rightarrow> (clause_validation_error + clause_conversion) option"
where
  "clause_from_snapshot identity baseline data t =
     (case snapshot_validate data t of
        Inl e \<Rightarrow> Some (Inl e)
      | Inr _ \<Rightarrow>
          (case locals_of_wire (scd_clauses data) of
             None \<Rightarrow> None
           | Some clauses \<Rightarrow> Some (Inr
              \<lparr>cv_learning_identity = None, cv_mode = ModeConverting, cv_reading = scd_reading data,
               cv_identity = identity, cv_baseline = baseline, cv_revision = scd_conversion_revision data,
               cv_clauses = clauses, cv_selected = 0, cv_window = WinClosed,
               cv_sentence_token = scd_sentence_token data, cv_issued = [], cv_cache = [],
               cv_last_request_id = scd_request_id data,
               cv_next_clause_id = checked_add_u64 (fold max (map cl_id clauses) 0) 1,
               cv_boundary_request = None, cv_cancel_stage = CancelNone, cv_user_driven = False,
               cv_editing_clause = None, cv_notation_cycle = None\<rparr>)))"

definition clause_from_reading :: "snapshot_identity \<Rightarrow> ustring \<Rightarrow> clause_conversion option" where
  "clause_from_reading identity reading =
     (case u32_try_from (length reading) of
        None \<Rightarrow> None
      | Some end_pos \<Rightarrow>
          (if end_pos = 0 then None
           else Some
            \<lparr>cv_learning_identity = None, cv_mode = ModeEditing, cv_reading = reading,
             cv_identity = identity, cv_baseline = 0, cv_revision = 0,
             cv_clauses = [\<lparr>cl_id = 1, cl_start = 0, cl_end = end_pos, cl_surface = reading,
                            cl_source = SurfReading\<rparr>],
             cv_selected = 0, cv_window = WinClosed, cv_sentence_token = None, cv_issued = [],
             cv_cache = [], cv_last_request_id = 0, cv_next_clause_id = Some 2,
             cv_boundary_request = None, cv_cancel_stage = CancelNone, cv_user_driven = True,
             cv_editing_clause = None, cv_notation_cycle = None\<rparr>))"

definition reset_notation_cycle :: "clause_conversion \<Rightarrow> clause_conversion" where
  "reset_notation_cycle m = m\<lparr>cv_notation_cycle := None\<rparr>"

definition clause_text :: "clause_conversion \<Rightarrow> ustring" where
  "clause_text m = concat (map cl_surface (cv_clauses m))"

definition promote_live_display ::
  "clause_conversion \<Rightarrow> snapshot_identity \<Rightarrow> ustring \<Rightarrow> ustring \<Rightarrow> clause_conversion option"
where
  "promote_live_display m identity reading t =
     (if si_composition (cv_identity m) \<noteq> si_composition identity
        \<or> si_configuration_generation (cv_identity m) \<noteq> si_configuration_generation identity
        \<or> si_connection_generation (cv_identity m) \<noteq> si_connection_generation identity
        \<or> si_revision identity < si_revision (cv_identity m)
        \<or> list_all (\<lambda>c. cl_source c = SurfReading) (cv_clauses m)
      then None
      else case strip_prefix reading (cv_reading m) of
        None \<Rightarrow> None
      | Some suf \<Rightarrow>
          (if t \<noteq> clause_text m @ suf then None
           else
            (let finish = (\<lambda>m'. m'\<lparr>cv_identity := identity, cv_mode := ModeConverting,
                                   cv_user_driven := True\<rparr>)
             in if suf = [] then Some (finish m)
                else case (u32_try_from (length (cv_reading m)), u32_try_from (length reading)) of
                  (Some start, Some end_pos) \<Rightarrow>
                    (case legal_boundaries reading of
                       Inl _ \<Rightarrow> None
                     | Inr bs \<Rightarrow>
                         (if start \<notin> set bs then None
                          else case cv_next_clause_id m of
                            None \<Rightarrow> None
                          | Some ident \<Rightarrow>
                              (case checked_add_u64 ident 1 of
                                 None \<Rightarrow> None
                               | Some next_id \<Rightarrow>
                                   (case checked_add_u64 (cv_revision m) 1 of
                                      None \<Rightarrow> None
                                    | Some revision \<Rightarrow> Some (finish
                                       (m\<lparr>cv_next_clause_id := Some next_id,
                                          cv_clauses := cv_clauses m @
                                            [\<lparr>cl_id = ident, cl_start = start, cl_end = end_pos,
                                              cl_surface = suf, cl_source = SurfReading\<rparr>],
                                          cv_reading := reading, cv_sentence_token := None,
                                          cv_revision := revision\<rparr>))))))
                | _ \<Rightarrow> None)))"

section \<open>The window\<close>

definition close_window :: "clause_conversion \<Rightarrow> clause_conversion" where
  "close_window m =
     (let m1 = m\<lparr>cv_boundary_request := None\<rparr>;
          m2 = (case cv_window m1 of
                  WinLoading key \<Rightarrow> m1\<lparr>cv_issued := AList.delete (rk_request_id key) (cv_issued m1)\<rparr>
                | _ \<Rightarrow> m1)
      in m2\<lparr>cv_window := WinClosed, cv_boundary_request := None\<rparr>)"

definition move_clause :: "clause_conversion \<Rightarrow> int \<Rightarrow> clause_conversion" where
  "move_clause m offset =
     (let m1 = m\<lparr>cv_window := WinClosed, cv_boundary_request := None, cv_user_driven := True\<rparr>
      in if cv_clauses m1 = [] then m1
         else m1\<lparr>cv_selected :=
           nat (min (max (int (cv_selected m1) + offset) 0) (int (length (cv_clauses m1)) - 1))\<rparr>)"

definition end_request :: "clause_conversion \<Rightarrow> clause_request_key \<Rightarrow> clause_conversion" where
  "end_request m key =
     (let m1 = m\<lparr>cv_issued := AList.delete (rk_request_id key) (cv_issued m)\<rparr>
      in if cv_window m1 = WinLoading key
         then m1\<lparr>cv_window := WinClosed, cv_boundary_request := None\<rparr> else m1)"

definition preceding_of :: "clause_conversion \<Rightarrow> nat \<Rightarrow> preceding_surface list" where
  "preceding_of m index =
     map (\<lambda>c. \<lparr>ps_clause_id = cl_id c, ps_reading_start = cl_start c, ps_reading_end = cl_end c,
               ps_surface = cl_surface c\<rparr>) (take index (cv_clauses m))"

definition invalidate_learning :: "clause_conversion \<Rightarrow> clause_conversion" where
  "invalidate_learning m =
     m\<lparr>cv_learning_identity := None, cv_sentence_token := None,
       cv_clauses := map (\<lambda>c. if is_candidate (cl_source c) then c\<lparr>cl_source := SurfLocal\<rparr> else c)
         (cv_clauses m),
       cv_issued := [], cv_cache := [], cv_window := WinClosed, cv_boundary_request := None,
       cv_user_driven := True\<rparr>"

definition refresh_learning_identity ::
  "clause_conversion \<Rightarrow> learning_identity \<Rightarrow> clause_conversion"
where
  "refresh_learning_identity m identity =
     (if cv_learning_identity m = Some identity then m
      else if (case cv_learning_identity m of
          None \<Rightarrow> False
        | Some old \<Rightarrow> li_engine_epoch old \<noteq> li_engine_epoch identity
            \<or> li_learning_generation identity < li_learning_generation old) then m
      else
       (let issued = cv_issued m;
            loading = (case cv_window m of WinLoading key \<Rightarrow> Some key | _ \<Rightarrow> None);
            m1 = (invalidate_learning (m\<lparr>cv_issued := []\<rparr>))\<lparr>cv_issued := issued\<rparr>;
            m2 = (case loading of Some key \<Rightarrow> m1\<lparr>cv_window := WinLoading key\<rparr> | None \<Rightarrow> m1)
        in m2\<lparr>cv_learning_identity := Some identity\<rparr>))"

definition configured_learning_identity ::
  "clause_conversion \<Rightarrow> learning_identity option \<Rightarrow> clause_conversion"
where
  "configured_learning_identity m identity =
     (case identity of
        None \<Rightarrow> invalidate_learning m
      | Some i \<Rightarrow>
          (let m1 = (case cv_learning_identity m of
              Some old \<Rightarrow> (if li_engine_epoch old \<noteq> li_engine_epoch i then invalidate_learning m else m)
            | None \<Rightarrow> m)
           in refresh_learning_identity m1 i))"

section \<open>Local edits\<close>

definition make_reading_clause :: "ustring \<Rightarrow> nat \<Rightarrow> nat \<Rightarrow> nat \<Rightarrow> local_clause" where
  "make_reading_clause reading ident start end_pos =
     \<lparr>cl_id = ident, cl_start = start, cl_end = end_pos, cl_surface = slice_of start end_pos reading,
      cl_source = SurfReading\<rparr>"

definition begin_reading_edit :: "clause_conversion \<Rightarrow> nat \<Rightarrow> clause_conversion \<times> local_edit_outcome" where
  "begin_reading_edit m index =
     (case get (cv_clauses m) index of
        None \<Rightarrow> (m, OutUnchanged)
      | Some clause \<Rightarrow>
          (case checked_add_u64 (cv_revision m) 1 of
             None \<Rightarrow> (m, OutExhausted)
           | Some revision \<Rightarrow>
               (let m1 = m\<lparr>cv_clauses := (cv_clauses m)[index :=
                            clause\<lparr>cl_surface := slice_of (cl_start clause) (cl_end clause) (cv_reading m),
                                   cl_source := SurfReading\<rparr>],
                           cv_editing_clause := Some (cl_id clause), cv_selected := index,
                           cv_mode := ModeEditing, cv_revision := revision,
                           cv_cancel_stage := CancelNone, cv_notation_cycle := None,
                           cv_user_driven := True\<rparr>
                in ((close_window m1)\<lparr>cv_cache := [], cv_issued := [], cv_sentence_token := None\<rparr>,
                    OutChanged))))"

definition editing_range :: "clause_conversion \<Rightarrow> (nat \<times> nat) option" where
  "editing_range m =
     (if cv_mode m \<noteq> ModeEditing then None
      else map_option (\<lambda>c. (cl_start c, cl_end c))
        (find (\<lambda>c. Some (cl_id c) = cv_editing_clause m) (cv_clauses m)))"

text \<open>Moving a clause behind the edited one: a fresh identifier, shifted bounds, no token.\<close>

definition shift_clause :: "int \<Rightarrow> nat \<Rightarrow> local_clause \<Rightarrow> local_clause" where
  "shift_clause delta new_id c =
     c\<lparr>cl_id := new_id, cl_start := nat ((int (cl_start c) + delta) mod 2 ^ 32),
       cl_end := nat ((int (cl_end c) + delta) mod 2 ^ 32),
       cl_source := if is_candidate (cl_source c) then SurfLocal else cl_source c\<rparr>"

definition shift_clauses :: "int \<Rightarrow> nat \<Rightarrow> local_clause list \<Rightarrow> local_clause list" where
  "shift_clauses delta first_id cs =
     (if delta \<noteq> 0 then map (\<lambda>(offset, c). shift_clause delta (first_id + offset) c) (enumerate 0 cs)
      else cs)"

text \<open>The edit of an interval whose new bounds are legal boundaries of the new reading.\<close>

definition replace_edited_interval ::
  "clause_conversion \<Rightarrow> ustring \<Rightarrow> nat \<Rightarrow> nat \<Rightarrow> nat \<Rightarrow> nat \<Rightarrow> nat
   \<Rightarrow> (clause_conversion \<times> local_edit_outcome) option"
where
  "replace_edited_interval m reading reading_revision start new_end new_len old_len =
     (case checked_add_u64 (cv_revision m) 1 of
        None \<Rightarrow> Some (m, OutExhausted)
      | Some revision \<Rightarrow>
     (if reading_revision \<le> si_revision (cv_identity m) then Some (m, OutUnchanged)
      else
     (case position (\<lambda>c. Some (cl_id c) = cv_editing_clause m) (cv_clauses m) of
        None \<Rightarrow> None
      | Some index \<Rightarrow>
     (let changed_ids = 1 + (if new_len \<noteq> old_len then length (cv_clauses m) - index - 1 else 0)
      in case cv_next_clause_id m of
        None \<Rightarrow> Some (m, OutExhausted)
      | Some first_id \<Rightarrow>
     (case checked_add_u64 first_id changed_ids of
        None \<Rightarrow> Some (m, OutExhausted)
      | Some next_id \<Rightarrow>
     (let delta = int new_len - int old_len;
          edited = make_reading_clause reading first_id start new_end;
          behind = shift_clauses delta (first_id + 1) (drop (Suc index) (cv_clauses m));
          m1 = m\<lparr>cv_clauses := take index (cv_clauses m) @ edited # behind,
                 cv_editing_clause := Some first_id\<rparr>;
          m2 = (if new_end = start
                then (let cs = take index (cv_clauses m1) @ drop (Suc index) (cv_clauses m1)
                      in m1\<lparr>cv_clauses := cs, cv_editing_clause := None, cv_mode := ModeConverting,
                            cv_selected := min index (length cs - 1)\<rparr>)
                else m1);
          m3 = m2\<lparr>cv_reading := reading,
                  cv_identity := (cv_identity m2)\<lparr>si_revision := reading_revision\<rparr>,
                  cv_revision := revision, cv_next_clause_id := Some next_id,
                  cv_cancel_stage := CancelNone, cv_notation_cycle := None\<rparr>;
          m4 = (close_window m3)\<lparr>cv_cache := [], cv_issued := [], cv_sentence_token := None\<rparr>
      in Some (m4, if cv_clauses m4 = [] then OutEmpty else OutReadingChanged)))))))"

text \<open>An edit may attach a combining mark across the interval's edge; then the neighbour joins the
  edited interval and the edit is tried again on the joined interval.\<close>

definition join_clauses :: "clause_conversion \<Rightarrow> nat \<Rightarrow> nat \<Rightarrow> clause_conversion" where
  "join_clauses m first last_index =
     (let from = cl_start (cv_clauses m ! first);
          to = cl_end (cv_clauses m ! last_index);
          ident = cl_id (cv_clauses m ! first)
      in m\<lparr>cv_clauses := splice first (Suc last_index) [make_reading_clause (cv_reading m) ident from to]
             (cv_clauses m),
           cv_selected := first, cv_editing_clause := Some ident\<rparr>)"

lemma length_join:
  "first < last_index \<Longrightarrow> last_index < length (cv_clauses m) \<Longrightarrow>
   length (cv_clauses (join_clauses m first last_index)) < length (cv_clauses m)"
  by (simp add: join_clauses_def Let_def splice_def)

lemma length_join_neighbour:
  assumes "position P (cv_clauses m) = Some index"
    and "first = (if a then index - 1 else index)"
    and "last_index = (if b then min (index + 1) (length (cv_clauses m) - 1) else index)"
    and "first \<noteq> last_index"
  shows "length (cv_clauses (join_clauses m first last_index)) < length (cv_clauses m)"
proof (rule length_join)
  have "index < length (cv_clauses m)" using assms(1) by (auto dest: position_SomeD)
  then show "first < last_index" "last_index < length (cv_clauses m)"
    using assms(2-4) by (auto split: if_splits)
qed

function replace_edited_reading ::
  "clause_conversion \<Rightarrow> ustring \<Rightarrow> nat \<Rightarrow> (clause_conversion \<times> local_edit_outcome) option"
where
  "replace_edited_reading m reading reading_revision =
     (case editing_range m of
        None \<Rightarrow> Some (m, OutUnchanged)
      | Some (start, end_pos) \<Rightarrow>
     (let pre = take start (cv_reading m); suf = drop end_pos (cv_reading m)
      in case u32_try_from (length reading) of
        None \<Rightarrow> Some (m, OutExhausted)
      | Some new_len \<Rightarrow>
     (let old_len = as_u32 (length (cv_reading m)); unchanged = start + old_len - end_pos
      in if new_len < unchanged \<or> \<not> starts_with reading pre \<or> \<not> ends_with reading suf
         then Some (m, OutUnchanged)
         else
     (let new_end = start + new_len - unchanged
      in case legal_boundaries reading of
        Inl _ \<Rightarrow> Some (m, OutUnchanged)
      | Inr bs \<Rightarrow>
     (if start \<in> set bs \<and> new_end \<in> set bs
      then replace_edited_interval m reading reading_revision start new_end new_len old_len
      else case position (\<lambda>c. Some (cl_id c) = cv_editing_clause m) (cv_clauses m) of
        None \<Rightarrow> None
      | Some index \<Rightarrow>
     (let first = (if start \<notin> set bs then index - 1 else index);
          last_index = (if new_end \<notin> set bs then min (index + 1) (length (cv_clauses m) - 1) else index)
      in if first = last_index then Some (m, OutUnchanged)
         else case replace_edited_reading (join_clauses m first last_index) reading reading_revision of
           None \<Rightarrow> None
         | Some (draft, r) \<Rightarrow>
             Some (if r = OutReadingChanged \<or> r = OutEmpty then draft else m, r)))))))"
  by pat_completeness auto

termination
proof (relation "measure (\<lambda>(m, _, _). length (cv_clauses m))", goal_cases)
  case (2 m reading rev)
  show ?case
    unfolding in_measure case_prod_conv by (rule length_join_neighbour [OF 2(12-15)])
qed simp

declare replace_edited_reading.simps [simp del]

definition delete_display_tail ::
  "(ustring \<Rightarrow> nat option) \<Rightarrow> clause_conversion \<Rightarrow> (clause_conversion \<times> local_edit_outcome) option"
where
  "delete_display_tail lgs m =
     (if cv_clauses m = [] then Some (m, OutUnchanged)
      else let last_clause = last (cv_clauses m)
      in case lgs (cl_surface last_clause) of
        None \<Rightarrow> Some (m, OutUnchanged)
      | Some retained_bytes \<Rightarrow>
     (case checked_add_u64 (cv_revision m) 1 of
        None \<Rightarrow> Some (m, OutExhausted)
      | Some revision \<Rightarrow>
     (case (if retained_bytes = 0 then checked_add_u64 (si_revision (cv_identity m)) 1
            else Some (si_revision (cv_identity m))) of
        None \<Rightarrow> Some (m, OutExhausted)
      | Some reading_revision \<Rightarrow>
     (case (if retained_bytes = 0
            then (let cs = butlast (cv_clauses m)
                  in Some (m\<lparr>cv_reading := take (cl_start last_clause) (cv_reading m), cv_clauses := cs,
                             cv_selected := min (cv_selected m) (length cs - 1)\<rparr>))
            else map_option (\<lambda>s. m\<lparr>cv_clauses := butlast (cv_clauses m) @
                     [last_clause\<lparr>cl_surface := s, cl_source := SurfLocal\<rparr>]\<rparr>)
                   (truncate_bytes retained_bytes (cl_surface last_clause))) of
        None \<Rightarrow> None
      | Some m1 \<Rightarrow>
     (let m2 = m1\<lparr>cv_identity := (cv_identity m1)\<lparr>si_revision := reading_revision\<rparr>,
                  cv_revision := revision, cv_cancel_stage := CancelNone, cv_user_driven := True\<rparr>;
          m3 = (close_window m2)\<lparr>cv_issued := [], cv_cache := [], cv_sentence_token := None\<rparr>
      in Some (m3, if cv_clauses m3 = [] then OutEmpty
                   else if retained_bytes = 0 then OutReadingChanged else OutChanged))))))"

definition restore_reading :: "ustring \<Rightarrow> local_clause \<Rightarrow> local_clause" where
  "restore_reading reading c =
     c\<lparr>cl_surface := slice_of (cl_start c) (cl_end c) reading, cl_source := SurfReading\<rparr>"

definition clause_escape :: "clause_conversion \<Rightarrow> clause_conversion \<times> local_edit_outcome" where
  "clause_escape m =
     (if cv_window m \<noteq> WinClosed then (close_window m, OutChanged)
      else if cv_clauses m = [] then (m, OutUnchanged)
      else case checked_add_u64 (cv_revision m) 1 of
        None \<Rightarrow> (m, OutExhausted)
      | Some revision \<Rightarrow>
     (let all = (cv_cancel_stage m = CancelSelectedReading);
          m1 = m\<lparr>cv_clauses := map (\<lambda>(i, c). if all \<or> i = cv_selected m
                    then restore_reading (cv_reading m) c else c) (enumerate 0 (cv_clauses m)),
                 cv_revision := revision, cv_user_driven := True, cv_issued := [], cv_cache := [],
                 cv_sentence_token := None,
                 cv_cancel_stage := if all then CancelNone else CancelSelectedReading\<rparr>
      in if all then (m1\<lparr>cv_editing_clause := None, cv_mode := ModeEditing\<rparr>, OutEditing)
         else (m1, OutChanged)))"

definition resize_selected :: "clause_conversion \<Rightarrow> int \<Rightarrow> clause_conversion \<times> local_edit_outcome" where
  "resize_selected m direction =
     (if direction = 0 \<or> cv_mode m \<noteq> ModeConverting then (m, OutUnchanged)
      else case get (cv_clauses m) (cv_selected m) of
        None \<Rightarrow> (m, OutUnchanged)
      | Some selected \<Rightarrow>
     (case legal_boundaries (cv_reading m) of
        Inl _ \<Rightarrow> (m, OutUnchanged)
      | Inr bs \<Rightarrow>
     (case (if 0 < direction then find (\<lambda>p. cl_end selected < p) bs
            else find (\<lambda>p. p < cl_end selected \<and> cl_start selected < p) (rev bs)) of
        None \<Rightarrow> (m, OutUnchanged)
      | Some next_end \<Rightarrow>
     (let right = get (cv_clauses m) (cv_selected m + 1);
          tail_end = (case right of None \<Rightarrow> cl_end selected | Some c \<Rightarrow> cl_end c);
          suf = (next_end < tail_end)
      in case checked_add_u64 (cv_revision m) 1 of
        None \<Rightarrow> (m, OutExhausted)
      | Some revision \<Rightarrow>
     (case cv_next_clause_id m of
        None \<Rightarrow> (m, OutExhausted)
      | Some first_id \<Rightarrow>
     (case checked_add_u64 first_id (1 + (if suf then 1 else 0)) of
        None \<Rightarrow> (m, OutExhausted)
      | Some next_id \<Rightarrow>
     (let replacements = make_reading_clause (cv_reading m) first_id (cl_start selected) next_end #
            (if suf then [make_reading_clause (cv_reading m) (first_id + 1) next_end tail_end] else []);
          end_index = cv_selected m + 1 + (if right \<noteq> None then 1 else 0)
      in (m\<lparr>cv_clauses := splice (cv_selected m) end_index replacements (cv_clauses m),
            cv_next_clause_id := Some next_id, cv_cancel_stage := CancelNone, cv_revision := revision,
            cv_user_driven := True, cv_window := WinClosed, cv_boundary_request := None,
            cv_issued := [], cv_cache := [], cv_sentence_token := None\<rparr>, OutChanged))))))))"

definition replace_whole_surface :: "clause_conversion \<Rightarrow> ustring \<Rightarrow> clause_conversion \<times> bool" where
  "replace_whole_surface m0 surface =
     (let m = m0\<lparr>cv_cancel_stage := CancelNone\<rparr>
      in case checked_add_u64 (cv_revision m) 1 of
        None \<Rightarrow> (m, False)
      | Some revision \<Rightarrow>
     (case cv_clauses m of
        [] \<Rightarrow> (m, False)
      | first # _ \<Rightarrow>
         (m\<lparr>cv_clauses := [\<lparr>cl_id = cl_id first, cl_start = 0, cl_end = as_u32 (length (cv_reading m)),
                          cl_surface = surface, cl_source = SurfLocal\<rparr>],
            cv_selected := 0, cv_revision := revision, cv_mode := ModeConverting,
            cv_user_driven := True, cv_window := WinClosed, cv_boundary_request := None,
            cv_issued := [], cv_cache := [], cv_sentence_token := None\<rparr>, True)))"

subsection \<open>Notation\<close>

definition fold_width :: "uchar \<Rightarrow> uchar" where
  "fold_width c = (if c = 0x3000 then 0x20 else if 0xFF01 \<le> c \<and> c \<le> 0xFF5E then c - 0xFEE0 else c)"

definition to_ascii_uppercase :: "uchar \<Rightarrow> uchar" where
  "to_ascii_uppercase c = (if is_ascii_lowercase c then c - 0x20 else c)"

definition to_ascii_lowercase :: "uchar \<Rightarrow> uchar" where
  "to_ascii_lowercase c = (if is_ascii_uppercase c then c + 0x20 else c)"

fun ascii_cycle :: "nat \<Rightarrow> bool \<Rightarrow> ustring \<Rightarrow> ustring" where
  "ascii_cycle step first [] = []"
| "ascii_cycle step first (c # cs) =
     (let ch = fold_width c
      in if \<not> (is_ascii_lowercase ch \<or> is_ascii_uppercase ch) then ch # ascii_cycle step first cs
         else (if step = 1 \<or> step = 2 \<and> first then to_ascii_uppercase ch else to_ascii_lowercase ch)
              # ascii_cycle step False cs)"

definition transform_notation ::
  "clause_conversion \<Rightarrow> nat \<Rightarrow> nat \<Rightarrow> notation_kind \<Rightarrow> ustring option \<Rightarrow> clause_conversion \<times> bool"
where
  "transform_notation m0 start end_pos kind original =
     (let m = m0\<lparr>cv_cancel_stage := CancelNone\<rparr>
      in case position (\<lambda>c. cl_start c = start) (cv_clauses m) of
        None \<Rightarrow> (m, False)
      | Some first \<Rightarrow>
     (case position (\<lambda>c. cl_end c = end_pos) (cv_clauses m) of
        None \<Rightarrow> (m, False)
      | Some last_index \<Rightarrow>
     (if last_index < first then (m, False)
      else
     (let reading = slice_of start end_pos (cv_reading m);
          material = (case original of Some s \<Rightarrow> s | None \<Rightarrow> reading);
          step = (case cv_notation_cycle m of
             Some (key, from, to, s, st) \<Rightarrow>
               (if key = kind \<and> from = start \<and> to = end_pos \<and> s = material then (st + 1) mod 3 else 0)
           | None \<Rightarrow> 0);
          asc = ascii_cycle step True material;
          (surface, source, cycle) = (case kind of
             NotHiragana \<Rightarrow> (reading, SurfReading, None)
           | NotKatakana \<Rightarrow> (to_katakana reading, SurfLocal, None)
           | NotHankakuKana \<Rightarrow> (to_hankaku_kana reading, SurfLocal, None)
           | NotZenkakuEisu \<Rightarrow> (to_zenkaku_ascii asc, SurfLocal, Some (kind, start, end_pos, material, step))
           | NotHankakuEisu \<Rightarrow> (asc, SurfLocal, Some (kind, start, end_pos, material, step)))
      in case checked_add_u64 (cv_revision m) 1 of
        None \<Rightarrow> (m, False)
      | Some revision \<Rightarrow>
         (let ident = cl_id (cv_clauses m ! first);
              m1 = m\<lparr>cv_clauses := splice first (Suc last_index)
                       [\<lparr>cl_id = ident, cl_start = start, cl_end = end_pos, cl_surface = surface,
                         cl_source = source\<rparr>] (cv_clauses m),
                     cv_selected := first, cv_revision := revision, cv_notation_cycle := cycle,
                     cv_user_driven := True\<rparr>;
              m2 = (if kind \<noteq> NotHiragana then m1\<lparr>cv_mode := ModeConverting\<rparr> else m1);
              retained = map cl_id (take first (cv_clauses m2))
          in (m2\<lparr>cv_window := WinClosed, cv_boundary_request := None, cv_issued := [],
                 cv_cache := filter (\<lambda>(k, _). k \<in> set retained) (cv_cache m2)\<rparr>, True))))))"

definition transform_kana ::
  "clause_conversion \<Rightarrow> nat \<Rightarrow> nat \<Rightarrow> notation_kind \<Rightarrow> clause_conversion \<times> bool"
where
  "transform_kana m start end_pos kind = transform_notation m start end_pos kind None"

end
