(* ===== verification/Clause_Requests.thy ===== *)
theory Clause_Requests
  imports Clause_Model
begin

text \<open>
  The exchange with the engine of \<open>crates/tip/src/clause_conversion.rs\<close>: candidate lists,
  boundary conversions, the rebaseline of a lost connection, expiry, and the selection of a
  candidate. A request carries the identity, baseline and revision it was issued for; a reply is
  used only while they are current. An outer \<open>None\<close> is a panic.
\<close>

section \<open>Messages\<close>

definition request_timeout_ms :: nat where
  "request_timeout_ms = 1200"

record auto_commit_proposal =
  ac_proposal :: nat
  ac_text :: ustring
  ac_consumed_reading :: ustring
  ac_remaining :: ustring

record snapshot_result =
  sr_clause_data :: snapshot_clause_data
  sr_composition :: nat
  sr_revision :: nat
  sr_configuration_generation :: nat
  sr_connection_generation :: nat
  sr_text :: ustring
  sr_candidates :: "ustring list option"
  sr_candidate_remaining :: "ustring list option"
  sr_baseline :: nat
  sr_auto_commit :: "auto_commit_proposal option"

text \<open>Every other response is refused alike.\<close>

datatype response = SnapshotResult snapshot_result | OtherResponse

record live_snapshot =
  ls_composition :: nat
  ls_revision :: nat
  ls_configuration_generation :: nat
  ls_connection_generation :: nat
  ls_conversion_revision :: nat
  ls_request_id :: nat
  ls_segments :: "(ustring \<times> ustring option) list"
  ls_explicit :: bool
  ls_live_search_width :: "nat option"
  ls_left_context :: "ustring option"

record clause_rebaseline =
  rb_original :: issued_candidates
  rb_boundary :: bool
  rb_identity :: snapshot_identity
  rb_snapshot_request_id :: nat
  rb_convert_request_id :: nat

definition rebaseline_original_key :: "clause_rebaseline \<Rightarrow> clause_request_key" where
  "rebaseline_original_key a = cq_key (ic_request (rb_original a))"

definition rebaseline_snapshot :: "clause_rebaseline \<Rightarrow> ustring option \<Rightarrow> live_snapshot" where
  "rebaseline_snapshot a left_context =
     \<lparr>ls_composition = si_composition (rb_identity a), ls_revision = si_revision (rb_identity a),
      ls_configuration_generation = si_configuration_generation (rb_identity a),
      ls_connection_generation = si_connection_generation (rb_identity a),
      ls_conversion_revision = rk_conversion_revision (cq_key (ic_request (rb_original a))),
      ls_request_id = rb_snapshot_request_id a,
      ls_segments = [(cq_reading (ic_request (rb_original a)), Some (ascii ''direct''))],
      ls_explicit = True, ls_live_search_width = None, ls_left_context = left_context\<rparr>"

definition rebaseline_deadline :: "clause_rebaseline \<Rightarrow> instant" where
  "rebaseline_deadline a = ic_deadline (rb_original a)"

section \<open>Boundary conversion\<close>

definition boundary_loading :: "clause_conversion \<Rightarrow> bool" where
  "boundary_loading m \<longleftrightarrow> cv_boundary_request m \<noteq> None"

definition range_of :: "local_clause \<Rightarrow> clause_range" where
  "range_of c = \<lparr>cr_id = cl_id c, cr_reading_start = cl_start c, cr_reading_end = cl_end c\<rparr>"

definition open_boundary_conversion ::
  "clause_conversion \<Rightarrow> nat \<Rightarrow> instant \<Rightarrow> clause_conversion \<times> convert_clauses_request option"
where
  "open_boundary_conversion m request_id now =
     (if cv_mode m \<noteq> ModeConverting \<or> cv_window m \<noteq> WinClosed \<or> request_id \<le> cv_last_request_id m
      then (m, None)
      else case get (cv_clauses m) (cv_selected m) of
        None \<Rightarrow> (m, None)
      | Some selected \<Rightarrow>
     (if cl_source selected \<noteq> SurfReading then (m, None)
      else
     (let readings = takeWhile (\<lambda>c. cl_source c = SurfReading) (drop (cv_selected m) (cv_clauses m));
          ranges = map range_of
            (if cv_editing_clause m = Some (cl_id selected) then take 1 readings else readings);
          request = \<lparr>vq_key = \<lparr>rk_identity = cv_identity m, rk_baseline = cv_baseline m,
                       rk_conversion_revision = cv_revision m, rk_clause_id = cl_id selected,
                       rk_request_id = request_id\<rparr>,
                     vq_reading = cv_reading m, vq_clauses = ranges,
                     vq_preceding_surfaces = preceding_of m (cv_selected m)\<rparr>
      in case convert_request_validate request of
        Inl _ \<Rightarrow> (m, None)
      | Inr _ \<Rightarrow>
         (m\<lparr>cv_last_request_id := request_id, cv_window := WinLoading (vq_key request),
            cv_cancel_stage := CancelNone,
            cv_boundary_request := Some
              \<lparr>ic_request = \<lparr>cq_key = vq_key request, cq_reading = vq_reading request,
                 cq_reading_start = cl_start selected, cq_reading_end = cl_end selected,
                 cq_preceding_surfaces = vq_preceding_surfaces request,
                 cq_include_prefix_candidates = True\<rparr>,
               ic_deadline = now + request_timeout_ms, ic_conversion = Some request,
               ic_rebaseline_used = False, ic_advance = 0\<rparr>,
            cv_user_driven := True\<rparr>, Some request))))"

text \<open>The clauses of an accepted result replace the requested ones in place.\<close>

definition learning_compatible ::
  "clause_conversion \<Rightarrow> learning_identity option \<Rightarrow> bool"
where
  "learning_compatible m learning \<longleftrightarrow>
     (case learning of
        None \<Rightarrow> False
      | Some i \<Rightarrow> li_engine_epoch i \<noteq> [] \<and>
          (case cv_learning_identity m of
             None \<Rightarrow> True
           | Some old \<Rightarrow> li_engine_epoch old = li_engine_epoch i
               \<and> li_learning_generation old \<le> li_learning_generation i))"

definition accept_boundary_conversion ::
  "clause_conversion \<Rightarrow> clause_request_key \<Rightarrow> convert_clauses_status \<Rightarrow> learning_identity option
   \<Rightarrow> instant \<Rightarrow> (clause_conversion \<times> bool) option"
where
  "accept_boundary_conversion m key status learning now =
     (case cv_boundary_request m of
        None \<Rightarrow> Some (m, False)
      | Some pending \<Rightarrow>
     (case ic_conversion pending of
        None \<Rightarrow> Some (m, False)
      | Some request \<Rightarrow>
     (if vq_key request \<noteq> key \<or> rk_identity key \<noteq> cv_identity m \<or> rk_baseline key \<noteq> cv_baseline m
        \<or> rk_conversion_revision key \<noteq> cv_revision m \<or> cv_window m \<noteq> WinLoading key
      then Some (m, False)
      else if ic_deadline pending \<le> now then Some (close_window m, False)
      else case status of
        ConvPending \<Rightarrow> Some (m, False)
      | ConvUnavailable _ \<Rightarrow> Some (close_window m, False)
      | ConvReady wires \<Rightarrow>
     (let valid = (convert_validate_result request wires = Inr ()) \<and> learning_compatible m learning
      in case position (\<lambda>c. cl_id c = rk_clause_id key) (cv_clauses m) of
        None \<Rightarrow> Some (close_window m, False)
      | Some start \<Rightarrow>
     (let current_ranges = map range_of (take (length (vq_clauses request)) (drop start (cv_clauses m)))
      in case checked_add_u64 (cv_revision m) 1 of
        None \<Rightarrow> Some (close_window m, False)
      | Some revision \<Rightarrow>
     (if \<not> (valid \<and> current_ranges = vq_clauses request) then Some (close_window m, False)
      else
     (let m1 = (if cv_learning_identity m \<noteq> learning
                then (invalidate_learning m)\<lparr>cv_learning_identity := learning\<rparr> else m);
          n = min (length (cv_clauses m1) - start) (length wires)
      in case locals_of_wire (take n wires) of
        None \<Rightarrow> None
      | Some locals \<Rightarrow>
          Some (close_window
            (m1\<lparr>cv_clauses := take start (cv_clauses m1) @ locals @ drop (start + n) (cv_clauses m1),
                cv_revision := revision, cv_issued := [], cv_cache := []\<rparr>), True))))))))"

section \<open>Rebaseline after a lost connection\<close>

definition prepare_rebaseline ::
  "clause_conversion \<Rightarrow> clause_request_key \<Rightarrow> nat \<Rightarrow> nat \<Rightarrow> instant
   \<Rightarrow> clause_conversion \<times> clause_rebaseline option"
where
  "prepare_rebaseline m key snapshot_request_id convert_request_id now =
     (let boundary = (case cv_boundary_request m of
            None \<Rightarrow> False | Some p \<Rightarrow> cq_key (ic_request p) = key)
      in case (if boundary then cv_boundary_request m
               else map_of (cv_issued m) (rk_request_id key)) of
        None \<Rightarrow> (m, None)
      | Some original \<Rightarrow>
     (if cq_key (ic_request original) \<noteq> key \<or> cv_identity m \<noteq> rk_identity key
        \<or> cv_baseline m \<noteq> rk_baseline key \<or> cv_revision m \<noteq> rk_conversion_revision key
        \<or> cv_window m \<noteq> WinLoading key \<or> ic_rebaseline_used original
        \<or> ic_deadline original \<le> now \<or> snapshot_request_id \<le> cv_last_request_id m
        \<or> convert_request_id \<le> snapshot_request_id
      then (m, None)
      else case checked_add_u64 (si_connection_generation (cv_identity m)) 1 of
        None \<Rightarrow> (m, None)
      | Some generation \<Rightarrow>
         (m\<lparr>cv_last_request_id := convert_request_id\<rparr>,
          Some \<lparr>rb_original = original, rb_boundary = boundary,
                rb_identity = (cv_identity m)\<lparr>si_connection_generation := generation\<rparr>,
                rb_snapshot_request_id = snapshot_request_id,
                rb_convert_request_id = convert_request_id\<rparr>)))"

definition selected_is :: "clause_conversion \<Rightarrow> clause_id \<Rightarrow> bool" where
  "selected_is m ident \<longleftrightarrow>
     (case get (cv_clauses m) (cv_selected m) of None \<Rightarrow> False | Some c \<Rightarrow> cl_id c = ident)"

definition rebaseline_request ::
  "clause_conversion \<Rightarrow> clause_rebaseline \<Rightarrow> snapshot_result \<Rightarrow> convert_clauses_request option"
where
  "rebaseline_request m attempt r =
     (let original = ic_request (rb_original attempt); key = cq_key original
      in if \<lparr>si_composition = sr_composition r, si_revision = sr_revision r,
             si_configuration_generation = sr_configuration_generation r,
             si_connection_generation = sr_connection_generation r\<rparr> \<noteq> rb_identity attempt
        \<or> sr_baseline r = 0
        \<or> scd_request_id (sr_clause_data r) \<noteq> rb_snapshot_request_id attempt
        \<or> scd_conversion_revision (sr_clause_data r) \<noteq> cv_revision m
        \<or> scd_reading (sr_clause_data r) \<noteq> cv_reading m
        \<or> sr_auto_commit r \<noteq> None
        \<or> snapshot_validate (sr_clause_data r) (sr_text r) \<noteq> Inr ()
      then None
      else case (if rb_boundary attempt
            then map_option vq_clauses (ic_conversion (rb_original attempt))
            else Some [\<lparr>cr_id = rk_clause_id key, cr_reading_start = cq_reading_start original,
                        cr_reading_end = cq_reading_end original\<rparr>]) of
        None \<Rightarrow> None
      | Some ranges \<Rightarrow>
     (let request = \<lparr>vq_key = key\<lparr>rk_identity := rb_identity attempt, rk_baseline := sr_baseline r,
                              rk_request_id := rb_convert_request_id attempt\<rparr>,
                     vq_reading = cv_reading m, vq_clauses = ranges,
                     vq_preceding_surfaces = cq_preceding_surfaces original\<rparr>
      in if convert_request_validate request = Inr () then Some request else None))"

definition accept_rebaseline ::
  "clause_conversion \<Rightarrow> clause_rebaseline \<Rightarrow> response \<Rightarrow> learning_identity \<Rightarrow> instant
   \<Rightarrow> clause_conversion \<times> convert_clauses_request option"
where
  "accept_rebaseline m attempt resp learning now =
     (let original = ic_request (rb_original attempt); key = cq_key original
      in case (if rb_boundary attempt then cv_boundary_request m
               else map_of (cv_issued m) (rk_request_id key)) of
        None \<Rightarrow> (m, None)
      | Some issued \<Rightarrow>
     (if ic_request issued \<noteq> original \<or> ic_deadline issued \<noteq> ic_deadline (rb_original attempt)
        \<or> ic_conversion issued \<noteq> ic_conversion (rb_original attempt) \<or> ic_deadline issued \<le> now
        \<or> cv_identity m \<noteq> rk_identity key \<or> cv_baseline m \<noteq> rk_baseline key
        \<or> cv_revision m \<noteq> rk_conversion_revision key \<or> cv_reading m \<noteq> cq_reading original
        \<or> cv_window m \<noteq> WinLoading key \<or> cv_last_request_id m \<noteq> rb_convert_request_id attempt
        \<or> \<not> selected_is m (rk_clause_id key) \<or> li_engine_epoch learning = []
        \<or> (case cv_learning_identity m of None \<Rightarrow> False
           | Some old \<Rightarrow> li_engine_epoch old = li_engine_epoch learning
               \<and> li_learning_generation learning < li_learning_generation old)
      then (m, None)
      else case resp of
        OtherResponse \<Rightarrow> (m, None)
      | SnapshotResult r \<Rightarrow>
     (case rebaseline_request m attempt r of
        None \<Rightarrow> (m, None)
      | Some request \<Rightarrow>
     (let m1 = (invalidate_learning m)\<lparr>cv_identity := rb_identity attempt,
                 cv_baseline := sr_baseline r, cv_learning_identity := Some learning\<rparr>;
          pending = (rb_original attempt)
                \<lparr>ic_request := original\<lparr>cq_key := vq_key request\<rparr>,
                 ic_conversion := Some request, ic_rebaseline_used := True\<rparr>;
          m2 = (if rb_boundary attempt then m1\<lparr>cv_boundary_request := Some pending\<rparr>
                else m1\<lparr>cv_issued := AList.update (rk_request_id (vq_key request)) pending (cv_issued m1)\<rparr>)
      in (m2\<lparr>cv_window := WinLoading (vq_key request)\<rparr>, Some request)))))"

definition request_deadline :: "clause_conversion \<Rightarrow> clause_request_key \<Rightarrow> instant option" where
  "request_deadline m key =
     (case cv_boundary_request m of
        Some p \<Rightarrow> (if cq_key (ic_request p) = key then Some (ic_deadline p) else
          (case map_of (cv_issued m) (rk_request_id key) of
             Some i \<Rightarrow> (if cq_key (ic_request i) = key then Some (ic_deadline i) else None)
           | None \<Rightarrow> None))
      | None \<Rightarrow>
          (case map_of (cv_issued m) (rk_request_id key) of
             Some i \<Rightarrow> (if cq_key (ic_request i) = key then Some (ic_deadline i) else None)
           | None \<Rightarrow> None))"

definition accept_rebased_conversion ::
  "clause_conversion \<Rightarrow> clause_request_key \<Rightarrow> convert_clauses_status \<Rightarrow> learning_identity option
   \<Rightarrow> nat \<Rightarrow> instant \<Rightarrow> clause_conversion \<times> clause_candidates_request option"
where
  "accept_rebased_conversion m key status learning candidate_request_id now =
     (case map_of (cv_issued m) (rk_request_id key) of
        None \<Rightarrow> (m, None)
      | Some pending \<Rightarrow>
     (case ic_conversion pending of
        None \<Rightarrow> (m, None)
      | Some conversion \<Rightarrow>
     (if vq_key conversion \<noteq> key \<or> cv_identity m \<noteq> rk_identity key \<or> cv_baseline m \<noteq> rk_baseline key
        \<or> cv_revision m \<noteq> rk_conversion_revision key \<or> cv_window m \<noteq> WinLoading key
        \<or> \<not> selected_is m (rk_clause_id key)
      then (m, None)
      else case status of
        ConvPending \<Rightarrow> (m, None)
      | ConvUnavailable _ \<Rightarrow> (end_request m key, None)
      | ConvReady wires \<Rightarrow>
     (let valid = now < ic_deadline pending \<and> cv_last_request_id m < candidate_request_id
                \<and> learning \<noteq> None \<and> cv_learning_identity m = learning
      in case checked_add_u64 (cv_revision m) 1 of
        None \<Rightarrow> (end_request m key, None)
      | Some revision \<Rightarrow>
     (if \<not> (valid \<and> convert_validate_result conversion wires = Inr ()) then (end_request m key, None)
      else
     (let nxt = pending\<lparr>ic_conversion := None,
            ic_request := (ic_request pending)\<lparr>cq_key := key\<lparr>rk_conversion_revision := revision,
              rk_request_id := candidate_request_id\<rparr>\<rparr>\<rparr>;
          request = ic_request nxt
      in (m\<lparr>cv_revision := revision, cv_last_request_id := candidate_request_id,
            cv_issued := AList.update candidate_request_id nxt
              (AList.delete (rk_request_id key) (cv_issued m)),
            cv_window := WinLoading (cq_key request)\<rparr>, Some request)))))))"

section \<open>Candidate lists\<close>

text \<open>Indexing with the selected clause panics when it is out of range.\<close>

definition open_ready :: "clause_conversion \<Rightarrow> clause_candidate list \<Rightarrow> clause_conversion option" where
  "open_ready m candidates =
     map_option (\<lambda>c. m\<lparr>cv_window := WinReady (cl_id c) candidates
         (case position (\<lambda>x. ca_surface x = cl_surface c \<and> ca_reading_end x = cl_end c) candidates of
            Some i \<Rightarrow> i | None \<Rightarrow> 0)\<rparr>)
       (get (cv_clauses m) (cv_selected m))"

definition anchor_of :: "local_clause \<Rightarrow> clause_candidate" where
  "anchor_of c =
     \<lparr>ca_surface = cl_surface c,
      ca_token = (case cl_source c of SurfCandidate token _ \<Rightarrow> token | _ \<Rightarrow> []),
      ca_reading_start = cl_start c, ca_reading_end = cl_end c\<rparr>"

definition anchor_candidates ::
  "clause_conversion \<Rightarrow> clause_id \<Rightarrow> clause_candidate list \<Rightarrow> clause_candidate list"
where
  "anchor_candidates m ident candidates =
     (case find (\<lambda>c. cl_id c = ident) (cv_clauses m) of
        None \<Rightarrow> candidates
      | Some clause \<Rightarrow>
          (if cl_source clause = SurfReading then candidates
           else
            (let (anchor, rest) =
               (case position (\<lambda>x. ca_surface x = cl_surface clause \<and> ca_reading_end x = cl_end clause)
                    candidates of
                  Some i \<Rightarrow> (candidates ! i, take i candidates @ drop (Suc i) candidates)
                | None \<Rightarrow> (anchor_of clause, candidates))
             in anchor # filter (\<lambda>x. ca_surface x \<noteq> ca_surface anchor
                                  \<or> ca_reading_end x \<noteq> ca_reading_end anchor) rest)))"

definition candidates_request_for ::
  "clause_conversion \<Rightarrow> local_clause \<Rightarrow> nat \<Rightarrow> clause_candidates_request"
where
  "candidates_request_for m c request_id =
     \<lparr>cq_key = \<lparr>rk_identity = cv_identity m, rk_baseline = cv_baseline m,
        rk_conversion_revision = cv_revision m, rk_clause_id = cl_id c, rk_request_id = request_id\<rparr>,
      cq_reading = cv_reading m, cq_reading_start = cl_start c, cq_reading_end = cl_end c,
      cq_preceding_surfaces = preceding_of m (cv_selected m), cq_include_prefix_candidates = True\<rparr>"

definition open_candidates ::
  "clause_conversion \<Rightarrow> nat \<Rightarrow> instant
   \<Rightarrow> (clause_conversion \<times> clause_candidates_request option) option"
where
  "open_candidates m request_id now =
     (if cv_mode m \<noteq> ModeConverting \<or> cv_clauses m = [] \<or> cv_window m \<noteq> WinClosed
      then Some (m, None)
      else case get (cv_clauses m) (cv_selected m) of
        None \<Rightarrow> None
      | Some c \<Rightarrow>
     (let m1 = m\<lparr>cv_user_driven := True, cv_cancel_stage := CancelNone\<rparr>;
          preceding = preceding_of m1 (cv_selected m1);
          fresh = (if request_id \<le> cv_last_request_id m1 then (m1, None)
            else (let request = candidates_request_for m1 c request_id
                  in (m1\<lparr>cv_last_request_id := request_id,
                         cv_issued := AList.update request_id
                           \<lparr>ic_request = request, ic_deadline = now + request_timeout_ms,
                            ic_conversion = None, ic_rebaseline_used = False, ic_advance = 0\<rparr>
                           (cv_issued m1),
                         cv_window := WinLoading (cq_key request)\<rparr>, Some request)))
      in case map_of (cv_cache m1) (cl_id c) of
        None \<Rightarrow> Some fresh
      | Some cached \<Rightarrow>
          (if cc_start cached = cl_start c \<and> cc_end cached = cl_end c \<and> cc_preceding cached = preceding
           then map_option (\<lambda>m2. (m2, None)) (open_ready m1 (cc_candidates cached))
           else Some fresh)))"

section \<open>Selection of a candidate\<close>

definition chosen_source :: "clause_candidate \<Rightarrow> surface_source" where
  "chosen_source x = (if ca_token x = [] then SurfLocal else SurfCandidate (ca_token x) True)"

definition candidate_replacements ::
  "clause_conversion \<Rightarrow> local_clause \<Rightarrow> clause_candidate \<Rightarrow> nat \<Rightarrow> (local_clause list \<times> nat option) option"
where
  "candidate_replacements m c x end_pos =
     (let replacement = c\<lparr>cl_end := ca_reading_end x, cl_surface := ca_surface x,
                           cl_source := chosen_source x\<rparr>
      in if cl_end c \<noteq> ca_reading_end x \<and> ca_reading_end x < end_pos
         then (case cv_next_clause_id m of
             None \<Rightarrow> None
           | Some fresh \<Rightarrow>
               (case checked_add_u64 fresh 1 of
                  None \<Rightarrow> None
                | Some after \<Rightarrow>
                    map_option (\<lambda>surface.
                        ([replacement, \<lparr>cl_id = fresh, cl_start = ca_reading_end x, cl_end = end_pos,
                            cl_surface = surface, cl_source = SurfReading\<rparr>], Some after))
                      (reading_slice (cv_reading m) (ca_reading_end x) end_pos)))
         else Some ([replacement], cv_next_clause_id m))"

definition select_candidate :: "clause_conversion \<Rightarrow> nat \<Rightarrow> clause_conversion \<times> bool" where
  "select_candidate m0 index =
     (let m = m0\<lparr>cv_cancel_stage := CancelNone\<rparr>
      in case cv_window m of
        WinReady ident candidates cur \<Rightarrow>
     (case (get candidates index, get (cv_clauses m) (cv_selected m)) of
        (Some x, Some c) \<Rightarrow>
     (if cl_id c \<noteq> ident then (m, False)
      else case checked_add_u64 (cv_revision m) 1 of
        None \<Rightarrow> (m, False)
      | Some revision \<Rightarrow>
     (case map_of (cv_cache m) ident of
        None \<Rightarrow> (m, False)
      | Some cached \<Rightarrow>
     (case position (\<lambda>d. cl_end d = cc_end cached) (drop (cv_selected m) (cv_clauses m)) of
        None \<Rightarrow> (m, False)
      | Some offset \<Rightarrow>
     (case candidate_replacements m c x (cc_end cached) of
        None \<Rightarrow> (m, False)
      | Some (replacements, next_id) \<Rightarrow>
     (let changed_boundary = (cl_end c \<noteq> ca_reading_end x);
          replace_end = (if changed_boundary then cv_selected m + offset + 1 else cv_selected m + 1);
          token = (if cl_start c = 0 \<and> ca_reading_end x = length (cv_reading m)
                   then (if ca_token x \<noteq> [] then Some (ca_token x) else None)
                   else if changed_boundary then None else cv_sentence_token m);
          clauses = splice (cv_selected m) replace_end replacements (cv_clauses m);
          retained = map cl_id (take (Suc (cv_selected m)) clauses)
      in (m\<lparr>cv_sentence_token := token, cv_clauses := clauses, cv_next_clause_id := next_id,
            cv_window := WinReady ident candidates index, cv_revision := revision,
            cv_user_driven := True, cv_issued := [],
            cv_cache := filter (\<lambda>(k, _). k \<in> set retained) (cv_cache m)\<rparr>, True))))))
      | _ \<Rightarrow> (m, False))
      | _ \<Rightarrow> (m, False))"

text \<open>The remainder by the number of candidates panics on an empty list.\<close>

definition advance_candidate ::
  "clause_conversion \<Rightarrow> int \<Rightarrow> (clause_conversion \<times> bool) option"
where
  "advance_candidate m direction =
     (case cv_window m of
        WinReady ident candidates selected \<Rightarrow>
          (if candidates = [] then None
           else Some (select_candidate m
             (nat (rem_euclid (int selected + direction) (int (length candidates))))))
      | _ \<Rightarrow> Some (m, False))"

definition cycle_candidate ::
  "clause_conversion \<Rightarrow> nat \<Rightarrow> int \<Rightarrow> instant
   \<Rightarrow> (clause_conversion \<times> clause_candidates_request option) option"
where
  "cycle_candidate m request_id direction now =
     (case cv_window m of
        WinReady _ _ _ \<Rightarrow> map_option (\<lambda>(m1, _). (m1, None)) (advance_candidate m direction)
      | _ \<Rightarrow>
     (case open_candidates m request_id now of
        None \<Rightarrow> None
      | Some (m1, Some request) \<Rightarrow>
          (case map_of (cv_issued m1) (rk_request_id (cq_key request)) of
             None \<Rightarrow> None
           | Some issued \<Rightarrow> Some
              (m1\<lparr>cv_issued := AList.update (rk_request_id (cq_key request))
                   (issued\<lparr>ic_advance := direction\<rparr>) (cv_issued m1)\<rparr>, Some request))
      | Some (m1, None) \<Rightarrow>
          (case cv_window m1 of
             WinReady _ _ _ \<Rightarrow> map_option (\<lambda>(m2, _). (m2, None)) (advance_candidate m1 direction)
           | _ \<Rightarrow> Some (m1, None))))"

section \<open>Replies with candidates\<close>

definition store_candidates ::
  "clause_conversion \<Rightarrow> clause_request_key \<Rightarrow> issued_candidates \<Rightarrow> clause_candidate list
   \<Rightarrow> (clause_conversion \<times> bool) option"
where
  "store_candidates m key issued candidates0 =
     (let candidates = anchor_candidates m (rk_clause_id key) candidates0;
          request = ic_request issued;
          m1 = m\<lparr>cv_cache := AList.update (rk_clause_id key)
                  \<lparr>cc_start = cq_reading_start request, cc_end = cq_reading_end request,
                   cc_preceding = cq_preceding_surfaces request, cc_candidates = candidates\<rparr>
                  (cv_cache m),
                cv_issued := AList.delete (rk_request_id key) (cv_issued m)\<rparr>
      in if selected_is m1 (rk_clause_id key) \<and> cv_window m1 = WinLoading key
         then (case open_ready m1 candidates of
             None \<Rightarrow> None
           | Some m2 \<Rightarrow>
               (if ic_advance issued \<noteq> 0
                then map_option (\<lambda>(m3, _). (m3, True)) (advance_candidate m2 (ic_advance issued))
                else Some (m2, True)))
         else Some (m1, False))"

definition accept_candidates ::
  "clause_conversion \<Rightarrow> clause_request_key \<Rightarrow> clause_candidates_status \<Rightarrow> instant
   \<Rightarrow> (clause_conversion \<times> bool) option"
where
  "accept_candidates m key status now =
     (case map_of (cv_issued m) (rk_request_id key) of
        None \<Rightarrow> Some (m, False)
      | Some issued \<Rightarrow>
     (if cq_key (ic_request issued) \<noteq> key \<or> cv_identity m \<noteq> rk_identity key
        \<or> cv_baseline m \<noteq> rk_baseline key \<or> cv_revision m \<noteq> rk_conversion_revision key
      then Some (m, False)
      else if ic_deadline issued \<le> now then Some (end_request m key, False)
      else case status of
        CandPending \<Rightarrow>
          (if ic_conversion issued \<noteq> None then Some (end_request m key, False) else Some (m, False))
      | CandUnavailable _ \<Rightarrow> Some (end_request m key, False)
      | CandReady candidates \<Rightarrow>
          (if ic_conversion issued \<noteq> None then Some (end_request m key, False)
           else if validate_candidates (ic_request issued) candidates \<noteq> Inr ()
           then Some (end_request m key, False)
           else store_candidates m key issued candidates)))"

definition accept_candidates_with_identity ::
  "clause_conversion \<Rightarrow> clause_request_key \<Rightarrow> clause_candidates_status \<Rightarrow> learning_identity option
   \<Rightarrow> instant \<Rightarrow> (clause_conversion \<times> bool) option"
where
  "accept_candidates_with_identity m key status identity now =
     (case status of
        CandReady candidates \<Rightarrow>
     (case map_of (cv_issued m) (rk_request_id key) of
        None \<Rightarrow> Some (m, False)
      | Some issued \<Rightarrow>
     (if ic_conversion issued \<noteq> None then Some (end_request m key, False)
      else if cq_key (ic_request issued) \<noteq> key \<or> cv_identity m \<noteq> rk_identity key
        \<or> cv_baseline m \<noteq> rk_baseline key \<or> cv_revision m \<noteq> rk_conversion_revision key
      then Some (m, False)
      else if ic_deadline issued \<le> now
        \<or> validate_candidates (ic_request issued) candidates \<noteq> Inr ()
      then Some (end_request m key, False)
      else case identity of
        None \<Rightarrow> Some (end_request m key, False)
      | Some i \<Rightarrow>
     (if (case cv_learning_identity m of None \<Rightarrow> False
          | Some old \<Rightarrow> li_engine_epoch old \<noteq> li_engine_epoch i
              \<or> li_learning_generation i < li_learning_generation old)
      then Some (end_request m key, False)
      else
     (let m1 = (if cv_learning_identity m \<noteq> Some i
           then (let loading = (cv_window m = WinLoading key);
                     n1 = (invalidate_learning m)\<lparr>cv_learning_identity := Some i\<rparr>;
                     n2 = n1\<lparr>cv_issued := AList.update (rk_request_id key) issued (cv_issued n1)\<rparr>
                 in if loading then n2\<lparr>cv_window := WinLoading key\<rparr> else n2)
           else m)
      in accept_candidates m1 key status now))))
      | _ \<Rightarrow> accept_candidates m key status now)"

text \<open>The issued requests of the hash map expire in some order; ending one does not affect another.\<close>

definition expire_requests :: "clause_conversion \<Rightarrow> instant \<Rightarrow> clause_conversion" where
  "expire_requests m now =
     (let m1 = (case cv_boundary_request m of
                  Some p \<Rightarrow> (if ic_deadline p \<le> now then close_window m else m)
                | None \<Rightarrow> m);
          expired = map (\<lambda>r. cq_key (ic_request r)) (filter (\<lambda>r. ic_deadline r \<le> now) (map snd (cv_issued m1)))
      in fold (\<lambda>key n. end_request n key) expired m1)"

definition candidate_page ::
  "clause_conversion \<Rightarrow> (clause_candidate list \<times> nat) option option"
where
  "candidate_page m =
     (case cv_window m of
        WinReady _ candidates selected \<Rightarrow>
          (let start = selected div 9 * 9; stop = min (start + 9) (length candidates)
           in if start \<le> stop then Some (Some (slice_of start stop candidates, selected - start)) else None)
      | _ \<Rightarrow> Some None)"

end
