(* ===== verification/Clause_Spec.thy ===== *)
theory Clause_Spec
  imports Clause_Requests
begin

text \<open>
  What every operation of the clause model keeps: the clauses tile the reading at legal
  boundaries and have distinct identifiers, a clause marked as reading shows its part of the
  reading, and the tables of issued requests and cached lists agree with the clauses they are
  about. The step relation at the end runs the operations in any order.
\<close>

section \<open>The invariant of the clauses\<close>

abbreviation span :: "local_clause \<Rightarrow> nat \<times> nat" where
  "span c \<equiv> (cl_start c, cl_end c)"

definition layout_ok :: "ustring \<Rightarrow> local_clause list \<Rightarrow> bool" where
  "layout_ok reading cs \<longleftrightarrow>
     tiles 0 (map span cs) (length reading) \<and> (\<forall>c\<in>set cs. legal reading (cl_end c))"

definition surface_ok :: "ustring \<Rightarrow> local_clause \<Rightarrow> bool" where
  "surface_ok reading c \<longleftrightarrow>
     (case cl_source c of
        SurfReading \<Rightarrow> cl_surface c = slice_of (cl_start c) (cl_end c) reading
      | SurfCandidate token _ \<Rightarrow> token \<noteq> []
      | SurfLocal \<Rightarrow> True)"

definition ids_ok :: "local_clause list \<Rightarrow> nat option \<Rightarrow> bool" where
  "ids_ok cs next_id \<longleftrightarrow>
     distinct (map cl_id cs) \<and> (\<forall>n c. next_id = Some n \<longrightarrow> c \<in> set cs \<longrightarrow> cl_id c < n)"

definition clauses_ok :: "clause_conversion \<Rightarrow> bool" where
  "clauses_ok m \<longleftrightarrow>
     length (cv_reading m) \<le> u32_max \<and> layout_ok (cv_reading m) (cv_clauses m)
     \<and> (\<forall>c\<in>set (cv_clauses m). surface_ok (cv_reading m) c)
     \<and> ids_ok (cv_clauses m) (cv_next_clause_id m)
     \<and> (cv_clauses m = [] \<or> cv_selected m < length (cv_clauses m))"

section \<open>The invariant of the tables\<close>

definition list_ok :: "ustring \<Rightarrow> nat \<Rightarrow> nat \<Rightarrow> clause_candidate list \<Rightarrow> bool" where
  "list_ok reading s e xs \<longleftrightarrow>
     xs \<noteq> [] \<and> (\<forall>x\<in>set xs. s < ca_reading_end x \<and> ca_reading_end x \<le> e \<and> legal reading (ca_reading_end x))"

definition cache_ok :: "clause_conversion \<Rightarrow> bool" where
  "cache_ok m \<longleftrightarrow>
     (\<forall>i cc. map_of (cv_cache m) i = Some cc \<longrightarrow>
       list_ok (cv_reading m) (cc_start cc) (cc_end cc) (cc_candidates cc))"

text \<open>A window shows a list for the bounds in the cache. While a request of the current revision is
  out, its late reply may replace the cached list, so the bounds are still those of the clause.\<close>

definition current_request :: "clause_conversion \<Rightarrow> bool" where
  "current_request m \<longleftrightarrow>
     (\<exists>i ic. map_of (cv_issued m) i = Some ic
       \<and> rk_conversion_revision (cq_key (ic_request ic)) = cv_revision m)"

definition window_ok :: "clause_conversion \<Rightarrow> bool" where
  "window_ok m \<longleftrightarrow>
     (case cv_window m of
        WinReady ident xs k \<Rightarrow> k < length xs \<and>
          (\<exists>cc c. map_of (cv_cache m) ident = Some cc \<and> c \<in> set (cv_clauses m) \<and> cl_id c = ident
            \<and> cl_start c = cc_start cc \<and> list_ok (cv_reading m) (cc_start cc) (cc_end cc) xs
            \<and> (current_request m \<longrightarrow> cc_end cc = cl_end c))
      | _ \<Rightarrow> True)"

definition request_ok :: "clause_conversion \<Rightarrow> issued_candidates \<Rightarrow> bool" where
  "request_ok m ic \<longleftrightarrow>
     (let q = ic_request ic; key = cq_key q
      in rk_conversion_revision key \<le> cv_revision m
         \<and> (rk_conversion_revision key = cv_revision m \<longrightarrow>
             cq_reading q = cv_reading m \<and>
             (\<forall>c\<in>set (cv_clauses m). cl_id c = rk_clause_id key \<longrightarrow>
                cl_start c = cq_reading_start q \<and> cl_end c = cq_reading_end q))
         \<and> (\<forall>conv. ic_conversion ic = Some conv \<longrightarrow> vq_key conv = key))"

definition issued_ok :: "clause_conversion \<Rightarrow> bool" where
  "issued_ok m \<longleftrightarrow> (\<forall>i ic. map_of (cv_issued m) i = Some ic \<longrightarrow> request_ok m ic)"

definition boundary_ok :: "clause_conversion \<Rightarrow> bool" where
  "boundary_ok m \<longleftrightarrow>
     (\<forall>p q. cv_boundary_request m = Some p \<longrightarrow> ic_conversion p = Some q \<longrightarrow>
        rk_conversion_revision (vq_key q) \<le> cv_revision m
        \<and> (rk_conversion_revision (vq_key q) = cv_revision m \<longrightarrow> vq_reading q = cv_reading m))"

definition model_ok :: "clause_conversion \<Rightarrow> bool" where
  "model_ok m \<longleftrightarrow> clauses_ok m \<and> cache_ok m \<and> window_ok m \<and> issued_ok m \<and> boundary_ok m"

lemma no_boundary [simp]: "cv_boundary_request m = None \<Longrightarrow> boundary_ok m"
  by (simp add: boundary_ok_def)

section \<open>Rearranging clauses\<close>

definition bound_at :: "ustring \<Rightarrow> local_clause list \<Rightarrow> nat \<Rightarrow> nat" where
  "bound_at reading cs i = (if i < length cs then cl_start (cs ! i) else length reading)"

lemma layout_split:
  assumes "layout_ok reading cs" and "i \<le> length cs"
  shows "tiles 0 (map span (take i cs)) (bound_at reading cs i)
    \<and> tiles (bound_at reading cs i) (map span (drop i cs)) (length reading)"
proof (cases "i < length cs")
  case True
  have t: "tiles 0 (map span cs) (length reading)" using assms(1) by (simp add: layout_ok_def)
  have "drop i cs = cs ! i # drop (Suc i) cs" using True by (simp add: Cons_nth_drop_Suc)
  then show ?thesis
    using tiles_nth [OF t, of i] True by (simp add: take_map drop_map bound_at_def)
qed (use assms in \<open>auto simp: layout_ok_def bound_at_def\<close>)

lemma layout_middle:
  assumes "layout_ok reading cs" and "i \<le> j" and "j \<le> length cs"
  shows "tiles (bound_at reading cs i) (map span (take (j - i) (drop i cs))) (bound_at reading cs j)"
proof -
  have j: "tiles 0 (map span (take j cs)) (bound_at reading cs j)"
    using layout_split [OF assms(1,3)] by simp
  have "take j cs = take i cs @ take (j - i) (drop i cs)"
    using assms(2) by (metis le_add_diff_inverse take_add)
  with j layout_split [of reading cs i] assms show ?thesis
    by (auto simp: tiles_append dest: tiles_functional)
qed

lemma layout_end:
  assumes "layout_ok reading cs" and "i < length cs"
  shows "cl_end (cs ! i) = bound_at reading cs (Suc i)"
    and "cl_start (cs ! i) < cl_end (cs ! i)"
proof -
  have "tiles (bound_at reading cs i) (map span (take 1 (drop i cs))) (bound_at reading cs (Suc i))"
    using layout_middle [OF assms(1), of i "Suc i"] assms(2) by simp
  moreover have "take 1 (drop i cs) = [cs ! i]"
    unfolding Cons_nth_drop_Suc [OF assms(2), symmetric] by simp
  ultimately show "cl_end (cs ! i) = bound_at reading cs (Suc i)" "cl_start (cs ! i) < cl_end (cs ! i)"
    by simp_all
qed

lemma layout_legal_bound:
  assumes "layout_ok reading cs"
  shows "legal reading (bound_at reading cs i)"
proof (cases i)
  case 0
  then show ?thesis using layout_split [OF assms, of 0] by (auto simp: bound_at_def)
next
  case (Suc k)
  have "k < length cs \<Longrightarrow> legal reading (cl_end (cs ! k))" using assms by (simp add: layout_ok_def)
  then show ?thesis
    using Suc layout_end(1) [OF assms, of k] by (cases "k < length cs") (auto simp: bound_at_def)
qed

lemma set_splice: "set (splice i j new xs) = set (take i xs) \<union> set new \<union> set (drop j xs)"
  by (simp add: splice_def Un_assoc)

lemma layout_splice:
  assumes l: "layout_ok reading cs" and ij: "i \<le> j" "j \<le> length cs"
    and new: "tiles (bound_at reading cs i) (map span new) (bound_at reading cs j)"
      "\<forall>c\<in>set new. legal reading (cl_end c)"
  shows "layout_ok reading (splice i j new cs)"
  unfolding layout_ok_def
proof
  show "tiles 0 (map span (splice i j new cs)) (length reading)"
    using layout_split [OF l, of i] layout_split [OF l ij(2)] ij new(1)
    by (auto simp: splice_def tiles_append)
  show "\<forall>c\<in>set (splice i j new cs). legal reading (cl_end c)"
    using l new(2) unfolding set_splice layout_ok_def by (auto dest: in_set_takeD in_set_dropD)
qed

lemma ids_splice:
  assumes ids: "ids_ok cs nx" and ij: "i \<le> j"
    and d: "distinct (map cl_id new)"
    and new: "\<forall>c\<in>set new. cl_id c \<in> cl_id ` set (take (j - i) (drop i cs)) \<or> (\<exists>n. nx = Some n \<and> n \<le> cl_id c)"
    and nx': "\<forall>n'. nx' = Some n' \<longrightarrow> (\<exists>n. nx = Some n \<and> n \<le> n') \<and> (\<forall>c\<in>set new. cl_id c < n')"
  shows "ids_ok (splice i j new cs) nx'"
proof -
  let ?A = "take i cs" and ?M = "take (j - i) (drop i cs)" and ?B = "drop j cs"
  have cs: "cs = ?A @ ?M @ ?B"
    using ij by (metis append_take_drop_id drop_drop le_add_diff_inverse2)
  have dist: "distinct (map cl_id (?A @ ?M @ ?B))" using ids cs unfolding ids_ok_def by metis
  have old: "\<And>c n. c \<in> set ?A \<union> set ?B \<Longrightarrow> nx = Some n \<Longrightarrow> cl_id c < n"
    using ids unfolding ids_ok_def by (auto dest: in_set_takeD in_set_dropD)
  have apart: "cl_id ` set new \<inter> cl_id ` (set ?A \<union> set ?B) = {}"
  proof (rule ccontr)
    assume "\<not> ?thesis"
    then obtain c x where c: "c \<in> set new" "x \<in> set ?A \<union> set ?B" "cl_id c = cl_id x" by auto
    from new c(1) have "cl_id c \<in> cl_id ` set ?M \<or> (\<exists>n. nx = Some n \<and> n \<le> cl_id c)" by blast
    then show False
    proof
      assume "cl_id c \<in> cl_id ` set ?M"
      then show False using dist c(2,3) by (auto simp: image_iff)
    next
      assume "\<exists>n. nx = Some n \<and> n \<le> cl_id c"
      then show False using old [OF c(2)] c(3) by auto
    qed
  qed
  have "distinct (map cl_id (?A @ new @ ?B))" using dist d apart by auto
  moreover have "\<forall>n c. nx' = Some n \<longrightarrow> c \<in> set (?A @ new @ ?B) \<longrightarrow> cl_id c < n"
  proof (intro allI impI)
    fix n c assume n: "nx' = Some n" and c: "c \<in> set (?A @ new @ ?B)"
    from nx' n obtain k where k: "nx = Some k" "k \<le> n" "\<forall>c\<in>set new. cl_id c < n" by blast
    with c old [of c k] show "cl_id c < n" by auto
  qed
  ultimately show ?thesis unfolding ids_ok_def splice_def by blast
qed

lemma ids_mono: "ids_ok cs nx \<Longrightarrow> nx' = nx \<or> nx' = None \<or> (\<exists>n n'. nx = Some n \<and> nx' = Some n' \<and> n \<le> n')
  \<Longrightarrow> ids_ok cs nx'"
  by (fastforce simp: ids_ok_def)

lemma clauses_ok_selected:
  assumes "clauses_ok m" and "i < length (cv_clauses m)"
  shows "cl_start (cv_clauses m ! i) < cl_end (cv_clauses m ! i)"
    and "cl_end (cv_clauses m ! i) \<le> length (cv_reading m)"
    and "legal (cv_reading m) (cl_end (cv_clauses m ! i))"
    and "legal (cv_reading m) (cl_start (cv_clauses m ! i))"
    and "surface_ok (cv_reading m) (cv_clauses m ! i)"
proof -
  from assms(1) have l: "layout_ok (cv_reading m) (cv_clauses m)" by (simp add: clauses_ok_def)
  show "cl_start (cv_clauses m ! i) < cl_end (cv_clauses m ! i)" by (rule layout_end(2) [OF l assms(2)])
  show legal: "legal (cv_reading m) (cl_end (cv_clauses m ! i))"
    using l assms(2) by (simp add: layout_ok_def)
  then show "cl_end (cv_clauses m ! i) \<le> length (cv_reading m)" by (rule legal_le)
  show "legal (cv_reading m) (cl_start (cv_clauses m ! i))"
    using layout_legal_bound [OF l, of i] assms(2) by (simp add: bound_at_def)
  show "surface_ok (cv_reading m) (cv_clauses m ! i)" using assms by (simp add: clauses_ok_def)
qed

section \<open>Frames\<close>

lemma close_window_simps [simp]:
  "cv_learning_identity (close_window m) = cv_learning_identity m"
  "cv_mode (close_window m) = cv_mode m"
  "cv_reading (close_window m) = cv_reading m"
  "cv_identity (close_window m) = cv_identity m"
  "cv_baseline (close_window m) = cv_baseline m"
  "cv_revision (close_window m) = cv_revision m"
  "cv_clauses (close_window m) = cv_clauses m"
  "cv_selected (close_window m) = cv_selected m"
  "cv_window (close_window m) = WinClosed"
  "cv_cache (close_window m) = cv_cache m"
  "cv_next_clause_id (close_window m) = cv_next_clause_id m"
  "cv_boundary_request (close_window m) = None"
  by (auto simp: close_window_def Let_def split: candidate_window.split)

lemma close_window_issued:
  "map_of (cv_issued (close_window m)) i = Some ic \<Longrightarrow> map_of (cv_issued m) i = Some ic"
  by (auto simp: close_window_def Let_def delete_conv' split: candidate_window.splits if_splits)

lemma clauses_ok_frame:
  "clauses_ok m \<Longrightarrow> cv_reading m' = cv_reading m \<Longrightarrow> cv_clauses m' = cv_clauses m
   \<Longrightarrow> cv_next_clause_id m' = cv_next_clause_id m \<Longrightarrow> cv_selected m' = cv_selected m \<Longrightarrow> clauses_ok m'"
  by (simp add: clauses_ok_def)

lemma cleared_ok:
  "clauses_ok m \<Longrightarrow> cv_cache m = [] \<Longrightarrow> cv_issued m = []
   \<Longrightarrow> \<not> (\<exists>i xs k. cv_window m = WinReady i xs k) \<Longrightarrow> boundary_ok m \<Longrightarrow> model_ok m"
  by (cases "cv_window m") (auto simp: model_ok_def cache_ok_def window_ok_def issued_ok_def)

text \<open>A step that touches neither the reading, nor the clauses, nor the revision.\<close>

lemma tables_frame:
  assumes "model_ok m" and "clauses_ok m'"
    and "cv_reading m' = cv_reading m" "cv_clauses m' = cv_clauses m" "cv_revision m' = cv_revision m"
    and "\<And>i cc. map_of (cv_cache m') i = Some cc \<Longrightarrow> map_of (cv_cache m) i = Some cc"
    and "\<And>i ic. map_of (cv_issued m') i = Some ic \<Longrightarrow> map_of (cv_issued m) i = Some ic"
    and "(\<exists>i xs k. cv_window m' = WinReady i xs k) \<Longrightarrow> cv_window m' = cv_window m \<and> cv_cache m' = cv_cache m"
    and "cv_boundary_request m' = None \<or> cv_boundary_request m' = cv_boundary_request m"
  shows "model_ok m'"
proof -
  have "request_ok m' ic = request_ok m ic" for ic using assms(3-5) by (simp add: request_ok_def)
  then have "issued_ok m'" using assms(1,7) unfolding model_ok_def issued_ok_def by blast
  moreover have "cache_ok m'" using assms(1,3,6) unfolding model_ok_def cache_ok_def by metis
  moreover have "window_ok m'"
  proof (cases "cv_window m'")
    case (WinReady i xs k)
    then have w: "cv_window m = WinReady i xs k" "cv_cache m' = cv_cache m" using assms(8) by auto
    have "current_request m' \<Longrightarrow> current_request m"
      using assms(5,7) unfolding current_request_def by metis
    moreover have "window_ok m" using assms(1) by (simp add: model_ok_def)
    ultimately show ?thesis using w WinReady assms(3,4) unfolding window_ok_def by auto
  qed (simp_all add: window_ok_def)
  moreover have "boundary_ok m'"
    using assms(1,3,5,9) by (auto simp: boundary_ok_def model_ok_def)
  ultimately show ?thesis using assms(2) by (simp add: model_ok_def)
qed

lemma model_clauses [simp]: "model_ok m \<Longrightarrow> clauses_ok m"
  by (simp add: model_ok_def)

lemma close_window_clauses [simp]: "clauses_ok (close_window m) = clauses_ok m"
  by (simp add: clauses_ok_def)

lemma close_window_ok:
  assumes "model_ok m"
  shows "model_ok (close_window m)"
  by (rule tables_frame [OF assms]) (use assms in \<open>auto dest: close_window_issued\<close>)

lemma end_request_fields [simp]:
  "cv_reading (end_request m key) = cv_reading m"
  "cv_clauses (end_request m key) = cv_clauses m"
  "cv_revision (end_request m key) = cv_revision m"
  "cv_selected (end_request m key) = cv_selected m"
  "cv_next_clause_id (end_request m key) = cv_next_clause_id m"
  "cv_cache (end_request m key) = cv_cache m"
  by (simp_all add: end_request_def Let_def)

lemma end_request_ok:
  assumes "model_ok m"
  shows "model_ok (end_request m key)"
proof (rule tables_frame [OF assms])
  show "clauses_ok (end_request m key)"
    using assms by (auto simp: model_ok_def intro: clauses_ok_frame)
qed (auto simp: end_request_def Let_def delete_conv' split: if_splits)

lemma clamp_less: "0 < n \<Longrightarrow> nat (min (max x 0) (int n - 1)) < n"
  by (subst nat_less_iff) auto

lemma move_clause_ok:
  assumes "model_ok m"
  shows "model_ok (move_clause m d)"
proof (rule tables_frame [OF assms])
  have "clauses_ok m" using assms by simp
  then show "clauses_ok (move_clause m d)"
    using clamp_less [of "length (cv_clauses m)"] by (auto simp: move_clause_def Let_def clauses_ok_def)
qed (auto simp: move_clause_def Let_def split: if_splits)

lemma invalidated_clauses_ok: "clauses_ok m \<Longrightarrow> clauses_ok (invalidate_learning m)"
  unfolding clauses_ok_def invalidate_learning_def layout_ok_def ids_ok_def
  by (auto simp: o_def surface_ok_def if_distrib [of cl_id] if_distrib [of span] cong: if_cong
      split: surface_source.splits)

lemma invalidate_learning_ok: "model_ok m \<Longrightarrow> model_ok (invalidate_learning m)"
  by (rule cleared_ok) (auto simp: invalidated_clauses_ok model_ok_def, auto simp: invalidate_learning_def)

section \<open>Local edits keep the invariant\<close>

lemma make_reading_fields [simp]:
  "cl_id (make_reading_clause r i s e) = i" "cl_start (make_reading_clause r i s e) = s"
  "cl_end (make_reading_clause r i s e) = e" "surface_ok r (make_reading_clause r i s e)"
  by (simp_all add: make_reading_clause_def surface_ok_def)

text \<open>Changing only surfaces and sources, clause by clause.\<close>

lemma map_enumerate_snd: "map (\<lambda>p. f (snd p)) (enumerate k xs) = map f xs"
  by (induction xs arbitrary: k) auto

lemma get_nth [simp]: "i < length xs \<Longrightarrow> get xs i = Some (xs ! i)"
  by simp

lemma checked_add_fits [simp]: "a + b \<le> u64_max \<Longrightarrow> checked_add_u64 a b = Some (a + b)"
  by (simp del: u64_max_eq)

lemma layout_ok_spans:
  "layout_ok r cs \<longleftrightarrow> tiles 0 (map span cs) (length r) \<and> (\<forall>p\<in>set (map span cs). legal r (snd p))"
  by (auto simp: layout_ok_def)

lemma ids_ok_ids:
  "ids_ok cs nx \<longleftrightarrow> distinct (map cl_id cs) \<and> (\<forall>n i. nx = Some n \<longrightarrow> i \<in> set (map cl_id cs) \<longrightarrow> i < n)"
  by (auto simp: ids_ok_def)

lemma clauses_ok_relabel:
  assumes "clauses_ok m"
    and "map span (cv_clauses m') = map span (cv_clauses m)"
    and "map cl_id (cv_clauses m') = map cl_id (cv_clauses m)"
    and "\<And>c. c \<in> set (cv_clauses m') \<Longrightarrow> surface_ok (cv_reading m) c"
    and "cv_reading m' = cv_reading m" and "cv_next_clause_id m' = cv_next_clause_id m"
    and "cv_selected m' = cv_selected m \<or> cv_selected m' < length (cv_clauses m)"
  shows "clauses_ok m'"
proof -
  have l: "length (cv_clauses m') = length (cv_clauses m)"
    using assms(3) by (metis length_map)
  then have "cv_clauses m' = [] \<longleftrightarrow> cv_clauses m = []" by auto
  then show ?thesis
    using assms l unfolding clauses_ok_def layout_ok_spans ids_ok_ids by auto
qed

lemma begin_reading_edit_ok:
  assumes "model_ok m"
  shows "model_ok (fst (begin_reading_edit m k))"
proof (cases "k < length (cv_clauses m) \<and> cv_revision m + 1 \<le> u64_max")
  case True
  let ?c = "cv_clauses m ! k"
  let ?c' = "?c\<lparr>cl_surface := slice_of (cl_start ?c) (cl_end ?c) (cv_reading m), cl_source := SurfReading\<rparr>"
  let ?m = "fst (begin_reading_edit m k)"
  have cs: "cv_clauses ?m = (cv_clauses m)[k := ?c']"
    using True by (simp add: begin_reading_edit_def)
  have "clauses_ok ?m"
  proof (rule clauses_ok_relabel [of m])
    show "map span (cv_clauses ?m) = map span (cv_clauses m)" "map cl_id (cv_clauses ?m) = map cl_id (cv_clauses m)"
      unfolding cs using True by (simp_all add: map_update list_update_same_conv)
    have "surface_ok (cv_reading m) ?c'" by (simp add: surface_ok_def)
    moreover have "\<forall>c\<in>set (cv_clauses m). surface_ok (cv_reading m) c"
      using assms by (simp add: model_ok_def clauses_ok_def)
    ultimately show "surface_ok (cv_reading m) c" if "c \<in> set (cv_clauses ?m)" for c
      using set_update_subset_insert [of "cv_clauses m" k ?c'] that unfolding cs by blast
  qed (use assms True in \<open>simp_all add: begin_reading_edit_def\<close>)
  then show ?thesis using True by (intro cleared_ok) (auto simp: begin_reading_edit_def)
next
  case False
  then show ?thesis using assms by (auto simp: begin_reading_edit_def split: option.splits)
qed

lemma clause_escape_ok:
  assumes "model_ok m"
  shows "model_ok (fst (clause_escape m))"
proof (cases "cv_window m \<noteq> WinClosed \<or> cv_clauses m = [] \<or> u64_max < cv_revision m + 1")
  case True
  then show ?thesis using assms close_window_ok [OF assms]
    by (auto simp: clause_escape_def split: option.splits)
next
  case False
  let ?m = "fst (clause_escape m)"
  let ?f = "\<lambda>(i, c). if cv_cancel_stage m = CancelSelectedReading \<or> i = cv_selected m
    then restore_reading (cv_reading m) c else c"
  have cs: "cv_clauses ?m = map ?f (enumerate 0 (cv_clauses m))"
    using False by (auto simp: clause_escape_def Let_def)
  have keep: "span (?f p) = span (snd p)" "cl_id (?f p) = cl_id (snd p)" for p
    by (cases p; simp add: restore_reading_def)+
  have "clauses_ok ?m"
  proof (rule clauses_ok_relabel [of m])
    show "map span (cv_clauses ?m) = map span (cv_clauses m)"
      unfolding cs map_map o_def keep by (rule map_enumerate_snd)
    show "map cl_id (cv_clauses ?m) = map cl_id (cv_clauses m)"
      unfolding cs map_map o_def keep by (rule map_enumerate_snd)
    have "\<forall>c\<in>set (cv_clauses m). surface_ok (cv_reading m) c"
      using assms by (simp add: model_ok_def clauses_ok_def)
    then show "surface_ok (cv_reading m) c" if "c \<in> set (cv_clauses ?m)" for c
      using that unfolding cs
      by (auto simp: restore_reading_def surface_ok_def in_set_enumerate_eq split: if_splits)
  qed (use assms False in \<open>auto simp: clause_escape_def Let_def\<close>)
  moreover have "boundary_ok ?m"
    using assms False by (auto simp: clause_escape_def Let_def model_ok_def boundary_ok_def)
  ultimately show ?thesis using False by (intro cleared_ok) (auto simp: clause_escape_def Let_def)
qed

lemma find_mem: "find P xs = Some x \<Longrightarrow> x \<in> set xs \<and> P x"
  by (induction xs) (auto split: if_splits)

lemma find_least:
  "find P xs = Some (x :: nat) \<Longrightarrow> sorted_wrt (<) xs \<Longrightarrow> y \<in> set xs \<Longrightarrow> P y \<Longrightarrow> x \<le> y"
  by (induction xs) (auto split: if_splits)

lemma clauses_ok_splice:
  assumes ok: "clauses_ok m" and ij: "i \<le> j" "j \<le> length (cv_clauses m)"
    and spans: "tiles (bound_at (cv_reading m) (cv_clauses m) i) (map span new)
        (bound_at (cv_reading m) (cv_clauses m) j)"
    and each: "\<And>c. c \<in> set new \<Longrightarrow> legal (cv_reading m) (cl_end c) \<and> surface_ok (cv_reading m) c"
    and ids: "ids_ok (splice i j new (cv_clauses m)) (cv_next_clause_id m')"
    and m': "cv_clauses m' = splice i j new (cv_clauses m)" "cv_reading m' = cv_reading m"
    and sel: "cv_clauses m' = [] \<or> cv_selected m' < length (cv_clauses m')"
  shows "clauses_ok m'"
proof -
  have "layout_ok (cv_reading m) (splice i j new (cv_clauses m))"
    using ok spans each by (intro layout_splice [OF _ ij]) (auto simp: clauses_ok_def)
  moreover have "\<forall>c\<in>set (splice i j new (cv_clauses m)). surface_ok (cv_reading m) c"
    using ok each unfolding set_splice clauses_ok_def by (auto dest: in_set_takeD in_set_dropD)
  ultimately show ?thesis
    using ok ids sel unfolding clauses_ok_def m' by simp
qed

lemma splice_nth: "i < length xs \<Longrightarrow> splice i j (c # new) xs ! i = c"
  by (simp add: splice_def nth_append)

lemma selected_in_splice:
  "i \<le> j \<Longrightarrow> j \<le> length xs \<Longrightarrow> new \<noteq> [] \<Longrightarrow> i < length (splice i j new xs)"
  by (cases new) (simp_all add: length_splice)

lemma resize_selected_ok:
  assumes ok: "model_ok m"
  shows "model_ok (fst (resize_selected m d))"
proof (cases "fst (resize_selected m d) = m")
  case False
  let ?cs = "cv_clauses m" and ?i = "cv_selected m" and ?r = "cv_reading m"
  have cl: "clauses_ok m" and lay: "layout_ok ?r ?cs" using ok by (auto simp: model_ok_def clauses_ok_def)
  note defs = resize_selected_def
  have d: "\<not> (d = 0 \<or> cv_mode m \<noteq> ModeConverting)" using False by (intro notI) (simp add: defs)
  have i: "?i < length ?cs" using False d by (cases "?i < length ?cs") (auto simp: defs get_def)
  let ?c = "?cs ! ?i"
  obtain bs where bs: "legal_boundaries ?r = Inr bs"
    using False d i by (cases "legal_boundaries ?r") (auto simp: defs)
  let ?find = "if 0 < d then find (\<lambda>p. cl_end ?c < p) bs
     else find (\<lambda>p. p < cl_end ?c \<and> cl_start ?c < p) (rev bs)"
  obtain p where p: "?find = Some p"
    using False d i bs by (cases ?find) (auto simp: defs)
  let ?right = "get ?cs (?i + 1)"
  let ?j = "?i + 1 + (if ?right \<noteq> None then 1 else 0)"
  let ?tail = "case ?right of None \<Rightarrow> cl_end ?c | Some c \<Rightarrow> cl_end c"
  have j: "?i \<le> ?j" "?j \<le> length ?cs" using i by auto
  have tail: "?tail = bound_at ?r ?cs ?j"
    using i layout_end(1) [OF lay i] layout_end(1) [OF lay, of "Suc ?i"]
    by (auto split: option.split)
  have c: "cl_start ?c < cl_end ?c" "cl_end ?c \<le> ?tail"
    using clauses_ok_selected(1) [OF cl i] clauses_ok_selected(1) [OF cl, of "Suc ?i"]
      layout_end(1) [OF lay i]
    by (auto simp: bound_at_def split: option.split)
  have mem: "p \<in> set bs \<and> cl_start ?c < p"
    using p c(1) by (auto split: if_splits dest!: find_mem)
  then have legal_p: "legal ?r p" by (simp add: set_legal_boundaries [OF bs])
  have legal_t: "legal ?r ?tail" unfolding tail by (rule layout_legal_bound [OF lay])
  have pt: "p \<le> ?tail"
  proof (cases "0 < d")
    case True
    with p have p: "find (\<lambda>p. cl_end ?c < p) bs = Some p" by simp
    show ?thesis
    proof (cases "cl_end ?c < ?tail")
      case True
      have "?tail \<in> set bs" using legal_t by (simp add: set_legal_boundaries [OF bs])
      from find_least [OF p sorted_legal_boundaries [OF bs] this True] show ?thesis .
    next
      case False
      have "length ?cs \<le> Suc ?i"
        by (rule ccontr) (use False clauses_ok_selected(1) [OF cl, of "Suc ?i"] layout_end(1) [OF lay i]
          in \<open>simp add: bound_at_def\<close>)
      then have "cl_end ?c = length ?r" using layout_end(1) [OF lay i] by (auto simp: bound_at_def)
      then show ?thesis using find_mem [OF p] legal_le [OF legal_p] by simp
    qed
  next
    case False
    then show ?thesis using p c(2) by (auto dest!: find_mem)
  qed
  have rev: "cv_revision m + 1 \<le> u64_max"
    by (rule ccontr) (use False d i bs p in \<open>simp add: defs Let_def checked_add_u64_def\<close>)
  obtain first where first: "cv_next_clause_id m = Some first"
    using False d i bs p rev by (cases "cv_next_clause_id m") (simp_all add: defs Let_def)
  have room: "first + (1 + (if p < ?tail then 1 else 0)) \<le> u64_max"
    by (rule ccontr) (use False d i bs p rev first in \<open>simp add: defs Let_def checked_add_u64_def\<close>)
  let ?new = "make_reading_clause ?r first (cl_start ?c) p #
    (if p < ?tail then [make_reading_clause ?r (first + 1) p ?tail] else [])"
  have m': "cv_clauses (fst (resize_selected m d)) = splice ?i ?j ?new ?cs"
    "cv_next_clause_id (fst (resize_selected m d)) = Some (first + (1 + (if p < ?tail then 1 else 0)))"
    "cv_reading (fst (resize_selected m d)) = ?r" "cv_selected (fst (resize_selected m d)) = ?i"
    "cv_window (fst (resize_selected m d)) = WinClosed"
    "cv_boundary_request (fst (resize_selected m d)) = None" "cv_issued (fst (resize_selected m d)) = []"
    "cv_cache (fst (resize_selected m d)) = []"
    using d i bs p rev first room by (simp_all add: defs Let_def)
  have "clauses_ok (fst (resize_selected m d))"
  proof (rule clauses_ok_splice [OF cl j, of ?new])
    show "tiles (bound_at ?r ?cs ?i) (map span ?new) (bound_at ?r ?cs ?j)"
      using i mem pt unfolding tail [symmetric] by (auto simp: bound_at_def)
    show "ids_ok (splice ?i ?j ?new ?cs) (cv_next_clause_id (fst (resize_selected m d)))"
      unfolding m' by (rule ids_splice [OF _ j(1)]) (use cl first in \<open>auto simp: clauses_ok_def\<close>)
    show "cv_clauses (fst (resize_selected m d)) = []
        \<or> cv_selected (fst (resize_selected m d)) < length (cv_clauses (fst (resize_selected m d)))"
      unfolding m' by (rule disjI2, rule selected_in_splice [OF j]) simp
  qed (use legal_p legal_t m' in \<open>auto split: if_splits\<close>)
  then show ?thesis by (rule cleared_ok) (simp_all add: m')
qed (use ok in simp)

lemma nonempty_reading:
  assumes "clauses_ok m" and "cv_clauses m \<noteq> []"
  shows "0 < length (cv_reading m)"
  using assms tiles_less [of 0 "map span (cv_clauses m)" "length (cv_reading m)"]
  by (simp add: clauses_ok_def layout_ok_def)

lemma replace_whole_surface_ok:
  assumes ok: "model_ok m"
  shows "model_ok (fst (replace_whole_surface m s))"
proof (cases "cv_revision m + 1 \<le> u64_max \<and> cv_clauses m \<noteq> []")
  case True
  then obtain c cs where cs: "cv_clauses m = c # cs" by (cases "cv_clauses m") auto
  have cl: "clauses_ok m" using ok by simp
  have r: "0 < length (cv_reading m)" "length (cv_reading m) \<le> u32_max"
    using nonempty_reading [OF cl] True cl by (auto simp: clauses_ok_def)
  have "clauses_ok (fst (replace_whole_surface m s))"
    using cl r True unfolding replace_whole_surface_def
    by (auto simp: cs clauses_ok_def layout_ok_def ids_ok_def surface_ok_def as_u32_def)
  then show ?thesis
    by (rule cleared_ok) (use True cs in \<open>auto simp: replace_whole_surface_def\<close>)
next
  case False
  then show ?thesis
  proof (rule_tac tables_frame [OF ok])
    show "clauses_ok (fst (replace_whole_surface m s))"
      by (rule clauses_ok_frame [of m]) (use False ok in \<open>auto simp: replace_whole_surface_def Let_def split: option.split list.split\<close>)
  qed (auto simp: replace_whole_surface_def Let_def split: option.splits list.splits)
qed

text \<open>Dropping cached lists, all requests and the window.\<close>

lemma filtered_cache:
  "map_of (filter (\<lambda>(k, _). k \<in> S) xs) i = (if i \<in> S then map_of xs i else None)"
  by (induction xs) auto

lemma filtered_ok:
  assumes "model_ok m" and "clauses_ok m'" and "cv_reading m' = cv_reading m"
    and "cv_cache m' = filter (\<lambda>(k, _). k \<in> S) (cv_cache m)" and "cv_issued m' = []"
    and "cv_window m' = WinClosed" and "cv_boundary_request m' = None"
  shows "model_ok m'"
  using assms unfolding model_ok_def cache_ok_def window_ok_def issued_ok_def
  by (auto simp: filtered_cache split: if_splits)

lemma cancel_stage_ok:
  assumes "model_ok m"
  shows "model_ok (m\<lparr>cv_cancel_stage := s\<rparr>)"
  by (rule tables_frame [OF assms]) (use assms in \<open>auto simp: model_ok_def clauses_ok_def\<close>)

lemma transform_notation_ok:
  assumes ok: "model_ok m0"
  shows "model_ok (fst (transform_notation m0 s e k original))"
proof (cases "fst (transform_notation m0 s e k original) = m0\<lparr>cv_cancel_stage := CancelNone\<rparr>")
  case False
  define m where "m = m0\<lparr>cv_cancel_stage := CancelNone\<rparr>"
  have okm: "model_ok m" unfolding m_def by (rule cancel_stage_ok [OF ok])
  let ?cs = "cv_clauses m" and ?r = "cv_reading m" and ?m = "fst (transform_notation m0 s e k original)"
  have cl: "clauses_ok m" and lay: "layout_ok ?r ?cs" using okm by (auto simp: model_ok_def clauses_ok_def)
  note defs = transform_notation_def m_def [symmetric] Let_def
  have F: "?m \<noteq> m" using False m_def by simp
  obtain i where i: "position (\<lambda>c. cl_start c = s) ?cs = Some i"
    using F by (cases "position (\<lambda>c. cl_start c = s) ?cs") (auto simp: defs)
  obtain j where j: "position (\<lambda>c. cl_end c = e) ?cs = Some j"
    using F i by (cases "position (\<lambda>c. cl_end c = e) ?cs") (auto simp: defs)
  have ij: "i \<le> j" by (rule ccontr) (use F i j in \<open>simp add: defs\<close>)
  have rev: "cv_revision m + 1 \<le> u64_max"
    by (rule ccontr) (use F i j ij in \<open>simp add: defs checked_add_u64_def split: notation_kind.splits\<close>)
  from position_SomeD [OF i] position_SomeD [OF j]
  have at: "i < length ?cs" "cl_start (?cs ! i) = s" "j < length ?cs" "cl_end (?cs ! j) = e" by auto
  define c where "c = cv_clauses ?m ! i"
  have m': "cv_clauses ?m = splice i (Suc j) [c] ?cs" "span c = (s, e)"
    "cl_id c = cl_id (?cs ! i)" "surface_ok ?r c"
    and f: "cv_reading ?m = ?r" "cv_selected ?m = i" "cv_next_clause_id ?m = cv_next_clause_id m"
    "cv_window ?m = WinClosed" "cv_issued ?m = []" "cv_boundary_request ?m = None"
    "\<exists>S. cv_cache ?m = filter (\<lambda>(k, _). k \<in> S) (cv_cache m)"
    using i j ij rev at(1) unfolding c_def
    by (cases k; simp add: defs surface_ok_def splice_nth; blast)+
  have "clauses_ok ?m"
  proof (rule clauses_ok_splice [OF cl, of i "Suc j" "[c]"])
    show "tiles (bound_at ?r ?cs i) (map span [c]) (bound_at ?r ?cs (Suc j))"
      using at m'(2) layout_end(1) [OF lay at(3)] tiles_less [OF layout_middle [OF lay, of i "Suc j"]] ij
      by (auto simp: bound_at_def)
    show "legal ?r (cl_end x) \<and> surface_ok ?r x" if "x \<in> set [c]" for x
      using that m'(2,4) at clauses_ok_selected(3) [OF cl at(3)] by auto
    show "ids_ok (splice i (Suc j) [c] ?cs) (cv_next_clause_id ?m)"
    proof (rule ids_splice [of _ "cv_next_clause_id m"])
      have "?cs ! i \<in> set (take (Suc j - i) (drop i ?cs))"
        using at(1) ij by (auto simp: in_set_conv_nth intro!: exI [of _ 0])
      then show "\<forall>x\<in>set [c]. cl_id x \<in> cl_id ` set (take (Suc j - i) (drop i ?cs))
          \<or> (\<exists>n. cv_next_clause_id m = Some n \<and> n \<le> cl_id x)" using m'(3) by auto
      show "\<forall>n'. cv_next_clause_id ?m = Some n' \<longrightarrow>
          (\<exists>n. cv_next_clause_id m = Some n \<and> n \<le> n') \<and> (\<forall>x\<in>set [c]. cl_id x < n')"
        using cl at(1) m'(3) f(3) nth_mem [OF at(1)] by (auto simp: clauses_ok_def ids_ok_def)
    qed (use cl ij in \<open>auto simp: clauses_ok_def\<close>)
    show "cv_clauses ?m = [] \<or> cv_selected ?m < length (cv_clauses ?m)"
      unfolding m' f by (rule disjI2, rule selected_in_splice) (use ij at in auto)
  qed (use ij at m' f in auto)
  with f okm show ?thesis by (auto intro: filtered_ok)
qed (use cancel_stage_ok [OF ok] in simp)

end
