(* ===== verification/Clause_Edits.thy ===== *)
theory Clause_Edits
  imports Clause_Spec
begin

text \<open>
  The constructors of the clause model and the operations that change its reading keep the
  invariant of theory \<open>Clause_Spec\<close>: the first snapshot, the promotion of the live display,
  the deletion at the end and the edit of one interval of the reading.
\<close>

section \<open>Prefixes of a reading\<close>

lemma legal_take:
  assumes "legal r i" and "i \<le> k" and "k \<le> length r"
  shows "legal (take k r) i"
  using assms by (auto simp: legal_def min_def)

lemma legal_append:
  assumes "legal r i" and "legal (r @ s) (length r)"
  shows "legal (r @ s) i"
  using assms by (cases "i = length r") (auto simp: legal_def nth_append)

lemma slice_take: "e \<le> k \<Longrightarrow> slice_of s e (take k r) = slice_of s e r"
  by (cases "s \<le> e") (simp_all add: slice_of_def drop_take min_def)

lemma surface_ok_take:
  "surface_ok r c \<Longrightarrow> cl_end c \<le> k \<Longrightarrow> surface_ok (take k r) c"
  by (auto simp: surface_ok_def slice_take split: surface_source.splits)

lemma surface_ok_append:
  "surface_ok r c \<Longrightarrow> cl_end c \<le> length r \<Longrightarrow> surface_ok (r @ s) c"
  by (auto simp: surface_ok_def slice_append_left split: surface_source.splits)

lemma list_ok_append:
  "list_ok r s e xs \<Longrightarrow> legal (r @ t) (length r) \<Longrightarrow> list_ok (r @ t) s e xs"
  by (auto simp: list_ok_def intro: legal_append)

lemma clause_ends:
  "clauses_ok m \<Longrightarrow> c \<in> set (cv_clauses m) \<Longrightarrow> cl_start c < cl_end c \<and> cl_end c \<le> length (cv_reading m)"
  using clauses_ok_selected(1,2) by (auto simp: in_set_conv_nth)

section \<open>Construction\<close>

lemma locals_of_wire_list: "locals_of_wire ws = Some ls \<longleftrightarrow> list_all2 (\<lambda>w l. local_of_wire w = Some l) ws ls"
proof (induction ws arbitrary: ls)
  case Nil
  then show ?case by auto
next
  case (Cons w ws)
  show ?case by (cases "local_of_wire w") (auto simp: Cons list_all2_Cons1)
qed

lemma local_of_wire_fields:
  assumes "local_of_wire w = Some l"
  shows "span l = (wc_reading_start w, wc_reading_end w)" "cl_id l = wc_id w"
    and "clause_ok r b e w \<Longrightarrow> surface_ok r l"
  using assms
  by (auto simp: local_of_wire_def clause_ok_def surface_ok_def reading_slice_Some split: clause_state.splits)

lemma locals_of_wire_fields:
  assumes "locals_of_wire ws = Some ls"
  shows "map span ls = wire_ranges ws" "map cl_id ls = map wc_id ws" "length ls = length ws"
    and "\<forall>w\<in>set ws. clause_ok r b e w \<Longrightarrow> \<forall>l\<in>set ls. surface_ok r l"
proof -
  have "list_all2 (\<lambda>w l. local_of_wire w = Some l) ws ls" using assms by (simp add: locals_of_wire_list)
  then show "map span ls = wire_ranges ws" "map cl_id ls = map wc_id ws" "length ls = length ws"
    "\<forall>w\<in>set ws. clause_ok r b e w \<Longrightarrow> \<forall>l\<in>set ls. surface_ok r l"
    by (induction rule: list_all2_induct)
      (auto simp: wire_ranges_def local_of_wire_fields(1,2) intro: local_of_wire_fields(3))
qed

lemma locals_of_wire_total:
  "(\<And>w. w \<in> set ws \<Longrightarrow> clause_ok r b e w) \<Longrightarrow> locals_of_wire ws \<noteq> None"
proof (induction ws)
  case (Cons w ws)
  have "local_of_wire w \<noteq> None"
    using Cons.prems [of w] by (auto simp: local_of_wire_def clause_ok_def split: clause_state.splits)
  with Cons show ?case by auto
qed simp

lemma fold_max_ge: "(k :: nat) \<le> fold max xs k"
proof (induction xs arbitrary: k)
  case (Cons y ys)
  from Cons [of "max y k"] show ?case by simp
qed simp

lemma fold_max_bound: "x \<in> set xs \<Longrightarrow> x \<le> fold max xs (k :: nat)"
proof (induction xs arbitrary: k)
  case (Cons y ys)
  then show ?case using Cons.IH [of "max y k"] fold_max_ge [of "max y k" ys] by auto
qed simp

lemma from_snapshot_ok:
  assumes "clause_from_snapshot ident b d t = Some (Inr m)"
  shows "model_ok m"
proof -
  from assms obtain ls where v: "snapshot_validate d t = Inr ()" and ls: "locals_of_wire (scd_clauses d) = Some ls"
    and m: "cv_reading m = scd_reading d" "cv_clauses m = ls" "cv_selected m = 0" "cv_window m = WinClosed"
      "cv_issued m = []" "cv_cache m = []" "cv_boundary_request m = None"
      "cv_next_clause_id m = checked_add_u64 (fold max (map cl_id ls) 0) 1"
    by (auto simp: clause_from_snapshot_def split: sum.splits option.splits)
  from v have w: "length (scd_reading d) \<le> u32_max"
    "tiles 0 (wire_ranges (scd_clauses d)) (length (scd_reading d))" "distinct (map wc_id (scd_clauses d))"
    "\<forall>c\<in>set (scd_clauses d). clause_ok (scd_reading d) (legal (scd_reading d)) (length (scd_reading d)) c"
    by (auto simp: snapshot_validate_def validate_clauses_Inr split: option.splits)
  note f = locals_of_wire_fields [OF ls]
  have "\<forall>p\<in>set (map span ls). legal (scd_reading d) (snd p)"
    unfolding f(1) wire_ranges_def using w(4) by (auto simp: clause_ok_def)
  moreover have "ids_ok ls (cv_next_clause_id m)"
    unfolding ids_ok_ids f(2) m(8) using w(3) fold_max_bound [of _ "map wc_id (scd_clauses d)" 0]
    by (auto simp: less_Suc_eq_le)
  moreover have "\<forall>l\<in>set ls. surface_ok (scd_reading d) l" by (rule f(4) [OF w(4)])
  ultimately have "layout_ok (scd_reading d) ls" "ids_ok ls (cv_next_clause_id m)"
    "\<forall>l\<in>set ls. surface_ok (scd_reading d) l"
    using w(2) f(1) by (simp_all only: layout_ok_spans simp_thms)
  then have "clauses_ok m" using w(1) m(1-3) by (cases ls) (simp_all add: clauses_ok_def)
  then show ?thesis by (rule cleared_ok) (simp_all add: m)
qed

lemma from_snapshot_no_panic: "clause_from_snapshot ident b d t \<noteq> None"
proof (cases "snapshot_validate d t")
  case (Inr u)
  then have "locals_of_wire (scd_clauses d) \<noteq> None"
    by (intro locals_of_wire_total [of _ "scd_reading d" "legal (scd_reading d)" "length (scd_reading d)"])
      (auto simp: snapshot_validate_def validate_clauses_Inr split: option.splits)
  then show ?thesis using Inr by (auto simp: clause_from_snapshot_def)
qed (simp add: clause_from_snapshot_def)

lemma from_reading_ok:
  assumes "clause_from_reading ident r = Some m"
  shows "model_ok m"
proof -
  have "clauses_ok m"
    using assms by (auto simp: clause_from_reading_def clauses_ok_def layout_ok_def ids_ok_def surface_ok_def
        split: option.splits if_splits)
  then show ?thesis
    by (rule cleared_ok) (use assms in \<open>auto simp: clause_from_reading_def split: option.splits if_splits\<close>)
qed

section \<open>Promotion of the live display\<close>

lemma promote_ok:
  assumes ok: "model_ok m" and p: "promote_live_display m ident reading t = Some m'"
  shows "model_ok m'"
proof -
  have cl: "clauses_ok m" using ok by simp
  have ne: "cv_clauses m \<noteq> []"
    using p by (auto simp: promote_live_display_def split: if_splits)
  from p obtain suf where suf: "reading = cv_reading m @ suf" and t: "t = clause_text m @ suf"
    by (auto simp: promote_live_display_def strip_prefix_Some Let_def split: if_splits option.splits)
  show ?thesis
  proof (cases "suf = []")
    case True
    then have m': "m' = m\<lparr>cv_identity := ident, cv_mode := ModeConverting, cv_user_driven := True\<rparr>"
      using p suf t by (auto simp: promote_live_display_def strip_prefix_Some Let_def split: if_splits option.splits)
    show ?thesis
      by (rule tables_frame [OF ok]) (use cl m' in \<open>auto intro: clauses_ok_frame\<close>)
  next
    case False
    then obtain fresh where fresh: "cv_next_clause_id m = Some fresh"
      and bs: "length reading \<le> u32_max" "legal reading (length (cv_reading m))"
      and m': "cv_next_clause_id m' = Some (fresh + 1)"
        "cv_clauses m' = cv_clauses m @ [\<lparr>cl_id = fresh, cl_start = length (cv_reading m),
            cl_end = length reading, cl_surface = suf, cl_source = SurfReading\<rparr>]"
        "cv_reading m' = reading" "cv_revision m' = cv_revision m + 1" "cv_window m' = cv_window m"
        "cv_selected m' = cv_selected m" "cv_issued m' = cv_issued m" "cv_cache m' = cv_cache m"
        "cv_boundary_request m' = cv_boundary_request m"
      using p suf t
      by (auto simp: promote_live_display_def strip_prefix_Some Let_def legal_boundaries_member
          split: if_splits option.splits sum.splits)
    let ?new = "\<lparr>cl_id = fresh, cl_start = length (cv_reading m), cl_end = length reading,
      cl_surface = suf, cl_source = SurfReading\<rparr>"
    have "layout_ok reading (cv_clauses m @ [?new])"
      using cl False suf bs(2) legal_length [of reading] unfolding layout_ok_def clauses_ok_def
      by (auto simp: tiles_append intro: legal_append)
    moreover have new: "surface_ok reading ?new" by (simp add: suf surface_ok_def slice_of_def)
    have "surface_ok reading c" if "c \<in> set (cv_clauses m)" for c
      using that cl clause_ends [OF cl that] unfolding suf by (simp add: clauses_ok_def surface_ok_append)
    with new have "\<forall>c\<in>set (cv_clauses m @ [?new]). surface_ok reading c" by simp
    moreover have "ids_ok (cv_clauses m @ [?new]) (Some (fresh + 1))"
      using cl fresh by (fastforce simp: clauses_ok_def ids_ok_def)
    ultimately have "clauses_ok m'"
      using cl bs(1) ne unfolding clauses_ok_def m' by auto
    moreover have "cache_ok m'"
      using ok bs(2) unfolding model_ok_def cache_ok_def m' suf by (blast intro: list_ok_append)
    moreover have "window_ok m'"
    proof (cases "cv_window m")
      case (WinReady i xs k)
      have "\<not> current_request m'"
        using ok unfolding model_ok_def issued_ok_def request_ok_def current_request_def m' Let_def by fastforce
      moreover have "window_ok m" using ok by (simp add: model_ok_def)
      ultimately show ?thesis
        using WinReady bs(2) unfolding window_ok_def m' suf by (auto intro: list_ok_append)
    qed (simp_all add: window_ok_def m')
    moreover have "issued_ok m'"
      using ok unfolding model_ok_def issued_ok_def request_ok_def m' Let_def by fastforce
    moreover have "boundary_ok m'"
      using ok unfolding model_ok_def boundary_ok_def m' by fastforce
    ultimately show ?thesis by (simp add: model_ok_def)
  qed
qed

section \<open>Deletion at the end\<close>

lemma min_pred_less: "xs = [] \<or> min k (length xs - 1) < length xs"
  by (cases xs) auto

lemma delete_display_tail_ok:
  assumes ok: "model_ok m" and del: "delete_display_tail lgs m = Some (m', out)"
  shows "model_ok m'"
proof (cases "m' = m")
  case False
  have cl: "clauses_ok m" using ok by simp
  have ne: "cv_clauses m \<noteq> []" using False del by (auto simp: delete_display_tail_def)
  let ?cs = "cv_clauses m" and ?l = "last (cv_clauses m)"
  obtain k where k: "lgs (cl_surface ?l) = Some k"
    using False del ne by (cases "lgs (cl_surface ?l)") (auto simp: delete_display_tail_def Let_def)
  show ?thesis
  proof (cases "k = 0")
    case True
    with False del ne k have m': "cv_reading m' = take (cl_start ?l) (cv_reading m)" "cv_clauses m' = butlast ?cs"
      "cv_selected m' = min (cv_selected m) (length (butlast ?cs) - 1)" "cv_window m' = WinClosed" "cv_issued m' = []"
      "cv_cache m' = []" "cv_boundary_request m' = None" "cv_next_clause_id m' = cv_next_clause_id m"
      by (auto simp: delete_display_tail_def Let_def split: option.splits)
    have e: "cl_start ?l < cl_end ?l" "cl_end ?l \<le> length (cv_reading m)"
      using clause_ends [OF cl last_in_set [OF ne]] by auto
    have "tiles 0 (map span (butlast ?cs @ [?l])) (length (cv_reading m))"
      using cl ne by (simp add: clauses_ok_def layout_ok_def)
    then have b: "tiles 0 (map span (butlast ?cs)) (cl_start ?l)"
      unfolding map_append tiles_append by auto
    have inner: "cl_end c \<le> cl_start ?l" if "c \<in> set (butlast ?cs)" for c
      using tiles_mem [OF b, of "cl_start c" "cl_end c"] that by force
    have "clauses_ok m'"
      unfolding clauses_ok_def layout_ok_def m'
    proof (intro conjI)
      show "\<forall>c\<in>set (butlast ?cs). legal (take (cl_start ?l) (cv_reading m)) (cl_end c)"
      proof
        fix c assume c: "c \<in> set (butlast ?cs)"
        then have "legal (cv_reading m) (cl_end c)"
          using cl by (auto simp: clauses_ok_def layout_ok_def dest: in_set_butlastD)
        then show "legal (take (cl_start ?l) (cv_reading m)) (cl_end c)"
          using inner [OF c] e by (intro legal_take) auto
      qed
      show "\<forall>c\<in>set (butlast ?cs). surface_ok (take (cl_start ?l) (cv_reading m)) c"
      proof
        fix c assume c: "c \<in> set (butlast ?cs)"
        then have "surface_ok (cv_reading m) c" using cl by (auto simp: clauses_ok_def dest: in_set_butlastD)
        then show "surface_ok (take (cl_start ?l) (cv_reading m)) c" using inner [OF c] by (rule surface_ok_take)
      qed
      show "ids_ok (butlast ?cs) (cv_next_clause_id m)"
        using cl by (auto simp: clauses_ok_def ids_ok_def map_butlast distinct_butlast dest: in_set_butlastD)
      show "butlast ?cs = [] \<or> min (cv_selected m) (length (butlast ?cs) - 1) < length (butlast ?cs)"
        by (rule min_pred_less)
    qed (use b e cl in \<open>auto simp: clauses_ok_def\<close>)
    then show ?thesis by (rule cleared_ok) (simp_all add: m')
  next
    case False
    with \<open>m' \<noteq> m\<close> del ne k obtain s where m': "cv_reading m' = cv_reading m"
      "cv_clauses m' = butlast ?cs @ [?l\<lparr>cl_surface := s, cl_source := SurfLocal\<rparr>]"
      "cv_selected m' = cv_selected m" "cv_window m' = WinClosed" "cv_issued m' = []"
      "cv_cache m' = []" "cv_boundary_request m' = None" "cv_next_clause_id m' = cv_next_clause_id m"
      by (auto simp: delete_display_tail_def Let_def split: option.splits)
    have "clauses_ok m'"
    proof (rule clauses_ok_relabel [OF cl])
      have "map span (cv_clauses m') = map span (butlast ?cs @ [?l])"
        "map cl_id (cv_clauses m') = map cl_id (butlast ?cs @ [?l])"
        by (simp_all add: m' del: append_butlast_last_id)
      then show "map span (cv_clauses m') = map span (cv_clauses m)" "map cl_id (cv_clauses m') = map cl_id (cv_clauses m)"
        by (simp_all only: append_butlast_last_id [OF ne])
      show "surface_ok (cv_reading m) c" if "c \<in> set (cv_clauses m')" for c
        using that cl unfolding m' by (auto simp: clauses_ok_def surface_ok_def dest: in_set_butlastD)
    qed (simp_all add: m')
    then show ?thesis by (rule cleared_ok) (simp_all add: m')
  qed
qed (use ok in simp)

text \<open>With a segmentation that returns scalar boundaries of its argument nothing panics.\<close>

definition last_start_ok :: "(ustring \<Rightarrow> nat option) \<Rightarrow> bool" where
  "last_start_ok lgs \<longleftrightarrow> (\<forall>s k. lgs s = Some k \<longrightarrow> is_char_boundary s k)"

lemma truncate_total:
  "last_start_ok lgs \<Longrightarrow> lgs s = Some k \<Longrightarrow> \<exists>t. truncate_bytes k s = Some t"
  by (auto simp: last_start_ok_def is_char_boundary_def truncate_bytes_def)

lemma delete_display_tail_no_panic:
  assumes "last_start_ok lgs"
  shows "delete_display_tail lgs m \<noteq> None"
  using truncate_total [OF assms]
  by (fastforce simp: delete_display_tail_def Let_def split: option.splits)

section \<open>The edit of an interval of the reading\<close>

lemma tiles_shift:
  "tiles a xs b \<Longrightarrow> k \<le> a \<Longrightarrow>
   tiles (a - k + n) (map (\<lambda>(s, e). (s - k + n, e - k + n)) xs) (b - k + n)"
proof (induction a xs b rule: tiles.induct)
  case (2 a s e xs b)
  then show ?case using tiles_le [of e xs b] by auto
qed simp

lemma slice_drop: "slice_of (k + i) (k + j) xs = slice_of i j (drop k xs)"
  by (simp add: slice_of_def add.commute)

text \<open>The text behind the edited interval is the same, moved from \<open>e\<close> to \<open>n\<close>.\<close>

definition moved_text :: "ustring \<Rightarrow> ustring \<Rightarrow> nat \<Rightarrow> nat \<Rightarrow> bool" where
  "moved_text old new e n \<longleftrightarrow> e \<le> length old \<and> n \<le> length new \<and> drop n new = drop e old"

lemma moved_lengths:
  assumes "moved_text old new e n"
  shows "length new = length old - e + n"
proof -
  have "length (drop n new) = length (drop e old)" using assms by (simp add: moved_text_def)
  then have "length new - n = length old - e" by simp
  moreover have "e \<le> length old" "n \<le> length new" using assms by (simp_all add: moved_text_def)
  ultimately show ?thesis by linarith
qed

lemma moved_legal:
  assumes mv: "moved_text old new e n" and "legal old x" and "e < x"
  shows "legal new (x - e + n)"
proof (cases "x = length old")
  case True
  then show ?thesis using moved_lengths [OF mv] legal_length [of new] by simp
next
  case False
  with assms have x: "x < length old" "\<not> combining_mark (old ! x)" by (auto simp: legal_def)
  have "drop e old ! (x - e) = drop n new ! (x - e)" using mv by (simp add: moved_text_def)
  moreover have "drop e old ! (x - e) = old ! x" using assms(3) x(1) by simp
  moreover have "drop n new ! (x - e) = new ! (x - e + n)"
    using mv by (subst nth_drop) (auto simp: moved_text_def add.commute)
  ultimately have "old ! x = new ! (x - e + n)" by simp
  then show ?thesis using x moved_lengths [OF mv] assms(3) by (simp add: legal_def)
qed

lemma moved_slice:
  assumes "moved_text old new e n" and "e \<le> s" and "s \<le> t"
  shows "slice_of (s - e + n) (t - e + n) new = slice_of s t old"
  using slice_drop [of n "s - e" "t - e" new] slice_drop [of e "s - e" "t - e" old] assms
  by (simp add: moved_text_def add.commute)

lemma moved_clause:
  assumes mv: "moved_text old new e n"
    and c: "surface_ok old c" "legal old (cl_end c)" "e \<le> cl_start c" "cl_start c < cl_end c"
    and u: "length new \<le> u32_max"
  shows "span (shift_clause (int n - int e) i c) = (cl_start c - e + n, cl_end c - e + n)"
    and "legal new (cl_end (shift_clause (int n - int e) i c))"
    and "surface_ok new (shift_clause (int n - int e) i c)"
proof -
  have "cl_end c - e + n \<le> u32_max" using legal_le [OF moved_legal [OF mv c(2)]] c(3,4) u by simp
  then have "nat ((int x + (int n - int e)) mod 2 ^ 32) = x - e + n" if "e \<le> x" "x \<le> cl_end c" for x
    using that by (simp add: int_ops nat_add_distrib flip: of_nat_diff)
  from this [of "cl_start c"] this [of "cl_end c"] c(3,4)
  show s: "span (shift_clause (int n - int e) i c) = (cl_start c - e + n, cl_end c - e + n)"
    by (simp add: shift_clause_def)
  then show "legal new (cl_end (shift_clause (int n - int e) i c))"
    using moved_legal [OF mv c(2)] c(3,4) by simp
  have "cl_source (shift_clause (int n - int e) i c) = (if is_candidate (cl_source c) then SurfLocal else cl_source c)"
    "cl_surface (shift_clause (int n - int e) i c) = cl_surface c"
    by (simp_all add: shift_clause_def)
  then show "surface_ok new (shift_clause (int n - int e) i c)"
    using c s moved_slice [OF mv, of "cl_start c" "cl_end c"]
    by (cases "cl_source c") (auto simp: surface_ok_def)
qed

lemma shift_map_fields:
  "map cl_id (map (\<lambda>(k, c). shift_clause d (f + k) c) (enumerate j cs)) = [f + j..<f + j + length cs]"
  by (induction cs arbitrary: j) (simp_all add: shift_clause_def upt_conv_Cons del: upt_Suc)

lemma shifted_clauses:
  fixes f :: nat
  assumes mv: "moved_text old new e n" and u: "length new \<le> u32_max"
    and t: "tiles e (map span cs) (length old)"
    and ok: "\<forall>c\<in>set cs. surface_ok old c \<and> legal old (cl_end c)"
  defines "cs' \<equiv> shift_clauses (int n - int e) f cs"
  shows "tiles n (map span cs') (length new)" and "\<forall>c\<in>set cs'. surface_ok new c \<and> legal new (cl_end c)"
    and "length cs' = length cs"
proof -
  have b: "e \<le> cl_start c \<and> cl_start c < cl_end c" if "c \<in> set cs" for c
    using tiles_mem [OF t, of "cl_start c" "cl_end c"] that by force
  have moved: "span (shift_clause (int n - int e) i c) = (cl_start c - e + n, cl_end c - e + n)
      \<and> legal new (cl_end c - e + n)
      \<and> surface_ok new (shift_clause (int n - int e) i c)" if "c \<in> set cs" for c i
    using moved_clause(1,3) [OF mv, of c i] moved_legal [OF mv, of "cl_end c"] u ok b [OF that] that by auto
  have same: "surface_ok new c \<and> legal new (cl_end c)" if "n = e" "c \<in> set cs" for c
    using that ok b [OF that(2)] moved_legal [OF mv, of "cl_end c"] moved_slice [OF mv, of "cl_start c" "cl_end c"]
    by (auto simp: surface_ok_def split: surface_source.splits)
  have "map span cs' = map (\<lambda>(s, t). (s - e + n, t - e + n)) (map span cs)"
  proof (cases "n = e")
    case True
    have "(cl_start c - e + n, cl_end c - e + n) = span c" if "c \<in> set cs" for c
      using b [OF that] True by simp
    then show ?thesis using True by (simp add: cs'_def shift_clauses_def)
  next
    case False
    have "map span (map (\<lambda>(k, c). shift_clause (int n - int e) (f + k) c) (enumerate 0 cs))
        = map (\<lambda>p. (cl_start (snd p) - e + n, cl_end (snd p) - e + n)) (enumerate 0 cs)"
      using moved by (auto simp: in_set_enumerate_eq)
    then show ?thesis using False map_enumerate_snd [of "\<lambda>c. (cl_start c - e + n, cl_end c - e + n)" 0 cs]
      by (auto simp: cs'_def shift_clauses_def)
  qed
  then show "tiles n (map span cs') (length new)"
    using tiles_shift [OF t order.refl, of n] moved_lengths [OF mv] mv by (simp add: moved_text_def)
  show "\<forall>c\<in>set cs'. surface_ok new c \<and> legal new (cl_end c)"
    using same moved by (auto simp: cs'_def shift_clauses_def in_set_enumerate_eq)
  show "length cs' = length cs" by (simp add: cs'_def shift_clauses_def)
qed

lemma replace_interval_result:
  assumes "position (\<lambda>c. Some (cl_id c) = cv_editing_clause m) (cv_clauses m) = Some i"
    and "cv_next_clause_id m = Some first"
    and "cv_revision m + 1 \<le> u64_max" "si_revision (cv_identity m) < reading_revision"
    and "first + (1 + (if new_len \<noteq> old_len then length (cv_clauses m) - i - 1 else 0)) \<le> u64_max"
    and "i < length (cv_clauses m)"
    and "replace_edited_interval m reading reading_revision s n new_len old_len = Some (m', out)"
  defines "new \<equiv> (if n = s then [] else [make_reading_clause reading first s n]) @
      shift_clauses (int new_len - int old_len) (first + 1) (drop (Suc i) (cv_clauses m))"
  shows "cv_reading m' = reading \<and> cv_window m' = WinClosed \<and> cv_issued m' = [] \<and> cv_cache m' = []
    \<and> cv_boundary_request m' = None
    \<and> cv_next_clause_id m' = Some (first + (1 + (if new_len \<noteq> old_len then length (cv_clauses m) - i - 1 else 0)))
    \<and> cv_clauses m' = take i (cv_clauses m) @ new
    \<and> cv_selected m' = (if n = s then min i (length (take i (cv_clauses m) @ new) - 1) else cv_selected m)"
proof (cases "n = s")
  case True
  define A where "A = take i (cv_clauses m)"
  have i: "length A = i" using assms(6) by (simp add: A_def)
  have t: "take i (A @ x # B) = A" "drop (Suc i) (A @ x # B) = B" for x B
    using i by simp_all
  show ?thesis
    using assms(1-5,7) True
    by (simp add: replace_edited_interval_def Let_def new_def A_def [symmetric] t i split del: if_split
        del: take_append drop_append) auto
next
  case False
  then show ?thesis using assms(1-5,7) by (auto simp: replace_edited_interval_def Let_def new_def)
qed

lemma fresh_ids:
  assumes ids: "ids_ok cs (Some f)" and i: "i < length cs" and mid: "mid = [] \<or> (\<exists>c. mid = [c] \<and> cl_id c = f)"
    and nx: "nx = f + (1 + (if d \<noteq> 0 then length cs - i - 1 else 0))"
  shows "ids_ok (take i cs @ mid @ shift_clauses d (f + 1) (drop (Suc i) cs)) (Some nx)"
proof -
  let ?A = "take i cs" and ?B = "drop (Suc i) cs"
  have cs: "cs = ?A @ cs ! i # ?B" using i by (rule id_take_nth_drop)
  have dist: "distinct (map cl_id (?A @ ?B))"
    using ids arg_cong [OF cs, of "\<lambda>x. distinct (map cl_id x)"] by (simp add: ids_ok_def)
  have less: "cl_id c < f" if "c \<in> set ?A \<union> set ?B" for c
    using that ids by (auto simp: ids_ok_def dest: in_set_takeD in_set_dropD)
  show ?thesis
  proof (cases "d = 0")
    case True
    then show ?thesis using dist less mid nx
      by (fastforce simp: ids_ok_def shift_clauses_def)
  next
    case False
    let ?B' = "shift_clauses d (f + 1) ?B"
    have B: "map cl_id ?B' = [f + 1..<f + 1 + length ?B]"
      using False shift_map_fields [of d "f + 1" 0 ?B] by (simp add: shift_clauses_def)
    have "set (map cl_id ?B') = {f + 1..<f + 1 + length ?B}" unfolding B by (rule set_upt)
    then have "cl_id c \<in> {f + 1..<f + 1 + length ?B}" if "c \<in> set ?B'" for c
      using that by (metis image_eqI list.set_map)
    then have "\<forall>c\<in>set ?B'. f < cl_id c \<and> cl_id c < f + 1 + length ?B" by fastforce
    moreover have "distinct (map cl_id ?B')" unfolding B by simp
    moreover have "f + 1 + length ?B = nx" using False nx i by simp
    ultimately show ?thesis using dist less mid i
      unfolding ids_ok_def by fastforce
  qed
qed

lemma replace_interval_ok:
  assumes cl: "clauses_ok m" and i: "i < length (cv_clauses m)"
    and reading: "reading = take (cl_start (cv_clauses m ! i)) (cv_reading m) @ mid
        @ drop (cl_end (cv_clauses m ! i)) (cv_reading m)"
    and ids: "position (\<lambda>c. Some (cl_id c) = cv_editing_clause m) (cv_clauses m) = Some i"
    and u: "length reading \<le> u32_max"
    and legal: "legal reading (cl_start (cv_clauses m ! i))"
      "legal reading (cl_start (cv_clauses m ! i) + length mid)"
    and r: "replace_edited_interval m reading reading_revision (cl_start (cv_clauses m ! i))
        (cl_start (cv_clauses m ! i) + length mid) (length reading) (length (cv_reading m)) = Some (m', out)"
    and out: "out = OutReadingChanged \<or> out = OutEmpty"
  shows "model_ok m'"
proof -
  let ?cs = "cv_clauses m" and ?old = "cv_reading m"
  let ?c = "?cs ! i" let ?s = "cl_start ?c" and ?e = "cl_end ?c"
  let ?n = "?s + length mid"
  have lay: "layout_ok ?old ?cs" using cl by (simp add: clauses_ok_def)
  have c: "?s < ?e" "?e \<le> length ?old" using clauses_ok_selected [OF cl i] by auto
  have mv: "moved_text ?old reading ?e ?n"
    using c by (simp add: moved_text_def reading)
  have delta: "int (length reading) - int (length ?old) = int ?n - int ?e"
    using moved_lengths [OF mv] c by simp
  obtain first where first: "cv_next_clause_id m = Some first"
    using out r ids by (auto simp: replace_edited_interval_def Let_def split: option.splits if_splits)
  let ?B = "shift_clauses (int ?n - int ?e) (first + 1) (drop (Suc i) ?cs)"
  let ?k = "1 + (if length reading \<noteq> length ?old then length ?cs - i - 1 else 0)"
  let ?E = "make_reading_clause reading first ?s ?n"
  note rdefs = replace_edited_interval_def Let_def delta
  have rv: "cv_revision m + 1 \<le> u64_max" "si_revision (cv_identity m) < reading_revision"
    and room: "first + ?k \<le> u64_max"
    using out r ids first i
    by (simp_all add: rdefs checked_add_u64_def split: if_splits)
  note res = replace_interval_result [OF ids first rv room i r [unfolded delta]]
  have t: "tiles 0 (map span (take i ?cs)) ?s" "tiles ?e (map span (drop (Suc i) ?cs)) (length ?old)"
    using layout_split [OF lay, of i] layout_split [OF lay, of "Suc i"] layout_end(1) [OF lay i] i
    by (auto simp: bound_at_def)
  have before: "legal reading (cl_end c) \<and> surface_ok reading c \<and> cl_id c < first" if "c \<in> set (take i ?cs)" for c
  proof -
    have in_cs: "c \<in> set ?cs" using that by (rule in_set_takeD)
    have e: "cl_end c \<le> ?s" using tiles_mem [OF t(1), of "cl_start c" "cl_end c"] that by force
    have "length (take ?s ?old) = ?s" using c by simp
    moreover have "legal (take ?s ?old) (cl_end c)" "surface_ok (take ?s ?old) c"
      using cl in_cs e c by (auto simp: clauses_ok_def layout_ok_def intro!: legal_take surface_ok_take)
    ultimately show ?thesis
      using legal_append [of "take ?s ?old" "cl_end c" "mid @ drop ?e ?old"]
        surface_ok_append [of "take ?s ?old" c "mid @ drop ?e ?old"] legal(1) reading e cl in_cs first
      by (auto simp: clauses_ok_def ids_ok_def)
  qed
  have behind: "\<forall>c\<in>set (drop (Suc i) ?cs). surface_ok ?old c \<and> legal ?old (cl_end c)"
    using cl by (auto simp: clauses_ok_def layout_ok_def dest: in_set_dropD)
  note sh = shifted_clauses [OF mv u t(2) behind, of "first + 1"]
  let ?mid = "if ?n = ?s then [] else [?E]"
  have lay': "layout_ok reading (take i ?cs @ ?mid @ ?B)"
    unfolding layout_ok_def using t(1) sh(1,2) before legal by (auto simp: tiles_append)
  have surf': "\<forall>c\<in>set (take i ?cs @ ?mid @ ?B). surface_ok reading c"
    using sh(2) before by auto
  have ids': "ids_ok (take i ?cs @ ?mid @ ?B) (Some (first + ?k))"
    using fresh_ids [of ?cs first i ?mid "first + ?k" "int ?n - int ?e"] cl first delta i
    by (auto simp: clauses_ok_def)
  from res have f: "cv_reading m' = reading" "cv_next_clause_id m' = Some (first + ?k)"
    "cv_clauses m' = take i ?cs @ ?mid @ ?B"
    "cv_selected m' = (if ?n = ?s then min i (length (take i ?cs @ ?mid @ ?B) - 1) else cv_selected m)"
    by (simp_all add: delta)
  have "cv_clauses m' = [] \<or> cv_selected m' < length (cv_clauses m')"
  proof (cases "mid = []")
    case True
    then have "cv_selected m' = min i (length (cv_clauses m') - 1)" unfolding f(3,4) by simp
    then show ?thesis using min_pred_less [of "cv_clauses m'" i] by simp
  next
    case False
    then show ?thesis unfolding f using cl i sh(3) by (auto simp: clauses_ok_def)
  qed
  then have "clauses_ok m'"
    unfolding clauses_ok_def f(1-3) using lay' surf' ids' u by blast
  then show ?thesis by (rule cleared_ok) (use res in simp_all)
qed

lemma changed_outcome [simp]:
  "(if c then OutEmpty else OutReadingChanged) = OutReadingChanged \<longleftrightarrow> \<not> c"
  "(if c then OutEmpty else OutReadingChanged) = OutEmpty \<longleftrightarrow> c"
  by simp_all

lemma replace_interval_unchanged:
  "replace_edited_interval m reading rr s n nl ol = Some (m', out)
   \<Longrightarrow> \<not> (out = OutReadingChanged \<or> out = OutEmpty) \<Longrightarrow> m' = m"
  by (cases "rr \<le> si_revision (cv_identity m)")
    (auto simp: replace_edited_interval_def Let_def split: option.splits split del: if_split)

lemma join_clauses_ok:
  assumes cl: "clauses_ok m" and ij: "i < j" "j < length (cv_clauses m)"
  shows "clauses_ok (join_clauses m i j)"
proof -
  let ?cs = "cv_clauses m" and ?r = "cv_reading m" and ?m = "join_clauses m i j"
  let ?c = "make_reading_clause ?r (cl_id (?cs ! i)) (cl_start (?cs ! i)) (cl_end (?cs ! j))"
  have lay: "layout_ok ?r ?cs" using cl by (simp add: clauses_ok_def)
  have m': "cv_clauses ?m = splice i (Suc j) [?c] ?cs" "cv_reading ?m = ?r" "cv_selected ?m = i"
    "cv_next_clause_id ?m = cv_next_clause_id m"
    by (simp_all add: join_clauses_def Let_def)
  have i: "?cs ! i \<in> set (take (Suc j - i) (drop i ?cs))"
    using ij by (auto simp: in_set_conv_nth intro!: exI [of _ 0])
  then have "?cs ! i \<in> set ?cs" using ij by simp
  note i = i this
  show ?thesis
  proof (rule clauses_ok_splice [OF cl, of i "Suc j" "[?c]"])
    show "tiles (bound_at ?r ?cs i) (map span [?c]) (bound_at ?r ?cs (Suc j))"
      using ij layout_end(1) [OF lay ij(2)] tiles_less [OF layout_middle [OF lay, of i "Suc j"]]
      by (auto simp: bound_at_def)
    show "ids_ok (splice i (Suc j) [?c] ?cs) (cv_next_clause_id ?m)"
      by (rule ids_splice [of _ "cv_next_clause_id m"])
        (use cl ij i in \<open>auto simp: clauses_ok_def ids_ok_def m'\<close>)
    show "cv_clauses ?m = [] \<or> cv_selected ?m < length (cv_clauses ?m)"
      unfolding m' by (rule disjI2, rule selected_in_splice) (use ij in auto)
  qed (use ij clauses_ok_selected(3) [OF cl ij(2)] in \<open>auto simp: m'\<close>)
qed

lemma find_position: "find P xs = map_option ((!) xs) (position P xs)"
  by (induction xs) (auto simp: option.map_comp o_def)

lemma kept_around:
  assumes "starts_with r (take s old)" and "ends_with r (drop e old)" and "s \<le> e" and "e \<le> length old"
    and "s + length old - e \<le> length r"
  shows "r = take s old @ slice_of s (s + length r - (s + length old - e)) r @ drop e old"
proof -
  from assms(1) obtain a where a: "r = take s old @ a" by (auto simp: starts_with_iff)
  from assms(2) obtain b where b: "r = b @ drop e old" by (auto simp: ends_with_iff)
  have lb: "length b = s + length r - (s + length old - e)"
    using arg_cong [OF b, of length] assms(3,4) by simp
  have sb: "s \<le> length b" "length b \<le> length r" using lb assms(3-5) arg_cong [OF b, of length] by simp_all
  have "r = slice_of 0 s r @ slice_of s (length b) r @ slice_of (length b) (length r) r"
    using slice_append [of 0 s "length b" r] slice_append [of 0 "length b" "length r" r] sb
    by (simp flip: append_assoc)
  moreover have "slice_of 0 s r = take s old" using a assms(3,4) by (simp add: slice_from_start)
  moreover have "slice_of (length b) (length r) r = drop e old" unfolding slice_to_end using b by simp
  ultimately show ?thesis unfolding lb by metis
qed

lemma neighbour_bounds:
  fixes i n :: nat
  assumes "i < n" and "f = (if a then i - 1 else i)" and "l = (if b then min (i + 1) (n - 1) else i)" and "f \<noteq> l"
  shows "f < l" and "l < n"
  using assms by (auto split: if_splits)

lemma replace_edited_reading_ok:
  assumes "clauses_ok m" and "replace_edited_reading m reading rr = Some (m', out)"
  shows "m' = m \<or> model_ok m'"
    and "\<not> (out = OutReadingChanged \<or> out = OutEmpty) \<Longrightarrow> m' = m"
proof -
  have "m' = m \<and> \<not> (out = OutReadingChanged \<or> out = OutEmpty)
      \<or> model_ok m' \<and> (out = OutReadingChanged \<or> out = OutEmpty)"
    using assms
  proof (induction m reading rr arbitrary: m' out rule: replace_edited_reading.induct)
    case (1 m reading rr)
    have cl: "clauses_ok m" by (rule "1.prems")
    have "replace_edited_reading m reading rr = Some (m', out)" by (rule "1.prems")
    note r = this [unfolded replace_edited_reading.simps [of m]]
    let ?old = "cv_reading m" and ?cs = "cv_clauses m"
    show ?case
    proof (cases "editing_range m = None \<or> \<not> length reading \<le> u32_max")
      case True
      then show ?thesis using r by (auto simp: u32_try_from_def simp del: u32_max_eq split: option.splits)
    next
      case False
      then obtain s e where er: "editing_range m = Some (s, e)" and u: "length reading \<le> u32_max" by auto
      then have ut: "u32_try_from (length reading) = Some (length reading)" by simp
      have ol: "as_u32 (length ?old) = length ?old" using cl by (simp add: clauses_ok_def)
      let ?un = "s + length ?old - e" let ?n = "s + length reading - ?un"
      obtain bs where bs: "legal_boundaries reading = Inr bs" using legal_boundaries_total [OF u] by blast
      from er obtain i where pos: "position (\<lambda>c. Some (cl_id c) = cv_editing_clause m) ?cs = Some i"
        and se: "s = cl_start (?cs ! i)" "e = cl_end (?cs ! i)"
        by (auto simp: editing_range_def find_position split: if_splits)
      have i: "i < length ?cs" using position_SomeD [OF pos] by simp
      note c = clauses_ok_selected [OF cl i]
      show ?thesis
      proof (cases "length reading < ?un \<or> \<not> starts_with reading (take s ?old) \<or> \<not> ends_with reading (drop e ?old)")
        case True
        then show ?thesis using r by (auto simp: er ut ol Let_def simp del: u32_try_from_Some)
      next
        case False
        then have kept: "reading = take s ?old @ slice_of s ?n reading @ drop e ?old"
          using c se by (intro kept_around) auto
        have n: "?n = s + length (slice_of s ?n reading)" using False c se by auto
        show ?thesis
        proof (cases "s \<in> set bs \<and> ?n \<in> set bs")
          case True
          then have ri: "replace_edited_interval m reading rr s ?n (length reading) (length ?old) = Some (m', out)"
            using r False by (simp add: er ut ol Let_def bs del: u32_try_from_Some)
          have lg: "legal reading s" "legal reading ?n"
            using True legal_boundaries_member [OF bs] by auto
          have "model_ok m'" if "out = OutReadingChanged \<or> out = OutEmpty"
            by (rule replace_interval_ok [OF cl i, of reading "slice_of s ?n reading" rr m' out])
              (use kept pos u lg ri that n se in auto)
          moreover have "m' = m" if "\<not> (out = OutReadingChanged \<or> out = OutEmpty)"
            using replace_interval_unchanged [OF ri that] .
          ultimately show ?thesis by blast
        next
          case at: False
          have at': "(s \<in> set bs \<and> ?n \<in> set bs) = False" using at by argo
          let ?f = "if s \<notin> set bs then i - 1 else i"
          let ?l = "if ?n \<notin> set bs then min (i + 1) (length ?cs - 1) else i"
          show ?thesis
          proof (cases "?f = ?l")
            case True
            then show ?thesis using r False by (simp add: er ut ol Let_def bs pos at' del: u32_try_from_Some)
          next
            case ne: False
            note fl = neighbour_bounds [OF i refl refl ne]
            obtain draft o' where d: "replace_edited_reading (join_clauses m ?f ?l) reading rr = Some (draft, o')"
              and m': "m' = (if o' = OutReadingChanged \<or> o' = OutEmpty then draft else m)" "out = o'"
              using r False ne
              by (auto simp: er ut ol Let_def bs pos at' simp del: u32_try_from_Some split: option.splits)
            have "draft = join_clauses m ?f ?l \<and> \<not> (o' = OutReadingChanged \<or> o' = OutEmpty)
                \<or> model_ok draft \<and> (o' = OutReadingChanged \<or> o' = OutEmpty)"
              by (rule "1.IH" [OF er refl refl refl ut ol [symmetric] refl False refl bs at pos refl refl ne
                join_clauses_ok [OF cl fl] d])
            then show ?thesis using m' by auto
          qed
        qed
      qed
    qed
  qed
  then show "m' = m \<or> model_ok m'" "\<not> (out = OutReadingChanged \<or> out = OutEmpty) \<Longrightarrow> m' = m" by auto
qed

lemma editing_position:
  "editing_range m = Some p \<Longrightarrow> \<exists>i. position (\<lambda>c. Some (cl_id c) = cv_editing_clause m) (cv_clauses m) = Some i"
  by (auto simp: editing_range_def find_position split: if_splits)

lemma replace_interval_no_panic:
  "position (\<lambda>c. Some (cl_id c) = cv_editing_clause m) (cv_clauses m) = Some i
   \<Longrightarrow> replace_edited_interval m reading rr a b c d \<noteq> None"
  by (cases "rr \<le> si_revision (cv_identity m)")
    (auto simp: replace_edited_interval_def Let_def split: option.splits split del: if_split)

lemma some_map_pair: "(case r of None \<Rightarrow> None | Some (a, b) \<Rightarrow> Some (f a b)) = None \<longleftrightarrow> r = None"
  by (auto split: option.split)

lemma replace_edited_reading_no_panic: "replace_edited_reading m reading rr \<noteq> None"
proof (induction m reading rr rule: replace_edited_reading.induct)
  case (1 m reading rr)
  show ?case
  proof (cases "editing_range m")
    case (Some p)
    obtain s e where p: "p = (s, e)" by fastforce
    obtain i where i: "position (\<lambda>c. Some (cl_id c) = cv_editing_clause m) (cv_clauses m) = Some i"
      using editing_position [OF Some] by blast
    note int = replace_interval_no_panic [OF i]
    show ?thesis
      unfolding replace_edited_reading.simps [of m] Some p option.case prod.case Let_def i
      apply (split option.split, intro conjI impI, simp)
      apply (intro allI impI)
      apply (split if_split, intro conjI impI, simp)
      apply (split sum.split, intro conjI allI impI, simp)
      apply (split if_split, intro conjI impI, rule int)
      apply (split if_split, intro conjI impI, simp)
      unfolding some_map_pair
      by (erule (4) "1.IH" [OF Some p [symmetric] refl refl _ refl refl _ refl _ _ i refl refl])
  qed (simp add: replace_edited_reading.simps [of m])
qed

end
