(* ===== verification/Clause_Replies.thy ===== *)
theory Clause_Replies
  imports Clause_Edits
begin

text \<open>
  The exchange with the engine keeps the invariant of theory \<open>Clause_Spec\<close>: opening a
  request, ending it, every kind of reply, and the selection of a candidate.
\<close>

section \<open>Tables\<close>

lemma request_ok_frame:
  "cv_reading m' = cv_reading m \<Longrightarrow> cv_clauses m' = cv_clauses m \<Longrightarrow> cv_revision m' = cv_revision m
   \<Longrightarrow> request_ok m' ic = request_ok m ic"
  by (simp add: request_ok_def)

text \<open>A step that leaves reading, clauses and revision alone but may open a request.\<close>

lemma opened_ok:
  assumes ok: "model_ok m"
    and same: "cv_reading m' = cv_reading m" "cv_clauses m' = cv_clauses m" "cv_selected m' = cv_selected m"
      "cv_next_clause_id m' = cv_next_clause_id m" "cv_revision m' = cv_revision m"
    and cache: "\<And>i cc. map_of (cv_cache m') i = Some cc \<Longrightarrow> map_of (cv_cache m) i = Some cc"
    and issued: "\<And>i ic. map_of (cv_issued m') i = Some ic \<Longrightarrow> map_of (cv_issued m) i = Some ic \<or> request_ok m ic"
    and window: "(\<exists>i xs k. cv_window m' = WinReady i xs k) \<Longrightarrow> window_ok m'"
    and boundary: "boundary_ok m'"
  shows "model_ok m'"
proof -
  have "clauses_ok m'" using ok same by (simp add: model_ok_def clauses_ok_def)
  moreover have "cache_ok m'" using ok cache same(1) unfolding model_ok_def cache_ok_def by metis
  moreover have "issued_ok m'"
    using ok issued request_ok_frame [OF same(1,2,5)] unfolding model_ok_def issued_ok_def by blast
  moreover have "window_ok m'"
    using window by (cases "cv_window m'") (auto simp: window_ok_def)
  ultimately show ?thesis using boundary by (simp add: model_ok_def)
qed

lemma boundary_kept:
  "boundary_ok m \<Longrightarrow> cv_boundary_request m' = cv_boundary_request m \<or> cv_boundary_request m' = None
   \<Longrightarrow> cv_reading m' = cv_reading m \<Longrightarrow> cv_revision m \<le> cv_revision m' \<Longrightarrow> boundary_ok m'"
  by (fastforce simp: boundary_ok_def)

section \<open>Learning identity\<close>

lemma invalidate_fields [simp]:
  "cv_reading (invalidate_learning m) = cv_reading m" "cv_selected (invalidate_learning m) = cv_selected m"
  "cv_next_clause_id (invalidate_learning m) = cv_next_clause_id m"
  "cv_revision (invalidate_learning m) = cv_revision m" "cv_cache (invalidate_learning m) = []"
  "cv_issued (invalidate_learning m) = []" "cv_window (invalidate_learning m) = WinClosed"
  "cv_boundary_request (invalidate_learning m) = None" "cv_identity (invalidate_learning m) = cv_identity m"
  "cv_baseline (invalidate_learning m) = cv_baseline m"
  "cv_last_request_id (invalidate_learning m) = cv_last_request_id m"
  by (simp_all add: invalidate_learning_def)

lemma request_ok_keys:
  assumes "map (\<lambda>c. (cl_id c, cl_start c, cl_end c)) (cv_clauses m') = map (\<lambda>c. (cl_id c, cl_start c, cl_end c)) (cv_clauses m)"
    and "cv_reading m' = cv_reading m" "cv_revision m' = cv_revision m"
  shows "request_ok m' ic = request_ok m ic"
proof -
  have "(\<forall>c\<in>set cs. cl_id c = k \<longrightarrow> cl_start c = a \<and> cl_end c = b)
      \<longleftrightarrow> (\<forall>(i, s, e)\<in>set (map (\<lambda>c. (cl_id c, cl_start c, cl_end c)) cs). i = k \<longrightarrow> s = a \<and> e = b)"
    for cs :: "local_clause list" and k a b by auto
  note K = this
  have "(\<forall>c\<in>set (cv_clauses m'). cl_id c = k \<longrightarrow> cl_start c = a \<and> cl_end c = b)
      \<longleftrightarrow> (\<forall>c\<in>set (cv_clauses m). cl_id c = k \<longrightarrow> cl_start c = a \<and> cl_end c = b)" for k a b
    unfolding K assms(1) ..
  then show ?thesis unfolding request_ok_def assms(2,3) by simp
qed

lemma invalidate_request_ok: "request_ok (invalidate_learning m) ic = request_ok m ic"
  by (rule request_ok_keys) (auto simp: invalidate_learning_def)

text \<open>The requests survive an invalidation when the code puts them back.\<close>

lemma invalidated_ok:
  assumes ok: "model_ok m" and old: "\<And>i ic. map_of issued i = Some ic \<Longrightarrow> map_of (cv_issued m) i = Some ic"
    and w: "\<not> (\<exists>i xs k. w = WinReady i xs k)"
  shows "model_ok ((invalidate_learning m)\<lparr>cv_issued := issued, cv_window := w, cv_learning_identity := l\<rparr>)"
    (is "model_ok ?m")
proof (rule opened_ok [of "invalidate_learning m"])
  show "model_ok (invalidate_learning m)" by (rule invalidate_learning_ok [OF ok])
  show "map_of (cv_issued (invalidate_learning m)) i = Some ic \<or> request_ok (invalidate_learning m) ic"
    if "map_of (cv_issued ?m) i = Some ic" for i ic
    using old [of i ic] that ok by (auto simp: invalidate_request_ok model_ok_def issued_ok_def)
qed (use w in auto)

lemma learning_identity_ok: "model_ok (m\<lparr>cv_learning_identity := l\<rparr>) = model_ok m"
  by (simp add: model_ok_def clauses_ok_def cache_ok_def window_ok_def issued_ok_def request_ok_def boundary_ok_def
      current_request_def cong: candidate_window.case_cong)

lemma refresh_learning_ok:
  assumes "model_ok m"
  shows "model_ok (refresh_learning_identity m i)"
proof -
  have e: "invalidate_learning (m\<lparr>cv_issued := []\<rparr>) = invalidate_learning m"
    by (simp add: invalidate_learning_def)
  have "model_ok ((invalidate_learning m)\<lparr>cv_issued := cv_issued m, cv_window := w, cv_learning_identity := Some i\<rparr>)"
    if "w = WinClosed \<or> (\<exists>k. w = WinLoading k)" for w
    by (rule invalidated_ok [OF assms]) (use that in auto)
  note w = this
  have eq: "(invalidate_learning m)\<lparr>cv_issued := cv_issued m\<rparr>
      = (invalidate_learning m)\<lparr>cv_issued := cv_issued m, cv_window := WinClosed\<rparr>"
    by (simp add: invalidate_learning_def)
  have "model_ok ((invalidate_learning m)\<lparr>cv_issued := cv_issued m, cv_window := WinClosed,
      cv_learning_identity := Some i\<rparr>)"
    by (rule w) simp
  then have "model_ok ((invalidate_learning m)\<lparr>cv_issued := cv_issued m\<rparr>)"
    by (subst eq) (simp only: learning_identity_ok)
  with w show ?thesis
    using assms unfolding refresh_learning_identity_def e Let_def
    by (auto simp: learning_identity_ok split: candidate_window.split option.split)
qed

lemma configured_learning_ok:
  assumes "model_ok m"
  shows "model_ok (configured_learning_identity m i)"
proof (cases i)
  case (Some j)
  have "model_ok (if c then invalidate_learning m else m)" for c
    using assms by (simp add: invalidate_learning_ok)
  then show ?thesis using assms Some
    by (auto simp: configured_learning_identity_def Let_def refresh_learning_ok invalidate_learning_ok
        split: option.split)
qed (simp add: configured_learning_identity_def invalidate_learning_ok [OF assms])

section \<open>Opening requests\<close>

lemma ids_unique:
  "clauses_ok m \<Longrightarrow> c \<in> set (cv_clauses m) \<Longrightarrow> d \<in> set (cv_clauses m) \<Longrightarrow> cl_id c = cl_id d \<Longrightarrow> c = d"
  unfolding clauses_ok_def ids_ok_def distinct_map by (blast dest: inj_onD)

lemma own_request_ok:
  assumes "clauses_ok m" and "c \<in> set (cv_clauses m)"
    and "ic_request ic = candidates_request_for m c rid" and "ic_conversion ic = None"
  shows "request_ok m ic"
proof -
  have "cl_start d = cl_start c \<and> cl_end d = cl_end c" if "d \<in> set (cv_clauses m)" "cl_id d = cl_id c" for d
    using ids_unique [OF assms(1) that(1) assms(2) that(2)] by simp
  then show ?thesis using assms(3,4) unfolding request_ok_def
    by (auto simp: candidates_request_for_def Let_def)
qed

lemma open_boundary_ok:
  assumes ok: "model_ok m"
  shows "model_ok (fst (open_boundary_conversion m rid now))"
proof -
  have opened: "model_ok (m\<lparr>cv_last_request_id := r, cv_window := WinLoading k, cv_cancel_stage := s,
      cv_boundary_request := Some p, cv_user_driven := u\<rparr>)"
    if "\<And>q. ic_conversion p = Some q \<Longrightarrow> rk_conversion_revision (vq_key q) = cv_revision m \<and> vq_reading q = cv_reading m"
    for r k s p u
    by (rule opened_ok [OF ok]) (use that in \<open>auto simp: boundary_ok_def\<close>)
  show ?thesis
  proof (cases "cv_mode m \<noteq> ModeConverting \<or> cv_window m \<noteq> WinClosed \<or> rid \<le> cv_last_request_id m")
    case True
    then show ?thesis using ok by (simp add: open_boundary_conversion_def)
  next
    case c: False
    show ?thesis
    proof (cases "get (cv_clauses m) (cv_selected m)")
      case None
      then show ?thesis using ok c by (simp add: open_boundary_conversion_def del: get_None)
    next
      case (Some x)
      then show ?thesis using ok c unfolding open_boundary_conversion_def Let_def
        by (cases "cl_source x = SurfReading")
          (auto simp del: get_Some split: sum.split split del: if_split intro!: opened)
    qed
  qed
qed

section \<open>Candidate windows\<close>

lemma open_ready_ok:
  assumes ok: "model_ok m" and i: "cv_selected m < length (cv_clauses m)"
    and cc: "map_of (cv_cache m) (cl_id (cv_clauses m ! cv_selected m)) = Some cc"
    and bounds: "cc_start cc = cl_start (cv_clauses m ! cv_selected m)" "cc_end cc = cl_end (cv_clauses m ! cv_selected m)"
    and xs: "cc_candidates cc = xs"
  shows "\<exists>m'. open_ready m xs = Some m' \<and> model_ok m'"
proof -
  let ?c = "cv_clauses m ! cv_selected m"
  let ?P = "\<lambda>x. ca_surface x = cl_surface ?c \<and> ca_reading_end x = cl_end ?c"
  have l: "list_ok (cv_reading m) (cc_start cc) (cc_end cc) xs" using ok cc xs by (auto simp: model_ok_def cache_ok_def)
  then have ne: "xs \<noteq> []" by (simp add: list_ok_def)
  define k where "k = (case position ?P xs of Some j \<Rightarrow> j | None \<Rightarrow> 0)"
  have k: "k < length xs" using ne position_SomeD [of ?P xs] by (auto simp: k_def split: option.split)
  let ?m = "m\<lparr>cv_window := WinReady (cl_id ?c) xs k\<rparr>"
  have w: "window_ok ?m"
    using k cc bounds l i unfolding window_ok_def by (auto intro!: exI [of _ ?c])
  have "model_ok ?m"
    by (rule opened_ok [OF ok])
      (use w ok in \<open>auto simp: model_ok_def boundary_ok_def\<close>)
  moreover have "open_ready m xs = Some ?m" using i by (simp add: open_ready_def k_def)
  ultimately show ?thesis by simp
qed

lemma open_candidates_ok:
  assumes ok: "model_ok m"
  shows "\<exists>m' q. open_candidates m rid now = Some (m', q) \<and> model_ok m' \<and>
    (\<forall>r. q = Some r \<longrightarrow> rk_request_id (cq_key r) = rid \<and> (\<exists>ic. map_of (cv_issued m') rid = Some ic \<and> ic_request ic = r
      \<and> request_ok m' ic \<and> ic_conversion ic = None))"
proof (cases "cv_mode m \<noteq> ModeConverting \<or> cv_clauses m = [] \<or> cv_window m \<noteq> WinClosed")
  case True
  then show ?thesis using ok by (simp add: open_candidates_def)
next
  case c: False
  have cl: "clauses_ok m" using ok by simp
  have i: "cv_selected m < length (cv_clauses m)" using cl c by (auto simp: clauses_ok_def)
  let ?c = "cv_clauses m ! cv_selected m"
  define m1 where "m1 = m\<lparr>cv_user_driven := True, cv_cancel_stage := CancelNone\<rparr>"
  have f: "cv_window m1 = WinClosed" "cv_selected m1 = cv_selected m" "cv_clauses m1 = cv_clauses m" "cv_cache m1 = cv_cache m"
    using c by (simp_all add: m1_def)
  have ok1: "model_ok m1"
    by (rule tables_frame [OF ok]) (use cl c in \<open>auto simp: m1_def clauses_ok_def\<close>)
  let ?q = "candidates_request_for m1 ?c rid"
  let ?ic = "\<lparr>ic_request = ?q, ic_deadline = now + request_timeout_ms, ic_conversion = None,
     ic_rebaseline_used = False, ic_advance = 0\<rparr>"
  let ?m = "m1\<lparr>cv_last_request_id := rid, cv_issued := AList.update rid ?ic (cv_issued m1),
     cv_window := WinLoading (cq_key ?q)\<rparr>"
  have q: "request_ok m1 ?ic" by (rule own_request_ok [of m1 ?c]) (use ok1 i f in auto)
  have okm: "model_ok ?m"
    by (rule opened_ok [OF ok1]) (use q ok1 in \<open>auto simp: update_conv' model_ok_def boundary_ok_def split: if_splits\<close>)
  have qm: "request_ok ?m ?ic" using q by (simp add: request_ok_def)
  let ?fresh = "if rid \<le> cv_last_request_id m1 then (m1, None) else (?m, Some ?q)"
  have fresh: "\<exists>m' q. Some ?fresh = Some (m', q) \<and> model_ok m' \<and>
    (\<forall>r. q = Some r \<longrightarrow> rk_request_id (cq_key r) = rid \<and> (\<exists>ic. map_of (cv_issued m') rid = Some ic \<and> ic_request ic = r
      \<and> request_ok m' ic \<and> ic_conversion ic = None))"
    using ok1 okm qm by (auto simp: update_conv' candidates_request_for_def)
  show ?thesis
  proof (cases "\<exists>cc. map_of (cv_cache m1) (cl_id ?c) = Some cc \<and> cc_start cc = cl_start ?c \<and> cc_end cc = cl_end ?c
      \<and> cc_preceding cc = preceding_of m1 (cv_selected m1)")
    case True
    then obtain cc where cc: "map_of (cv_cache m1) (cl_id ?c) = Some cc" "cc_start cc = cl_start ?c" "cc_end cc = cl_end ?c"
      "cc_preceding cc = preceding_of m1 (cv_selected m1)" by blast
    from open_ready_ok [OF ok1, of cc] obtain m2 where "open_ready m1 (cc_candidates cc) = Some m2" "model_ok m2"
      using cc i f by auto
    then have "open_candidates m rid now = Some (m2, None)"
      using c i cc f unfolding open_candidates_def m1_def [symmetric] by (simp add: Let_def)
    then show ?thesis using \<open>model_ok m2\<close> by simp
  next
    case False
    have "open_candidates m rid now = Some ?fresh"
      using c i False f unfolding open_candidates_def m1_def [symmetric]
      by (auto simp: Let_def split: option.split)
    with fresh show ?thesis by simp
  qed
qed

section \<open>Selecting a candidate\<close>

lemma replacements_ok:
  assumes r: "candidate_replacements m c x e = Some (new, nx)"
    and x: "cl_start c < ca_reading_end x" "ca_reading_end x \<le> e" "legal (cv_reading m) (ca_reading_end x)"
      "legal (cv_reading m) e"
  shows "tiles (cl_start c) (map span new) (if cl_end c \<noteq> ca_reading_end x then e else ca_reading_end x)"
    and "\<forall>d\<in>set new. legal (cv_reading m) (cl_end d) \<and> surface_ok (cv_reading m) d"
    and "\<exists>d ds. new = d # ds \<and> cl_id d = cl_id c \<and> cl_start d = cl_start c \<and>
      (ds = [] \<and> nx = cv_next_clause_id m
       \<or> (\<exists>f d'. ds = [d'] \<and> cl_id d' = f \<and> cv_next_clause_id m = Some f \<and> nx = Some (f + 1)))"
proof -
  let ?split = "cl_end c \<noteq> ca_reading_end x \<and> ca_reading_end x < e"
  let ?d = "c\<lparr>cl_end := ca_reading_end x, cl_surface := ca_surface x, cl_source := chosen_source x\<rparr>"
  have d: "surface_ok (cv_reading m) ?d" by (simp add: surface_ok_def chosen_source_def)
  have "tiles (cl_start c) (map span new) (if cl_end c \<noteq> ca_reading_end x then e else ca_reading_end x)
    \<and> (\<forall>d\<in>set new. legal (cv_reading m) (cl_end d) \<and> surface_ok (cv_reading m) d)
    \<and> (\<exists>d ds. new = d # ds \<and> cl_id d = cl_id c \<and> cl_start d = cl_start c \<and>
      (ds = [] \<and> nx = cv_next_clause_id m
       \<or> (\<exists>f d'. ds = [d'] \<and> cl_id d' = f \<and> cv_next_clause_id m = Some f \<and> nx = Some (f + 1))))"
  proof (cases ?split)
    case True
    then obtain f where f: "cv_next_clause_id m = Some f" "nx = Some (f + 1)"
      "new = [?d, \<lparr>cl_id = f, cl_start = ca_reading_end x, cl_end = e,
        cl_surface = slice_of (ca_reading_end x) e (cv_reading m), cl_source = SurfReading\<rparr>]"
      using r by (auto simp: candidate_replacements_def Let_def reading_slice_Some split: option.splits)
    then show ?thesis using True x d by (auto simp: surface_ok_def)
  next
    case False
    then have "new = [?d]" "nx = cv_next_clause_id m"
      using r by (auto simp: candidate_replacements_def Let_def)
    then show ?thesis using False x d by auto
  qed
  then show "tiles (cl_start c) (map span new) (if cl_end c \<noteq> ca_reading_end x then e else ca_reading_end x)"
    "\<forall>d\<in>set new. legal (cv_reading m) (cl_end d) \<and> surface_ok (cv_reading m) d"
    "\<exists>d ds. new = d # ds \<and> cl_id d = cl_id c \<and> cl_start d = cl_start c \<and>
      (ds = [] \<and> nx = cv_next_clause_id m
       \<or> (\<exists>f d'. ds = [d'] \<and> cl_id d' = f \<and> cv_next_clause_id m = Some f \<and> nx = Some (f + 1)))"
    by blast+
qed

lemma select_candidate_cases:
  assumes "snd (select_candidate m0 index)"
  obtains ident xs cur cc k new nx m c x where
    "m = m0\<lparr>cv_cancel_stage := CancelNone\<rparr>" "cv_window m = WinReady ident xs cur" "index < length xs"
    "cv_selected m < length (cv_clauses m)" "c = cv_clauses m ! cv_selected m" "x = xs ! index" "cl_id c = ident"
    "cv_revision m + 1 \<le> u64_max" "map_of (cv_cache m) ident = Some cc"
    "position (\<lambda>d. cl_end d = cc_end cc) (drop (cv_selected m) (cv_clauses m)) = Some k"
    "candidate_replacements m c x (cc_end cc) = Some (new, nx)"
    "cv_reading (fst (select_candidate m0 index)) = cv_reading m"
    "cv_clauses (fst (select_candidate m0 index)) = splice (cv_selected m)
       (if cl_end c \<noteq> ca_reading_end x then cv_selected m + k + 1 else cv_selected m + 1) new (cv_clauses m)"
    "cv_next_clause_id (fst (select_candidate m0 index)) = nx"
    "cv_selected (fst (select_candidate m0 index)) = cv_selected m"
    "cv_window (fst (select_candidate m0 index)) = WinReady ident xs index"
    "cv_revision (fst (select_candidate m0 index)) = cv_revision m + 1"
    "cv_issued (fst (select_candidate m0 index)) = []"
    "cv_boundary_request (fst (select_candidate m0 index)) = cv_boundary_request m"
    "cv_cache (fst (select_candidate m0 index)) = filter (\<lambda>(k, _). k \<in> cl_id ` set (take (Suc (cv_selected m))
       (cv_clauses (fst (select_candidate m0 index))))) (cv_cache m)"
proof -
  define m where "m = m0\<lparr>cv_cancel_stage := CancelNone\<rparr>"
  note defs = select_candidate_def m_def [symmetric] Let_def
  obtain ident xs cur where w: "cv_window m = WinReady ident xs cur"
    using assms by (cases "cv_window m") (auto simp: defs)
  have i: "index < length xs" "cv_selected m < length (cv_clauses m)"
    using assms w by (auto simp: defs split: option.splits)
  let ?c = "cv_clauses m ! cv_selected m" and ?x = "xs ! index"
  have c: "cl_id ?c = ident" by (rule ccontr) (use assms w i in \<open>simp add: defs\<close>)
  have rv: "cv_revision m + 1 \<le> u64_max"
    by (rule ccontr) (use assms w i c in \<open>simp add: defs checked_add_u64_def\<close>)
  obtain cc where cc: "map_of (cv_cache m) ident = Some cc"
    using assms w i c rv by (cases "map_of (cv_cache m) ident") (simp_all add: defs)
  let ?pos = "position (\<lambda>d. cl_end d = cc_end cc) (drop (cv_selected m) (cv_clauses m))"
  obtain k where k: "?pos = Some k"
    using assms w i c rv cc by (cases ?pos) (simp_all add: defs del: position_None)
  obtain new nx where r: "candidate_replacements m ?c ?x (cc_end cc) = Some (new, nx)"
    using assms w i c rv cc k by (cases "candidate_replacements m ?c ?x (cc_end cc)") (auto simp: defs)
  show thesis
    by (rule that [OF m_def w i refl refl c rv cc k r])
      (use w i c rv cc k r in \<open>simp_all add: defs\<close>)
qed

text \<open>Every refusal returns the state with only the cancel stage reset.\<close>

definition outcome :: "'a \<Rightarrow> 'a \<times> bool \<Rightarrow> bool" where
  "outcome m r \<longleftrightarrow> snd r \<or> fst r = m"

lemma outcome_intros:
  "outcome m (m, False)" "outcome m (n, True)"
  "outcome m u \<Longrightarrow> outcome m v \<Longrightarrow> outcome m (if c then u else v)"
  "outcome m u \<Longrightarrow> (\<And>x. outcome m (f x)) \<Longrightarrow> outcome m (case_option u f opt)"
  "(\<And>x y. outcome m (g x y)) \<Longrightarrow> outcome m (case_prod g p)"
  "outcome m u \<Longrightarrow> (\<And>k. outcome m (h k)) \<Longrightarrow> (\<And>i xs k. outcome m (r i xs k))
   \<Longrightarrow> outcome m (case_candidate_window u h r w)"
  by (auto simp: outcome_def split: if_split option.split prod.split candidate_window.split)

lemma select_outcome:
  "snd (select_candidate m index) \<or> fst (select_candidate m index) = m\<lparr>cv_cancel_stage := CancelNone\<rparr>"
  unfolding select_candidate_def Let_def outcome_def [symmetric]
  by (intro outcome_intros)

lemma select_candidate_ok:
  assumes ok: "model_ok m0"
  shows "model_ok (fst (select_candidate m0 index))"
proof (cases "snd (select_candidate m0 index)")
  case False
  then show ?thesis using select_outcome [of m0 index] cancel_stage_ok [OF ok] by auto
next
  case True
  let ?m = "fst (select_candidate m0 index)"
  from True show ?thesis
  proof (rule select_candidate_cases)
    fix ident xs cur cc k new nx m c x
    assume m: "m = m0\<lparr>cv_cancel_stage := CancelNone\<rparr>" and w: "cv_window m = WinReady ident xs cur"
      and i: "index < length xs" "cv_selected m < length (cv_clauses m)" and c: "c = cv_clauses m ! cv_selected m"
      and x: "x = xs ! index" and id_c: "cl_id c = ident" and cc: "map_of (cv_cache m) ident = Some cc"
      and k: "position (\<lambda>d. cl_end d = cc_end cc) (drop (cv_selected m) (cv_clauses m)) = Some k"
      and r: "candidate_replacements m c x (cc_end cc) = Some (new, nx)"
      and f: "cv_reading ?m = cv_reading m" "cv_clauses ?m = splice (cv_selected m)
         (if cl_end c \<noteq> ca_reading_end x then cv_selected m + k + 1 else cv_selected m + 1) new (cv_clauses m)"
        "cv_next_clause_id ?m = nx" "cv_selected ?m = cv_selected m" "cv_window ?m = WinReady ident xs index"
        "cv_revision ?m = cv_revision m + 1" "cv_issued ?m = []" "cv_boundary_request ?m = cv_boundary_request m"
        "cv_cache ?m = filter (\<lambda>(k, _). k \<in> cl_id ` set (take (Suc (cv_selected m)) (cv_clauses ?m))) (cv_cache m)"
    have okm: "model_ok m" unfolding m by (rule cancel_stage_ok [OF ok])
    have cl: "clauses_ok m" and lay: "layout_ok (cv_reading m) (cv_clauses m)"
      using okm by (auto simp: model_ok_def clauses_ok_def)
    let ?i = "cv_selected m" and ?cs = "cv_clauses m" and ?r = "cv_reading m"
    let ?j = "if cl_end c \<noteq> ca_reading_end x then ?i + k + 1 else ?i + 1"
    have c_in: "c \<in> set ?cs" using c i by simp
    from okm w cc obtain d where d: "d \<in> set ?cs" "cl_id d = ident" "cl_start d = cc_start cc"
      and lx: "list_ok ?r (cc_start cc) (cc_end cc) xs"
      by (auto simp: model_ok_def window_ok_def)
    have start: "cl_start c = cc_start cc" using ids_unique [OF cl d(1) c_in] d id_c by simp
    from lx have xb: "cl_start c < ca_reading_end x" "ca_reading_end x \<le> cc_end cc" "legal ?r (ca_reading_end x)"
      using i(1) x start by (auto simp: list_ok_def)
    have kk: "?i + k < length ?cs" "cl_end (?cs ! (?i + k)) = cc_end cc"
      using position_SomeD [OF k] by auto
    have le: "legal ?r (cc_end cc)" using clauses_ok_selected(3) [OF cl kk(1)] kk(2) by simp
    note new = replacements_ok [OF r xb le]
    obtain n0 ns where n: "new = n0 # ns" "cl_id n0 = cl_id c" "cl_start n0 = cl_start c"
      using new(3) by blast
    have j: "?i \<le> ?j" "?j \<le> length ?cs" using kk i by auto
    have bj: "(if cl_end c \<noteq> ca_reading_end x then cc_end cc else ca_reading_end x) = bound_at ?r ?cs ?j"
      using layout_end(1) [OF lay kk(1)] layout_end(1) [OF lay i(2)] kk(2) c by auto
    have cl': "clauses_ok ?m"
    proof (rule clauses_ok_splice [OF cl j, of new])
      show "tiles (bound_at ?r ?cs ?i) (map span new) (bound_at ?r ?cs ?j)"
        using new(1) i(2) c unfolding bj by (simp add: bound_at_def)
      have mid: "cl_id c \<in> cl_id ` set (take (?j - ?i) (drop ?i ?cs))"
        using c i(2) by (auto simp: in_set_conv_nth intro!: exI [of _ 0] imageI)
      have less: "cl_id c < v" if "cv_next_clause_id m = Some v" for v
        using cl c_in that by (auto simp: clauses_ok_def ids_ok_def)
      from new(3) consider (one) d where "new = [d]" "cl_id d = cl_id c" "nx = cv_next_clause_id m"
        | (two) d d' v where "new = [d, d']" "cl_id d = cl_id c" "cl_id d' = v" "cv_next_clause_id m = Some v" "nx = Some (v + 1)"
        by blast
      then show "ids_ok (splice ?i ?j new ?cs) (cv_next_clause_id ?m)"
        unfolding f(3)
      proof cases
        case one
        then show "ids_ok (splice ?i ?j new ?cs) nx"
          using mid less cl by (intro ids_splice [OF _ j(1), of _ "cv_next_clause_id m"]) (auto simp: clauses_ok_def)
      next
        case two
        then show "ids_ok (splice ?i ?j new ?cs) nx"
          using mid less [of v] cl
          by (intro ids_splice [OF _ j(1), of _ "cv_next_clause_id m"]) (auto simp: clauses_ok_def less_SucI)
      qed
      show "cv_clauses ?m = [] \<or> cv_selected ?m < length (cv_clauses ?m)"
        unfolding f(2,4) by (rule disjI2, rule selected_in_splice [OF j]) (simp add: n)
    qed (use new(2) f in auto)
    have at: "cv_clauses ?m ! ?i = n0" "?i < length (cv_clauses ?m)"
      unfolding f(2) n(1) by (rule splice_nth [OF i(2)]) (rule selected_in_splice [OF j], simp)
    have kept: "ident \<in> cl_id ` set (take (Suc ?i) (cv_clauses ?m))"
      using at n(2) id_c by (auto simp: in_set_conv_nth image_iff intro!: exI [of _ ?i] bexI [of _ n0])
    have n_in: "n0 \<in> set (cv_clauses ?m)" using at by (auto simp: in_set_conv_nth)
    have cc': "map_of (cv_cache ?m) ident = Some cc" using kept cc by (simp add: f(9) filtered_cache)
    have "\<not> current_request ?m" by (simp add: current_request_def f(7))
    then have "window_ok ?m"
      unfolding window_ok_def f(1,5) using i(1) cc' n_in n start id_c lx
      by (auto intro!: exI [of _ n0])
    moreover have "cache_ok ?m"
      using okm unfolding model_ok_def cache_ok_def f(1) by (auto simp: f(9) filtered_cache split: if_splits)
    moreover have "boundary_ok ?m"
      by (rule boundary_kept [of m]) (use okm f in \<open>auto simp: model_ok_def\<close>)
    ultimately show ?thesis using cl' f(7) by (simp add: model_ok_def issued_ok_def)
  qed
qed

text \<open>Operations that may panic: \<open>sound\<close> says that they return, in a state that satisfies the invariant.\<close>

definition sound :: "(clause_conversion \<times> 'a) option \<Rightarrow> bool" where
  "sound r \<longleftrightarrow> (\<exists>m x. r = Some (m, x) \<and> model_ok m)"

lemma sound_simps [simp]:
  "sound None = False" "sound (Some (m, x)) = model_ok m" "sound (Some p) = model_ok (fst p)"
  by (auto simp: sound_def) (cases p, auto)

lemma sound_map: "sound r \<Longrightarrow> (\<And>m x. fst (f (m, x)) = m) \<Longrightarrow> sound (map_option f r)"
  by (auto simp: sound_def) (metis prod.exhaust_sel)

lemma sound_if: "(c \<Longrightarrow> sound u) \<Longrightarrow> (\<not> c \<Longrightarrow> sound v) \<Longrightarrow> sound (if c then u else v)"
  by simp

lemma sound_option:
  "(x = None \<Longrightarrow> sound u) \<Longrightarrow> (\<And>y. x = Some y \<Longrightarrow> sound (v y)) \<Longrightarrow> sound (case x of None \<Rightarrow> u | Some y \<Rightarrow> v y)"
  by (cases x) auto

lemma sound_Some: "model_ok m \<Longrightarrow> sound (Some (m, x))"
  by simp

lemmas sound_intros = sound_if sound_option sound_Some

lemma advance_candidate_ok:
  assumes "model_ok m"
  shows "sound (advance_candidate m d)"
proof (cases "cv_window m")
  case (WinReady i xs k)
  then have "xs \<noteq> []" using assms by (auto simp: model_ok_def window_ok_def)
  then show ?thesis using WinReady select_candidate_ok [OF assms] by (simp add: advance_candidate_def)
qed (use assms in \<open>simp_all add: advance_candidate_def\<close>)

lemma issued_advance_ok:
  assumes ok: "model_ok m" and i: "map_of (cv_issued m) i = Some ic"
  shows "model_ok (m\<lparr>cv_issued := AList.update i (ic\<lparr>ic_advance := d\<rparr>) (cv_issued m)\<rparr>)" (is "model_ok ?m")
proof (rule opened_ok [OF ok])
  have "request_ok m ic" using ok i by (auto simp: model_ok_def issued_ok_def)
  then have "request_ok m (ic\<lparr>ic_advance := d\<rparr>)" by (simp add: request_ok_def)
  then show "map_of (cv_issued m) j = Some x \<or> request_ok m x" if "map_of (cv_issued ?m) j = Some x" for j x
    using that by (auto simp: update_conv' split: if_splits)
  have "current_request ?m \<Longrightarrow> current_request m"
    using i unfolding current_request_def by (auto simp: update_conv' split: if_splits)
  then show "window_ok ?m"
    using ok unfolding model_ok_def window_ok_def by (cases "cv_window m") auto
qed (use ok in \<open>auto simp: model_ok_def boundary_ok_def\<close>)

lemma cycle_candidate_ok:
  assumes ok: "model_ok m"
  shows "sound (cycle_candidate m rid d now)"
proof (cases "\<exists>i xs k. cv_window m = WinReady i xs k")
  case True
  then show ?thesis using advance_candidate_ok [OF ok, of d]
    by (auto simp: cycle_candidate_def intro!: sound_map)
next
  case False
  from open_candidates_ok [OF ok, of rid now] obtain m1 q where o: "open_candidates m rid now = Some (m1, q)"
    and ok1: "model_ok m1"
    and q: "\<And>r. q = Some r \<Longrightarrow> \<exists>ic. map_of (cv_issued m1) (rk_request_id (cq_key r)) = Some ic" by blast
  have rest: "cycle_candidate m rid d now = (case q of
      Some r \<Rightarrow> (case map_of (cv_issued m1) (rk_request_id (cq_key r)) of
          None \<Rightarrow> None
        | Some ic \<Rightarrow> Some (m1\<lparr>cv_issued := AList.update (rk_request_id (cq_key r)) (ic\<lparr>ic_advance := d\<rparr>)
            (cv_issued m1)\<rparr>, Some r))
    | None \<Rightarrow> (case cv_window m1 of
          WinReady _ _ _ \<Rightarrow> map_option (\<lambda>(m2, _). (m2, None)) (advance_candidate m1 d)
        | _ \<Rightarrow> Some (m1, None)))"
    using False o by (cases "cv_window m"; cases q) (simp_all add: cycle_candidate_def)
  show ?thesis
  proof (cases q)
    case None
    then show ?thesis unfolding rest using ok1 advance_candidate_ok [OF ok1, of d]
      by (auto split: candidate_window.split intro!: sound_map)
  next
    case (Some r)
    with q obtain ic where ic: "map_of (cv_issued m1) (rk_request_id (cq_key r)) = Some ic" by blast
    then show ?thesis unfolding rest using Some issued_advance_ok [OF ok1 ic] by simp
  qed
qed

section \<open>Candidate replies\<close>

lemma list_ok_anchor:
  assumes cl: "clauses_ok m" and l: "list_ok (cv_reading m) s e xs"
    and c: "\<And>c. c \<in> set (cv_clauses m) \<Longrightarrow> cl_id c = i \<Longrightarrow> cl_start c = s \<and> cl_end c = e"
  shows "list_ok (cv_reading m) s e (anchor_candidates m i xs)"
proof (cases "find (\<lambda>c. cl_id c = i) (cv_clauses m)")
  case None
  then show ?thesis using l by (simp add: anchor_candidates_def)
next
  case (Some d)
  then have d: "d \<in> set (cv_clauses m)" "cl_id d = i" by (auto dest: find_mem)
  have b: "s < e" "legal (cv_reading m) e"
    using clause_ends [OF cl d(1)] c [OF d] cl d(1) by (auto simp: clauses_ok_def layout_ok_def)
  let ?P = "\<lambda>x. ca_surface x = cl_surface d \<and> ca_reading_end x = cl_end d"
  show ?thesis
  proof (cases "cl_source d = SurfReading")
    case True
    then show ?thesis using l Some by (simp add: anchor_candidates_def)
  next
    case False
    show ?thesis
    proof (cases "position ?P xs")
      case None
      then show ?thesis using l Some False b c [OF d]
        by (auto simp: anchor_candidates_def list_ok_def anchor_of_def simp del: position_None)
    next
      case (Some k)
      then have "xs ! k \<in> set xs" by (auto dest: position_SomeD)
      then show ?thesis using l \<open>find _ _ = Some d\<close> False Some
        by (auto simp: anchor_candidates_def list_ok_def dest: in_set_takeD in_set_dropD)
    qed
  qed
qed

lemma store_candidates_ok:
  assumes ok: "model_ok m" and issued: "map_of (cv_issued m) (rk_request_id key) = Some ic"
    and key: "cq_key (ic_request ic) = key" "rk_conversion_revision key = cv_revision m"
    and v: "validate_candidates (ic_request ic) xs = Inr ()"
  shows "sound (store_candidates m key ic xs)"
proof -
  let ?q = "ic_request ic" and ?i = "rk_clause_id key"
  have cl: "clauses_ok m" using ok by simp
  have "request_ok m ic" using ok issued by (auto simp: model_ok_def issued_ok_def)
  then have rd: "cq_reading ?q = cv_reading m"
    and at: "\<And>c. c \<in> set (cv_clauses m) \<Longrightarrow> cl_id c = ?i \<Longrightarrow> cl_start c = cq_reading_start ?q \<and> cl_end c = cq_reading_end ?q"
    using key by (auto simp: request_ok_def Let_def)
  let ?ys = "anchor_candidates m ?i xs"
  have "list_ok (cv_reading m) (cq_reading_start ?q) (cq_reading_end ?q) xs"
    using validate_candidates_Inr [OF v] rd by (auto simp: list_ok_def)
  then have l: "list_ok (cv_reading m) (cq_reading_start ?q) (cq_reading_end ?q) ?ys"
    by (rule list_ok_anchor [OF cl]) (rule at)
  let ?cc = "\<lparr>cc_start = cq_reading_start ?q, cc_end = cq_reading_end ?q,
    cc_preceding = cq_preceding_surfaces ?q, cc_candidates = ?ys\<rparr>"
  define m1 where "m1 = m\<lparr>cv_cache := AList.update ?i ?cc (cv_cache m),
    cv_issued := AList.delete (rk_request_id key) (cv_issued m)\<rparr>"
  have f: "cv_reading m1 = cv_reading m" "cv_clauses m1 = cv_clauses m" "cv_revision m1 = cv_revision m"
    "cv_selected m1 = cv_selected m" "cv_window m1 = cv_window m" by (simp_all add: m1_def)
  have cache1: "cache_ok m1" and rest1: "clauses_ok m1" "issued_ok m1" "boundary_ok m1"
    using ok l by (auto simp: m1_def model_ok_def cache_ok_def clauses_ok_def issued_ok_def boundary_ok_def
        request_ok_def update_conv' delete_conv' split: if_splits)
  have cur: "current_request m" using issued key by (auto simp: current_request_def)
  have less: "current_request m1 \<Longrightarrow> current_request m"
    by (auto simp: current_request_def m1_def delete_conv' split: if_splits)
  have look: "map_of (cv_cache m1) j = (if j = ?i then Some ?cc else map_of (cv_cache m) j)" for j
    by (simp add: m1_def update_conv')
  have "window_ok m1"
  proof (cases "cv_window m")
    case (WinReady ident ys k)
    with ok obtain cc c where w: "k < length ys" "map_of (cv_cache m) ident = Some cc" "c \<in> set (cv_clauses m)"
      "cl_id c = ident" "cl_start c = cc_start cc" "list_ok (cv_reading m) (cc_start cc) (cc_end cc) ys"
      "cc_end cc = cl_end c"
      using cur by (auto simp: model_ok_def window_ok_def)
    have "\<exists>cc c. map_of (cv_cache m1) ident = Some cc \<and> c \<in> set (cv_clauses m) \<and> cl_id c = ident
        \<and> cl_start c = cc_start cc \<and> list_ok (cv_reading m) (cc_start cc) (cc_end cc) ys \<and> cc_end cc = cl_end c"
    proof (cases "ident = ?i")
      case True
      then show ?thesis using w at [OF w(3)] by (intro exI [of _ ?cc] exI [of _ c]) (auto simp: look)
    next
      case False
      then show ?thesis using w by (intro exI [of _ cc] exI [of _ c]) (auto simp: look)
    qed
    then show ?thesis using WinReady w(1) unfolding window_ok_def f by auto
  qed (simp_all add: window_ok_def f)
  with cache1 rest1 have ok1: "model_ok m1" by (simp add: model_ok_def)
  show ?thesis
  proof (cases "selected_is m1 ?i \<and> cv_window m1 = WinLoading key")
    case True
    then have i: "cv_selected m1 < length (cv_clauses m1)" "cl_id (cv_clauses m1 ! cv_selected m1) = ?i"
      by (auto simp: selected_is_def split: option.splits)
    then have b: "cl_start (cv_clauses m1 ! cv_selected m1) = cq_reading_start ?q"
      "cl_end (cv_clauses m1 ! cv_selected m1) = cq_reading_end ?q"
      using at [of "cv_clauses m1 ! cv_selected m1"] f by auto
    from open_ready_ok [OF ok1 i(1), of ?cc] obtain m2 where m2: "open_ready m1 ?ys = Some m2" "model_ok m2"
      using i(2) b look by auto
    have "sound (map_option (\<lambda>(m3, _). (m3, True)) (advance_candidate m2 (ic_advance ic)))"
      by (rule sound_map [OF advance_candidate_ok [OF m2(2)]]) simp
    then show ?thesis using True m2 unfolding store_candidates_def m1_def [symmetric] Let_def by simp
  next
    case False
    then show ?thesis using ok1 unfolding store_candidates_def m1_def [symmetric] Let_def
      by (simp only: if_not_P sound_simps split: if_split) (simp add: False)
  qed
qed

lemma accept_candidates_ok:
  assumes ok: "model_ok m"
  shows "sound (accept_candidates m key status now)"
proof (cases "map_of (cv_issued m) (rk_request_id key)")
  case None
  then show ?thesis using ok by (simp add: accept_candidates_def)
next
  case (Some ic)
  show ?thesis
  proof (cases "cq_key (ic_request ic) \<noteq> key \<or> cv_identity m \<noteq> rk_identity key
      \<or> cv_baseline m \<noteq> rk_baseline key \<or> cv_revision m \<noteq> rk_conversion_revision key")
    case True
    then show ?thesis using ok Some by (simp add: accept_candidates_def)
  next
    case False
    then have "validate_candidates (ic_request ic) xs = Inr () \<Longrightarrow> sound (store_candidates m key ic xs)" for xs
      using store_candidates_ok [OF ok Some] by simp
    then show ?thesis using ok Some False end_request_ok [OF ok, of key]
      by (cases status) (auto simp: accept_candidates_def)
  qed
qed

lemma accept_with_identity_ok:
  assumes ok: "model_ok m"
  shows "sound (accept_candidates_with_identity m key status i now)"
proof (cases status)
  case (CandReady xs)
  let ?n = "\<lambda>j ic. (invalidate_learning m)\<lparr>cv_learning_identity := Some j,
      cv_issued := AList.update (rk_request_id key) ic (cv_issued ((invalidate_learning m)\<lparr>cv_learning_identity := Some j\<rparr>))\<rparr>"
  have upd: "model_ok (if cv_window m = WinLoading key then (?n j ic)\<lparr>cv_window := WinLoading key\<rparr> else ?n j ic)"
    if "map_of (cv_issued m) (rk_request_id key) = Some ic" for ic j
  proof -
    have *: "model_ok ((invalidate_learning m)\<lparr>cv_issued := AList.update (rk_request_id key) ic [], cv_window := w,
        cv_learning_identity := Some j\<rparr>)" if "w = WinClosed \<or> w = WinLoading key" for w
      by (rule invalidated_ok [OF ok]) (use that \<open>map_of _ _ = _\<close> in \<open>auto split: if_splits\<close>)
    have "(?n j ic)\<lparr>cv_window := WinLoading key\<rparr> = (invalidate_learning m)\<lparr>cv_issued := AList.update (rk_request_id key) ic [],
        cv_window := WinLoading key, cv_learning_identity := Some j\<rparr>"
      "?n j ic = (invalidate_learning m)\<lparr>cv_issued := AList.update (rk_request_id key) ic [],
        cv_window := WinClosed, cv_learning_identity := Some j\<rparr>"
      by (rule clause_conversion.equality; simp)+
    then show ?thesis using * [of WinClosed] * [of "WinLoading key"] by (simp only: split: if_split) simp
  qed
  have go: "sound (accept_candidates (if c then n else m) key (CandReady xs) now)" if "model_ok n" for c n
    using that ok by (simp add: accept_candidates_ok)
  show ?thesis
    unfolding accept_candidates_with_identity_def CandReady Let_def clause_candidates_status.case
    by (intro sound_intros ok end_request_ok) (rule go, rule upd)
qed (use accept_candidates_ok [OF ok] in \<open>simp_all add: accept_candidates_with_identity_def\<close>)

section \<open>Boundary conversion\<close>

lemma range_of_fields:
  assumes "map range_of cs = map range_of ds"
  shows "map span cs = map span ds \<and> map cl_id cs = map cl_id ds"
  using arg_cong [OF assms, of "map (\<lambda>r. (cr_reading_start r, cr_reading_end r))"]
    arg_cong [OF assms, of "map cr_id"]
  by (simp add: range_of_def o_def)

lemma range_of_triple:
  "map (\<lambda>r. (cr_id r, cr_reading_start r, cr_reading_end r)) (map range_of cs)
   = map (\<lambda>c. (cl_id c, cl_start c, cl_end c)) cs"
  by (simp add: range_of_def)

lemma map_fields:
  assumes "map (\<lambda>c. (f c, g c, h c)) xs = map (\<lambda>c. (f' c, g' c, h' c)) ys"
  shows "map f xs = map f' ys" "map (\<lambda>c. (g c, h c)) xs = map (\<lambda>c. (g' c, h' c)) ys"
  using arg_cong [OF assms, of "map fst"] arg_cong [OF assms, of "map snd"] by (simp_all add: o_def)

lemma convert_result_clauses:
  assumes "convert_validate_result q wires = Inr ()"
  obtains e where "\<forall>w\<in>set wires. clause_ok (vq_reading q) (legal (vq_reading q)) e w"
  using assms by (auto simp: convert_validate_result_def sum_case_Inr validate_clauses_Inr split: if_splits)

text \<open>A validated result takes the place of the clauses it was requested for.\<close>

lemma converted_ok:
  assumes cl: "clauses_ok m" and v: "convert_validate_result q wires = Inr ()"
    and r: "vq_reading q = cv_reading m"
    and same: "map range_of (take (length (vq_clauses q)) (drop start (cv_clauses m))) = vq_clauses q"
    and n: "n = min (length (cv_clauses m) - start) (length wires)"
  obtains ls where "locals_of_wire (take n wires) = Some ls"
    and "map range_of (take start (cv_clauses m) @ ls @ drop (start + n) (cv_clauses m)) = map range_of (cv_clauses m)"
    and "\<And>m'. cv_reading m' = cv_reading m \<Longrightarrow> cv_next_clause_id m' = cv_next_clause_id m
      \<Longrightarrow> cv_selected m' = cv_selected m
      \<Longrightarrow> cv_clauses m' = take start (cv_clauses m) @ ls @ drop (start + n) (cv_clauses m) \<Longrightarrow> clauses_ok m'"
proof -
  let ?cs = "cv_clauses m" and ?mid = "take n (drop start (cv_clauses m))"
  note t = convert_result_ranges [OF v, THEN conjunct1]
  have len: "length wires = length (vq_clauses q)" using arg_cong [OF t, of length] by simp
  then have n': "n = length wires" using n arg_cong [OF same, of length] by simp
  obtain e where ok: "\<forall>w\<in>set wires. clause_ok (cv_reading m) (legal (cv_reading m)) e w"
    using convert_result_clauses [OF v] r by auto
  then obtain ls where ls: "locals_of_wire wires = Some ls" using locals_of_wire_total [of wires] by blast
  have "map (\<lambda>c. (cl_id c, cl_start c, cl_end c)) ?mid
      = map (\<lambda>c. (wc_id c, wc_reading_start c, wc_reading_end c)) wires"
    unfolding t n' len range_of_triple [symmetric] same ..
  note f = map_fields [OF this]
  have "map cl_id ls = map cl_id ?mid" "map span ls = map span ?mid"
    using locals_of_wire_fields(1,2) [OF ls] f by (simp_all add: wire_ranges_def)
  then have "map range_of ls = map range_of ?mid"
    by (simp add: range_of_def list_eq_iff_nth_eq)
  then have rng: "map range_of (take start ?cs @ ls @ drop (start + n) ?cs) = map range_of ?cs"
    by (metis (no_types, lifting) append_take_drop_id drop_drop map_append add.commute)
  have surf: "\<forall>l\<in>set ls. surface_ok (cv_reading m) l" by (rule locals_of_wire_fields(4) [OF ls ok])
  show ?thesis
  proof (rule that [OF _ rng])
    show "locals_of_wire (take n wires) = Some ls" using ls n' by simp
    fix m' :: clause_conversion
    assume m': "cv_reading m' = cv_reading m" "cv_next_clause_id m' = cv_next_clause_id m"
      "cv_selected m' = cv_selected m" "cv_clauses m' = take start ?cs @ ls @ drop (start + n) ?cs"
    show "clauses_ok m'"
      by (rule clauses_ok_relabel [OF cl])
        (use m' range_of_fields [OF rng] surf cl in
          \<open>auto simp: clauses_ok_def dest: in_set_takeD in_set_dropD\<close>)
  qed
qed

lemma invalidate_ranges: "map range_of (cv_clauses (invalidate_learning m)) = map range_of (cv_clauses m)"
  by (auto simp: invalidate_learning_def range_of_def)

lemma close_window_empty: "cv_issued m = [] \<Longrightarrow> cv_issued (close_window m) = []"
  by (simp add: close_window_def Let_def split: candidate_window.split)

lemma accept_boundary_ok:
  assumes ok: "model_ok m"
  shows "sound (accept_boundary_conversion m key status learning now)"
proof -
  let ?go = "\<lambda>wires start q revision. (let m1 = (if cv_learning_identity m \<noteq> learning
                then (invalidate_learning m)\<lparr>cv_learning_identity := learning\<rparr> else m);
          n = min (length (cv_clauses m1) - start) (length wires)
      in case locals_of_wire (take n wires) of
        None \<Rightarrow> None
      | Some locals \<Rightarrow>
          Some (close_window
            (m1\<lparr>cv_clauses := take start (cv_clauses m1) @ locals @ drop (start + n) (cv_clauses m1),
                cv_revision := revision, cv_issued := [], cv_cache := []\<rparr>), True))"
  have go: "sound (?go wires start q revision)"
    if v: "convert_validate_result q wires = Inr ()" and r: "vq_reading q = cv_reading m"
      and same: "map range_of (take (length (vq_clauses q)) (drop start (cv_clauses m))) = vq_clauses q"
    for wires start q revision
  proof -
    define m1 where "m1 = (if cv_learning_identity m \<noteq> learning
        then (invalidate_learning m)\<lparr>cv_learning_identity := learning\<rparr> else m)"
    have m1: "clauses_ok m1" "cv_reading m1 = cv_reading m"
        "map range_of (cv_clauses m1) = map range_of (cv_clauses m)"
      using invalidate_ranges [of m] clauses_ok_frame [OF invalidated_clauses_ok [OF model_clauses [OF ok]]] ok
      by (auto simp: m1_def)
    have s: "map range_of (take (length (vq_clauses q)) (drop start (cv_clauses m1))) = vq_clauses q"
      using same m1(3) by (simp add: take_map [symmetric] drop_map [symmetric])
    have rr: "vq_reading q = cv_reading m1" using r m1(2) by simp
    show ?thesis
      unfolding Let_def m1_def [symmetric]
    proof (rule converted_ok [OF m1(1) v rr s refl])
      fix ls
      let ?n = "min (length (cv_clauses m1) - start) (length wires)"
      let ?m2 = "m1\<lparr>cv_clauses := take start (cv_clauses m1) @ ls @ drop (start + ?n) (cv_clauses m1),
                cv_revision := revision, cv_issued := [], cv_cache := []\<rparr>"
      assume ls: "locals_of_wire (take ?n wires) = Some ls"
        and c: "\<And>m'. cv_reading m' = cv_reading m1 \<Longrightarrow> cv_next_clause_id m' = cv_next_clause_id m1
          \<Longrightarrow> cv_selected m' = cv_selected m1
          \<Longrightarrow> cv_clauses m' = take start (cv_clauses m1) @ ls @ drop (start + ?n) (cv_clauses m1) \<Longrightarrow> clauses_ok m'"
      have "clauses_ok ?m2" by (rule c) simp_all
      then have "model_ok (close_window ?m2)"
        by (intro cleared_ok) (simp_all add: close_window_empty)
      then show "sound (case locals_of_wire (take ?n wires) of None \<Rightarrow> None
          | Some locals \<Rightarrow> Some (close_window
            (m1\<lparr>cv_clauses := take start (cv_clauses m1) @ locals @ drop (start + ?n) (cv_clauses m1),
                cv_revision := revision, cv_issued := [], cv_cache := []\<rparr>), True))"
        using ls by simp
    qed
  qed
  have rd: "vq_reading q = cv_reading m"
    if "cv_boundary_request m = Some p" "ic_conversion p = Some q" "rk_conversion_revision (vq_key q) = cv_revision m" for p q
    using ok that by (auto simp: model_ok_def boundary_ok_def)
  note close = close_window_ok [OF ok]
  show ?thesis
  proof (cases status)
    case (ConvReady wires)
    show ?thesis
      unfolding accept_boundary_conversion_def ConvReady convert_clauses_status.case Let_def [of "convert_validate_result _ _ = _ \<and> _"]
        Let_def [of "map _ _"]
      by (intro sound_intros ok close go) (auto intro: rd)
  next
    case ConvPending
    show ?thesis
      unfolding accept_boundary_conversion_def ConvPending convert_clauses_status.case
      by (intro sound_intros ok close)
  next
    case (ConvUnavailable u)
    show ?thesis
      unfolding accept_boundary_conversion_def ConvUnavailable convert_clauses_status.case
      by (intro sound_intros ok close)
  qed
qed

section \<open>Rebaseline\<close>

lemma prepare_rebaseline_ok:
  assumes ok: "model_ok m"
  shows "model_ok (fst (prepare_rebaseline m key sid cid now))"
proof -
  have "model_ok (m\<lparr>cv_last_request_id := i\<rparr>)" for i
    by (rule tables_frame [OF ok]) (use ok in \<open>auto simp: model_ok_def clauses_ok_def\<close>)
  then show ?thesis using ok by (auto simp: prepare_rebaseline_def Let_def split: option.splits)
qed

lemma kept_intros:
  "model_ok (fst u) \<Longrightarrow> model_ok (fst v) \<Longrightarrow> model_ok (fst (if c then u else v))"
  "model_ok m \<Longrightarrow> model_ok (fst (m, x))"
  by simp_all

lemma rebaseline_request_fields:
  assumes "rebaseline_request m attempt r = Some q"
  shows "vq_reading q = cv_reading m"
    and "rk_conversion_revision (vq_key q) = rk_conversion_revision (cq_key (ic_request (rb_original attempt)))"
    and "rk_clause_id (vq_key q) = rk_clause_id (cq_key (ic_request (rb_original attempt)))"
  using assms by (auto simp: rebaseline_request_def Let_def split: if_splits option.splits)

text \<open>The request of a rebaseline keeps the bounds of the request it stands for.\<close>

lemma rebased_state_ok:
  assumes ok: "model_ok m" and q: "rebaseline_request m attempt r = Some q"
    and rev: "cv_revision m = rk_conversion_revision (cq_key (ic_request (rb_original attempt)))"
    and orig: "\<not> rb_boundary attempt \<Longrightarrow> request_ok m issued \<and> ic_request issued = ic_request (rb_original attempt)"
    and p: "p = (rb_original attempt)\<lparr>ic_request := (ic_request (rb_original attempt))\<lparr>cq_key := vq_key q\<rparr>,
        ic_conversion := Some q, ic_rebaseline_used := True\<rparr>"
    and m2: "m2 = (invalidate_learning m)\<lparr>cv_identity := i, cv_baseline := b, cv_learning_identity := l\<rparr>"
  shows "model_ok ((if rb_boundary attempt then m2\<lparr>cv_boundary_request := Some p\<rparr>
      else m2\<lparr>cv_issued := AList.update k p (cv_issued m2)\<rparr>)\<lparr>cv_window := WinLoading (vq_key q)\<rparr>)"
    (is "model_ok ?m")
proof (rule opened_ok [of "invalidate_learning m"])
  show "model_ok (invalidate_learning m)" by (rule invalidate_learning_ok [OF ok])
  have f: "vq_reading q = cv_reading m" "rk_conversion_revision (vq_key q) = cv_revision m"
      "rk_clause_id (vq_key q) = rk_clause_id (cq_key (ic_request (rb_original attempt)))"
    using rebaseline_request_fields [OF q] rev by auto
  show "map_of (cv_issued (invalidate_learning m)) j = Some ic \<or> request_ok (invalidate_learning m) ic"
    if "map_of (cv_issued ?m) j = Some ic" for j ic
  proof -
    have b: "\<not> rb_boundary attempt" and ic: "ic = p"
      using that by (auto simp: m2 update_conv' split: if_splits)
    from orig [OF b] have "request_ok m p" using f rev by (auto simp: request_ok_def Let_def p)
    then show ?thesis using ic by (simp add: invalidate_request_ok)
  qed
  show "boundary_ok ?m" using f by (auto simp: m2 p boundary_ok_def)
qed (auto simp: m2 split: if_split_asm)

lemma accept_rebaseline_ok:
  assumes ok: "model_ok m"
  shows "model_ok (fst (accept_rebaseline m attempt resp learning now))"
proof (rule ccontr)
  assume bad: "\<not> ?thesis"
  let ?o = "ic_request (rb_original attempt)"
  obtain issued where i: "(if rb_boundary attempt then cv_boundary_request m
      else map_of (cv_issued m) (rk_request_id (cq_key ?o))) = Some issued"
    using bad ok by (cases "if rb_boundary attempt then cv_boundary_request m
      else map_of (cv_issued m) (rk_request_id (cq_key ?o))") (auto simp: accept_rebaseline_def Let_def)
  have e: "ic_request issued = ?o" "cv_revision m = rk_conversion_revision (cq_key ?o)"
    by (rule ccontr; use bad ok i in \<open>simp add: accept_rebaseline_def Let_def\<close>)+
  have r: "\<not> rb_boundary attempt \<Longrightarrow> request_ok m issued \<and> ic_request issued = ?o"
    using ok i e by (auto simp: model_ok_def issued_ok_def)
  obtain res where res: "resp = SnapshotResult res"
    using bad ok i by (cases resp) (auto simp: accept_rebaseline_def Let_def split: if_splits)
  obtain q where q: "rebaseline_request m attempt res = Some q"
    using bad ok i by (cases "rebaseline_request m attempt res") (auto simp: accept_rebaseline_def Let_def res split: if_splits)
  note * = rebased_state_ok [OF ok q e(2) r refl refl]
  have "model_ok (fst (accept_rebaseline m attempt resp learning now))"
    unfolding accept_rebaseline_def Let_def i res q option.case response.case
    by (intro kept_intros ok *)
  with bad show False by simp
qed

lemma revised_request_ok:
  assumes "request_ok m ic" and "cv_reading m' = cv_reading m" and "cv_clauses m' = cv_clauses m"
    and "cv_revision m < cv_revision m'"
  shows "request_ok m' ic"
  using assms by (auto simp: request_ok_def Let_def)

text \<open>A result that a rebased conversion accepted moves on to the candidates of a new revision.\<close>

lemma accept_rebased_ok:
  assumes ok: "model_ok m"
  shows "model_ok (fst (accept_rebased_conversion m key status learning cid now))"
proof -
  have go: "model_ok (m\<lparr>cv_revision := revision, cv_last_request_id := cid,
      cv_issued := AList.update cid (pending\<lparr>ic_conversion := None,
          ic_request := (ic_request pending)\<lparr>cq_key := key\<lparr>rk_conversion_revision := revision,
            rk_request_id := cid\<rparr>\<rparr>\<rparr>) (AList.delete (rk_request_id key) (cv_issued m)),
      cv_window := WinLoading k\<rparr>)" (is "model_ok ?m")
    if p: "map_of (cv_issued m) (rk_request_id key) = Some pending" and c: "ic_conversion pending = Some conv"
      "\<not> (vq_key conv \<noteq> key \<or> cv_identity m \<noteq> rk_identity key \<or> cv_baseline m \<noteq> rk_baseline key
        \<or> cv_revision m \<noteq> rk_conversion_revision key \<or> cv_window m \<noteq> WinLoading key
        \<or> \<not> selected_is m (rk_clause_id key))"
      and r: "checked_add_u64 (cv_revision m) 1 = Some revision" for pending conv revision k
  proof -
    have rev: "cv_revision m < revision" using r by (simp add: checked_add_u64_def split: if_splits)
    have "request_ok m pending" using ok p by (auto simp: model_ok_def issued_ok_def)
    then have new: "request_ok ?m (pending\<lparr>ic_conversion := None,
          ic_request := (ic_request pending)\<lparr>cq_key := key\<lparr>rk_conversion_revision := revision,
            rk_request_id := cid\<rparr>\<rparr>\<rparr>)"
      using c by (auto simp: request_ok_def Let_def)
    have old: "request_ok ?m ic" if "map_of (cv_issued m) i = Some ic" for i ic
      by (rule revised_request_ok [of m]) (use ok that rev in \<open>auto simp: model_ok_def issued_ok_def\<close>)
    have "issued_ok ?m" unfolding issued_ok_def
    proof (intro allI impI)
      fix i ic assume a: "map_of (cv_issued ?m) i = Some ic"
      show "request_ok ?m ic"
      proof (cases "i = cid")
        case True
        then show ?thesis using a new by (simp add: update_conv')
      next
        case False
        then have "map_of (cv_issued m) i = Some ic" using a by (simp add: update_conv' delete_conv' split: if_splits)
        then show ?thesis by (rule old)
      qed
    qed
    moreover have "boundary_ok ?m"
      using ok rev by (fastforce simp: model_ok_def boundary_ok_def)
    moreover have "clauses_ok ?m" using ok by (simp add: model_ok_def clauses_ok_def)
    moreover have "cache_ok ?m" "window_ok ?m" using ok by (auto simp: model_ok_def cache_ok_def window_ok_def)
    ultimately show ?thesis by (simp add: model_ok_def)
  qed
  have opt: "model_ok (fst u) \<Longrightarrow> (\<And>y. z = Some y \<Longrightarrow> model_ok (fst (v y)))
      \<Longrightarrow> model_ok (fst (case z of None \<Rightarrow> u | Some y \<Rightarrow> v y))"
    "(\<not> b \<Longrightarrow> model_ok (fst u)) \<Longrightarrow> (b \<Longrightarrow> model_ok (fst w)) \<Longrightarrow> model_ok (fst (if b then w else u))"
    for u w :: "clause_conversion \<times> clause_candidates_request option" and z :: "'z option" and v b
    by (cases z; simp) simp
  show ?thesis
  proof (cases status)
    case (ConvReady wires)
    show ?thesis
      unfolding accept_rebased_conversion_def ConvReady convert_clauses_status.case Let_def
      by (intro opt kept_intros(2) ok end_request_ok) (rule go; assumption)
  next
    case ConvPending
    show ?thesis unfolding accept_rebased_conversion_def ConvPending convert_clauses_status.case Let_def
      by (intro opt kept_intros(2) ok)
  next
    case (ConvUnavailable u)
    show ?thesis unfolding accept_rebased_conversion_def ConvUnavailable convert_clauses_status.case Let_def
      by (intro opt kept_intros(2) ok end_request_ok)
  qed
qed

section \<open>Expiry and paging\<close>

lemma fold_end_ok: "model_ok m \<Longrightarrow> model_ok (fold (\<lambda>key n. end_request n key) keys m)"
  by (induction keys arbitrary: m) (simp_all add: end_request_ok)

lemma expire_ok: "model_ok m \<Longrightarrow> model_ok (expire_requests m now)"
  unfolding expire_requests_def Let_def
  by (rule fold_end_ok) (simp add: close_window_ok split: option.split)

lemma candidate_page_no_panic:
  assumes "model_ok m"
  shows "candidate_page m \<noteq> None"
proof (cases "cv_window m")
  case (WinReady i xs k)
  then have "k < length xs" using assms by (simp add: model_ok_def window_ok_def)
  moreover have "k div 9 * 9 \<le> k" by (simp add: div_times_less_eq_dividend)
  ultimately show ?thesis using WinReady by (simp add: candidate_page_def Let_def)
qed (simp_all add: candidate_page_def)

end
