(* ===== verification/Clause_Steps.thy ===== *)
theory Clause_Steps
  imports Clause_Replies Safe_Runs
begin

text \<open>
  The clause model as a state machine: the operations a text service may run on it, in any order
  and with any argument, late and forged replies included, and the states they reach.
\<close>

section \<open>Operations in any order\<close>

text \<open>The last two are the fields that the text service writes itself: the mode
  (\<open>reading_edit.rs\<close>) and the learning identity of a snapshot (\<open>text_service.rs\<close>).\<close>

datatype clause_event =
  EvResetNotation
| EvPromote snapshot_identity ustring ustring
| EvBeginEdit nat
| EvReplaceReading ustring nat
| EvDeleteTail
| EvEscape
| EvResize int
| EvOpenBoundary nat instant
| EvAcceptBoundary clause_request_key convert_clauses_status "learning_identity option" instant
| EvPrepareRebaseline clause_request_key nat nat instant
| EvAcceptRebaseline clause_rebaseline response learning_identity instant
| EvAcceptRebased clause_request_key convert_clauses_status "learning_identity option" nat instant
| EvReplaceWhole ustring
| EvNotation nat nat notation_kind "ustring option"
| EvInvalidateLearning
| EvRefreshLearning learning_identity
| EvConfiguredLearning "learning_identity option"
| EvCloseWindow
| EvMove int
| EvCycle nat int instant
| EvOpenCandidates nat instant
| EvAcceptWithIdentity clause_request_key clause_candidates_status "learning_identity option" instant
| EvAccept clause_request_key clause_candidates_status instant
| EvEndRequest clause_request_key
| EvExpire instant
| EvSelect nat
| EvAdvance int
| EvSetMode operation_mode
| EvSetLearning "learning_identity option"

definition after :: "(clause_conversion \<times> 'a) option \<Rightarrow> clause_conversion option" where
  "after r = map_option fst r"

fun run_event :: "(ustring \<Rightarrow> nat option) \<Rightarrow> clause_event \<Rightarrow> clause_conversion \<Rightarrow> clause_conversion option" where
  "run_event lgs EvResetNotation m = Some (reset_notation_cycle m)"
| "run_event lgs (EvPromote i r t) m =
     Some (case promote_live_display m i r t of None \<Rightarrow> m | Some m' \<Rightarrow> m')"
| "run_event lgs (EvBeginEdit k) m = Some (fst (begin_reading_edit m k))"
| "run_event lgs (EvReplaceReading r k) m = after (replace_edited_reading m r k)"
| "run_event lgs EvDeleteTail m = after (delete_display_tail lgs m)"
| "run_event lgs EvEscape m = Some (fst (clause_escape m))"
| "run_event lgs (EvResize d) m = Some (fst (resize_selected m d))"
| "run_event lgs (EvOpenBoundary k now) m = Some (fst (open_boundary_conversion m k now))"
| "run_event lgs (EvAcceptBoundary key s l now) m = after (accept_boundary_conversion m key s l now)"
| "run_event lgs (EvPrepareRebaseline key a b now) m = Some (fst (prepare_rebaseline m key a b now))"
| "run_event lgs (EvAcceptRebaseline a r l now) m = Some (fst (accept_rebaseline m a r l now))"
| "run_event lgs (EvAcceptRebased key s l k now) m = Some (fst (accept_rebased_conversion m key s l k now))"
| "run_event lgs (EvReplaceWhole s) m = Some (fst (replace_whole_surface m s))"
| "run_event lgs (EvNotation a b k t) m = Some (fst (transform_notation m a b k t))"
| "run_event lgs EvInvalidateLearning m = Some (invalidate_learning m)"
| "run_event lgs (EvRefreshLearning i) m = Some (refresh_learning_identity m i)"
| "run_event lgs (EvConfiguredLearning i) m = Some (configured_learning_identity m i)"
| "run_event lgs EvCloseWindow m = Some (close_window m)"
| "run_event lgs (EvMove d) m = Some (move_clause m d)"
| "run_event lgs (EvCycle k d now) m = after (cycle_candidate m k d now)"
| "run_event lgs (EvOpenCandidates k now) m = after (open_candidates m k now)"
| "run_event lgs (EvAcceptWithIdentity key s l now) m = after (accept_candidates_with_identity m key s l now)"
| "run_event lgs (EvAccept key s now) m = after (accept_candidates m key s now)"
| "run_event lgs (EvEndRequest key) m = Some (end_request m key)"
| "run_event lgs (EvExpire now) m = Some (expire_requests m now)"
| "run_event lgs (EvSelect k) m = Some (fst (select_candidate m k))"
| "run_event lgs (EvAdvance d) m = after (advance_candidate m d)"
| "run_event lgs (EvSetMode md) m = Some (m\<lparr>cv_mode := md\<rparr>)"
| "run_event lgs (EvSetLearning l) m = Some (m\<lparr>cv_learning_identity := l\<rparr>)"

inductive clause_start :: "clause_conversion \<Rightarrow> bool" where
  snapshot: "clause_from_snapshot i b d t = Some (Inr m) \<Longrightarrow> clause_start m"
| reading: "clause_from_reading i r = Some m \<Longrightarrow> clause_start m"

inductive clause_reach :: "(ustring \<Rightarrow> nat option) \<Rightarrow> clause_conversion \<Rightarrow> bool" for lgs where
  start: "clause_start m \<Longrightarrow> clause_reach lgs m"
| step: "clause_reach lgs m \<Longrightarrow> run_event lgs e m = Some m' \<Longrightarrow> clause_reach lgs m'"

section \<open>Every operation keeps the invariant\<close>

lemma after_simps [simp]: "after (Some p) = Some (fst p)" "after None = None"
  by (simp_all add: after_def)

lemma after_Some: "after r = Some m' \<longleftrightarrow> (\<exists>x. r = Some (m', x))"
  by (auto simp: after_def)

lemma after_None: "after r = None \<longleftrightarrow> r = None"
  by (simp add: after_def)

lemma sound_after: "sound r \<Longrightarrow> after r = Some m' \<Longrightarrow> model_ok m'"
  by (auto simp: after_Some)

lemma sound_defined: "sound r \<Longrightarrow> after r \<noteq> None"
  by (auto simp: sound_def)

lemma plain_field_ok:
  assumes "model_ok m"
  shows "model_ok (m\<lparr>cv_mode := md\<rparr>)" "model_ok (reset_notation_cycle m)"
  by (rule tables_frame [OF assms]; use assms in \<open>auto simp: reset_notation_cycle_def model_ok_def clauses_ok_def\<close>)+

lemma replies_sound:
  assumes "model_ok m"
  shows "sound (open_candidates m k now)" "sound (cycle_candidate m k d now)" "sound (advance_candidate m d)"
    "sound (accept_candidates m key s now)" "sound (accept_candidates_with_identity m key s l now)"
    "sound (accept_boundary_conversion m key c l now)"
proof -
  show "sound (open_candidates m k now)"
    using open_candidates_ok [OF assms, of k now] by (auto simp: sound_def)
qed (rule cycle_candidate_ok advance_candidate_ok accept_candidates_ok accept_with_identity_ok accept_boundary_ok;
    rule assms)+

lemmas total_steps_ok = begin_reading_edit_ok clause_escape_ok resize_selected_ok open_boundary_ok
  prepare_rebaseline_ok accept_rebaseline_ok accept_rebased_ok replace_whole_surface_ok transform_notation_ok
  invalidate_learning_ok refresh_learning_ok configured_learning_ok close_window_ok move_clause_ok
  end_request_ok expire_ok select_candidate_ok plain_field_ok

lemma run_event_ok:
  assumes ok: "model_ok m" and run: "run_event lgs e m = Some m'"
  shows "model_ok m'"
proof (cases e)
  case (EvReplaceReading r k)
  then obtain x where "replace_edited_reading m r k = Some (m', x)" using run by (auto simp: after_Some)
  then show ?thesis using replace_edited_reading_ok(1) [of m r k m' x] ok by auto
next
  case EvDeleteTail
  then show ?thesis using delete_display_tail_ok [OF ok] run by (auto simp: after_Some)
next
  case (EvPromote i r t)
  then show ?thesis using promote_ok [OF ok] run ok by (auto split: option.splits)
qed (use run total_steps_ok [OF ok] in \<open>auto simp: learning_identity_ok ok dest: sound_after [OF replies_sound(1) [OF ok]]
    sound_after [OF replies_sound(2) [OF ok]] sound_after [OF replies_sound(3) [OF ok]]
    sound_after [OF replies_sound(4) [OF ok]] sound_after [OF replies_sound(5) [OF ok]]
    sound_after [OF replies_sound(6) [OF ok]]\<close>)

lemma run_event_defined:
  assumes ok: "model_ok m" and lgs: "last_start_ok lgs"
  shows "run_event lgs e m \<noteq> None"
proof (cases e)
  case (EvReplaceReading r k)
  then show ?thesis using replace_edited_reading_no_panic [of m r k] by (simp add: after_None)
next
  case EvDeleteTail
  then show ?thesis using delete_display_tail_no_panic [OF lgs, of m] by (simp add: after_None)
qed (simp_all add: sound_defined replies_sound [OF ok])

interpretation clauses: event_machine "clause_reach lgs" clause_start "\<lambda>_ _. True" "\<lambda>m e. run_event lgs e m" model_ok
    "\<lambda>_ _. last_start_ok lgs" for lgs
proof unfold_locales
  fix P m
  assume "clause_reach lgs m" and "\<And>m. clause_start m \<Longrightarrow> P m"
    and "\<And>m m'. clause_reach lgs m \<Longrightarrow> P m \<Longrightarrow> \<exists>e. True \<and> run_event lgs e m = Some m' \<Longrightarrow> P m'"
  then show "P m" by (induction rule: clause_reach.induct) blast+
next
  fix m
  assume "clause_start m"
  then show "model_ok m" by (auto elim!: clause_start.cases intro: from_snapshot_ok from_reading_ok)
qed (auto intro: run_event_ok simp: run_event_defined)

lemma clause_reach_ok: "clause_reach lgs m \<Longrightarrow> model_ok m"
  by (rule clauses.reach_good)

end
