(* ===== verification/Clause_Revisions.thy ===== *)
theory Clause_Revisions
  imports Clause_Steps
begin

text \<open>
  The revision is what a late reply is judged by: whatever changes the reading, the layout or the
  text of a clause raises it, and a reply of another revision changes none of them.
\<close>

section \<open>What the user sees\<close>

definition shown :: "clause_conversion \<Rightarrow> ustring \<times> (clause_id \<times> nat \<times> nat \<times> ustring) list" where
  "shown m = (cv_reading m, map (\<lambda>c. (cl_id c, cl_start c, cl_end c, cl_surface c)) (cv_clauses m))"

definition revises :: "clause_conversion \<Rightarrow> clause_conversion \<Rightarrow> bool" where
  "revises m m' \<longleftrightarrow> cv_revision m \<le> cv_revision m' \<and> (cv_revision m' = cv_revision m \<longrightarrow> shown m' = shown m)"

lemma revises_refl [simp]: "revises m m"
  by (simp add: revises_def)

lemma revises_trans: "revises a b \<Longrightarrow> revises b c \<Longrightarrow> revises a c"
  by (auto simp: revises_def)

lemma revises_kept: "cv_revision m' = cv_revision m \<Longrightarrow> cv_reading m' = cv_reading m
    \<Longrightarrow> cv_clauses m' = cv_clauses m \<Longrightarrow> revises m m'"
  by (simp add: revises_def shown_def)

lemma revises_next: "cv_revision m' = Suc (cv_revision m) \<Longrightarrow> revises m m'"
  by (simp add: revises_def)

lemma shown_invalidate: "shown (invalidate_learning m) = shown m"
  by (auto simp: shown_def invalidate_learning_def)

lemma checked_next: "checked_add_u64 n 1 = Some r \<Longrightarrow> r = Suc n"
  by (simp add: checked_add_u64_def split: if_splits)

text \<open>Along the branches of an operation.\<close>

lemma revises_intros:
  "(c \<Longrightarrow> revises m (fst u)) \<Longrightarrow> (\<not> c \<Longrightarrow> revises m (fst v)) \<Longrightarrow> revises m (fst (if c then u else v))"
  "(x = None \<Longrightarrow> revises m (fst u)) \<Longrightarrow> (\<And>y. x = Some y \<Longrightarrow> revises m (fst (f y)))
   \<Longrightarrow> revises m (fst (case x of None \<Rightarrow> u | Some y \<Rightarrow> f y))"
  "(\<And>a b. p = (a, b) \<Longrightarrow> revises m (fst (g a b))) \<Longrightarrow> revises m (fst (case_prod g p))"
  "(\<And>a. s = Inl a \<Longrightarrow> revises m (fst (l a))) \<Longrightarrow> (\<And>b. s = Inr b \<Longrightarrow> revises m (fst (r b)))
   \<Longrightarrow> revises m (fst (case_sum l r s))"
  "(w = WinClosed \<Longrightarrow> revises m (fst u)) \<Longrightarrow> (\<And>k. w = WinLoading k \<Longrightarrow> revises m (fst (h k)))
   \<Longrightarrow> (\<And>i xs k. w = WinReady i xs k \<Longrightarrow> revises m (fst (q i xs k)))
   \<Longrightarrow> revises m (fst (case_candidate_window u h q w))"
  "(cs = [] \<Longrightarrow> revises m (fst u)) \<Longrightarrow> (\<And>y ys. cs = y # ys \<Longrightarrow> revises m (fst (t y ys)))
   \<Longrightarrow> revises m (fst (case_list u t cs))"
  "revises m m' \<Longrightarrow> revises m (fst (m', z))"
  by (cases c; cases x; cases p; cases s; cases w; cases cs; simp)+

section \<open>Every operation\<close>

lemma revises_begin: "revises m (fst (begin_reading_edit m k))"
  unfolding begin_reading_edit_def Let_def
  by (intro revises_intros) (auto dest: checked_next intro: revises_next)

lemma revises_escape: "revises m (fst (clause_escape m))"
  unfolding clause_escape_def Let_def
  by (intro revises_intros) (auto dest: checked_next intro: revises_next revises_kept)

lemma revises_resize: "revises m (fst (resize_selected m d))"
  unfolding resize_selected_def Let_def
  by (intro revises_intros) (auto dest: checked_next intro: revises_next)

lemma revises_whole: "revises m (fst (replace_whole_surface m s))"
  unfolding replace_whole_surface_def Let_def
  by (intro revises_intros) (auto dest: checked_next intro: revises_next revises_kept)

lemma revises_notation: "revises m (fst (transform_notation m a b k t))"
  unfolding transform_notation_def Let_def
  by (intro revises_intros) (auto dest: checked_next intro: revises_next revises_kept simp del: position_None)

lemma revises_invalidate: "revises m (invalidate_learning m)"
  by (simp add: revises_def shown_invalidate)

lemma revises_fields:
  "revises m (m\<lparr>cv_mode := md\<rparr>)" "revises m (m\<lparr>cv_learning_identity := l\<rparr>)" "revises m (reset_notation_cycle m)"
  "revises m (close_window m)" "revises m (move_clause m d)" "revises m (end_request m key)"
  by (rule revises_kept; simp add: reset_notation_cycle_def move_clause_def Let_def)+

lemma shown_fields:
  "cv_reading m' = cv_reading n \<Longrightarrow> cv_clauses m' = cv_clauses n \<Longrightarrow> cv_revision m' = cv_revision n
   \<Longrightarrow> revises m n \<Longrightarrow> revises m m'"
  by (simp add: revises_def shown_def)

lemma refresh_shown:
  "cv_revision (refresh_learning_identity m i) = cv_revision m
   \<and> shown (refresh_learning_identity m i) = shown m"
proof -
  have e: "invalidate_learning (m\<lparr>cv_issued := []\<rparr>) = invalidate_learning m"
    by (simp add: invalidate_learning_def)
  have "shown (invalidate_learning m) = shown m" by (rule shown_invalidate)
  then show ?thesis
    by (auto simp: refresh_learning_identity_def e Let_def shown_def split: option.split candidate_window.split)
qed

lemma revises_refresh: "revises m (refresh_learning_identity m i)"
  using refresh_shown [of m i] by (simp add: revises_def)

lemma revises_configured: "revises m (configured_learning_identity m i)"
  unfolding configured_learning_identity_def Let_def
  by (auto split: option.split intro: revises_invalidate revises_refresh
      revises_trans [OF revises_invalidate revises_refresh])

lemma revises_expire: "revises m (expire_requests m now)"
proof -
  have "revises n (fold (\<lambda>key n. end_request n key) keys n)" for keys and n :: clause_conversion
    by (induction keys arbitrary: n) (auto intro: revises_trans [OF revises_fields(6)])
  then show ?thesis unfolding expire_requests_def Let_def
    by (rule revises_trans [rotated]) (simp add: revises_fields split: option.split)
qed

lemma revises_open_boundary: "revises m (fst (open_boundary_conversion m k now))"
  unfolding open_boundary_conversion_def Let_def
  by (intro revises_intros) (auto intro: revises_kept)

lemma revises_prepare: "revises m (fst (prepare_rebaseline m key a b now))"
  unfolding prepare_rebaseline_def Let_def
  by (intro revises_intros) (auto intro: revises_kept)

lemma revises_rebased: "revises m (fst (accept_rebased_conversion m key s l k now))"
  unfolding accept_rebased_conversion_def Let_def
  by (cases s; simp only: convert_clauses_status.case; intro revises_intros)
    (auto intro: revises_next revises_fields dest: checked_next)

lemma revises_rebaseline: "revises m (fst (accept_rebaseline m a r l now))"
proof -
  have "revises m ((if b then (invalidate_learning m)\<lparr>cv_identity := i, cv_baseline := n, cv_learning_identity := l',
        cv_boundary_request := p\<rparr> else (invalidate_learning m)\<lparr>cv_identity := i, cv_baseline := n,
        cv_learning_identity := l', cv_issued := q\<rparr>)\<lparr>cv_window := w\<rparr>)" for b i n l' p q w
    by (rule shown_fields [OF _ _ _ revises_invalidate]) simp_all
  note go = this
  show ?thesis
    unfolding accept_rebaseline_def Let_def
    by (cases r; simp only: response.case; intro revises_intros go) simp_all
qed

text \<open>Operations that may panic.\<close>

definition all_after :: "('a \<Rightarrow> bool) \<Rightarrow> 'a option \<Rightarrow> bool" where
  "all_after Q r \<longleftrightarrow> (\<forall>p. r = Some p \<longrightarrow> Q p)"

lemma all_after_simps [simp]: "all_after Q None" "all_after Q (Some p) = Q p"
  "all_after Q (map_option f r) = all_after (\<lambda>p. Q (f p)) r"
  by (auto simp: all_after_def)

lemma all_after_D: "all_after Q r \<Longrightarrow> r = Some p \<Longrightarrow> Q p"
  by (simp add: all_after_def)

lemma all_after_mono: "all_after Q r \<Longrightarrow> (\<And>p. Q p \<Longrightarrow> R p) \<Longrightarrow> all_after R r"
  by (auto simp: all_after_def)

abbreviation revising :: "clause_conversion \<Rightarrow> (clause_conversion \<times> 'a) option \<Rightarrow> bool" where
  "revising m r \<equiv> all_after (\<lambda>p. revises m (fst p)) r"

lemma all_after_intros:
  "(c \<Longrightarrow> all_after Q u) \<Longrightarrow> (\<not> c \<Longrightarrow> all_after Q v) \<Longrightarrow> all_after Q (if c then u else v)"
  "(x = None \<Longrightarrow> all_after Q u) \<Longrightarrow> (\<And>y. x = Some y \<Longrightarrow> all_after Q (f y))
   \<Longrightarrow> all_after Q (case x of None \<Rightarrow> u | Some y \<Rightarrow> f y)"
  "(\<And>a b. p = (a, b) \<Longrightarrow> all_after Q (g a b)) \<Longrightarrow> all_after Q (case_prod g p)"
  "(\<And>a. s = Inl a \<Longrightarrow> all_after Q (l a)) \<Longrightarrow> (\<And>b. s = Inr b \<Longrightarrow> all_after Q (r b))
   \<Longrightarrow> all_after Q (case_sum l r s)"
  "(w = WinClosed \<Longrightarrow> all_after Q u) \<Longrightarrow> (\<And>k. w = WinLoading k \<Longrightarrow> all_after Q (h k))
   \<Longrightarrow> (\<And>i xs k. w = WinReady i xs k \<Longrightarrow> all_after Q (q i xs k))
   \<Longrightarrow> all_after Q (case_candidate_window u h q w)"
  "Q z \<Longrightarrow> all_after Q (Some z)"
  by (cases c; cases x; cases p; cases s; cases w; simp)+

lemma revises_delete: "revising m (delete_display_tail lgs m)"
  unfolding delete_display_tail_def Let_def
  by (intro all_after_intros) (auto dest: checked_next intro: revises_next split: if_splits)

lemma revises_promote: "promote_live_display m i r t = Some m' \<Longrightarrow> revises m m'"
  unfolding promote_live_display_def Let_def
  by (auto dest!: checked_next intro: revises_next revises_kept split: option.splits if_splits sum.splits)

lemma replace_interval_revises: "revising m (replace_edited_interval m r k a b c d)"
  unfolding replace_edited_interval_def Let_def
  by (intro all_after_intros) (auto dest: checked_next intro: revises_next)

text \<open>The reading edit recurses on a joined draft, whose revision is the same.\<close>

lemma replace_edited_revision:
  "all_after (\<lambda>(m', x). if x = OutReadingChanged \<or> x = OutEmpty then cv_revision m' = Suc (cv_revision m) else m' = m)
     (replace_edited_reading m r k)"
proof (induction m r k rule: replace_edited_reading.induct)
  case (1 m r k)
  let ?Q = "\<lambda>n (m', x). if x = OutReadingChanged \<or> x = OutEmpty then cv_revision m' = Suc (cv_revision n) else m' = n"
  have interval: "all_after (?Q m) (replace_edited_interval m r k a b c d)" for a b c d
    unfolding replace_edited_interval_def Let_def
    by (intro all_after_intros) (auto dest: checked_next)
  have join: "cv_revision (join_clauses m a b) = cv_revision m" for a b
    by (simp add: join_clauses_def Let_def)
  have draft: "?Q m (if x = OutReadingChanged \<or> x = OutEmpty then d else m, x)"
    if "all_after (?Q (join_clauses m a b)) (replace_edited_reading (join_clauses m a b) r k)"
      "replace_edited_reading (join_clauses m a b) r k = Some (d, x)" for a b d x
    using that join [of a b] by (auto split: if_splits)
  show ?case
    unfolding replace_edited_reading.simps [of m] Let_def
    by (intro all_after_intros interval) (((rule draft, rule "1.IH"; (assumption | simp)) | simp))+
qed

lemma revises_replace: "revising m (replace_edited_reading m r k)"
  by (rule all_after_mono [OF replace_edited_revision]) (auto intro: revises_next split: if_splits)

lemma revises_boundary: "revising m (accept_boundary_conversion m key s l now)"
proof -
  show ?thesis
    unfolding accept_boundary_conversion_def Let_def
    by (cases s; simp only: convert_clauses_status.case; intro all_after_intros)
      (auto dest: checked_next intro!: revises_next simp: revises_fields)
qed

lemma open_ready_shown:
  "open_ready m xs = Some m' \<Longrightarrow> cv_revision m' = cv_revision m \<and> cv_reading m' = cv_reading m \<and> cv_clauses m' = cv_clauses m"
  by (auto simp: open_ready_def)

lemma revises_open_ready: "open_ready m xs = Some m' \<Longrightarrow> revises m m'"
  by (auto dest: open_ready_shown intro: revises_kept)

lemma revises_open_candidates: "revising m (open_candidates m k now)"
  unfolding open_candidates_def Let_def
  by (intro all_after_intros)
    (auto intro!: revises_kept simp: all_after_def dest!: open_ready_shown)

lemma revises_select: "revises m (fst (select_candidate m k))"
  unfolding select_candidate_def Let_def
  by (intro revises_intros; (simp only: option.case prod.case)?; (intro revises_intros)?)
    (auto dest: checked_next intro: revises_next revises_kept simp del: position_None split: option.split)

lemma revises_advance: "revising m (advance_candidate m d)"
  unfolding advance_candidate_def
  by (intro all_after_intros) (simp_all add: revises_select)

lemma revises_cycle: "revising m (cycle_candidate m k d now)"
proof -
  have *: "all_after (\<lambda>p. revises m (fst (f p))) (advance_candidate n d)"
    if "revises m n" "\<And>p. fst (f p) = fst p" for n f
    using all_after_mono [OF revises_advance [of n d], of "\<lambda>p. revises m (fst (f p))"] that
    by (auto intro: revises_trans)
  have o: "revises m n" if "open_candidates m k now = Some (n, r)" for n r
    using all_after_D [OF revises_open_candidates that] by simp
  show ?thesis
    unfolding cycle_candidate_def
    by (intro all_after_intros; (simp only: all_after_simps)?; (rule *)?)
      (auto intro: shown_fields [OF _ _ _ o] dest: o split: prod.split)
qed

lemma revises_store: "revising m (store_candidates m key ic xs)"
proof -
  have *: "all_after (\<lambda>p. revises m (fst (f p))) (advance_candidate n d)"
    if "revises m n" "\<And>p. fst (f p) = fst p" for n d f
    using all_after_mono [OF revises_advance [of n d], of "\<lambda>p. revises m (fst (f p))"] that
    by (auto intro: revises_trans)
  have o: "revises m n" if "open_ready (m\<lparr>cv_cache := a, cv_issued := b\<rparr>) ys = Some n" for a b ys n
    using open_ready_shown [OF that] by (auto intro: revises_kept)
  show ?thesis
    unfolding store_candidates_def Let_def
    by (intro all_after_intros; (simp only: all_after_simps)?; (rule *)?)
      (auto intro: o revises_kept split: prod.split)
qed

lemma revises_accept: "revising m (accept_candidates m key s now)"
  unfolding accept_candidates_def
  by (cases s; simp only: clause_candidates_status.case; intro all_after_intros revises_store)
    (simp_all add: revises_fields)

lemma revises_accept_with_identity: "revising m (accept_candidates_with_identity m key s i now)"
proof -
  have up: "revises m (if c then if d then ((invalidate_learning m)\<lparr>cv_learning_identity := l, cv_issued := a\<rparr>)\<lparr>cv_window := w\<rparr>
      else (invalidate_learning m)\<lparr>cv_learning_identity := l, cv_issued := a\<rparr> else m)" for c d l a w
    using shown_fields [OF _ _ _ revises_invalidate [of m]] by simp
  have go: "revising m (accept_candidates n key s now)" if "revises m n" for n
    by (rule all_after_mono [OF revises_accept]) (use that in \<open>auto intro: revises_trans\<close>)
  show ?thesis
  proof (cases s)
    case (CandReady xs)
    show ?thesis
      unfolding accept_candidates_with_identity_def Let_def CandReady clause_candidates_status.case
      by (intro all_after_intros) ((rule go [unfolded CandReady], rule up) | simp add: revises_fields)+
  qed (use revises_accept in \<open>simp_all add: accept_candidates_with_identity_def\<close>)
qed

section \<open>The revision in every run\<close>

lemma after_revising: "revising m r \<Longrightarrow> after r = Some m' \<Longrightarrow> revises m m'"
  by (auto simp: after_Some all_after_def)

lemma run_event_revises:
  assumes "run_event lgs e m = Some m'"
  shows "revises m m'"
proof -
  note [dest] = after_revising [OF revises_replace] after_revising [OF revises_delete]
    after_revising [OF revises_boundary] after_revising [OF revises_cycle]
    after_revising [OF revises_open_candidates] after_revising [OF revises_accept_with_identity]
    after_revising [OF revises_accept] after_revising [OF revises_advance]
  show ?thesis using assms
    by (cases e) (auto simp: revises_fields revises_begin revises_escape revises_resize revises_open_boundary
        revises_prepare revises_rebaseline revises_rebased revises_whole revises_notation revises_invalidate
        revises_refresh revises_configured revises_expire revises_select intro: revises_promote split: option.splits)
qed

end
