(* ===== verification/Clause_Deadlines.thy ===== *)
theory Clause_Deadlines
  imports Clause_Revisions
begin

text \<open>
  A window that says it is loading closes in the end: its request is on record, and \<open>expire\<close>
  ends every request on record whose deadline has passed. The one way off the record is
  \<open>refresh_learning_identity\<close> while a boundary conversion is out.
\<close>

section \<open>Requests on record\<close>

definition unique_keys :: "('k \<times> 'v) list \<Rightarrow> bool" where
  "unique_keys xs \<longleftrightarrow> distinct (map fst xs)"

lemma unique_keys_simps [simp]:
  "unique_keys []" "unique_keys xs \<Longrightarrow> unique_keys (AList.update k v xs)"
  "unique_keys xs \<Longrightarrow> unique_keys (AList.delete k xs)" "unique_keys [(k, v)]"
  by (simp_all add: unique_keys_def distinct_update distinct_delete)

definition keyed :: "clause_conversion \<Rightarrow> bool" where
  "keyed m \<longleftrightarrow> unique_keys (cv_issued m) \<and> (\<forall>i ic. map_of (cv_issued m) i = Some ic \<longrightarrow> rk_request_id (cq_key (ic_request ic)) = i)"

definition on_record :: "clause_conversion \<Rightarrow> clause_request_key \<Rightarrow> bool" where
  "on_record m key \<longleftrightarrow>
     (\<exists>ic. map_of (cv_issued m) (rk_request_id key) = Some ic \<and> cq_key (ic_request ic) = key)
     \<or> (\<exists>p. cv_boundary_request m = Some p \<and> cq_key (ic_request p) = key)"

definition tracked :: "clause_conversion \<Rightarrow> bool" where
  "tracked m \<longleftrightarrow> keyed m \<and>
     (\<forall>key. cv_window m = WinLoading key \<longrightarrow> selected_is m (rk_clause_id key) \<and> on_record m key)"

lemma tracked_idle: "keyed m \<Longrightarrow> \<not> (\<exists>k. cv_window m = WinLoading k) \<Longrightarrow> tracked m"
  by (auto simp: tracked_def)

lemma keyed_empty [simp]: "cv_issued m = [] \<Longrightarrow> keyed m"
  by (simp add: keyed_def)

lemma tracked_empty: "cv_issued m = [] \<Longrightarrow> cv_window m = WinClosed \<Longrightarrow> tracked m"
  by (simp add: tracked_idle)

lemma tracked_kept:
  assumes "tracked m" and "cv_issued m' = cv_issued m" "cv_window m' = cv_window m"
    "cv_boundary_request m' = cv_boundary_request m" "cv_selected m' = cv_selected m" "cv_clauses m' = cv_clauses m"
  shows "tracked m'"
  using assms by (simp add: tracked_def keyed_def on_record_def selected_is_def)

lemma keyed_subset: "keyed m \<Longrightarrow> unique_keys (cv_issued m') \<Longrightarrow> (\<And>i ic. map_of (cv_issued m') i = Some ic \<Longrightarrow> map_of (cv_issued m) i = Some ic) \<Longrightarrow> keyed m'"
  by (auto simp: keyed_def)

lemma tracked_keyed: "tracked m \<Longrightarrow> keyed m"
  by (simp add: tracked_def)

lemma close_window_distinct: "unique_keys (cv_issued m) \<Longrightarrow> unique_keys (cv_issued (close_window m))"
  by (simp add: close_window_def Let_def split: candidate_window.split)

lemma keyed_distinct: "keyed m \<Longrightarrow> unique_keys (cv_issued m)"
  by (simp add: keyed_def)

lemma close_window_tracked:
  assumes "tracked m"
  shows "tracked (close_window m)"
proof (rule tracked_idle)
  have "keyed m" by (rule tracked_keyed [OF assms])
  then show "keyed (close_window m)"
    by (rule keyed_subset) (auto intro: close_window_distinct keyed_distinct [OF \<open>keyed m\<close>] dest: close_window_issued)
qed simp

text \<open>A reply names the request it answers: no other request on record has its number.\<close>

definition own_key :: "clause_conversion \<Rightarrow> clause_request_key \<Rightarrow> bool" where
  "own_key m key \<longleftrightarrow>
     (\<forall>ic. map_of (cv_issued m) (rk_request_id key) = Some ic \<longrightarrow> cq_key (ic_request ic) = key)"

lemma end_request_tracked:
  assumes "tracked m" and "own_key m key"
  shows "tracked (end_request m key)"
proof -
  have k: "keyed (end_request m key)"
    by (rule keyed_subset [OF tracked_keyed [OF assms(1)]])
      (use keyed_distinct [OF tracked_keyed [OF assms(1)]] in
        \<open>auto simp: end_request_def Let_def delete_conv' split: if_splits\<close>)
  show ?thesis
  proof (cases "cv_window m = WinLoading key")
    case True
    then show ?thesis using k by (intro tracked_idle) (simp_all add: end_request_def Let_def)
  next
    case False
    then show ?thesis using assms k
      by (auto simp: tracked_def own_key_def end_request_def Let_def on_record_def selected_is_def delete_conv')
  qed
qed

lemma keyed_own: "keyed m \<Longrightarrow> map_of (cv_issued m) i = Some ic \<Longrightarrow> own_key m (cq_key (ic_request ic))"
  by (auto simp: keyed_def own_key_def)

section \<open>Every operation\<close>

lemma tracked_intros:
  "(c \<Longrightarrow> tracked (fst u)) \<Longrightarrow> (\<not> c \<Longrightarrow> tracked (fst v)) \<Longrightarrow> tracked (fst (if c then u else v))"
  "(x = None \<Longrightarrow> tracked (fst u)) \<Longrightarrow> (\<And>y. x = Some y \<Longrightarrow> tracked (fst (f y)))
   \<Longrightarrow> tracked (fst (case x of None \<Rightarrow> u | Some y \<Rightarrow> f y))"
  "(\<And>a b. p = (a, b) \<Longrightarrow> tracked (fst (g a b))) \<Longrightarrow> tracked (fst (case_prod g p))"
  "(\<And>a. s = Inl a \<Longrightarrow> tracked (fst (l a))) \<Longrightarrow> (\<And>b. s = Inr b \<Longrightarrow> tracked (fst (r b)))
   \<Longrightarrow> tracked (fst (case_sum l r s))"
  "(w = WinClosed \<Longrightarrow> tracked (fst u)) \<Longrightarrow> (\<And>k. w = WinLoading k \<Longrightarrow> tracked (fst (h k)))
   \<Longrightarrow> (\<And>i xs k. w = WinReady i xs k \<Longrightarrow> tracked (fst (q i xs k)))
   \<Longrightarrow> tracked (fst (case_candidate_window u h q w))"
  "(cs = [] \<Longrightarrow> tracked (fst u)) \<Longrightarrow> (\<And>y ys. cs = y # ys \<Longrightarrow> tracked (fst (t y ys)))
   \<Longrightarrow> tracked (fst (case_list u t cs))"
  by (cases c; cases x; cases p; cases s; cases w; cases cs; simp)+

lemma tracked_local:
  assumes "tracked m"
  shows "tracked (fst (begin_reading_edit m k))" "tracked (fst (clause_escape m))"
    "tracked (fst (resize_selected m d))" "tracked (fst (replace_whole_surface m s))"
    "tracked (fst (transform_notation m a b n t))" "tracked (invalidate_learning m)" "tracked (move_clause m d)"
proof -
  have c: "tracked (m\<lparr>cv_cancel_stage := x\<rparr>)" for x by (rule tracked_kept [OF assms]) simp_all
  show "tracked (fst (begin_reading_edit m k))"
    unfolding begin_reading_edit_def Let_def by (intro tracked_intros) (simp_all add: assms tracked_empty)
  show "tracked (fst (clause_escape m))"
    unfolding clause_escape_def Let_def
    by (intro tracked_intros) (simp_all add: assms close_window_tracked tracked_empty)
  show "tracked (fst (resize_selected m d))"
    unfolding resize_selected_def Let_def by (intro tracked_intros) (simp_all add: assms tracked_empty)
  show "tracked (fst (replace_whole_surface m s))"
    unfolding replace_whole_surface_def Let_def by (intro tracked_intros) (simp_all add: c tracked_empty)
  show "tracked (fst (transform_notation m a b n t))"
    unfolding transform_notation_def Let_def
    by (intro tracked_intros) (simp_all add: c tracked_empty del: position_None)
  show "tracked (invalidate_learning m)" by (rule tracked_empty) simp_all
  show "tracked (move_clause m d)"
    by (rule tracked_idle; (rule keyed_subset [OF tracked_keyed [OF assms]])?)
      (use keyed_distinct [OF tracked_keyed [OF assms]] in \<open>auto simp: move_clause_def Let_def split: if_splits\<close>)
qed

lemma selected_is_frame: "cv_clauses m' = cv_clauses m \<Longrightarrow> cv_selected m' = cv_selected m \<Longrightarrow> selected_is m' i = selected_is m i"
  by (simp add: selected_is_def)

lemma tracked_select:
  assumes "tracked m"
  shows "tracked (fst (select_candidate m k))"
proof -
  have c: "tracked (m\<lparr>cv_cancel_stage := x\<rparr>)" for x by (rule tracked_kept [OF assms]) simp_all
  show ?thesis
    unfolding select_candidate_def Let_def
    by (intro tracked_intros; (simp only: option.case prod.case)?; (intro tracked_intros)?)
      (auto simp: c intro: tracked_idle simp del: position_None split: option.split)
qed

lemma tracked_advance:
  assumes "tracked m"
  shows "all_after (\<lambda>p. tracked (fst p)) (advance_candidate m d)"
  unfolding advance_candidate_def
  by (intro all_after_intros) (simp_all add: assms tracked_select)

lemma tracked_delete: "tracked m \<Longrightarrow> all_after (\<lambda>p. tracked (fst p)) (delete_display_tail lgs m)"
  unfolding delete_display_tail_def Let_def
  by (intro all_after_intros) (auto simp: tracked_empty)

lemma tracked_longer:
  assumes "tracked m" and "cv_issued m' = cv_issued m" "cv_window m' = cv_window m"
    "cv_boundary_request m' = cv_boundary_request m" "cv_selected m' = cv_selected m" "cv_clauses m' = cv_clauses m @ cs"
  shows "tracked m'"
proof -
  have "selected_is m i \<Longrightarrow> selected_is m' i" for i
    using assms(5,6) by (auto simp: selected_is_def get_def nth_append split: option.splits if_splits)
  then show ?thesis using assms by (simp add: tracked_def keyed_def on_record_def)
qed

lemma tracked_promote: "tracked m \<Longrightarrow> promote_live_display m i r t = Some m' \<Longrightarrow> tracked m'"
  unfolding promote_live_display_def Let_def
  by (auto elim: tracked_kept tracked_longer split: option.splits if_splits sum.splits)

lemma tracked_replace:
  assumes "tracked m"
  shows "all_after (\<lambda>p. tracked (fst p)) (replace_edited_reading m r k)"
proof -
  have "all_after (\<lambda>(m', x). if x = OutReadingChanged \<or> x = OutEmpty then tracked m' else m' = n)
      (replace_edited_reading n r k)" for n
  proof (induction n r k rule: replace_edited_reading.induct)
    case (1 m r k)
    let ?Q = "\<lambda>n (m', x). if x = OutReadingChanged \<or> x = OutEmpty then tracked m' else m' = n"
    have interval: "all_after (?Q m) (replace_edited_interval m r k a b c d)" for a b c d
      unfolding replace_edited_interval_def Let_def
      by (intro all_after_intros) (auto simp: tracked_empty)
    have draft: "?Q m (if x = OutReadingChanged \<or> x = OutEmpty then d else m, x)"
      if "all_after (?Q (join_clauses m a b)) (replace_edited_reading (join_clauses m a b) r k)"
        "replace_edited_reading (join_clauses m a b) r k = Some (d, x)" for a b d x
      using that by (auto split: if_splits)
    show ?case
      unfolding replace_edited_reading.simps [of m] Let_def
      by (intro all_after_intros interval) (((rule draft, rule "1.IH"; (assumption | simp)) | simp))+
  qed
  then show ?thesis
    by (rule all_after_mono) (use assms in \<open>auto split: if_splits\<close>)
qed

lemma get_selected: "get (cv_clauses m) (cv_selected m) = Some c \<Longrightarrow> selected_is m (cl_id c)"
  by (simp add: selected_is_def)

lemma tracked_open_boundary:
  assumes "tracked m"
  shows "tracked (fst (open_boundary_conversion m k now))"
  unfolding open_boundary_conversion_def Let_def
  by (intro tracked_intros)
    (use assms in \<open>auto simp: tracked_def keyed_def on_record_def selected_is_def\<close>)

lemma tracked_prepare:
  assumes "tracked m"
  shows "tracked (fst (prepare_rebaseline m key a b now))"
  unfolding prepare_rebaseline_def Let_def
  by (intro tracked_intros) (auto simp: assms intro: tracked_kept [OF assms])

lemma tracked_boundary:
  assumes "tracked m"
  shows "all_after (\<lambda>p. tracked (fst p)) (accept_boundary_conversion m key s l now)"
  unfolding accept_boundary_conversion_def Let_def
  by (cases s; simp only: convert_clauses_status.case; intro all_after_intros)
    (auto simp: assms close_window_tracked close_window_empty intro: tracked_empty)

lemma tracked_rebased:
  assumes "tracked m" and "model_ok m"
  shows "tracked (fst (accept_rebased_conversion m key s l k now))"
proof -
  have own: "own_key m key" if "map_of (cv_issued m) (rk_request_id key) = Some p" "ic_conversion p = Some q" "vq_key q = key" for p q
    using that assms(2) by (auto simp: own_key_def model_ok_def issued_ok_def request_ok_def Let_def)
  have ended: "tracked (end_request m key)"
    if "map_of (cv_issued m) (rk_request_id key) = Some p" "ic_conversion p = Some q"
      "\<not> (vq_key q \<noteq> key \<or> cv_identity m \<noteq> rk_identity key \<or> cv_baseline m \<noteq> rk_baseline key
        \<or> cv_revision m \<noteq> rk_conversion_revision key \<or> cv_window m \<noteq> WinLoading key
        \<or> \<not> selected_is m (rk_clause_id key))" for p q
    by (rule end_request_tracked [OF assms(1) own [OF that(1,2)]]) (use that(3) in simp)
  have moved: "tracked (m\<lparr>cv_revision := r, cv_last_request_id := k,
      cv_issued := AList.update k n (AList.delete i (cv_issued m)), cv_window := WinLoading (cq_key (ic_request n))\<rparr>)"
    if "rk_request_id (cq_key (ic_request n)) = k" "selected_is m (rk_clause_id (cq_key (ic_request n)))" for r n i
    using that tracked_keyed [OF assms(1)]
    by (simp add: tracked_def keyed_def on_record_def selected_is_def update_conv' delete_conv')
  show ?thesis
    unfolding accept_rebased_conversion_def Let_def
    by (cases s; simp only: convert_clauses_status.case; intro tracked_intros; simp only: fst_conv)
      ((rule assms(1) | rule ended, assumption+ | rule moved, simp, simp))+
qed

lemma tracked_rebaseline:
  assumes "tracked m"
  shows "tracked (fst (accept_rebaseline m a r l now))"
proof -
  have sel: "selected_is (invalidate_learning m) i = selected_is m i" for i
    by (simp add: selected_is_def invalidate_learning_def get_def split: option.split)
  have go: "tracked ((if b then (invalidate_learning m)\<lparr>cv_identity := i, cv_baseline := n, cv_learning_identity := l',
        cv_boundary_request := Some p\<rparr> else (invalidate_learning m)\<lparr>cv_identity := i, cv_baseline := n,
        cv_learning_identity := l', cv_issued := AList.update (rk_request_id key) p (cv_issued ((invalidate_learning m)
        \<lparr>cv_identity := i, cv_baseline := n, cv_learning_identity := l'\<rparr>))\<rparr>)\<lparr>cv_window := WinLoading key\<rparr>)"
    if "cq_key (ic_request p) = key" "selected_is m (rk_clause_id key)" for b i n l' p key
    using that sel [of "rk_clause_id key"]
    by (auto simp: tracked_def keyed_def on_record_def selected_is_def)
  show ?thesis
    unfolding accept_rebaseline_def Let_def
    by (cases r; simp only: response.case; intro tracked_intros; simp only: fst_conv)
      ((rule go, simp, frule rebaseline_request_fields(3), simp) | simp add: assms)+
qed

lemma selected_is_invalidate: "selected_is (invalidate_learning m) i = selected_is m i"
  by (simp add: selected_is_def invalidate_learning_def get_def split: option.split)

lemma open_ready_tracked: "keyed m \<Longrightarrow> open_ready m xs = Some m' \<Longrightarrow> tracked m'"
  by (auto simp: open_ready_def keyed_def tracked_def)

lemma tracked_open_candidates:
  assumes "tracked m"
  shows "all_after (\<lambda>p. tracked (fst p)) (open_candidates m k now)"
proof -
  have keep: "tracked (m\<lparr>cv_user_driven := True, cv_cancel_stage := CancelNone\<rparr>)"
    by (rule tracked_kept [OF assms]) simp_all
  have ready: "tracked m'" if "open_ready (m\<lparr>cv_user_driven := True, cv_cancel_stage := CancelNone\<rparr>) xs = Some m'" for m' xs
    by (rule open_ready_tracked [OF tracked_keyed [OF keep] that])
  have fresh: "tracked (m\<lparr>cv_user_driven := True, cv_cancel_stage := CancelNone, cv_last_request_id := k,
      cv_issued := AList.update k n (cv_issued m), cv_window := WinLoading kk\<rparr>)"
    if "cq_key (ic_request n) = kk" "rk_request_id kk = k" "selected_is m (rk_clause_id kk)" for n kk
    using that tracked_keyed [OF assms]
    by (simp add: tracked_def keyed_def on_record_def selected_is_def update_conv')
  show ?thesis
    unfolding open_candidates_def Let_def
    by (intro all_after_intros)
      (auto simp: assms keep candidates_request_for_def selected_is_def all_after_def
        dest: ready intro!: fresh split: if_splits)
qed

lemma tracked_cycle:
  assumes "tracked m"
  shows "all_after (\<lambda>p. tracked (fst p)) (cycle_candidate m k d now)"
proof -
  have adv: "all_after (\<lambda>p. tracked (fst (f p))) (advance_candidate n d)"
    if "tracked n" "\<And>p. fst (f p) = fst p" for n f
    using all_after_mono [OF tracked_advance [OF that(1)], of "\<lambda>p. tracked (fst (f p))"] that(2) by simp
  have o: "tracked n" if "open_candidates m k now = Some (n, r)" for n r
    using all_after_D [OF tracked_open_candidates [OF assms] that] by simp
  have again: "tracked (n\<lparr>cv_issued := AList.update i (ic\<lparr>ic_advance := d\<rparr>) (cv_issued n)\<rparr>)"
    if "tracked n" "map_of (cv_issued n) i = Some ic" for n i ic
  proof -
    have k: "keyed (n\<lparr>cv_issued := AList.update i (ic\<lparr>ic_advance := d\<rparr>) (cv_issued n)\<rparr>)"
      using tracked_keyed [OF that(1)] that(2) by (auto simp: keyed_def update_conv')
    have "on_record n key \<Longrightarrow> on_record (n\<lparr>cv_issued := AList.update i (ic\<lparr>ic_advance := d\<rparr>) (cv_issued n)\<rparr>) key" for key
      using that(2) by (auto simp: on_record_def update_conv')
    then show ?thesis using that(1) k by (simp add: tracked_def selected_is_def)
  qed
  show ?thesis
    unfolding cycle_candidate_def
    by (intro all_after_intros; (simp only: all_after_simps)?; (rule adv)?)
      (auto simp: assms intro: again dest: o split: prod.split)
qed

lemma store_tracked:
  assumes "tracked m" and "own_key m key"
  shows "all_after (\<lambda>p. tracked (fst p)) (store_candidates m key ic xs)"
proof -
  let ?m1 = "\<lambda>c. m\<lparr>cv_cache := c, cv_issued := AList.delete (rk_request_id key) (cv_issued m)\<rparr>"
  have k: "keyed (?m1 c)" for c
    using tracked_keyed [OF assms(1)] by (auto simp: keyed_def delete_conv' split: if_splits)
  have adv: "all_after (\<lambda>p. tracked (fst (f p))) (advance_candidate n d)"
    if "tracked n" "\<And>p. fst (f p) = fst p" for n d f
    using all_after_mono [OF tracked_advance [OF that(1)], of "\<lambda>p. tracked (fst (f p))"] that(2) by simp
  have ready: "tracked n" if "open_ready (?m1 c) ys = Some n" for c ys n
    by (rule open_ready_tracked [OF k that])
  have away: "tracked (?m1 c)" if "\<not> (selected_is (?m1 c) (rk_clause_id key) \<and> cv_window (?m1 c) = WinLoading key)" for c
    using that assms k [of c]
    by (auto simp: tracked_def on_record_def own_key_def selected_is_def delete_conv')
  show ?thesis
    unfolding store_candidates_def Let_def
    by (intro all_after_intros; (simp only: all_after_simps)?; (rule adv)?)
      (auto intro: ready away split: prod.split)
qed

lemma tracked_accept:
  assumes "tracked m" and "own_key m key"
  shows "all_after (\<lambda>p. tracked (fst p)) (accept_candidates m key s now)"
  unfolding accept_candidates_def
  by (cases s; simp only: clause_candidates_status.case; intro all_after_intros store_tracked assms)
    (simp_all add: assms end_request_tracked)

lemma tracked_accept_with_identity:
  assumes "tracked m" and own: "own_key m key"
  shows "all_after (\<lambda>p. tracked (fst p)) (accept_candidates_with_identity m key s i now)"
proof (cases s)
  case (CandReady xs)
  define n where "n j ic = (invalidate_learning m)\<lparr>cv_learning_identity := Some j,
      cv_issued := AList.update (rk_request_id key) ic (cv_issued ((invalidate_learning m)\<lparr>cv_learning_identity := Some j\<rparr>))\<rparr>" for j ic
  have up: "tracked m1 \<and> own_key m1 key"
    if "map_of (cv_issued m) (rk_request_id key) = Some ic" "\<not> (cq_key (ic_request ic) \<noteq> key \<or> b)"
      "m1 = (if c then if cv_window m = WinLoading key then (n j ic)\<lparr>cv_window := WinLoading key\<rparr> else n j ic else m)"
    for ic b c j m1
    using that assms selected_is_invalidate [of m "rk_clause_id key"]
    by (auto simp: n_def tracked_def keyed_def own_key_def on_record_def selected_is_def split: if_splits)
  have go: "all_after (\<lambda>p. tracked (fst p)) (accept_candidates m1 key (CandReady xs) now)"
    if "tracked m1 \<and> own_key m1 key" for m1
    using that by (intro tracked_accept) simp_all
  show ?thesis
    unfolding accept_candidates_with_identity_def Let_def CandReady clause_candidates_status.case n_def [symmetric]
    by (intro all_after_intros) ((rule go, rule up, assumption, assumption, rule refl) | simp add: assms end_request_tracked)+
qed (use tracked_accept [OF assms] in \<open>simp_all add: accept_candidates_with_identity_def\<close>)

lemma tracked_refresh:
  assumes "tracked m" and "cv_boundary_request m = None"
  shows "tracked (refresh_learning_identity m i)"
proof -
  have e: "invalidate_learning (m\<lparr>cv_issued := []\<rparr>) = invalidate_learning m"
    by (simp add: invalidate_learning_def)
  have idle: "tracked ((invalidate_learning m)\<lparr>cv_issued := cv_issued m, cv_learning_identity := l\<rparr>)" for l
    by (rule tracked_idle) (use tracked_keyed [OF assms(1)] in \<open>simp_all add: keyed_def\<close>)
  have "tracked ((invalidate_learning m)\<lparr>cv_issued := cv_issued m, cv_window := WinLoading k, cv_learning_identity := l\<rparr>)"
    if "cv_window m = WinLoading k" for k l
    using that assms selected_is_invalidate [of m]
    by (auto simp: tracked_def keyed_def on_record_def selected_is_def)
  with idle show ?thesis using assms(1)
    unfolding refresh_learning_identity_def e Let_def
    by (auto split: option.split candidate_window.split)
qed

section \<open>Expiry\<close>

lemma fold_end_issued:
  "map_of (cv_issued (fold (\<lambda>key n. end_request n key) keys m)) i
     = (if i \<in> rk_request_id ` set keys then None else map_of (cv_issued m) i)"
  by (induction keys arbitrary: m) (auto simp: end_request_def Let_def delete_conv')

lemma fold_end_tracked:
  assumes "tracked m" and "\<And>key ic. key \<in> set keys \<Longrightarrow> map_of (cv_issued m) (rk_request_id key) = Some ic
      \<Longrightarrow> cq_key (ic_request ic) = key"
  shows "tracked (fold (\<lambda>key n. end_request n key) keys m)"
  using assms
proof (induction keys arbitrary: m)
  case (Cons key keys)
  have "tracked (end_request m key)"
    by (rule end_request_tracked [OF Cons.prems(1)]) (use Cons.prems(2) in \<open>auto simp: own_key_def\<close>)
  then have "tracked (fold (\<lambda>key n. end_request n key) keys (end_request m key))"
  proof (rule Cons.IH)
    fix key' ic
    assume "key' \<in> set keys" "map_of (cv_issued (end_request m key)) (rk_request_id key') = Some ic"
    then show "cq_key (ic_request ic) = key'"
      using Cons.prems(2) [of key' ic] by (auto simp: end_request_def Let_def delete_conv' split: if_splits)
  qed
  then show ?case by simp
qed simp

lemma unique_entry: "unique_keys xs \<Longrightarrow> (i, v) \<in> set xs \<Longrightarrow> map_of xs i = Some v"
  by (simp add: unique_keys_def)

lemma expired_keys_own:
  assumes "keyed m" and "key \<in> set (map (\<lambda>r. cq_key (ic_request r)) (filter P (map snd (cv_issued m))))"
    and "map_of (cv_issued m) (rk_request_id key) = Some ic"
  shows "cq_key (ic_request ic) = key"
proof -
  from assms(2) obtain i r where "(i, r) \<in> set (cv_issued m)" and key: "key = cq_key (ic_request r)" by auto
  then have "map_of (cv_issued m) i = Some r" using assms(1) by (auto simp: keyed_def intro: unique_entry)
  moreover from this have "rk_request_id key = i" using assms(1) key by (simp add: keyed_def)
  ultimately show ?thesis using assms(3) key by simp
qed

lemma expire_tracked:
  assumes "tracked m"
  shows "tracked (expire_requests m now)"
proof -
  define m1 where "m1 = (case cv_boundary_request m of
      Some p \<Rightarrow> (if ic_deadline p \<le> now then close_window m else m) | None \<Rightarrow> m)"
  have m1: "tracked m1" using assms by (simp add: m1_def close_window_tracked split: option.split)
  show ?thesis
    unfolding expire_requests_def Let_def m1_def [symmetric]
    by (rule fold_end_tracked [OF m1]) (rule expired_keys_own [OF tracked_keyed [OF m1]])
qed

section \<open>Runs\<close>

text \<open>What the text service observes: a reply carries the key it was issued with, and the learning
  identity is not refreshed while a boundary conversion is out.\<close>

fun fair_event :: "clause_event \<Rightarrow> clause_conversion \<Rightarrow> bool" where
  "fair_event (EvAcceptWithIdentity key _ _ _) m = own_key m key"
| "fair_event (EvAccept key _ _) m = own_key m key"
| "fair_event (EvEndRequest key) m = own_key m key"
| "fair_event (EvRefreshLearning _) m = (cv_boundary_request m = None)"
| "fair_event (EvConfiguredLearning l) m = (l = None \<or> cv_boundary_request m = None)"
| "fair_event _ m = True"

inductive fair_reach :: "(ustring \<Rightarrow> nat option) \<Rightarrow> clause_conversion \<Rightarrow> bool" for lgs where
  fair_start: "clause_start m \<Longrightarrow> fair_reach lgs m"
| fair_step: "fair_reach lgs m \<Longrightarrow> fair_event e m \<Longrightarrow> run_event lgs e m = Some m' \<Longrightarrow> fair_reach lgs m'"

lemma fair_reach_reach: "fair_reach lgs m \<Longrightarrow> clause_reach lgs m"
  by (induction rule: fair_reach.induct) (auto intro: clause_reach.intros)

lemma after_tracked: "all_after (\<lambda>p. tracked (fst p)) r \<Longrightarrow> after r = Some m' \<Longrightarrow> tracked m'"
  by (auto simp: after_Some all_after_def)

lemma tracked_configured:
  assumes "tracked m" and "l = None \<or> cv_boundary_request m = None"
  shows "tracked (configured_learning_identity m l)"
  using assms tracked_local(6) [OF assms(1)]
  by (auto simp: configured_learning_identity_def Let_def split: option.split
      intro: tracked_refresh [OF assms(1)] tracked_refresh [OF tracked_local(6) [OF assms(1)]])

lemma run_event_tracked:
  assumes t: "tracked m" and ok: "model_ok m" and fair: "fair_event e m" and run: "run_event lgs e m = Some m'"
  shows "tracked m'"
proof -
  note [dest] = after_tracked [OF tracked_replace [OF t]] after_tracked [OF tracked_delete [OF t]]
    after_tracked [OF tracked_boundary [OF t]] after_tracked [OF tracked_cycle [OF t]]
    after_tracked [OF tracked_open_candidates [OF t]] after_tracked [OF tracked_advance [OF t]]
    after_tracked [OF tracked_accept_with_identity [OF t]] after_tracked [OF tracked_accept [OF t]]
  have fields: "tracked (m\<lparr>cv_mode := md\<rparr>)" "tracked (m\<lparr>cv_learning_identity := l\<rparr>)" "tracked (reset_notation_cycle m)"
    for md l by (rule tracked_kept [OF t]; simp add: reset_notation_cycle_def)+
  show ?thesis using fair run t
    by (cases e) (auto simp: fields tracked_local [OF t] tracked_open_boundary [OF t] tracked_prepare [OF t]
        tracked_rebaseline [OF t] tracked_rebased [OF t ok] tracked_refresh [OF t] tracked_configured [OF t]
        close_window_tracked [OF t] end_request_tracked [OF t] expire_tracked [OF t] tracked_select [OF t]
        dest: tracked_promote [OF t] split: option.splits)
qed

lemma fair_reach_tracked: "fair_reach lgs m \<Longrightarrow> tracked m"
proof (induction rule: fair_reach.induct)
  case (fair_start m)
  then have "cv_issued m = [] \<and> cv_window m = WinClosed"
    by (auto elim!: clause_start.cases simp: clause_from_snapshot_def clause_from_reading_def
        split: sum.splits option.splits if_splits)
  then show ?case by (simp add: tracked_empty)
next
  case (fair_step m e m')
  then show ?case using run_event_tracked clause_reach_ok [OF fair_reach_reach] by blast
qed

lemma expire_boundary:
  assumes "\<And>p. cv_boundary_request m = Some p \<Longrightarrow> ic_deadline p \<le> now"
  shows "cv_boundary_request (expire_requests m now) = None"
proof -
  have "cv_boundary_request n = None \<Longrightarrow> cv_boundary_request (fold (\<lambda>key n. end_request n key) keys n) = None" for keys n
    by (induction keys arbitrary: n) (simp_all add: end_request_def Let_def)
  then show ?thesis using assms by (simp add: expire_requests_def Let_def split: option.split)
qed

lemma expire_issued:
  assumes "keyed m" and "\<And>i ic. map_of (cv_issued m) i = Some ic \<Longrightarrow> ic_deadline ic \<le> now"
  shows "map_of (cv_issued (expire_requests m now)) i = None"
proof -
  define m1 where "m1 = (case cv_boundary_request m of
      Some p \<Rightarrow> (if ic_deadline p \<le> now then close_window m else m) | None \<Rightarrow> m)"
  have sub: "map_of (cv_issued m1) i = Some ic \<Longrightarrow> map_of (cv_issued m) i = Some ic" for ic
    by (auto simp: m1_def dest: close_window_issued split: option.splits if_splits)
  show ?thesis
  proof (cases "map_of (cv_issued m1) i")
    case None
    then show ?thesis by (simp add: expire_requests_def Let_def m1_def [symmetric] fold_end_issued)
  next
    case (Some ic)
    then have "(i, ic) \<in> set (cv_issued m1)" by (rule map_of_SomeD)
    moreover have "rk_request_id (cq_key (ic_request ic)) = i" "ic_deadline ic \<le> now"
      using sub [OF Some] assms by (auto simp: keyed_def)
    ultimately have "i \<in> rk_request_id ` set (map (\<lambda>r. cq_key (ic_request r))
        (filter (\<lambda>r. ic_deadline r \<le> now) (map snd (cv_issued m1))))" by force
    then show ?thesis by (simp add: expire_requests_def Let_def m1_def [symmetric] fold_end_issued)
  qed
qed

end
