(* ===== verification/Clause_Guarantees.thy ===== *)
theory Clause_Guarantees
  imports Clause_Deadlines
begin

text \<open>
  What the clause model promises its users, over every run of its operations: the theorems rest on
  the invariant of \<open>Clause_Steps\<close>, the revisions of \<open>Clause_Revisions\<close> and the requests on record of
  \<open>Clause_Deadlines\<close>.
\<close>

section \<open>A small model\<close>

definition sample_identity :: snapshot_identity where
  "sample_identity = \<lparr>si_composition = 1, si_revision = 1, si_configuration_generation = 1, si_connection_generation = 1\<rparr>"

definition sample_clause :: local_clause where
  "sample_clause = \<lparr>cl_id = 1, cl_start = 0, cl_end = 2, cl_surface = [0x3042, 0x3044], cl_source = SurfReading\<rparr>"

definition sample_model :: clause_conversion where
  "sample_model = \<lparr>cv_learning_identity = None, cv_mode = ModeEditing, cv_reading = [0x3042, 0x3044],
     cv_identity = sample_identity, cv_baseline = 0, cv_revision = 0, cv_clauses = [sample_clause],
     cv_selected = 0, cv_window = WinClosed, cv_sentence_token = None, cv_issued = [],
     cv_cache = [], cv_last_request_id = 0, cv_next_clause_id = Some 2,
     cv_boundary_request = None, cv_cancel_stage = CancelNone, cv_user_driven = True,
     cv_editing_clause = None, cv_notation_cycle = None\<rparr>"

lemma sample_start: "clause_from_reading sample_identity [0x3042, 0x3044] = Some sample_model"
  by (simp add: clause_from_reading_def sample_model_def sample_clause_def u32_try_from_def)

lemma sample_reach: "clause_reach lgs sample_model"
  by (rule clause_reach.start, rule clause_start.reading, rule sample_start)

lemma sample_whole:
  "run_event lgs (EvReplaceWhole [0x611b]) sample_model = Some (sample_model\<lparr>cv_clauses :=
      [\<lparr>cl_id = 1, cl_start = 0, cl_end = 2, cl_surface = [0x611b], cl_source = SurfLocal\<rparr>],
    cv_revision := 1, cv_mode := ModeConverting\<rparr>)"
  by (simp add: replace_whole_surface_def sample_model_def sample_clause_def checked_add_u64_def as_u32_def)

section \<open>The partition\<close>

text \<open>C1: In every state that any sequence of operations reaches from a snapshot or a typed reading the
  clauses tile the reading from end to end without a gap or overlap, cut it only at legal boundaries, have
  distinct identifiers, and a clause still marked as reading shows exactly its part of the reading.\<close>

theorem clauses_partition_reading:
  assumes "clause_reach lgs m"
  shows "tiles 0 (map (\<lambda>c. (cl_start c, cl_end c)) (cv_clauses m)) (length (cv_reading m))
    \<and> (\<forall>c\<in>set (cv_clauses m). legal (cv_reading m) (cl_end c))
    \<and> distinct (map cl_id (cv_clauses m))
    \<and> (\<forall>c\<in>set (cv_clauses m). cl_source c = SurfReading \<longrightarrow> cl_surface c = slice_of (cl_start c) (cl_end c) (cv_reading m))
    \<and> (cv_clauses m = [] \<or> cv_selected m < length (cv_clauses m))"
  using model_clauses [OF clause_reach_ok [OF assms]]
  by (auto simp: clauses_ok_def layout_ok_def ids_ok_def surface_ok_def)

theorem clauses_partition_reading_witness:
  "tiles 0 (map (\<lambda>c. (cl_start c, cl_end c)) (cv_clauses sample_model)) 2
   \<and> cv_clauses sample_model \<noteq> [] \<and> length (cv_reading sample_model) = 2"
  using clauses_partition_reading [OF sample_reach] by (simp add: sample_model_def)

text \<open>C3: No operation panics in a reachable state, whatever its argument, provided the grapheme segmentation
  returns a character boundary of its text; nor does reading the page of candidates.\<close>

theorem clause_operations_return:
  assumes "clause_reach lgs m" and "\<And>s k. lgs s = Some k \<Longrightarrow> is_char_boundary s k"
  shows "(\<exists>m'. run_event lgs e m = Some m') \<and> candidate_page m \<noteq> None"
proof -
  have ok: "model_ok m" by (rule clause_reach_ok [OF assms(1)])
  have "last_start_ok lgs" using assms(2) by (auto simp: last_start_ok_def)
  then show ?thesis using clauses.reach_returns [OF assms(1)] candidate_page_no_panic [OF ok] by blast
qed

theorem clause_operations_return_witness:
  "(\<exists>m'. run_event (\<lambda>s. if s = [] then None else Some 0) EvDeleteTail sample_model = Some m')
   \<and> candidate_page sample_model \<noteq> None"
  by (rule clause_operations_return [OF sample_reach])
    (auto simp: is_char_boundary_iff split: if_splits)

text \<open>C7: The retry of an edit that attaches a mark across the edge of its interval ends: each round joins two
  clauses into one, and for every model and every new reading the edit returns.\<close>

theorem reading_edit_returns:
  "\<exists>m' outcome. replace_edited_reading m reading reading_revision = Some (m', outcome)
     \<and> (outcome = OutReadingChanged \<or> outcome = OutEmpty \<or> m' = m)"
proof -
  obtain m' x where r: "replace_edited_reading m reading reading_revision = Some (m', x)"
    using replace_edited_reading_no_panic [of m reading reading_revision] by auto
  then show ?thesis using all_after_D [OF replace_edited_revision r] by (auto split: if_splits)
qed

section \<open>Revisions\<close>

text \<open>C4: Over every operation of the clause model, with any argument, the revision never decreases, and
  an operation that leaves it as it was leaves the reading and every identifier, bound and surface as
  they were. So a reply issued for the current revision is about exactly what is shown.\<close>

theorem revision_tracks_display:
  assumes "run_event lgs e m = Some m'"
  shows "cv_revision m \<le> cv_revision m'
    \<and> (cv_revision m' = cv_revision m \<longrightarrow> cv_reading m' = cv_reading m
       \<and> map (\<lambda>c. (cl_id c, cl_start c, cl_end c, cl_surface c)) (cv_clauses m')
         = map (\<lambda>c. (cl_id c, cl_start c, cl_end c, cl_surface c)) (cv_clauses m))"
  using run_event_revises [OF assms] by (simp add: revises_def shown_def)

theorem revision_tracks_display_witness:
  "cv_revision sample_model = 0 \<and> cv_revision sample_model \<le> cv_revision (the (run_event (\<lambda>_. None) (EvReplaceWhole [0x611b]) sample_model))
   \<and> clause_text (the (run_event (\<lambda>_. None) (EvReplaceWhole [0x611b]) sample_model)) \<noteq> clause_text sample_model"
  using revision_tracks_display [OF sample_whole [of "\<lambda>_. None"]]
  by (simp add: sample_whole del: run_event.simps) (simp add: sample_model_def sample_clause_def clause_text_def)

section \<open>Late replies\<close>

fun run_events :: "(ustring \<Rightarrow> nat option) \<Rightarrow> clause_event list \<Rightarrow> clause_conversion \<Rightarrow> clause_conversion option" where
  "run_events lgs [] m = Some m"
| "run_events lgs (e # es) m = (case run_event lgs e m of None \<Rightarrow> None | Some m' \<Rightarrow> run_events lgs es m')"

lemma run_events_revises: "run_events lgs es m = Some m' \<Longrightarrow> revises m m'"
proof (induction es arbitrary: m)
  case (Cons e es)
  then obtain n where n: "run_event lgs e m = Some n" "run_events lgs es n = Some m'"
    by (auto split: option.splits)
  show ?case by (rule revises_trans [OF run_event_revises [OF n(1)] Cons.IH [OF n(2)]])
qed simp

lemma other_revision_refused:
  assumes "rk_conversion_revision key \<noteq> cv_revision m"
  shows "accept_candidates m key s now = Some (m, False)"
    and "accept_boundary_conversion m key c l now = Some (m, False)"
    and "accept_rebased_conversion m key c l k now = (m, None)"
    and "\<exists>n. accept_candidates_with_identity m key s l now = Some (n, False) \<and> (n = m \<or> n = end_request m key)"
  using assms
  by (auto simp: accept_candidates_def accept_boundary_conversion_def accept_rebased_conversion_def
      accept_candidates_with_identity_def split: option.split clause_candidates_status.split)

text \<open>C2: A reply cannot undo what the user did meanwhile: once any sequence of operations has changed the
  reading, the layout or a surface since the request was issued, every kind of reply to it is refused and
  what is shown stays as it is.\<close>

theorem late_reply_harmless:
  assumes "run_events lgs es m = Some m'"
    and "(cv_reading m', map (\<lambda>c. (cl_id c, cl_start c, cl_end c, cl_surface c)) (cv_clauses m'))
      \<noteq> (cv_reading m, map (\<lambda>c. (cl_id c, cl_start c, cl_end c, cl_surface c)) (cv_clauses m))"
    and "rk_conversion_revision key = cv_revision m"
  shows "accept_candidates m' key s now = Some (m', False)
    \<and> accept_boundary_conversion m' key c l now = Some (m', False)
    \<and> accept_rebased_conversion m' key c l k now = (m', None)
    \<and> (\<exists>n. accept_candidates_with_identity m' key s l now = Some (n, False)
        \<and> cv_reading n = cv_reading m' \<and> cv_clauses n = cv_clauses m' \<and> cv_selected n = cv_selected m')"
proof -
  have "revises m m'" by (rule run_events_revises [OF assms(1)])
  then have "rk_conversion_revision key \<noteq> cv_revision m'" using assms(2,3) by (auto simp: revises_def shown_def)
  note r = other_revision_refused [OF this]
  have "\<exists>n. accept_candidates_with_identity m' key s l now = Some (n, False)
        \<and> cv_reading n = cv_reading m' \<and> cv_clauses n = cv_clauses m' \<and> cv_selected n = cv_selected m'"
    using r(4) [of s l now] by auto
  then show ?thesis using r by simp
qed

theorem late_reply_harmless_witness:
  "let key = \<lparr>rk_identity = sample_identity, rk_baseline = 0, rk_conversion_revision = 0, rk_clause_id = 1, rk_request_id = 5\<rparr>;
       m' = the (run_events (\<lambda>_. None) [EvReplaceWhole [0x611b]] sample_model)
   in clause_text m' = [0x611b] \<and> accept_candidates m' key (CandReady []) 9 = Some (m', False)"
proof -
  let ?m' = "sample_model\<lparr>cv_clauses :=
      [\<lparr>cl_id = 1, cl_start = 0, cl_end = 2, cl_surface = [0x611b], cl_source = SurfLocal\<rparr>],
    cv_revision := 1, cv_mode := ModeConverting\<rparr>"
  have r: "run_events (\<lambda>_. None) [EvReplaceWhole [0x611b]] sample_model = Some ?m'"
    by (simp only: run_events.simps sample_whole option.case)
  show ?thesis
    unfolding Let_def r option.sel
    using late_reply_harmless [OF r, of "\<lparr>rk_identity = sample_identity, rk_baseline = 0, rk_conversion_revision = 0,
      rk_clause_id = 1, rk_request_id = 5\<rparr>" "CandReady []" 9]
    by (simp add: sample_model_def sample_clause_def clause_text_def)
qed

section \<open>Selection\<close>

lemma cut_filters:
  assumes "tiles a (map span xs) c" "tiles c (map span ys) b"
  shows "filter (\<lambda>d. cl_end d \<le> c) (xs @ ys) = xs" "filter (\<lambda>d. c \<le> cl_start d) (xs @ ys) = ys"
proof -
  have x: "cl_start d < cl_end d \<and> cl_end d \<le> c" if "d \<in> set xs" for d
    using tiles_mem [OF assms(1), of "cl_start d" "cl_end d"] that by (force simp: image_iff)
  have y: "c \<le> cl_start d \<and> cl_start d < cl_end d" if "d \<in> set ys" for d
    using tiles_mem [OF assms(2), of "cl_start d" "cl_end d"] that by (force simp: image_iff)
  have "filter (\<lambda>d. cl_end d \<le> c) xs = xs" "filter (\<lambda>d. cl_end d \<le> c) ys = []"
    "filter (\<lambda>d. c \<le> cl_start d) xs = []" "filter (\<lambda>d. c \<le> cl_start d) ys = ys"
    unfolding filter_id_conv filter_empty_conv using x y by fastforce+
  then show "filter (\<lambda>d. cl_end d \<le> c) (xs @ ys) = xs" "filter (\<lambda>d. c \<le> cl_start d) (xs @ ys) = ys" by simp_all
qed

lemma clauses_around:
  assumes "layout_ok reading cs" "i < length cs"
  shows "filter (\<lambda>d. cl_end d \<le> cl_start (cs ! i)) cs = take i cs"
    and "filter (\<lambda>d. cl_end (cs ! i) \<le> cl_start d) cs = drop (Suc i) cs"
proof -
  have cut: "filter (\<lambda>d. cl_end d \<le> bound_at reading cs j) cs = take j cs"
    "filter (\<lambda>d. bound_at reading cs j \<le> cl_start d) cs = drop j cs" if "j \<le> length cs" for j
  proof -
    note t = layout_split [OF assms(1) that]
    show "filter (\<lambda>d. cl_end d \<le> bound_at reading cs j) cs = take j cs"
      "filter (\<lambda>d. bound_at reading cs j \<le> cl_start d) cs = drop j cs"
      using cut_filters [OF conjunct1 [OF t] conjunct2 [OF t]] by simp_all
  qed
  have "bound_at reading cs i = cl_start (cs ! i)" using assms(2) by (simp add: bound_at_def)
  then show "filter (\<lambda>d. cl_end d \<le> cl_start (cs ! i)) cs = take i cs" using cut(1) [of i] assms(2) by simp
  have "bound_at reading cs (Suc i) = cl_end (cs ! i)" using layout_end(1) [OF assms] by simp
  then show "filter (\<lambda>d. cl_end (cs ! i) \<le> cl_start d) cs = drop (Suc i) cs" using cut(2) [of "Suc i"] assms(2) by simp
qed

text \<open>The clauses a choice leaves: all that end before the selected clause begins, the chosen one, the reading that a
  shorter choice leaves over up to \<open>target\<close>, and all that begin at \<open>target\<close> or behind it.\<close>

definition chosen_layout ::
  "clause_conversion \<Rightarrow> local_clause \<Rightarrow> clause_candidate \<Rightarrow> nat \<Rightarrow> local_clause list"
where
  "chosen_layout m c x target =
     filter (\<lambda>d. cl_end d \<le> cl_start c) (cv_clauses m)
     @ [c\<lparr>cl_end := ca_reading_end x, cl_surface := ca_surface x,
         cl_source := (if ca_token x = [] then SurfLocal else SurfCandidate (ca_token x) True)\<rparr>]
     @ (if ca_reading_end x < target
        then [\<lparr>cl_id = the (cv_next_clause_id m), cl_start = ca_reading_end x, cl_end = target,
          cl_surface = slice_of (ca_reading_end x) target (cv_reading m), cl_source = SurfReading\<rparr>]
        else [])
     @ filter (\<lambda>d. target \<le> cl_start d) (cv_clauses m)"

text \<open>C5: A successful selection in a reachable state puts the chosen surface and its end in place of the selected
  clause and keeps, unchanged and in order, every clause before it. A choice with the end the clause has keeps every
  clause behind it. A choice with another end takes the whole interval of the candidate list: what the choice leaves
  over of it becomes one clause of plain reading with a fresh identifier, and every clause behind the interval stays.
  The list stays open at the chosen index, and the reading and the selection do not change.\<close>

theorem chosen_candidate_shown:
  assumes "clause_reach lgs m" and "select_candidate m index = (m', True)"
  shows "\<exists>ident xs cur cc. cv_window m = WinReady ident xs cur \<and> index < length xs
    \<and> map_of (cv_cache m) ident = Some cc \<and> cl_id (cv_clauses m ! cv_selected m) = ident
    \<and> cv_clauses m' = chosen_layout m (cv_clauses m ! cv_selected m) (xs ! index)
        (if cl_end (cv_clauses m ! cv_selected m) = ca_reading_end (xs ! index)
         then cl_end (cv_clauses m ! cv_selected m) else cc_end cc)
    \<and> cv_window m' = WinReady ident xs index \<and> cv_reading m' = cv_reading m \<and> cv_selected m' = cv_selected m"
proof -
  have l: "layout_ok (cv_reading m) (cv_clauses m)"
    using model_clauses [OF clause_reach_ok [OF assms(1)]] by (simp add: clauses_ok_def)
  have "snd (select_candidate m index)" using assms(2) by simp
  then show ?thesis
  proof (rule select_candidate_cases)
    fix ident xs cur cc k new nx n c x
    assume n: "n = m\<lparr>cv_cancel_stage := CancelNone\<rparr>" and w: "cv_window n = WinReady ident xs cur" "index < length xs"
      and s: "cv_selected n < length (cv_clauses n)"
      and c: "c = cv_clauses n ! cv_selected n" and x: "x = xs ! index" and i: "cl_id c = ident"
      and cc: "map_of (cv_cache n) ident = Some cc"
      and k: "position (\<lambda>d. cl_end d = cc_end cc) (drop (cv_selected n) (cv_clauses n)) = Some k"
      and r: "candidate_replacements n c x (cc_end cc) = Some (new, nx)"
      and m': "cv_reading (fst (select_candidate m index)) = cv_reading n"
        "cv_clauses (fst (select_candidate m index)) = splice (cv_selected n)
          (if cl_end c \<noteq> ca_reading_end x then cv_selected n + k + 1 else cv_selected n + 1) new (cv_clauses n)"
        "cv_selected (fst (select_candidate m index)) = cv_selected n"
        "cv_window (fst (select_candidate m index)) = WinReady ident xs index"
    let ?chosen = "c\<lparr>cl_end := ca_reading_end x, cl_surface := ca_surface x, cl_source := chosen_source x\<rparr>"
    let ?left = "\<lparr>cl_id = the (cv_next_clause_id m), cl_start = ca_reading_end x, cl_end = cc_end cc,
      cl_surface = slice_of (ca_reading_end x) (cc_end cc) (cv_reading m), cl_source = SurfReading\<rparr>"
    have new: "new = ?chosen # (if cl_end c \<noteq> ca_reading_end x \<and> ca_reading_end x < cc_end cc then [?left] else [])"
      using r n by (auto simp: candidate_replacements_def Let_def reading_slice_Some split: if_splits option.splits)
    have k': "cv_selected m + k < length (cv_clauses m)" "cl_end (cv_clauses m ! (cv_selected m + k)) = cc_end cc"
      using position_SomeD [OF k] n s by auto
    have before: "filter (\<lambda>d. cl_end d \<le> cl_start c) (cv_clauses m) = take (cv_selected m) (cv_clauses m)"
      using clauses_around(1) [OF l, of "cv_selected m"] s n c by simp
    have behind: "filter (\<lambda>d. cl_end c \<le> cl_start d) (cv_clauses m) = drop (Suc (cv_selected m)) (cv_clauses m)"
      "filter (\<lambda>d. cc_end cc \<le> cl_start d) (cv_clauses m) = drop (Suc (cv_selected m + k)) (cv_clauses m)"
      using clauses_around(2) [OF l, of "cv_selected m"] clauses_around(2) [OF l k'(1)] s n c k'(2) by simp_all
    have "cv_clauses m' = chosen_layout m c x (if cl_end c = ca_reading_end x then cl_end c else cc_end cc)"
      using m'(2) assms(2) n new before behind
      by (cases "cl_end c = ca_reading_end x") (simp_all add: chosen_layout_def splice_def chosen_source_def)
    then show ?thesis using n w i c cc m' x assms(2) by auto
  qed
qed

text \<open>A run: the list arrives with a choice for the whole reading and one for its first character.\<close>

definition sample_candidates :: "clause_candidate list" where
  "sample_candidates = [\<lparr>ca_surface = [0x611b], ca_token = ascii ''t'', ca_reading_start = 0, ca_reading_end = 2\<rparr>,
     \<lparr>ca_surface = [0x4e9c], ca_token = ascii ''u'', ca_reading_start = 0, ca_reading_end = 1\<rparr>]"

section \<open>Deadlines\<close>

text \<open>C6: A window that is loading closes: in every fair run, when the deadlines of the requests on record have
  passed, \<open>expire\<close> leaves no request on record and no loading window, and changes nothing that is shown.\<close>

theorem loading_window_closes:
  assumes "fair_reach lgs m"
    and "\<And>i ic. map_of (cv_issued m) i = Some ic \<Longrightarrow> ic_deadline ic \<le> now"
    and "\<And>p. cv_boundary_request m = Some p \<Longrightarrow> ic_deadline p \<le> now"
  shows "(\<forall>key. cv_window (expire_requests m now) \<noteq> WinLoading key)
    \<and> (\<forall>i. map_of (cv_issued (expire_requests m now)) i = None)
    \<and> cv_boundary_request (expire_requests m now) = None
    \<and> cv_clauses (expire_requests m now) = cv_clauses m"
proof -
  have t: "tracked m" by (rule fair_reach_tracked [OF assms(1)])
  have i: "map_of (cv_issued (expire_requests m now)) i = None" for i
    by (rule expire_issued [OF tracked_keyed [OF t] assms(2)])
  moreover have b: "cv_boundary_request (expire_requests m now) = None"
    by (rule expire_boundary [OF assms(3)])
  moreover have "cv_window (expire_requests m now) \<noteq> WinLoading key" for key
    using expire_tracked [OF t, of now] i b by (auto simp: tracked_def on_record_def)
  moreover have "cv_clauses (fold (\<lambda>key n. end_request n key) keys n) = cv_clauses n" for keys n
    by (induction keys arbitrary: n) simp_all
  then have "cv_clauses (expire_requests m now) = cv_clauses m"
    by (simp add: expire_requests_def Let_def split: option.split)
  ultimately show ?thesis by simp
qed

definition sample_converting :: clause_conversion where
  "sample_converting = sample_model\<lparr>cv_mode := ModeConverting\<rparr>"

lemma sample_converting_fair: "fair_reach lgs sample_converting"
  by (rule fair_reach.fair_step [of _ sample_model "EvSetMode ModeConverting"])
    (auto simp: sample_converting_def intro: fair_reach.fair_start clause_start.reading sample_start)

definition sample_loading :: clause_conversion where
  "sample_loading = fst (the (open_candidates sample_converting 5 100))"

lemma sample_loading_fair: "fair_reach lgs sample_loading"
proof -
  have "open_candidates sample_converting 5 100 \<noteq> None"
    by (simp add: sample_converting_def sample_model_def sample_clause_def open_candidates_def Let_def)
  then have "run_event lgs (EvOpenCandidates 5 100) sample_converting = Some sample_loading"
    by (auto simp: sample_loading_def)
  then show ?thesis by (rule fair_reach.fair_step [OF sample_converting_fair, rotated]) simp
qed

lemma sample_loading_fields:
  "cv_window sample_loading = WinLoading \<lparr>rk_identity = sample_identity, rk_baseline = 0, rk_conversion_revision = 0,
     rk_clause_id = 1, rk_request_id = 5\<rparr>"
  "map_of (cv_issued sample_loading) i = Some ic \<Longrightarrow> ic_deadline ic = 1300"
  "cv_boundary_request sample_loading = None"
  by (auto simp: sample_loading_def sample_converting_def sample_model_def sample_clause_def open_candidates_def Let_def
      candidates_request_for_def request_timeout_ms_def split: if_splits)

theorem loading_window_closes_witness:
  "(\<exists>key. cv_window sample_loading = WinLoading key)
   \<and> (\<forall>key. cv_window (expire_requests sample_loading 1300) \<noteq> WinLoading key)"
  using loading_window_closes [OF sample_loading_fair, of 1300] sample_loading_fields by simp

definition sample_key :: clause_request_key where
  "sample_key = \<lparr>rk_identity = sample_identity, rk_baseline = 0, rk_conversion_revision = 0, rk_clause_id = 1,
     rk_request_id = 5\<rparr>"

definition sample_choice :: clause_conversion where
  "sample_choice = fst (the (accept_candidates sample_loading sample_key (CandReady sample_candidates) 200))"

lemma sample_loading_eq:
  "sample_loading = sample_converting\<lparr>cv_last_request_id := 5, cv_issued := [(5,
      \<lparr>ic_request = \<lparr>cq_key = sample_key, cq_reading = [0x3042, 0x3044], cq_reading_start = 0, cq_reading_end = 2,
         cq_preceding_surfaces = [], cq_include_prefix_candidates = True\<rparr>,
       ic_deadline = 1300, ic_conversion = None, ic_rebaseline_used = False, ic_advance = 0\<rparr>)],
     cv_window := WinLoading sample_key\<rparr>"
  by (simp add: sample_loading_def sample_converting_def sample_model_def sample_clause_def sample_key_def
      open_candidates_def Let_def candidates_request_for_def request_timeout_ms_def preceding_of_def)

lemma sample_choice_run:
  "accept_candidates sample_loading sample_key (CandReady sample_candidates) 200
     = Some (sample_converting\<lparr>cv_last_request_id := 5, cv_window := WinReady 1 sample_candidates 0,
         cv_cache := [(1, \<lparr>cc_start = 0, cc_end = 2, cc_preceding = [], cc_candidates = sample_candidates\<rparr>)]\<rparr>, True)"
proof -
  have pv: "validate_preceding [0x3042, 0x3044] [] 0 = Inr ()"
    by (simp add: validate_preceding_accepts normalize_reading_def normalize_char_def)
  have v: "validate_candidates \<lparr>cq_key = sample_key, cq_reading = [0x3042, 0x3044], cq_reading_start = 0,
      cq_reading_end = 2, cq_preceding_surfaces = [], cq_include_prefix_candidates = True\<rparr> sample_candidates = Inr ()"
    using pv by (simp add: validate_candidates_def candidates_request_validate_def legal_boundaries_def u32_try_from_def
        sample_candidates_def combining_mark_def numeral_2_eq_2)
  show ?thesis using v
    by (simp add: accept_candidates_def sample_loading_eq sample_key_def store_candidates_def anchor_candidates_def
        sample_converting_def sample_model_def sample_clause_def selected_is_def get_def open_ready_def
        sample_candidates_def Let_def)
qed

lemma sample_choice_reach: "clause_reach lgs sample_choice"
proof -
  have "run_event lgs (EvAccept sample_key (CandReady sample_candidates) 200) sample_loading = Some sample_choice"
    by (simp add: sample_choice_def sample_choice_run)
  then show ?thesis by (rule clause_reach.step [OF fair_reach_reach [OF sample_loading_fair]])
qed

lemma sample_choice_eq:
  "sample_choice = sample_converting\<lparr>cv_last_request_id := 5, cv_window := WinReady 1 sample_candidates 0,
     cv_cache := [(1, \<lparr>cc_start = 0, cc_end = 2, cc_preceding = [], cc_candidates = sample_candidates\<rparr>)]\<rparr>"
  by (simp add: sample_choice_def sample_choice_run)

lemma sample_select: "snd (select_candidate sample_choice 1)"
  by (simp add: sample_choice_eq sample_converting_def sample_model_def sample_clause_def
      sample_candidates_def select_candidate_def Let_def candidate_replacements_def checked_add_u64_def
      reading_slice_def slice_of_def get_def)

text \<open>The choice for the first character leaves the second as plain reading.\<close>

theorem chosen_candidate_shown_witness:
  "cv_clauses (fst (select_candidate sample_choice 1)) =
     [\<lparr>cl_id = 1, cl_start = 0, cl_end = 1, cl_surface = [0x4e9c], cl_source = SurfCandidate (ascii ''u'') True\<rparr>,
      \<lparr>cl_id = 2, cl_start = 1, cl_end = 2, cl_surface = [0x3044], cl_source = SurfReading\<rparr>]"
proof -
  have "select_candidate sample_choice 1 = (fst (select_candidate sample_choice 1), True)"
    using sample_select by (metis prod.collapse)
  from chosen_candidate_shown [OF sample_choice_reach this] show ?thesis
    by (auto simp: sample_choice_eq sample_converting_def sample_model_def sample_clause_def
        sample_candidates_def chosen_layout_def slice_of_def)
qed

section \<open>Learning\<close>

text \<open>The identities a refresh takes: any first one, and a later generation of the same engine run.\<close>

definition newer_identity :: "clause_conversion \<Rightarrow> learning_identity \<Rightarrow> bool" where
  "newer_identity m i \<longleftrightarrow> (case cv_learning_identity m of
      None \<Rightarrow> True
    | Some old \<Rightarrow> li_engine_epoch old = li_engine_epoch i \<and> li_learning_generation old < li_learning_generation i)"

lemma refresh_taken:
  "newer_identity m i \<Longrightarrow> cv_window m = WinLoading key \<Longrightarrow>
   cv_window (refresh_learning_identity m i) = WinLoading key
   \<and> cv_boundary_request (refresh_learning_identity m i) = None
   \<and> cv_issued (refresh_learning_identity m i) = cv_issued m"
  by (auto simp: newer_identity_def refresh_learning_identity_def invalidate_learning_def Let_def split: option.splits)

lemma refresh_ignored: "\<not> newer_identity m i \<Longrightarrow> refresh_learning_identity m i = m"
  by (auto simp: newer_identity_def refresh_learning_identity_def split: option.splits)

lemma fold_end_window:
  "cv_window m = WinLoading key \<Longrightarrow> key \<notin> set keys \<Longrightarrow> cv_window (fold (\<lambda>key n. end_request n key) keys m) = WinLoading key"
  by (induction keys arbitrary: m) (auto simp: end_request_def Let_def)

lemma expire_keeps_loading:
  assumes "cv_boundary_request m = None" "cv_window m = WinLoading key" "keyed m"
    and "map_of (cv_issued m) (rk_request_id key) = None"
  shows "cv_window (expire_requests m now) = WinLoading key"
proof -
  have "cq_key (ic_request ic) \<noteq> key" if "(i, ic) \<in> set (cv_issued m)" for i ic
  proof -
    have "distinct (map fst (cv_issued m))" using assms(3) by (simp add: keyed_def unique_keys_def)
    then have "map_of (cv_issued m) i = Some ic" using that by simp
    then have "rk_request_id (cq_key (ic_request ic)) = i" using assms(3) by (auto simp: keyed_def)
    then show ?thesis using \<open>map_of (cv_issued m) i = Some ic\<close> assms(4) by auto
  qed
  then have "key \<notin> set (map (\<lambda>r. cq_key (ic_request r)) (filter (\<lambda>r. ic_deadline r \<le> now) (map snd (cv_issued m))))"
    by fastforce
  then show ?thesis using assms(1) fold_end_window [OF assms(2)] by (simp add: expire_requests_def Let_def)
qed

text \<open>C38: In a fair run, a learning identity that arrives while the window waits for a boundary conversion, and for no candidate
  list, strands the window when it is the first identity or a later generation of the same engine run: the conversion
  is off the record but the window still loads. Its reply is refused, it cannot be rebaselined, no deadline closes the
  window, and the window admits no new request, contrary to the comment of \<open>refresh_learning_identity\<close> that
  supplying metadata must not cancel the key. An equal or older identity, and one of another engine run, changes
  nothing.\<close>

theorem refresh_strands_boundary_conversion:
  assumes "fair_reach lgs m" and "cv_window m = WinLoading key" and "cv_boundary_request m = Some pending"
    and "map_of (cv_issued m) (rk_request_id key) = None"
  shows "if newer_identity m i
    then cv_boundary_request (refresh_learning_identity m i) = None
      \<and> cv_window (refresh_learning_identity m i) = WinLoading key
      \<and> cv_window (expire_requests (refresh_learning_identity m i) now) = WinLoading key
      \<and> accept_boundary_conversion (refresh_learning_identity m i) key c l now = Some (refresh_learning_identity m i, False)
      \<and> accept_rebased_conversion (refresh_learning_identity m i) key c l k now = (refresh_learning_identity m i, None)
      \<and> prepare_rebaseline (refresh_learning_identity m i) key k k' now = (refresh_learning_identity m i, None)
      \<and> open_boundary_conversion (refresh_learning_identity m i) k now = (refresh_learning_identity m i, None)
      \<and> open_candidates (refresh_learning_identity m i) k now = Some (refresh_learning_identity m i, None)
    else refresh_learning_identity m i = m"
proof (cases "newer_identity m i")
  case True
  note r = refresh_taken [OF True assms(2)]
  have "keyed (refresh_learning_identity m i)"
    using tracked_keyed [OF fair_reach_tracked [OF assms(1)]] r by (simp add: keyed_def)
  then show ?thesis
    using True r assms(4) expire_keeps_loading [of "refresh_learning_identity m i" key now]
    by (simp add: accept_boundary_conversion_def accept_rebased_conversion_def prepare_rebaseline_def
        open_boundary_conversion_def open_candidates_def Let_def)
qed (simp add: refresh_ignored)

definition sample_boundary :: clause_conversion where
  "sample_boundary = fst (open_boundary_conversion sample_converting 5 100)"

lemma sample_boundary_fair: "fair_reach lgs sample_boundary"
  by (rule fair_reach.fair_step [OF sample_converting_fair, of "EvOpenBoundary 5 100"]) (simp_all add: sample_boundary_def)

theorem refresh_strands_boundary_conversion_witness:
  "let i = \<lparr>li_engine_epoch = ascii ''e'', li_learning_generation = 1\<rparr>
   in cv_boundary_request sample_boundary \<noteq> None \<and> (\<exists>key. cv_window sample_boundary = WinLoading key
        \<and> cv_window (expire_requests (refresh_learning_identity sample_boundary i) 99999) = WinLoading key)"
proof -
  let ?i = "\<lparr>li_engine_epoch = ascii ''e'', li_learning_generation = 1\<rparr>"
  have pv: "validate_preceding [0x3042, 0x3044] [] 0 = Inr ()"
    by (simp add: validate_preceding_accepts normalize_reading_def normalize_char_def)
  have o: "convert_request_validate \<lparr>vq_key = \<lparr>rk_identity = sample_identity, rk_baseline = 0, rk_conversion_revision = 0,
      rk_clause_id = 1, rk_request_id = 5\<rparr>, vq_reading = [0x3042, 0x3044],
      vq_clauses = [\<lparr>cr_id = 1, cr_reading_start = 0, cr_reading_end = 2\<rparr>], vq_preceding_surfaces = []\<rparr> = Inr ()"
    using pv by (simp add: convert_request_validate_def legal_boundaries_def u32_try_from_def)
  obtain key p where w: "cv_window sample_boundary = WinLoading key" "cv_boundary_request sample_boundary = Some p"
      "map_of (cv_issued sample_boundary) (rk_request_id key) = None" "cv_learning_identity sample_boundary = None"
    using o by (simp add: sample_boundary_def open_boundary_conversion_def sample_converting_def sample_model_def
        sample_clause_def Let_def get_def preceding_of_def range_of_def)
  have "newer_identity sample_boundary ?i" using w(4) by (simp add: newer_identity_def)
  then show ?thesis
    using w refresh_strands_boundary_conversion [OF sample_boundary_fair w(1-3), of ?i 99999 undefined None 0 1]
    by (simp add: Let_def)
qed
end
