(* ===== verification/Input_Module.thy ===== *)
theory Input_Module
  imports Input_State Kana_Composer_Spec Conversion_Queue Candidate_State "HOL-Library.Monad_Syntax"
begin

text \<open>
  The input event boundary of \<open>crates/tip/src/input_module.rs\<close>: one state that owns the input
  state, the local kana composer, the candidate list and the request bookkeeping, and turns each event
  into at most one immediate operation on the document and one intent for the engine. Every operation
  returns \<open>None\<close> where the code would panic: a slice inside a character, an index out of range, an
  arithmetic overflow in a build that checks it, a failed \<open>debug_assert\<close>.
  The grapheme segmentation is the parameter \<open>gs\<close> of the composer.
\<close>

section \<open>Events and results\<close>

record module_snapshot_identity =
  ms_request :: nat
  ms_composition :: nat
  ms_revision :: nat
  ms_configuration_generation :: nat
  ms_connection_generation :: nat

record candidate_result_identity =
  ri_composition :: nat
  ri_revision :: nat
  ri_result :: nat

record auto_commit_receipt =
  ar_proposal :: nat
  ar_identity :: module_snapshot_identity

record module_auto_commit_proposal =
  mp_proposal :: nat
  mp_identity :: module_snapshot_identity
  mp_text :: ustring
  mp_consumed_reading :: ustring
  mp_remaining :: ustring

datatype snapshot_purpose = PurposeLive | PurposeExplicit
datatype replay_mode = ReplayDelta | ReplayFull
datatype lifecycle_event = LifeActivated | LifeDeactivated
datatype candidate_replacement = NewResult | UserDriven

record input_segment =
  is_text :: ustring
  is_style :: text_style

record composition_snapshot =
  cs_identity :: module_snapshot_identity
  cs_purpose :: snapshot_purpose
  cs_segments :: "input_segment list"
  cs_left_context :: "ustring option"
  cs_live_search_width :: nat

datatype key_event =
  KeyText uchar text_style replay_mode
| KeyBackspace
| KeyDelete
| KeyMoveReading int
| KeyReadingHome
| KeyReadingEnd
| KeySpace
| KeyMoveCandidate int
| KeySelectCandidate nat
| KeyCommitCandidate "nat option"
| KeyEnter
| KeyEscape
| KeyOther

datatype engine_commit_outcome = OutcomeApplied ustring ustring | OutcomeFallback ustring

datatype engine_result =
  ResReading nat ustring
| ResCandidates nat "ustring list"
| ResCommit nat "nat option" ustring engine_commit_outcome
| ResDisconnected nat
| ResLiveSnapshot module_snapshot_identity ustring
| ResLiveAutoCommitProposal module_auto_commit_proposal
| ResExplicitSnapshot module_snapshot_identity "ustring list"

datatype candidate_event = CandReplace "ustring list" nat candidate_replacement | CandClosed

datatype input_event =
  InKey key_event
| InLifecycle lifecycle_event
| InEngine engine_result
| InCandidates candidate_event

datatype immediate_operation =
  ImmSetPreedit ustring
| ImmShowCandidates candidate_result_identity "ustring list" nat
| ImmCommit ustring "nat option" "ustring option" "nat option"
| ImmCancel

datatype background_intent =
  BgInsert nat "input_segment list"
| BgReseed nat "input_segment list"
| BgConvert nat
| BgCommit nat candidate_result_identity "nat option" "ustring option"
| BgLiveSnapshot composition_snapshot

record module_output =
  mo_eaten :: bool
  mo_immediate :: "immediate_operation option"
  mo_background :: "background_intent option"

definition output_default :: module_output where
  "output_default = \<lparr>mo_eaten = False, mo_immediate = None, mo_background = None\<rparr>"

definition output_eaten :: module_output where
  "output_eaten = output_default\<lparr>mo_eaten := True\<rparr>"

section \<open>State\<close>

record live_display_anchor =
  la_reading :: ustring
  la_text :: ustring

record input_module =
  im_state :: input_state
  im_kana :: local_kana_composer
  im_candidates :: "ustring list"
  im_selected :: nat
  im_candidate_result :: "candidate_result_identity option"
  im_candidate_interacted :: bool
  im_next_candidate_result :: nat
  im_expected_candidates :: "(nat \<times> nat \<times> nat) option"
  im_pending_candidate_commit :: "(nat \<times> candidate_result_identity) option"
  im_next_request :: nat
  im_next_snapshot_request :: nat
  im_composition :: nat
  im_revision :: nat
  im_expected_snapshot :: "(module_snapshot_identity \<times> snapshot_purpose) option"
  im_pending_auto_commit :: "auto_commit_receipt option"
  im_auto_commit_receipt :: "auto_commit_receipt option"
  im_replay_from_canonical :: bool
  im_cursor_replay_pending :: bool
  im_live_display_anchor :: "live_display_anchor option"
  im_pending_live_display :: "(ustring \<times> live_display_anchor option) option"

definition module_default :: input_module where
  "module_default = \<lparr>im_state = input_state_default, im_kana = composer_default, im_candidates = [],
     im_selected = 0, im_candidate_result = None, im_candidate_interacted = False,
     im_next_candidate_result = 0, im_expected_candidates = None, im_pending_candidate_commit = None,
     im_next_request = 0, im_next_snapshot_request = 0, im_composition = 0, im_revision = 0,
     im_expected_snapshot = None, im_pending_auto_commit = None, im_auto_commit_receipt = None,
     im_replay_from_canonical = False, im_cursor_replay_pending = False,
     im_live_display_anchor = None, im_pending_live_display = None\<rparr>"

definition wrapping_succ :: "nat \<Rightarrow> nat" where
  "wrapping_succ n = (n + 1) mod 2 ^ 64"

definition clear_candidates :: "input_module \<Rightarrow> input_module" where
  "clear_candidates m =
     m\<lparr>im_candidates := [], im_selected := 0, im_candidate_result := None,
       im_candidate_interacted := False, im_expected_candidates := None,
       im_pending_candidate_commit := None\<rparr>"

definition invalidate_live_snapshot :: "input_module \<Rightarrow> input_module" where
  "invalidate_live_snapshot m =
     m\<lparr>im_pending_live_display := None, im_expected_snapshot := None, im_pending_auto_commit := None\<rparr>"

definition invalidate_live_display :: "input_module \<Rightarrow> input_module" where
  "invalidate_live_display m = m\<lparr>im_pending_live_display := None, im_live_display_anchor := None\<rparr>"

definition module_reset :: "input_module \<Rightarrow> input_module" where
  "module_reset m =
     invalidate_live_display
       ((clear_candidates (m\<lparr>im_state := state_reset (im_state m), im_kana := composer_clear (im_kana m),
           im_replay_from_canonical := False, im_cursor_replay_pending := False\<rparr>))
        \<lparr>im_expected_candidates := None, im_expected_snapshot := None, im_pending_auto_commit := None,
          im_auto_commit_receipt := None\<rparr>)"

section \<open>Replay segments\<close>

definition style_of_replay :: "input_style \<Rightarrow> text_style" where
  "style_of_replay s = (case s of StyleKana \<Rightarrow> StyleKanaText | StyleDirect \<Rightarrow> StyleDirectText)"

definition segment_of_replay :: "replay_segment \<Rightarrow> input_segment" where
  "segment_of_replay s = \<lparr>is_text = sg_text s, is_style = style_of_replay (sg_style s)\<rparr>"

text \<open>Without the composer's journal the raw input is split at the latin position. The source asserts that
  this position is then unset (\<open>replay_assertion\<close>).\<close>

definition replay_assertion :: "input_module \<Rightarrow> bool" where
  "replay_assertion m \<longleftrightarrow> is_latin_from (im_state m) = None \<or> im_replay_from_canonical m"

definition module_replay_segments :: "input_module \<Rightarrow> input_segment list option" where
  "module_replay_segments m =
     (let raw = is_raw (im_state m); kana = \<lparr>is_text = raw, is_style = StyleKanaText\<rparr>
      in if im_replay_from_canonical m then Some (map segment_of_replay (replay_segments (im_kana m)))
         else case is_latin_from (im_state m) of
           None \<Rightarrow> Some [kana]
         | Some index \<Rightarrow>
             (if 0 < index \<and> index < byte_len raw
              then map_option (\<lambda>(a, b). [\<lparr>is_text = a, is_style = StyleKanaText\<rparr>, \<lparr>is_text = b, is_style = StyleDirectText\<rparr>])
                     (split_bytes index raw)
              else if index = 0 \<and> raw \<noteq> [] then Some [\<lparr>is_text = raw, is_style = StyleDirectText\<rparr>]
              else Some [kana]))"

definition canonical_reading :: "input_module \<Rightarrow> ustring" where
  "canonical_reading m = lk_reading (im_kana m)"

text \<open>The raw input is anchored again at the reading; the latin part is the direct segment at its end.\<close>

definition reanchor_after_surface_edit :: "input_module \<Rightarrow> bool \<Rightarrow> input_module option" where
  "reanchor_after_surface_edit m keep_latin_mode =
     (let reading = lk_reading (im_kana m) in
      do {
        latin_from \<leftarrow>
          (if \<not> keep_latin_mode then Some None
           else case replay_segments (im_kana m) of
             [] \<Rightarrow> Some (Some (byte_len reading))
           | segs \<Rightarrow> (if sg_style (last segs) = StyleDirect
               then map_option Some (checked_sub (byte_len reading) (byte_len (sg_text (last segs))))
               else Some (Some (byte_len reading))));
        Some (m\<lparr>im_state := (im_state m)\<lparr>is_raw := reading, is_composing := reading \<noteq> [],
                  is_notation_fixed := None,
                  is_latin_from := if reading \<noteq> [] then latin_from else None\<rparr>,
                im_replay_from_canonical := True\<rparr>)
      })"

section \<open>Display\<close>

definition immediate_display :: "input_module \<Rightarrow> input_module \<times> ustring" where
  "immediate_display m =
     (if \<not> cursor_at_end (im_kana m) then (invalidate_live_display m, canonical_reading m)
      else
       (let (stable, pending) = reading_parts (im_kana m);
            plain = (invalidate_live_display m, lk_reading (im_kana m))
        in case im_live_display_anchor m of
             None \<Rightarrow> plain
           | Some anchor \<Rightarrow>
               (case strip_prefix stable (la_reading anchor) of
                  None \<Rightarrow> plain
                | Some suf \<Rightarrow> (m, la_text anchor @ suf @ pending))))"

definition live_display_anchor_matches :: "input_module \<Rightarrow> ustring \<Rightarrow> ustring \<Rightarrow> bool" where
  "live_display_anchor_matches m reading t \<longleftrightarrow>
     snd (reading_parts (im_kana m)) = []
     \<and> (case im_live_display_anchor m of
          None \<Rightarrow> False | Some anchor \<Rightarrow> la_reading anchor = reading \<and> la_text anchor = t)"

definition set_notation :: "input_module \<Rightarrow> notation_kind \<Rightarrow> input_module" where
  "set_notation m n =
     invalidate_live_display (invalidate_live_snapshot
       (m\<lparr>im_state := (im_state m)\<lparr>is_notation_fixed := Some n\<rparr>\<rparr>))"

definition module_set_awaiting_llm :: "input_module \<Rightarrow> bool \<Rightarrow> input_module" where
  "module_set_awaiting_llm m awaiting =
     (let m1 = (if awaiting then invalidate_live_snapshot m else m)
      in m1\<lparr>im_state := set_awaiting_llm (im_state m1) awaiting\<rparr>)"

definition rebind_expected_snapshot_connection ::
  "input_module \<Rightarrow> nat \<Rightarrow> nat \<Rightarrow> input_module \<times> bool"
where
  "rebind_expected_snapshot_connection m configuration_generation connection_generation =
     (case im_expected_snapshot m of
        None \<Rightarrow> (m, False)
      | Some (identity, purpose) \<Rightarrow>
          (if ms_configuration_generation identity \<noteq> configuration_generation then (m, False)
           else (invalidate_live_display (m\<lparr>im_expected_snapshot :=
                   Some (identity\<lparr>ms_connection_generation := connection_generation\<rparr>, purpose)\<rparr>), True)))"

section \<open>Requests\<close>

definition request_id :: "input_module \<Rightarrow> (input_module \<times> nat) option" where
  "request_id m =
     map_option (\<lambda>n. (m\<lparr>im_next_request := n\<rparr>, n)) (checked_add_u64 (im_next_request m) 1)"

definition snapshot_of ::
  "input_module \<Rightarrow> snapshot_purpose \<Rightarrow> nat \<Rightarrow> nat \<Rightarrow> ustring option
   \<Rightarrow> (input_module \<times> background_intent option) option"
where
  "snapshot_of m purpose configuration_generation connection_generation left_context =
     (case checked_add_u64 (im_next_snapshot_request m) 1 of
        None \<Rightarrow> Some (m, None)
      | Some n \<Rightarrow>
          (let identity = \<lparr>ms_request = n, ms_composition = im_composition m, ms_revision = im_revision m,
                 ms_configuration_generation = configuration_generation,
                 ms_connection_generation = connection_generation\<rparr>;
               m1 = m\<lparr>im_next_snapshot_request := n, im_expected_snapshot := Some (identity, purpose)\<rparr>
           in map_option (\<lambda>segments. (m1, Some (BgLiveSnapshot
                \<lparr>cs_identity = identity, cs_purpose = purpose, cs_segments = segments,
                 cs_left_context = left_context, cs_live_search_width = 1\<rparr>)))
                (module_replay_segments m1)))"

definition module_live_snapshot ::
  "input_module \<Rightarrow> nat \<Rightarrow> nat \<Rightarrow> ustring option \<Rightarrow> (input_module \<times> background_intent option) option"
where
  "module_live_snapshot m configuration_generation connection_generation left_context =
     (if \<not> is_composing (im_state m) \<or> \<not> cursor_at_end (im_kana m) then Some (m, None)
      else snapshot_of m PurposeLive configuration_generation connection_generation left_context)"

definition module_explicit_snapshot ::
  "input_module \<Rightarrow> nat \<Rightarrow> nat \<Rightarrow> ustring option \<Rightarrow> (input_module \<times> background_intent option) option"
where
  "module_explicit_snapshot m configuration_generation connection_generation left_context =
     (if \<not> is_composing (im_state m) then Some (m, None)
      else snapshot_of m PurposeExplicit configuration_generation connection_generation left_context)"

definition background_reseed :: "input_module \<Rightarrow> (input_module \<times> background_intent) option" where
  "background_reseed m =
     do { (m1, request) \<leftarrow> request_id m;
          segments \<leftarrow> module_replay_segments m1;
          Some (m1, BgInsert request segments) }"

definition take_auto_commit_receipt :: "input_module \<Rightarrow> input_module \<times> auto_commit_receipt option" where
  "take_auto_commit_receipt m = (m\<lparr>im_auto_commit_receipt := None\<rparr>, im_auto_commit_receipt m)"

section \<open>Candidates\<close>

definition candidate_commit :: "input_module \<Rightarrow> nat option \<Rightarrow> (input_module \<times> module_output) option" where
  "candidate_commit m index =
     (let i = (case index of Some k \<Rightarrow> k | None \<Rightarrow> im_selected m)
      in case (im_candidate_result m, get (im_candidates m) i) of
        (Some result, Some t) \<Rightarrow>
          do { (m1, request) \<leftarrow> request_id (m\<lparr>im_candidate_interacted := True\<rparr>);
               Some (m1\<lparr>im_pending_candidate_commit := Some (request, result)\<rparr>,
                 \<lparr>mo_eaten = True, mo_immediate = None,
                  mo_background = Some (BgCommit request result (Some i) (Some t))\<rparr>) }
      | _ \<Rightarrow> Some (m, output_default))"

definition replace_candidates_for_revision ::
  "input_module \<Rightarrow> ustring list \<Rightarrow> nat \<Rightarrow> nat \<Rightarrow> nat \<Rightarrow> input_module \<times> module_output"
where
  "replace_candidates_for_revision m values selected composition revision =
     (if composition \<noteq> im_composition m \<or> revision \<noteq> im_revision m \<or> im_candidate_interacted m
      then (m, output_default)
      else if values = [] then (clear_candidates m, output_default)
      else
       (let m1 = invalidate_live_display (m\<lparr>im_next_candidate_result := wrapping_succ (im_next_candidate_result m)\<rparr>);
            identity = \<lparr>ri_composition = composition, ri_revision = revision,
              ri_result = im_next_candidate_result m1\<rparr>;
            m2 = m1\<lparr>im_selected := min selected (length values - 1), im_candidates := values,
              im_candidate_result := Some identity, im_pending_candidate_commit := None\<rparr>
        in (m2, \<lparr>mo_eaten = False, mo_immediate = Some (ImmShowCandidates identity values (im_selected m2)),
                 mo_background = None\<rparr>)))"

definition replace_candidates ::
  "input_module \<Rightarrow> ustring list \<Rightarrow> nat \<Rightarrow> candidate_replacement \<Rightarrow> input_module \<times> module_output"
where
  "replace_candidates m values selected reason =
     (case reason of
        NewResult \<Rightarrow> replace_candidates_for_revision m values selected (im_composition m) (im_revision m)
      | UserDriven \<Rightarrow>
          (case im_candidate_result m of
             None \<Rightarrow> (m, output_default)
           | Some current \<Rightarrow>
               (if values = [] \<or> \<not> is_composing (im_state m)
                  \<or> ri_composition current \<noteq> im_composition m \<or> ri_revision current \<noteq> im_revision m
                then (m, output_default)
                else
                 (let (m1, output) = replace_candidates_for_revision (m\<lparr>im_candidate_interacted := False\<rparr>)
                        values selected (im_composition m) (im_revision m)
                  in (m1\<lparr>im_candidate_interacted := True\<rparr>, output)))))"

text \<open>The index arithmetic is in \<open>i32\<close>.\<close>

definition moved_selection :: "nat \<Rightarrow> nat \<Rightarrow> int \<Rightarrow> nat option" where
  "moved_selection len selected delta =
     (let n = as_i32 len; s = as_i32 selected + delta
      in if s < - (2 ^ 31) \<or> 2 ^ 31 \<le> s \<or> n = 0 \<or> n = - 1 \<and> s = - (2 ^ 31) then None
         else Some (nat (s mod \<bar>n\<bar>)))"

definition select_and_show :: "input_module \<Rightarrow> nat \<Rightarrow> (input_module \<times> module_output) option" where
  "select_and_show m i =
     map_option (\<lambda>t. (m\<lparr>im_selected := i\<rparr>,
         \<lparr>mo_eaten = True, mo_immediate = Some (ImmSetPreedit t), mo_background = None\<rparr>))
       (get (im_candidates m) i)"

section \<open>Partial commits\<close>

definition validate_partial_reseed ::
  "(ustring \<Rightarrow> ustring list) \<Rightarrow> input_module \<Rightarrow> ustring \<Rightarrow> ustring option"
where
  "validate_partial_reseed gs m proposed =
     (if proposed = [] then None
      else (let canonical = lk_reading (im_kana m)
        in case checked_sub (byte_len canonical) (byte_len proposed) of
             None \<Rightarrow> None
           | Some prefix_len \<Rightarrow>
               (if prefix_len = 0 \<or> \<not> ends_with canonical proposed \<or> \<not> can_retain_suffix gs (im_kana m) proposed
                then None
                else map_option snd (split_bytes prefix_len canonical))))"

text \<open>The scan over the segments for the first direct one that reaches into the remaining reading.\<close>

fun latin_scan :: "nat \<Rightarrow> nat \<Rightarrow> nat option \<Rightarrow> replay_segment list \<Rightarrow> nat option" where
  "latin_scan suffix_start offset latin_start [] = latin_start"
| "latin_scan suffix_start offset latin_start (s # ss) =
     (let seg_end = offset + byte_len (sg_text s)
      in latin_scan suffix_start seg_end
           (if latin_start = None \<and> suffix_start < seg_end \<and> sg_style s = StyleDirect
            then Some (max offset suffix_start - suffix_start) else latin_start) ss)"

definition validated_remaining_latin_from :: "input_module \<Rightarrow> ustring \<Rightarrow> nat option option" where
  "validated_remaining_latin_from m remaining =
     (if is_latin_from (im_state m) = None then Some None
      else case checked_sub (byte_len (lk_reading (im_kana m))) (byte_len remaining) of
        None \<Rightarrow> None
      | Some suffix_start \<Rightarrow>
          Some (Some (case latin_scan suffix_start 0 None (replay_segments (im_kana m)) of
                        Some n \<Rightarrow> n | None \<Rightarrow> byte_len remaining)))"

definition reseed_after_partial_commit_with_latin ::
  "(ustring \<Rightarrow> ustring list) \<Rightarrow> input_module \<Rightarrow> ustring \<Rightarrow> nat option \<Rightarrow> input_module option"
where
  "reseed_after_partial_commit_with_latin gs m remaining latin_from =
     do { (kana, kept) \<leftarrow> retain_suffix gs (im_kana m) remaining;
          let m1 = clear_candidates (m\<lparr>
                im_state := Input_State.reseed_after_partial_commit (im_state m) remaining latin_from,
                im_kana := if kept then kana else reseed_reading kana remaining,
                im_replay_from_canonical := True\<rparr>);
          Some (invalidate_live_display (invalidate_live_snapshot
            (m1\<lparr>im_revision := wrapping_succ (im_revision m1)\<rparr>))) }"

section \<open>Keys\<close>

definition reading_navigation_output :: "input_module \<Rightarrow> bool \<Rightarrow> input_module \<times> module_output" where
  "reading_navigation_output m moved =
     (if \<not> moved then (m, output_eaten)
      else
       (let m1 = clear_candidates m;
            m2 = m1\<lparr>im_state := (im_state m1)\<lparr>is_notation_fixed := None\<rparr>\<rparr>;
            m3 = (invalidate_live_display (invalidate_live_snapshot m2))
                   \<lparr>im_replay_from_canonical := True, im_cursor_replay_pending := True\<rparr>
        in (m3, output_eaten\<lparr>mo_immediate := Some (ImmSetPreedit (canonical_reading m3))\<rparr>)))"

definition bump_revision :: "input_module \<Rightarrow> input_module" where
  "bump_revision m = invalidate_live_snapshot (m\<lparr>im_revision := wrapping_succ (im_revision m)\<rparr>)"

definition handle_text ::
  "input_module \<Rightarrow> uchar \<Rightarrow> text_style \<Rightarrow> replay_mode \<Rightarrow> (input_module \<times> module_output) option"
where
  "handle_text m ch style replay =
     (let cursor_edit = (im_cursor_replay_pending m \<or> \<not> cursor_at_end (im_kana m));
          m1 = clear_candidates (if is_composing (im_state m) then m
            else m\<lparr>im_composition := wrapping_succ (im_composition m), im_revision := 0,
                   im_replay_from_canonical := False\<rparr>)
      in do {
        kana \<leftarrow> composer_push (im_kana m1) ch
          (case style of StyleKanaText \<Rightarrow> StyleKana | StyleDirectText \<Rightarrow> StyleDirect);
        let m2 = (case style of
            StyleKanaText \<Rightarrow> m1\<lparr>im_state := fst (on_char (im_state m1) ch), im_kana := kana\<rparr>
          | StyleDirectText \<Rightarrow> m1\<lparr>im_state := fst (on_char_latin (im_state m1) ch), im_kana := kana,
                im_replay_from_canonical := True\<rparr>);
        m3 \<leftarrow> (if cursor_edit then reanchor_after_surface_edit m2 (latin_mode (im_state m2)) else Some m2);
        (m4, request) \<leftarrow> request_id (bump_revision (m3\<lparr>im_cursor_replay_pending := False\<rparr>));
        segments \<leftarrow> (case replay of
            ReplayDelta \<Rightarrow> Some [\<lparr>is_text = [ch], is_style = style\<rparr>]
          | ReplayFull \<Rightarrow> module_replay_segments m4);
        let (m5, display) = immediate_display m4;
        background \<leftarrow> (if cursor_edit then map_option (BgReseed request) (module_replay_segments m5)
                      else Some (BgInsert request segments));
        Some (m5, \<lparr>mo_eaten = True, mo_immediate = Some (ImmSetPreedit display),
                   mo_background = Some background\<rparr>)
      })"

text \<open>What both deletions send: a replay of what is left, or the end of the composition.\<close>

definition deletion_output :: "input_module \<Rightarrow> (input_module \<times> module_output) option" where
  "deletion_output m =
     do { (m1, request) \<leftarrow> request_id (bump_revision m);
          segments \<leftarrow> module_replay_segments m1;
          Some (m1, \<lparr>mo_eaten = True,
            mo_immediate = Some (if lk_reading (im_kana m1) = [] then ImmCancel
                                 else ImmSetPreedit (lk_reading (im_kana m1))),
            mo_background = Some (BgReseed request segments)\<rparr>) }"

definition handle_delete :: "input_module \<Rightarrow> (input_module \<times> module_output) option" where
  "handle_delete m =
     do { (kana, deleted) \<leftarrow> delete_forward (im_kana m);
          if \<not> deleted then Some (m\<lparr>im_kana := kana\<rparr>, output_eaten)
          else do {
            let m1 = invalidate_live_display (clear_candidates (m\<lparr>im_kana := kana\<rparr>));
            m2 \<leftarrow> reanchor_after_surface_edit m1 (latin_mode (im_state m1));
            deletion_output m2 } }"

definition handle_backspace ::
  "(ustring \<Rightarrow> ustring list) \<Rightarrow> input_module \<Rightarrow> (input_module \<times> module_output) option"
where
  "handle_backspace gs m =
     (if composer_cursor (im_kana m) = 0 \<and> canonical_reading m \<noteq> [] then Some (m, output_eaten)
      else
       (let m1 = invalidate_live_display (clear_candidates m);
            keep_latin_mode = latin_mode (im_state m1);
            m2 = m1\<lparr>im_state := fst (on_backspace (im_state m1))\<rparr>
        in do {
          kana \<leftarrow> backspace_at_cursor gs (im_kana m2);
          m3 \<leftarrow> reanchor_after_surface_edit (m2\<lparr>im_kana := kana\<rparr>) keep_latin_mode;
          deletion_output m3 }))"

definition handle_key ::
  "(ustring \<Rightarrow> ustring list) \<Rightarrow> input_module \<Rightarrow> key_event \<Rightarrow> (input_module \<times> module_output) option"
where
  "handle_key gs m key =
     (let composing = is_composing (im_state m); listed = (im_candidates m \<noteq> []);
          ignored = Some (m, output_default);
          finish = (\<lambda>op. Some (m, output_eaten\<lparr>mo_immediate := Some op\<rparr>))
      in case key of
        KeyText ch style replay \<Rightarrow> handle_text m ch style replay
      | KeyMoveReading direction \<Rightarrow>
          (if composing then
             do { (kana, moved) \<leftarrow> move_cursor (im_kana m) direction;
                  Some (reading_navigation_output (m\<lparr>im_kana := kana\<rparr>) moved) }
           else ignored)
      | KeyReadingHome \<Rightarrow>
          (if composing then
             do { (kana, moved) \<leftarrow> set_cursor (im_kana m) 0;
                  Some (reading_navigation_output (m\<lparr>im_kana := kana\<rparr>) moved) }
           else ignored)
      | KeyReadingEnd \<Rightarrow>
          (if composing then
             do { (kana, moved) \<leftarrow> set_cursor (im_kana m) u32_max;
                  Some (reading_navigation_output (m\<lparr>im_kana := kana\<rparr>) moved) }
           else ignored)
      | KeyDelete \<Rightarrow> (if composing then handle_delete m else ignored)
      | KeyBackspace \<Rightarrow> (if composing then handle_backspace gs m else ignored)
      | KeySpace \<Rightarrow>
          (if composing then
             do { (m1, request) \<leftarrow> request_id m;
                  Some (m1\<lparr>im_expected_candidates := Some (request, im_composition m1, im_revision m1)\<rparr>,
                    output_eaten\<lparr>mo_background := Some (BgConvert request)\<rparr>) }
           else ignored)
      | KeyMoveCandidate delta \<Rightarrow>
          (if listed then
             do { i \<leftarrow> moved_selection (length (im_candidates m)) (im_selected m) delta;
                  select_and_show (invalidate_live_display (m\<lparr>im_candidate_interacted := True\<rparr>)) i }
           else ignored)
      | KeySelectCandidate index \<Rightarrow>
          (if listed then
             select_and_show (invalidate_live_display (m\<lparr>im_candidate_interacted := True\<rparr>))
               (min index (length (im_candidates m) - 1))
           else ignored)
      | KeyCommitCandidate index \<Rightarrow> candidate_commit m index
      | KeyEnter \<Rightarrow>
          (if listed then candidate_commit m None
           else if composing then finish (ImmCommit (lk_reading (im_kana m)) None None None)
           else ignored)
      | KeyEscape \<Rightarrow> (if composing then finish ImmCancel else ignored)
      | KeyOther \<Rightarrow> ignored)"

section \<open>Engine results\<close>

definition show_operation :: "input_module \<Rightarrow> immediate_operation \<Rightarrow> input_module \<times> module_output" where
  "show_operation m op = (m, \<lparr>mo_eaten = False, mo_immediate = Some op, mo_background = None\<rparr>)"

text \<open>The text to commit, what remains and its latin position; \<open>None\<close> refuses the result.\<close>

definition commit_parts ::
  "(ustring \<Rightarrow> ustring list) \<Rightarrow> input_module \<Rightarrow> ustring \<Rightarrow> ustring \<Rightarrow> ustring
   \<Rightarrow> (ustring \<times> ustring \<times> nat option) option"
where
  "commit_parts gs m engine_text resolved_text remaining =
     (if remaining = [] then Some (resolved_text, remaining, None)
      else do { rest \<leftarrow> validate_partial_reseed gs m remaining;
                latin \<leftarrow> validated_remaining_latin_from m rest;
                Some (engine_text, rest, latin) })"

definition engine_commit ::
  "(ustring \<Rightarrow> ustring list) \<Rightarrow> input_module \<Rightarrow> nat option \<Rightarrow> ustring \<Rightarrow> engine_commit_outcome
   \<Rightarrow> input_module \<times> module_output"
where
  "engine_commit gs m candidate resolved_text outcome =
     (case outcome of
        OutcomeFallback _ \<Rightarrow> show_operation m (ImmCommit resolved_text candidate None None)
      | OutcomeApplied engine_text remaining \<Rightarrow>
          (case commit_parts gs m engine_text resolved_text remaining of
             None \<Rightarrow> (m, output_default)
           | Some (t, rest, latin) \<Rightarrow> show_operation m (ImmCommit t candidate (Some rest) latin)))"

definition engine_commit_result ::
  "(ustring \<Rightarrow> ustring list) \<Rightarrow> input_module \<Rightarrow> nat \<Rightarrow> nat option \<Rightarrow> ustring \<Rightarrow> engine_commit_outcome
   \<Rightarrow> input_module \<times> module_output"
where
  "engine_commit_result gs m request candidate resolved_text outcome =
     (case im_pending_candidate_commit m of
        Some (pending_request, pending_identity) \<Rightarrow>
          (if request \<noteq> pending_request \<or> candidate = None \<or> im_candidate_result m \<noteq> Some pending_identity
           then (m, output_default)
           else engine_commit gs (m\<lparr>im_pending_candidate_commit := None\<rparr>) candidate resolved_text outcome)
      | None \<Rightarrow>
          (if candidate \<noteq> None then (m, output_default)
           else engine_commit gs m candidate resolved_text outcome))"

definition live_snapshot_result ::
  "input_module \<Rightarrow> module_snapshot_identity \<Rightarrow> ustring \<Rightarrow> input_module \<times> module_output"
where
  "live_snapshot_result m identity t =
     (if awaiting_llm (im_state m) \<or> im_expected_snapshot m \<noteq> Some (identity, PurposeLive)
        \<or> \<not> is_composing (im_state m)
      then (m, output_default)
      else
       (let (stable, pending) = reading_parts (im_kana m);
            anchor = (if t = [] then None
              else if pending = [] then Some \<lparr>la_reading = stable, la_text = t\<rparr>
              else im_live_display_anchor m)
        in show_operation (m\<lparr>im_pending_live_display := Some (t, anchor)\<rparr>) (ImmSetPreedit t)))"

definition auto_commit_proposal_result ::
  "(ustring \<Rightarrow> ustring list) \<Rightarrow> input_module \<Rightarrow> module_auto_commit_proposal \<Rightarrow> input_module \<times> module_output"
where
  "auto_commit_proposal_result gs m p =
     (if awaiting_llm (im_state m) \<or> im_expected_snapshot m \<noteq> Some (mp_identity p, PurposeLive)
        \<or> \<not> is_composing (im_state m) \<or> im_pending_auto_commit m \<noteq> None \<or> mp_text p = []
        \<or> lk_reading (im_kana m) \<noteq> mp_consumed_reading p @ mp_remaining p
        \<or> mp_consumed_reading p = []
      then (m, output_default)
      else case validate_partial_reseed gs m (mp_remaining p) of
        None \<Rightarrow> (m, output_default)
      | Some rest \<Rightarrow>
     (case validated_remaining_latin_from m rest of
        None \<Rightarrow> (m, output_default)
      | Some latin \<Rightarrow>
          show_operation (m\<lparr>im_pending_auto_commit :=
              Some \<lparr>ar_proposal = mp_proposal p, ar_identity = mp_identity p\<rparr>\<rparr>)
            (ImmCommit (mp_text p) None (Some rest) latin)))"

definition handle_engine ::
  "(ustring \<Rightarrow> ustring list) \<Rightarrow> input_module \<Rightarrow> engine_result \<Rightarrow> input_module \<times> module_output"
where
  "handle_engine gs m result =
     (case result of
        ResReading _ t \<Rightarrow>
          (if t = [] \<and> is_raw (im_state m) = [] then show_operation m ImmCancel
           else (let (m1, display) = immediate_display m in show_operation m1 (ImmSetPreedit display)))
      | ResCandidates request values \<Rightarrow>
          (case im_expected_candidates m of
             None \<Rightarrow> (m, output_default)
           | Some (expected, composition, revision) \<Rightarrow>
               (if request \<noteq> expected then (m, output_default)
                else replace_candidates_for_revision m values 0 composition revision))
      | ResCommit request candidate resolved_text outcome \<Rightarrow>
          engine_commit_result gs m request candidate resolved_text outcome
      | ResDisconnected _ \<Rightarrow>
          (let m1 = invalidate_live_display m
           in show_operation m1 (if is_raw (im_state m1) = [] then ImmCancel
                else ImmSetPreedit (lk_reading (im_kana m1))))
      | ResLiveSnapshot identity t \<Rightarrow> live_snapshot_result m identity t
      | ResLiveAutoCommitProposal p \<Rightarrow> auto_commit_proposal_result gs m p
      | ResExplicitSnapshot identity candidates \<Rightarrow>
          (if im_expected_snapshot m \<noteq> Some (identity, PurposeExplicit) \<or> \<not> is_composing (im_state m)
           then (m, output_default)
           else replace_candidates_for_revision m candidates 0 (ms_composition identity) (ms_revision identity)))"

section \<open>Events\<close>

definition module_handle ::
  "(ustring \<Rightarrow> ustring list) \<Rightarrow> input_module \<Rightarrow> input_event \<Rightarrow> (input_module \<times> module_output) option"
where
  "module_handle gs m event =
     (case event of
        InKey key \<Rightarrow> handle_key gs m key
      | InLifecycle LifeActivated \<Rightarrow> Some (m, output_default)
      | InLifecycle LifeDeactivated \<Rightarrow>
          Some (m, if is_composing (im_state m) then output_default\<lparr>mo_immediate := Some ImmCancel\<rparr>
                   else output_default)
      | InEngine result \<Rightarrow> Some (handle_engine gs m result)
      | InCandidates (CandReplace values selected reason) \<Rightarrow> Some (replace_candidates m values selected reason)
      | InCandidates CandClosed \<Rightarrow> Some (clear_candidates m, output_default))"

definition module_complete ::
  "(ustring \<Rightarrow> ustring list) \<Rightarrow> input_module \<Rightarrow> immediate_operation \<Rightarrow> bool \<Rightarrow> input_module option"
where
  "module_complete gs m operation applied =
     (let m1 = (case operation of
            ImmSetPreedit t \<Rightarrow>
              (case im_pending_live_display m of
                 None \<Rightarrow> m
               | Some (pending_text, anchor) \<Rightarrow>
                   (if applied \<and> t = pending_text
                    then m\<lparr>im_pending_live_display := None, im_live_display_anchor := anchor\<rparr>
                    else m\<lparr>im_pending_live_display := None\<rparr>))
          | _ \<Rightarrow> m)
      in if \<not> applied then
          (let m2 = m1\<lparr>im_pending_auto_commit := None\<rparr>
           in Some (case operation of
                ImmCancel \<Rightarrow> invalidate_live_display
                  (bump_revision (m2\<lparr>im_state := resume_composing (im_state m2)\<rparr>))
              | _ \<Rightarrow> m2))
         else case operation of
           ImmCommit t candidate remaining latin_from \<Rightarrow>
             (let m2 = m1\<lparr>im_auto_commit_receipt := im_pending_auto_commit m1, im_pending_auto_commit := None\<rparr>
              in case remaining of
                   Some rest \<Rightarrow> (if rest \<noteq> [] then reseed_after_partial_commit_with_latin gs m2 rest latin_from
                                else Some (module_reset m2))
                 | None \<Rightarrow> Some (module_reset m2))
         | ImmCancel \<Rightarrow> Some (module_reset m1)
         | _ \<Rightarrow> Some m1)"

section \<open>The reading of the composition\<close>

definition clause_identity_of :: "input_module \<Rightarrow> nat \<Rightarrow> nat \<Rightarrow> snapshot_identity" where
  "clause_identity_of m configuration_generation connection_generation =
     \<lparr>si_composition = im_composition m, si_revision = im_revision m,
      si_configuration_generation = configuration_generation,
      si_connection_generation = connection_generation\<rparr>"

definition reading_cursor :: "input_module \<Rightarrow> reading_position" where
  "reading_cursor m = composer_cursor (im_kana m)"

definition set_reading_cursor ::
  "input_module \<Rightarrow> reading_position \<Rightarrow> (input_module \<times> module_output) option"
where
  "set_reading_cursor m cursor =
     map_option (\<lambda>(kana, moved). reading_navigation_output (m\<lparr>im_kana := kana\<rparr>) moved)
       (set_cursor (im_kana m) cursor)"

text \<open>The inner option is the code's own: an exhausted revision.\<close>

definition module_finalize_pending_n :: "input_module \<Rightarrow> (input_module \<times> bool option) option" where
  "module_finalize_pending_n m =
     (let (composer, changed) = finalize_pending_n (im_kana m)
      in if \<not> changed then Some (m, Some False)
         else case checked_add_u64 (im_revision m) 1 of
           None \<Rightarrow> Some (m, None)
         | Some revision \<Rightarrow>
             map_option (\<lambda>m1. (invalidate_live_display (invalidate_live_snapshot (clear_candidates m1)), Some True))
               (reanchor_after_surface_edit (m\<lparr>im_kana := composer, im_revision := revision\<rparr>)
                  (latin_mode (im_state m))))"

definition module_adopt_conversion_reading ::
  "input_module \<Rightarrow> ustring \<Rightarrow> (input_module \<times> bool) option"
where
  "module_adopt_conversion_reading m reading =
     do { (kana, adopted) \<leftarrow> adopt_conversion_reading (im_kana m) reading;
          if \<not> adopted then Some (m\<lparr>im_kana := kana\<rparr>, False)
          else map_option (\<lambda>m1. (invalidate_live_display (invalidate_live_snapshot m1), True))
            (reanchor_after_surface_edit (m\<lparr>im_kana := kana\<rparr>) (latin_mode (im_state m))) }"

definition reading_cursor_utf16 :: "input_module \<Rightarrow> nat" where
  "reading_cursor_utf16 m = as_u32 (utf16_len (take (reading_cursor m) (canonical_reading m)))"

definition module_original_input ::
  "input_module \<Rightarrow> reading_position \<Rightarrow> reading_position \<Rightarrow> ustring option"
where
  "module_original_input m start end_pos = original_input (im_kana m) start end_pos"

definition module_preserve_last_literal_original :: "input_module \<Rightarrow> uchar \<Rightarrow> input_module" where
  "module_preserve_last_literal_original m original =
     m\<lparr>im_kana := preserve_last_literal_original (im_kana m) original\<rparr>"

definition retain_clause_reading_prefix ::
  "input_module \<Rightarrow> ustring \<Rightarrow> (input_module \<times> nat option) option"
where
  "retain_clause_reading_prefix m pre =
     (case checked_add_u64 (im_revision m) 1 of
        None \<Rightarrow> Some (m, None)
      | Some revision \<Rightarrow>
     (let reading = lk_reading (im_kana m)
      in if \<not> starts_with reading pre \<or> byte_len reading \<le> byte_len pre
         then Some (m, None)
         else case legal_boundaries reading of
           Inl _ \<Rightarrow> Some (m, None)
         | Inr bs \<Rightarrow>
        (if as_u32 (length pre) \<notin> set bs then Some (m, None)
         else do {
           (kana, kept) \<leftarrow> composer_retain_prefix (im_kana m) pre;
           if \<not> kept then Some (m\<lparr>im_kana := kana\<rparr>, None)
           else do {
             m1 \<leftarrow> reanchor_after_surface_edit (m\<lparr>im_kana := kana\<rparr>) False;
             Some (invalidate_live_display (invalidate_live_snapshot
               (clear_candidates (m1\<lparr>im_revision := revision\<rparr>))), Some revision) } })))"

section \<open>Choosing from a flat candidate list\<close>

definition resolve_current_flat_candidate :: "input_module \<Rightarrow> (input_module \<times> module_output) option" where
  "resolve_current_flat_candidate m = candidate_commit m None"

definition resolve_absolute_flat_candidate ::
  "input_module \<Rightarrow> nat \<Rightarrow> (input_module \<times> module_output) option" where
  "resolve_absolute_flat_candidate m index = candidate_commit m (Some index)"

definition apply_presenter_candidate_selection ::
  "(ustring \<Rightarrow> ustring list) \<Rightarrow> input_module \<Rightarrow> nat \<Rightarrow> (input_module \<times> module_output) option" where
  "apply_presenter_candidate_selection gs m index = module_handle gs m (InKey (KeySelectCandidate index))"

definition module_reseed_after_partial_commit ::
  "(ustring \<Rightarrow> ustring list) \<Rightarrow> input_module \<Rightarrow> ustring \<Rightarrow> input_module option" where
  "module_reseed_after_partial_commit gs m remaining = reseed_after_partial_commit_with_latin gs m remaining None"

end
