(* ===== verification/Input_Module_Spec.thy ===== *)
theory Input_Module_Spec
  imports Input_Module
begin

text \<open>
  The guarantees of the input event boundary over every sequence of its events: no event panics within
  the machine's bounds, the text replayed to the engine is the text shown, a snapshot result can only
  be used while the text it was taken from is still there, and an accepted automatic commit leaves
  exactly the proposed remainder.
\<close>

section \<open>The composer, once more\<close>

lemma text_wf_reading: "text_wf c \<Longrightarrow> lk_reading c = lk_stable c @ lk_pending c @ lk_suffix c"
  by (simp add: text_wf_def)

lemma reseed_reading_text [simp]: "lk_reading (reseed_reading c r) = r"
  by (simp add: reseed_reading_def refresh_reading_def append_stable_def Let_def)

lemma adopt_refused: "adopt_conversion_reading c r = Some (c', False) \<Longrightarrow> c' = c"
  by (auto simp: adopt_conversion_reading_def Let_def split: if_splits option.splits prod.splits)

lemma retain_prefix_refused: "composer_retain_prefix c pre = Some (c', False) \<Longrightarrow> c' = c"
  by (auto simp: composer_retain_prefix_def split: if_splits option.splits prod.splits)

lemma delete_forward_refused: "delete_forward c = Some (c', False) \<Longrightarrow> c' = c"
  by (auto simp: delete_forward_def Let_def split: if_splits option.splits prod.splits)

lemma move_cursor_unmoved:
  assumes "text_wf c" and "move_cursor c d = Some (c', False)"
  shows "c' = c"
proof -
  have "set_cursor c p = Some (c', False) \<Longrightarrow> c' = c" for p
    using set_cursor_wf [OF assms(1), of p] by auto
  then show ?thesis using assms(2)
    by (auto simp: move_cursor_def split: sum.splits option.splits if_splits)
qed

lemma find_rev_last: "ps \<noteq> [] \<Longrightarrow> P (last ps) \<Longrightarrow> find P (rev ps) = Some (last ps)"
  by (cases ps rule: rev_cases) auto

lemma set_cursor_end_suffix:
  assumes wf: "text_wf c" and len: "length (lk_reading c) \<le> u32_max"
    and c1: "set_cursor_end c = Some c1"
  shows "lk_suffix c1 = []"
proof (cases "lk_suffix c = []")
  case False
  obtain ps where ps: "legal_boundaries (lk_reading c) = Inr ps" using legal_boundaries_total [OF len] by blast
  have l: "ps \<noteq> []" "last ps = length (lk_reading c)"
    using last_legal_boundaries [OF ps] ps by (auto simp: legal_boundaries_Inr)
  have lm: "last_at_most ps (length (lk_reading c)) = Some (length (lk_reading c))"
    using find_rev_last [OF l(1), of "\<lambda>p. p \<le> length (lk_reading c)"] l by (simp add: last_at_most_def)
  have "length (lk_reading c) \<noteq> composer_cursor c"
    using False len text_wf_reading [OF wf] by (simp add: composer_cursor_def)
  moreover have "lk_reading (freeze_pending c) = lk_reading c" using freeze_pending_wf [OF wf] by simp
  ultimately show ?thesis using c1 False ps lm len
    by (auto simp: set_cursor_end_def set_cursor_def Let_def char_offset_def split: option.splits prod.splits)
qed (use c1 in \<open>simp add: set_cursor_end_def\<close>)

lemma retain_suffix_reading:
  assumes wf: "text_wf c" and len: "length (lk_reading c) \<le> u32_max"
    and kept: "retain_suffix gs c suf = Some (c', True)"
  shows "lk_reading c' = suf"
proof -
  from kept obtain c1 s' segs where c1: "set_cursor_end c = Some c1"
    and r: "retained_stable_suffix gs c1 suf = Some (s', segs)"
    and c': "lk_reading c' = s' @ lk_pending c1 @ lk_suffix c1"
    by (auto simp: retain_suffix_def refresh_reading_def Let_def split: if_splits option.splits)
  have "suf = s' @ lk_pending c1" using r
    by (auto simp: retained_stable_suffix_def strip_suffix_Some split: if_splits option.splits)
  then show ?thesis using c' set_cursor_end_suffix [OF wf len c1] by simp
qed

section \<open>The invariant\<close>

definition replay_ok :: "local_kana_composer \<Rightarrow> input_state \<Rightarrow> bool \<Rightarrow> bool" where
  "replay_ok c s replay \<longleftrightarrow>
     text_wf c
     \<and> (\<not> is_composing s \<longrightarrow> is_raw s = [] \<and> lk_reading c = [])
     \<and> (is_latin_from s \<noteq> None \<longrightarrow> is_composing s \<and> replay)
     \<and> (\<not> replay \<longrightarrow> lk_suffix c = [] \<and> kana_batch (is_raw s) = (lk_stable c, lk_pending c))"

definition index_ok :: "ustring list \<Rightarrow> nat \<Rightarrow> bool" where
  "index_ok values selected \<longleftrightarrow> (values \<noteq> [] \<longrightarrow> selected < length values)"

definition ticket_ok :: "input_module \<Rightarrow> bool" where
  "ticket_ok m \<longleftrightarrow> (case im_expected_snapshot m of None \<Rightarrow> True
     | Some (identity, _) \<Rightarrow> ms_composition identity = im_composition m
         \<and> ms_revision identity = im_revision m \<and> ms_request identity \<le> im_next_snapshot_request m)"

definition module_ok :: "input_module \<Rightarrow> bool" where
  "module_ok m \<longleftrightarrow> replay_ok (im_kana m) (im_state m) (im_replay_from_canonical m)
     \<and> index_ok (im_candidates m) (im_selected m) \<and> ticket_ok m"

text \<open>A later state still waits for an earlier snapshot only with the reading that snapshot was taken from.\<close>

definition follows :: "input_module \<Rightarrow> input_module \<Rightarrow> bool" where
  "follows m m' \<longleftrightarrow> im_next_snapshot_request m \<le> im_next_snapshot_request m'
     \<and> (case im_expected_snapshot m' of None \<Rightarrow> True
        | Some (identity, purpose) \<Rightarrow> ms_request identity \<le> im_next_snapshot_request m \<longrightarrow>
            lk_reading (im_kana m') = lk_reading (im_kana m)
            \<and> (\<exists>earlier. im_expected_snapshot m = Some (earlier, purpose)
                 \<and> ms_request earlier = ms_request identity))"

lemma follows_trans: "follows m m' \<Longrightarrow> follows m' m'' \<Longrightarrow> follows m m''"
  by (fastforce simp: follows_def split: option.splits prod.splits)

lemma follows_dropped:
  "im_expected_snapshot m' = None \<Longrightarrow> im_next_snapshot_request m' = im_next_snapshot_request m \<Longrightarrow> follows m m'"
  by (simp add: follows_def)

lemma follows_kept:
  "im_expected_snapshot m' = im_expected_snapshot m \<Longrightarrow> im_next_snapshot_request m' = im_next_snapshot_request m \<Longrightarrow>
   lk_reading (im_kana m') = lk_reading (im_kana m) \<Longrightarrow> follows m m'"
  by (auto simp: follows_def split: option.splits)

lemma follows_refl [simp]: "follows m m"
  by (rule follows_kept) simp_all

lemma ticket_dropped: "im_expected_snapshot m = None \<Longrightarrow> ticket_ok m"
  by (simp add: ticket_ok_def)

lemma ticket_cong:
  "im_expected_snapshot m' = im_expected_snapshot m \<Longrightarrow> im_composition m' = im_composition m \<Longrightarrow>
   im_revision m' = im_revision m \<Longrightarrow> im_next_snapshot_request m' = im_next_snapshot_request m \<Longrightarrow>
   ticket_ok m' = ticket_ok m"
  by (simp add: ticket_ok_def split: option.split)

definition settles :: "input_module \<Rightarrow> (input_module \<times> 'a) option \<Rightarrow> bool" where
  "settles m r \<longleftrightarrow> (\<exists>m' out. r = Some (m', out) \<and> module_ok m' \<and> follows m m')"

lemma settles_Some [simp]: "settles m (Some (m', out)) \<longleftrightarrow> module_ok m' \<and> follows m m'"
  by (simp add: settles_def)

text \<open>The three ways an operation leaves the ticket: it touches neither, it drops it, it issues a new one.\<close>

lemma unchanged_surface:
  assumes "module_ok m"
    and "im_kana m' = im_kana m" and "im_state m' = im_state m"
    and "im_replay_from_canonical m' = im_replay_from_canonical m"
    and "index_ok (im_candidates m') (im_selected m')"
    and "im_expected_snapshot m' = im_expected_snapshot m"
    and "im_composition m' = im_composition m" and "im_revision m' = im_revision m"
    and "im_next_snapshot_request m' = im_next_snapshot_request m"
  shows "module_ok m' \<and> follows m m'"
  using assms ticket_cong [of m' m] follows_kept [of m' m] by (simp add: module_ok_def)

lemma kept_ticket:
  assumes "module_ok m"
    and "replay_ok (im_kana m') (im_state m') (im_replay_from_canonical m')"
    and "lk_reading (im_kana m') = lk_reading (im_kana m)"
    and "im_candidates m' = im_candidates m" and "im_selected m' = im_selected m"
    and "im_expected_snapshot m' = im_expected_snapshot m"
    and "im_composition m' = im_composition m" and "im_revision m' = im_revision m"
    and "im_next_snapshot_request m' = im_next_snapshot_request m"
  shows "module_ok m' \<and> follows m m'"
  using assms ticket_cong [of m' m] follows_kept [of m' m] by (simp add: module_ok_def)

lemma dropped_ticket:
  assumes "replay_ok (im_kana m') (im_state m') (im_replay_from_canonical m')"
    and "index_ok (im_candidates m') (im_selected m')"
    and "im_expected_snapshot m' = None"
    and "im_next_snapshot_request m' = im_next_snapshot_request m"
  shows "module_ok m' \<and> follows m m'"
  using assms by (simp add: module_ok_def ticket_dropped follows_dropped)

lemma selection_Nil [simp]: "index_ok [] n"
  by (simp add: index_ok_def)

lemma surface_notation [simp]:
  "replay_ok c (s\<lparr>is_notation_fixed := n\<rparr>) replay = replay_ok c s replay"
  "replay_ok c (s\<lparr>is_phase := p\<rparr>) replay = replay_ok c s replay"
  "replay_ok c (s\<lparr>is_live_seq := k\<rparr>) replay = replay_ok c s replay"
  "replay_ok c (s\<lparr>is_llm_seq := k\<rparr>) replay = replay_ok c s replay"
  by (simp_all add: replay_ok_def)

lemmas module_updates = clear_candidates_def invalidate_live_display_def invalidate_live_snapshot_def
  bump_revision_def

section \<open>Replay\<close>

lemma replay_total:
  "replay_ok (im_kana m) (im_state m) (im_replay_from_canonical m) \<Longrightarrow>
   \<exists>segs. module_replay_segments m = Some segs"
  by (auto simp: replay_ok_def module_replay_segments_def Let_def)

lemma last_segment_fits:
  assumes "segs \<noteq> []" shows "byte_len (sg_text (last segs)) \<le> byte_len (seg_text segs)"
  using assms by (cases segs rule: rev_cases) auto

lemma reanchor_ok:
  assumes "text_wf (im_kana m)"
  shows "\<exists>s. reanchor_after_surface_edit m keep = Some (m\<lparr>im_state := s, im_replay_from_canonical := True\<rparr>)
    \<and> replay_ok (im_kana m) s True"
proof -
  have t: "seg_text (replay_segments (im_kana m)) = lk_reading (im_kana m)"
    using replay_segments_text [OF text_wf_parts [OF assms]] text_wf_reading [OF assms] by simp
  have fits: "replay_segments (im_kana m) \<noteq> [] \<Longrightarrow>
      byte_len (sg_text (last (replay_segments (im_kana m)))) \<le> byte_len (lk_reading (im_kana m))"
    using last_segment_fits [of "replay_segments (im_kana m)"] t by simp
  have s: "replay_ok (im_kana m) (st\<lparr>is_raw := lk_reading (im_kana m),
      is_composing := lk_reading (im_kana m) \<noteq> [], is_notation_fixed := None,
      is_latin_from := if lk_reading (im_kana m) \<noteq> [] then l else None\<rparr>) True" for st l
    using assms by (auto simp: replay_ok_def)
  show ?thesis using fits s
    by (auto simp: reanchor_after_surface_edit_def Let_def checked_sub_def split: list.split)
qed


section \<open>Every operation keeps the invariant\<close>

lemma surface_fresh:
  "replay_ok c s replay \<Longrightarrow> \<not> is_composing s \<Longrightarrow> replay_ok c s False"
  by (auto simp: replay_ok_def text_wf_def kana_batch_None next_unit_def)

text \<open>One more typed character: the reading grows as the batch parse of the raw input does.\<close>

lemma push_kana_ok:
  assumes "replay_ok c s replay"
  shows "\<exists>c'. composer_push c ch StyleKana = Some c' \<and> replay_ok c' (fst (on_char s ch)) replay"
proof -
  from composer_push_wf [of c ch StyleKana] assms obtain c' where
    c': "composer_push c ch StyleKana = Some c'" "text_wf c'" "lk_suffix c' = lk_suffix c"
      "lk_stable c' = lk_stable c @ fst (kana_batch (lk_pending c @ [ch]))"
      "lk_pending c' = snd (kana_batch (lk_pending c @ [ch]))"
    by (auto simp: replay_ok_def)
  have "kana_batch (is_raw s @ [ch]) = (lk_stable c', lk_pending c')" if "\<not> replay"
    using that assms c'(4,5) by (simp add: replay_ok_def kana_batch_append [of "is_raw s" "[ch]"])
  then show ?thesis using c'(1-3) assms
    by (auto simp: replay_ok_def on_char_def Let_def)
qed

lemma push_direct_ok:
  assumes "replay_ok c s replay"
  shows "\<exists>c'. composer_push c ch StyleDirect = Some c' \<and> replay_ok c' (fst (on_char_latin s ch)) True"
  using composer_push_wf [of c ch StyleDirect] assms
  by (auto simp: replay_ok_def on_char_def on_char_latin_def Let_def)

lemma immediate_display_unchanged:
  "immediate_display m = (m', d) \<Longrightarrow>
   (m' = m \<or> m' = invalidate_live_display m)"
  by (auto simp: immediate_display_def Let_def reading_parts_def split: if_splits option.splits)

lemma handle_text_ok:
  assumes ok: "module_ok m" and room: "im_next_request m < u64_max"
  shows "settles m (handle_text m ch style replay)"
proof -
  define edit where "edit = (im_cursor_replay_pending m \<or> \<not> cursor_at_end (im_kana m))"
  define m1 where "m1 = clear_candidates (if is_composing (im_state m) then m
      else m\<lparr>im_composition := wrapping_succ (im_composition m), im_revision := 0,
             im_replay_from_canonical := False\<rparr>)"
  have m1: "replay_ok (im_kana m1) (im_state m1) (im_replay_from_canonical m1)"
    "im_candidates m1 = []" "im_next_request m1 = im_next_request m"
    "im_next_snapshot_request m1 = im_next_snapshot_request m"
    using ok surface_fresh by (auto simp: m1_def clear_candidates_def module_ok_def)
  obtain c m2 where c: "composer_push (im_kana m1) ch
        (case style of StyleKanaText \<Rightarrow> StyleKana | StyleDirectText \<Rightarrow> StyleDirect) = Some c"
    and m2: "m2 = (case style of
        StyleKanaText \<Rightarrow> m1\<lparr>im_state := fst (on_char (im_state m1) ch), im_kana := c\<rparr>
      | StyleDirectText \<Rightarrow> m1\<lparr>im_state := fst (on_char_latin (im_state m1) ch), im_kana := c,
            im_replay_from_canonical := True\<rparr>)"
    and s2: "replay_ok (im_kana m2) (im_state m2) (im_replay_from_canonical m2)"
    using push_kana_ok [OF m1(1), of ch] push_direct_ok [OF m1(1), of ch] by (cases style) auto
  have f2: "im_candidates m2 = []" "im_next_request m2 = im_next_request m"
    "im_next_snapshot_request m2 = im_next_snapshot_request m"
    using m1 m2 by (auto split: text_style.splits)
  obtain m3 where m3: "(if edit then reanchor_after_surface_edit m2 (latin_mode (im_state m2)) else Some m2)
      = Some m3" and s3: "replay_ok (im_kana m3) (im_state m3) (im_replay_from_canonical m3)"
    and f3: "im_candidates m3 = []" "im_next_request m3 = im_next_request m"
    "im_next_snapshot_request m3 = im_next_snapshot_request m"
    using reanchor_ok [of m2 "latin_mode (im_state m2)"] s2 f2
    by (cases edit) (auto simp: replay_ok_def)
  define m4 where "m4 = (bump_revision (m3\<lparr>im_cursor_replay_pending := False\<rparr>))
      \<lparr>im_next_request := im_next_request m + 1\<rparr>"
  have r4: "request_id (bump_revision (m3\<lparr>im_cursor_replay_pending := False\<rparr>)) = Some (m4, im_next_request m + 1)"
    using room f3 by (simp add: request_id_def m4_def module_updates checked_add_u64_def)
  have s4: "replay_ok (im_kana m4) (im_state m4) (im_replay_from_canonical m4)"
    "im_candidates m4 = []" "im_expected_snapshot m4 = None"
    "im_next_snapshot_request m4 = im_next_snapshot_request m"
    using s3 f3 by (simp_all add: m4_def module_updates)
  obtain m5 d where m5: "immediate_display m4 = (m5, d)" by (cases "immediate_display m4")
  have s5: "replay_ok (im_kana m5) (im_state m5) (im_replay_from_canonical m5)"
    "im_candidates m5 = []" "im_expected_snapshot m5 = None"
    "im_next_snapshot_request m5 = im_next_snapshot_request m"
    using immediate_display_unchanged [OF m5] s4 by (auto simp: module_updates)
  have ok5: "module_ok m5 \<and> follows m m5" by (rule dropped_ticket) (use s5 in simp_all)
  obtain segs where segs: "module_replay_segments m4 = Some segs" using replay_total [OF s4(1)] by blast
  obtain segs5 where segs5: "module_replay_segments m5 = Some segs5" using replay_total [OF s5(1)] by blast
  show ?thesis
    using ok5 c m3 r4 m5 segs segs5
    by (auto simp: handle_text_def Let_def simp flip: edit_def m1_def m2 split: replay_mode.split)
qed

lemma navigation_ok:
  assumes ok: "module_ok m" and c: "text_wf c" "lk_reading c = lk_reading (im_kana m)"
    and moved: "moved \<or> c = im_kana m"
  shows "settles m (Some (reading_navigation_output (m\<lparr>im_kana := c\<rparr>) moved))"
proof (cases moved)
  case True
  let ?m = "fst (reading_navigation_output (m\<lparr>im_kana := c\<rparr>) True)"
  have "module_ok ?m \<and> follows m ?m"
    by (rule dropped_ticket)
      (use ok c in \<open>auto simp: reading_navigation_output_def module_updates module_ok_def replay_ok_def Let_def\<close>)
  then show ?thesis using True by (simp add: reading_navigation_output_def Let_def)
next
  case False
  then show ?thesis using ok moved by (simp add: reading_navigation_output_def)
qed

lemma set_cursor_unmoved: "text_wf c \<Longrightarrow> set_cursor c p = Some (c', False) \<Longrightarrow> c' = c"
  using set_cursor_wf [of c p] by auto

lemma set_reading_cursor_ok:
  assumes ok: "module_ok m"
  shows "settles m (set_reading_cursor m p)"
proof -
  have wf: "text_wf (im_kana m)" using ok by (simp add: module_ok_def replay_ok_def)
  from set_cursor_wf [OF wf, of p] obtain c moved where c: "set_cursor (im_kana m) p = Some (c, moved)"
    "text_wf c" "lk_reading c = lk_reading (im_kana m)" "\<not> moved \<longrightarrow> c = im_kana m" by blast
  then show ?thesis using navigation_ok [OF ok c(2,3), of moved] by (auto simp: set_reading_cursor_def)
qed

lemma move_reading_ok:
  assumes ok: "module_ok m"
  shows "settles m (do { (kana, moved) \<leftarrow> move_cursor (im_kana m) d;
    Some (reading_navigation_output (m\<lparr>im_kana := kana\<rparr>) moved) })"
proof -
  have wf: "text_wf (im_kana m)" using ok by (simp add: module_ok_def replay_ok_def)
  from move_cursor_wf [OF wf, of d] obtain c moved where c: "move_cursor (im_kana m) d = Some (c, moved)"
    "text_wf c" "lk_reading c = lk_reading (im_kana m)" by blast
  then show ?thesis using navigation_ok [OF ok c(2,3), of moved] move_cursor_unmoved [OF wf] by (cases moved) auto
qed

lemma deletion_output_ok:
  assumes s: "replay_ok (im_kana m') (im_state m') (im_replay_from_canonical m')"
    and l: "im_candidates m' = []" and n: "im_next_snapshot_request m' = im_next_snapshot_request m"
    and room: "im_next_request m' < u64_max"
  shows "settles m (deletion_output m')"
proof -
  let ?m = "(bump_revision m')\<lparr>im_next_request := im_next_request m' + 1\<rparr>"
  have r: "request_id (bump_revision m') = Some (?m, im_next_request m' + 1)"
    using room by (simp add: request_id_def module_updates checked_add_u64_def)
  have s1: "replay_ok (im_kana ?m) (im_state ?m) (im_replay_from_canonical ?m)"
    using s by (simp add: module_updates)
  have ok: "module_ok ?m \<and> follows m ?m"
    by (rule dropped_ticket) (use s l n in \<open>simp_all add: module_updates\<close>)
  obtain segs where "module_replay_segments ?m = Some segs" using replay_total [OF s1] by blast
  then show ?thesis using ok r by (simp add: deletion_output_def)
qed

lemma reanchored_deletion_ok:
  assumes "text_wf (im_kana m')" and "im_candidates m' = []"
    and "im_next_snapshot_request m' = im_next_snapshot_request m" and "im_next_request m' < u64_max"
  shows "settles m (do { m2 \<leftarrow> reanchor_after_surface_edit m' keep; deletion_output m2 })"
proof -
  from reanchor_ok [OF assms(1), of keep] obtain s where
    s: "reanchor_after_surface_edit m' keep = Some (m'\<lparr>im_state := s, im_replay_from_canonical := True\<rparr>)"
      "replay_ok (im_kana m') s True" by blast
  show ?thesis using s(1) assms
    by simp (rule deletion_output_ok, use s(2) in simp_all)
qed

lemma handle_delete_ok:
  assumes ok: "module_ok m" and room: "im_next_request m < u64_max"
  shows "settles m (handle_delete m)"
proof -
  have wf: "text_wf (im_kana m)" using ok by (simp add: module_ok_def replay_ok_def)
  from delete_forward_wf [OF wf] obtain c deleted where
    c: "delete_forward (im_kana m) = Some (c, deleted)" "text_wf c" by blast
  show ?thesis
  proof (cases deleted)
    case True
    then show ?thesis using c room
      by (simp add: handle_delete_def Let_def)
        (rule reanchored_deletion_ok, simp_all add: module_updates)
  next
    case False
    then show ?thesis using c ok delete_forward_refused [of "im_kana m"] by (simp add: handle_delete_def)
  qed
qed

lemma handle_backspace_ok:
  assumes ok: "module_ok m" and gs: "segmentation gs" and room: "im_next_request m < u64_max"
  shows "settles m (handle_backspace gs m)"
proof -
  have wf: "text_wf (im_kana m)" using ok by (simp add: module_ok_def replay_ok_def)
  from delete_before_cursor_wf [OF wf gs, of True] obtain c where
    c: "backspace_at_cursor gs (im_kana m) = Some c" "text_wf c" by (auto simp: backspace_at_cursor_def)
  show ?thesis
  proof (cases "composer_cursor (im_kana m) = 0 \<and> canonical_reading m \<noteq> []")
    case False
    let ?m = "(invalidate_live_display (clear_candidates m))
      \<lparr>im_state := fst (on_backspace (im_state m)), im_kana := c\<rparr>"
    have "handle_backspace gs m = (do {
        m3 \<leftarrow> reanchor_after_surface_edit ?m (latin_mode (im_state m)); deletion_output m3 })"
      using False c by (auto simp: handle_backspace_def Let_def module_updates)
    moreover have "settles m (do {
        m3 \<leftarrow> reanchor_after_surface_edit ?m (latin_mode (im_state m)); deletion_output m3 })"
      by (rule reanchored_deletion_ok) (use c room in \<open>simp_all add: module_updates\<close>)
    ultimately show ?thesis by simp
  qed (use ok in \<open>simp add: handle_backspace_def\<close>)
qed

lemma candidate_commit_ok:
  assumes ok: "module_ok m" and room: "im_next_request m < u64_max"
  shows "settles m (candidate_commit m index)"
proof -
  have "module_ok m' \<and> follows m m'"
    if "m' = m\<lparr>im_candidate_interacted := True, im_next_request := n, im_pending_candidate_commit := p\<rparr>"
    for m' n p using ok that by (intro unchanged_surface) (auto simp: module_ok_def)
  then show ?thesis using ok room
    by (auto simp: candidate_commit_def Let_def request_id_def checked_add_u64_def split: option.split)
qed

lemma replace_for_revision_ok:
  assumes ok: "module_ok m"
  shows "settles m (Some (replace_candidates_for_revision m values selected composition revision))"
proof -
  have list: "min selected (length values - 1) < length values" if "values \<noteq> []" using that
    by (cases "values") auto
  have "module_ok m' \<and> follows m m'"
    if "m' = fst (replace_candidates_for_revision m values selected composition revision)" for m'
    using ok that list
    by (intro unchanged_surface)
      (auto simp: replace_candidates_for_revision_def module_updates Let_def module_ok_def index_ok_def)
  then show ?thesis by (cases "replace_candidates_for_revision m values selected composition revision") auto
qed

lemma field_ok:
  assumes "module_ok m"
  shows "module_ok (m\<lparr>im_candidate_interacted := b\<rparr>)" "follows m (m\<lparr>im_candidate_interacted := b\<rparr>)"
  using unchanged_surface [OF assms, of "m\<lparr>im_candidate_interacted := b\<rparr>"] assms
  by (auto simp: module_ok_def)

lemma replace_candidates_ok:
  assumes ok: "module_ok m"
  shows "settles m (Some (replace_candidates m values selected reason))"
proof (cases reason)
  case NewResult
  then show ?thesis using replace_for_revision_ok [OF ok] by (simp add: replace_candidates_def)
next
  case UserDriven
  let ?m = "m\<lparr>im_candidate_interacted := False\<rparr>"
  obtain m1 out where r: "replace_candidates_for_revision ?m values selected (im_composition m)
      (im_revision m) = (m1, out)" by (rule prod.exhaust)
  have m1: "module_ok m1" "follows ?m m1"
    using replace_for_revision_ok [OF field_ok(1) [OF ok, of False], of "values" selected "im_composition m"
        "im_revision m"] r by auto
  have "module_ok (m1\<lparr>im_candidate_interacted := True\<rparr>)" "follows m (m1\<lparr>im_candidate_interacted := True\<rparr>)"
    using field_ok [OF m1(1), of True] field_ok(2) [OF ok, of False] m1(2) follows_trans by blast+
  then show ?thesis using ok r UserDriven by (auto simp: replace_candidates_def Let_def split: option.split)
qed

text \<open>The candidate list fits the \<open>i32\<close> index arithmetic and the move stays inside it.\<close>

definition move_fits :: "input_module \<Rightarrow> int \<Rightarrow> bool" where
  "move_fits m delta \<longleftrightarrow> length (im_candidates m) < 2 ^ 31
     \<and> - (2 ^ 31) \<le> int (im_selected m) + delta \<and> int (im_selected m) + delta < 2 ^ 31"

lemma moved_selection_ok:
  assumes "move_fits m delta" and "im_candidates m \<noteq> []" and "index_ok (im_candidates m) (im_selected m)"
  shows "\<exists>i. moved_selection (length (im_candidates m)) (im_selected m) delta = Some i \<and> i < length (im_candidates m)"
proof -
  let ?n = "length (im_candidates m)"
  have n: "0 < ?n" "?n < 2 ^ 31" "im_selected m < 2 ^ 31"
    using assms by (auto simp: move_fits_def index_ok_def)
  have e: "as_i32 ?n = int ?n" "as_i32 (im_selected m) = int (im_selected m)"
    using n(2,3) as_i32_small by blast+
  have p: "0 \<le> (int (im_selected m) + delta) mod int ?n" "(int (im_selected m) + delta) mod int ?n < int ?n"
    using n by auto
  then have "nat ((int (im_selected m) + delta) mod int ?n) < ?n" by linarith
  then show ?thesis using assms n(1) unfolding moved_selection_def e Let_def
    by (auto simp: move_fits_def)
qed

lemma select_and_show_ok:
  assumes ok: "module_ok m" and i: "i < length (im_candidates m)"
  shows "settles m (select_and_show (invalidate_live_display (m\<lparr>im_candidate_interacted := True\<rparr>)) i)"
proof -
  have "module_ok m' \<and> follows m m'"
    if "m' = (invalidate_live_display (m\<lparr>im_candidate_interacted := True\<rparr>))\<lparr>im_selected := i\<rparr>" for m'
    using ok that i by (intro unchanged_surface) (auto simp: module_updates index_ok_def)
  then show ?thesis using i by (simp add: select_and_show_def module_updates get_def)
qed

definition key_fits :: "input_module \<Rightarrow> key_event \<Rightarrow> bool" where
  "key_fits m key \<longleftrightarrow> im_next_request m < u64_max
     \<and> (case key of KeyMoveCandidate delta \<Rightarrow> move_fits m delta | _ \<Rightarrow> True)"

lemma handle_key_ok:
  assumes ok: "module_ok m" and gs: "segmentation gs" and fits: "key_fits m key"
  shows "settles m (handle_key gs m key)"
proof -
  have room: "im_next_request m < u64_max" using fits by (simp add: key_fits_def)
  have wf: "text_wf (im_kana m)" using ok by (simp add: module_ok_def replay_ok_def)
  have nav: "settles m (do { (kana, moved) \<leftarrow> set_cursor (im_kana m) p;
      Some (reading_navigation_output (m\<lparr>im_kana := kana\<rparr>) moved) })" for p
    using set_reading_cursor_ok [OF ok, of p] set_cursor_wf [OF wf, of p] by (auto simp: set_reading_cursor_def)
  have space: "module_ok m' \<and> follows m m'"
    if "m' = m\<lparr>im_next_request := n, im_expected_candidates := e\<rparr>" for m' n e
    using ok that by (intro unchanged_surface) (auto simp: module_ok_def)
  note parts = handle_text_ok [OF ok room] nav move_reading_ok [OF ok] handle_delete_ok [OF ok room]
    handle_backspace_ok [OF ok gs room] candidate_commit_ok [OF ok room]
  show ?thesis
  proof (cases key)
    case (KeyMoveCandidate delta)
    show ?thesis
    proof (cases "im_candidates m = []")
      case False
      from moved_selection_ok [OF _ False, of delta] ok fits KeyMoveCandidate obtain i where
        "moved_selection (length (im_candidates m)) (im_selected m) delta = Some i" "i < length (im_candidates m)"
        by (auto simp: key_fits_def module_ok_def)
      then show ?thesis using KeyMoveCandidate False select_and_show_ok [OF ok, of i] by (simp add: handle_key_def)
    qed (use ok KeyMoveCandidate in \<open>simp add: handle_key_def\<close>)
  next
    case (KeySelectCandidate i)
    then show ?thesis using ok select_and_show_ok [OF ok, of "min i (length (im_candidates m) - 1)"]
      by (cases "im_candidates m") (auto simp: handle_key_def)
  next
    case KeySpace
    then show ?thesis using ok space room by (simp add: handle_key_def request_id_def checked_add_u64_def)
  qed (use ok parts in \<open>auto simp: handle_key_def Let_def\<close>)
qed

lemma pending_fields_ok:
  assumes "module_ok m"
  shows "module_ok (m\<lparr>im_pending_candidate_commit := a\<rparr>) \<and> follows m (m\<lparr>im_pending_candidate_commit := a\<rparr>)"
    and "module_ok (m\<lparr>im_pending_live_display := b\<rparr>) \<and> follows m (m\<lparr>im_pending_live_display := b\<rparr>)"
    and "module_ok (m\<lparr>im_pending_auto_commit := p\<rparr>) \<and> follows m (m\<lparr>im_pending_auto_commit := p\<rparr>)"
    and "module_ok (m\<lparr>im_live_display_anchor := l\<rparr>) \<and> follows m (m\<lparr>im_live_display_anchor := l\<rparr>)"
    and "module_ok (m\<lparr>im_auto_commit_receipt := r\<rparr>) \<and> follows m (m\<lparr>im_auto_commit_receipt := r\<rparr>)"
    and "module_ok (invalidate_live_display m) \<and> follows m (invalidate_live_display m)"
  using assms by (rule unchanged_surface; use assms in \<open>simp add: module_ok_def module_updates\<close>)+

lemma engine_commit_ok: "module_ok m \<Longrightarrow> settles m (Some (engine_commit gs m candidate t outcome))"
  by (simp add: engine_commit_def show_operation_def split: engine_commit_outcome.split option.split)

lemma settles_after: "follows m m1 \<Longrightarrow> settles m1 r \<Longrightarrow> settles m r"
  using follows_trans by (fastforce simp: settles_def)

lemma engine_commit_result_ok:
  assumes ok: "module_ok m"
  shows "settles m (Some (engine_commit_result gs m request candidate t outcome))"
proof -
  let ?m = "m\<lparr>im_pending_candidate_commit := None\<rparr>"
  have "settles m (Some (engine_commit gs ?m candidate t outcome))"
    using settles_after engine_commit_ok pending_fields_ok(1) [OF ok] by blast
  then show ?thesis using ok engine_commit_ok [OF ok]
    by (simp add: engine_commit_result_def split: option.split)
qed

lemma handle_engine_ok:
  assumes ok: "module_ok m"
  shows "settles m (Some (handle_engine gs m result))"
proof (cases result)
  case (ResReading request t)
  obtain m1 d where d: "immediate_display m = (m1, d)" by (rule prod.exhaust)
  have "module_ok m1 \<and> follows m m1"
    using immediate_display_unchanged [OF d] pending_fields_ok(6) [OF ok] ok by auto
  then show ?thesis using ResReading ok d by (simp add: handle_engine_def show_operation_def)
next
  case (ResCandidates request vals)
  then show ?thesis using ok replace_for_revision_ok [OF ok]
    by (simp add: handle_engine_def split: option.split)
next
  case (ResCommit request candidate t outcome)
  then show ?thesis using engine_commit_result_ok [OF ok] by (simp add: handle_engine_def)
next
  case (ResDisconnected request)
  then show ?thesis using pending_fields_ok(6) [OF ok]
    by (simp add: handle_engine_def show_operation_def Let_def)
next
  case (ResLiveSnapshot identity t)
  then show ?thesis using ok pending_fields_ok(2) [OF ok]
    by (simp add: handle_engine_def live_snapshot_result_def show_operation_def Let_def reading_parts_def)
next
  case (ResLiveAutoCommitProposal p)
  then show ?thesis using ok pending_fields_ok(3) [OF ok]
    by (simp add: handle_engine_def auto_commit_proposal_result_def show_operation_def split: option.split)
next
  case (ResExplicitSnapshot identity candidates)
  then show ?thesis using ok replace_for_revision_ok [OF ok] by (simp add: handle_engine_def)
qed

definition event_fits :: "input_module \<Rightarrow> input_event \<Rightarrow> bool" where
  "event_fits m event \<longleftrightarrow> (case event of InKey key \<Rightarrow> key_fits m key | _ \<Rightarrow> True)"

lemma list_closed_ok: "module_ok m \<Longrightarrow> module_ok (clear_candidates m) \<and> follows m (clear_candidates m)"
  by (rule unchanged_surface) (simp_all add: module_updates)

lemma module_handle_ok:
  assumes "module_ok m" and "segmentation gs" and "event_fits m event"
  shows "settles m (module_handle gs m event)"
  using assms handle_key_ok [OF assms(1,2)] handle_engine_ok [OF assms(1)] replace_candidates_ok [OF assms(1)]
    list_closed_ok [OF assms(1)]
  by (auto simp: module_handle_def event_fits_def
      split: input_event.splits lifecycle_event.splits candidate_event.splits)

lemma reset_ok: "module_ok (module_reset m) \<and> follows m (module_reset m)"
  by (rule dropped_ticket)
    (simp_all add: module_reset_def module_updates replay_ok_def state_reset_def composer_clear_def
      text_wf_def literals_ok_def kana_batch_None next_unit_def)

lemma reseed_ok:
  assumes wf: "text_wf (im_kana m)"
  shows "\<exists>m'. reseed_after_partial_commit_with_latin gs m rest latin = Some m' \<and> module_ok m' \<and> follows m m'"
proof -
  from retain_suffix_wf [OF wf, of gs rest] obtain c kept where
    c: "retain_suffix gs (im_kana m) rest = Some (c, kept)" "text_wf c" by blast
  let ?c = "if kept then c else reseed_reading c rest"
  have wf': "text_wf ?c" using c reseed_wf by simp
  let ?m = "the (reseed_after_partial_commit_with_latin gs m rest latin)"
  have e: "reseed_after_partial_commit_with_latin gs m rest latin = Some ?m"
    "im_kana ?m = ?c" "im_state ?m = Input_State.reseed_after_partial_commit (im_state m) rest latin"
    "im_replay_from_canonical ?m" "im_candidates ?m = []" "im_expected_snapshot ?m = None"
    "im_next_snapshot_request ?m = im_next_snapshot_request m"
    using c by (simp_all add: reseed_after_partial_commit_with_latin_def module_updates Let_def)
  have "module_ok ?m \<and> follows m ?m"
    by (rule dropped_ticket)
      (use e wf' in \<open>simp_all add: replay_ok_def Input_State.reseed_after_partial_commit_def\<close>)
  then show ?thesis using e(1) by blast
qed

lemma cancelled_ok:
  assumes ok: "module_ok m"
  shows "module_ok (invalidate_live_display (bump_revision (m\<lparr>im_state := resume_composing (im_state m)\<rparr>)))
    \<and> follows m (invalidate_live_display (bump_revision (m\<lparr>im_state := resume_composing (im_state m)\<rparr>)))"
  by (rule dropped_ticket)
    (use ok in \<open>auto simp: module_updates module_ok_def replay_ok_def resume_composing_def\<close>)

definition settled :: "input_module \<Rightarrow> immediate_operation \<Rightarrow> bool \<Rightarrow> input_module" where
  "settled m operation applied = (case operation of
     ImmSetPreedit t \<Rightarrow>
       (case im_pending_live_display m of
          None \<Rightarrow> m
        | Some (pending_text, anchor) \<Rightarrow>
            (if applied \<and> t = pending_text
             then m\<lparr>im_pending_live_display := None, im_live_display_anchor := anchor\<rparr>
             else m\<lparr>im_pending_live_display := None\<rparr>))
   | _ \<Rightarrow> m)"

lemma settled_ok:
  assumes ok: "module_ok m"
  shows "module_ok (settled m operation applied) \<and> follows m (settled m operation applied)"
proof -
  have "module_ok m' \<and> follows m m'"
    if "m' = m\<lparr>im_pending_live_display := None, im_live_display_anchor := anchor\<rparr>" for m' anchor
    using ok that by (intro unchanged_surface) (auto simp: module_ok_def)
  then show ?thesis using ok pending_fields_ok(2) [OF ok]
    by (auto simp: settled_def split: immediate_operation.split option.split)
qed

lemma module_complete_settled:
  "module_complete gs m operation applied =
     (if \<not> applied then
        (let m2 = (settled m operation False)\<lparr>im_pending_auto_commit := None\<rparr>
         in Some (case operation of
              ImmCancel \<Rightarrow> invalidate_live_display
                (bump_revision (m2\<lparr>im_state := resume_composing (im_state m2)\<rparr>))
            | _ \<Rightarrow> m2))
      else case operation of
        ImmCommit t candidate remaining latin_from \<Rightarrow>
          (let m2 = m\<lparr>im_auto_commit_receipt := im_pending_auto_commit m, im_pending_auto_commit := None\<rparr>
           in case remaining of
                Some rest \<Rightarrow> (if rest \<noteq> [] then reseed_after_partial_commit_with_latin gs m2 rest latin_from
                             else Some (module_reset m2))
              | None \<Rightarrow> Some (module_reset m2))
      | ImmCancel \<Rightarrow> Some (module_reset m)
      | _ \<Rightarrow> Some (settled m operation True))"
  by (cases operation; cases applied)
    (simp_all add: module_complete_def settled_def Let_def split: option.split)

lemma module_complete_ok:
  assumes ok: "module_ok m"
  shows "\<exists>m'. module_complete gs m operation applied = Some m' \<and> module_ok m' \<and> follows m m'"
proof (cases applied)
  case False
  let ?m1 = "settled m operation False"
  let ?m2 = "?m1\<lparr>im_pending_auto_commit := None\<rparr>"
  have m2: "module_ok ?m2" "follows m ?m2"
    using settled_ok [OF ok, of operation False] pending_fields_ok(3) [of ?m1 None] follows_trans by blast+
  then show ?thesis using False cancelled_ok [OF m2(1)] follows_trans [OF m2(2)]
    by (cases operation) (auto simp: module_complete_settled Let_def)
next
  case True
  let ?m2 = "m\<lparr>im_auto_commit_receipt := im_pending_auto_commit m, im_pending_auto_commit := None\<rparr>"
  have m2: "module_ok ?m2 \<and> follows m ?m2" using ok
    by (intro unchanged_surface) (auto simp: module_ok_def)
  have wf: "text_wf (im_kana ?m2)" using ok by (simp add: module_ok_def replay_ok_def)
  have fin: "\<exists>m'. (case remaining of
      Some rest \<Rightarrow> (if rest \<noteq> [] then reseed_after_partial_commit_with_latin gs ?m2 rest latin_from
                   else Some (module_reset ?m2))
    | None \<Rightarrow> Some (module_reset ?m2)) = Some m' \<and> module_ok m' \<and> follows m m'" for remaining latin_from
    using reset_ok [of ?m2] reseed_ok [OF wf, of gs _ latin_from] m2 follows_trans
    by (simp split: option.split) blast
  show ?thesis using True settled_ok [OF ok, of operation True] reset_ok [of m] fin
    by (cases operation) (simp_all add: module_complete_settled Let_def)
qed

lemma snapshot_of_ok:
  assumes ok: "module_ok m"
  shows "settles m (snapshot_of m purpose cg ng left)"
proof (cases "checked_add_u64 (im_next_snapshot_request m) 1")
  case (Some n)
  let ?m = "m\<lparr>im_next_snapshot_request := n, im_expected_snapshot :=
    Some (\<lparr>ms_request = n, ms_composition = im_composition m, ms_revision = im_revision m,
      ms_configuration_generation = cg, ms_connection_generation = ng\<rparr>, purpose)\<rparr>"
  have "n = im_next_snapshot_request m + 1" using Some by simp
  then have m: "module_ok ?m" "follows m ?m"
    using ok by (simp_all add: module_ok_def ticket_ok_def follows_def)
  then obtain segs where "module_replay_segments ?m = Some segs"
    using replay_total [of ?m] by (auto simp: module_ok_def)
  then show ?thesis using m unfolding snapshot_of_def Some by (simp add: Let_def)
next
  case None
  then show ?thesis using ok unfolding snapshot_of_def None by simp
qed

lemma rebind_ok:
  assumes ok: "module_ok m"
  shows "settles m (Some (rebind_expected_snapshot_connection m cg ng))"
proof (cases "im_expected_snapshot m")
  case (Some e)
  obtain identity purpose where e: "e = (identity, purpose)" by (cases e)
  let ?m = "invalidate_live_display (m\<lparr>im_expected_snapshot :=
    Some (identity\<lparr>ms_connection_generation := ng\<rparr>, purpose)\<rparr>)"
  have "module_ok ?m" "follows m ?m"
    using ok Some e by (simp_all add: module_ok_def ticket_ok_def follows_def module_updates)
  then show ?thesis using ok Some e by (simp add: rebind_expected_snapshot_connection_def)
qed (use ok in \<open>simp add: rebind_expected_snapshot_connection_def\<close>)

lemma module_finalize_ok:
  assumes ok: "module_ok m"
  shows "settles m (module_finalize_pending_n m)"
proof -
  have wf: "text_wf (im_kana m)" using ok by (simp add: module_ok_def replay_ok_def)
  obtain c changed where c: "finalize_pending_n (im_kana m) = (c, changed)" by (rule prod.exhaust)
  have cw: "text_wf c" using finalize_pending_n_wf [OF wf] c by simp
  let ?m = "m\<lparr>im_kana := c, im_revision := im_revision m + 1\<rparr>"
  from reanchor_ok [of ?m "latin_mode (im_state m)"] cw obtain s where
    s: "reanchor_after_surface_edit ?m (latin_mode (im_state m))
          = Some (?m\<lparr>im_state := s, im_replay_from_canonical := True\<rparr>)" "replay_ok c s True" by auto
  have "module_ok m' \<and> follows m m'" if "m' = invalidate_live_display (invalidate_live_snapshot
      (clear_candidates (?m\<lparr>im_state := s, im_replay_from_canonical := True\<rparr>)))" for m'
    by (rule dropped_ticket) (use that s(2) in \<open>simp_all add: module_updates\<close>)
  then show ?thesis using ok c s(1)
    by (simp add: module_finalize_pending_n_def checked_add_u64_def)
qed

lemma module_adopt_ok:
  assumes ok: "module_ok m" and len: "length (lk_reading (im_kana m)) \<le> u32_max"
  shows "settles m (module_adopt_conversion_reading m reading)"
proof -
  have wf: "text_wf (im_kana m)" using ok by (simp add: module_ok_def replay_ok_def)
  from adopt_conversion_reading_wf [OF wf len, of reading] obtain c adopted where
    c: "adopt_conversion_reading (im_kana m) reading = Some (c, adopted)" "text_wf c" by blast
  let ?m = "m\<lparr>im_kana := c\<rparr>"
  from reanchor_ok [of ?m "latin_mode (im_state m)"] c obtain s where
    s: "reanchor_after_surface_edit ?m (latin_mode (im_state m))
          = Some (?m\<lparr>im_state := s, im_replay_from_canonical := True\<rparr>)" "replay_ok c s True" by auto
  have "module_ok m' \<and> follows m m'" if "m' = invalidate_live_display (invalidate_live_snapshot
      (?m\<lparr>im_state := s, im_replay_from_canonical := True\<rparr>))" for m'
    by (rule dropped_ticket) (use that s(2) ok in \<open>simp_all add: module_updates module_ok_def\<close>)
  then show ?thesis using ok c s(1) adopt_refused [of "im_kana m" reading]
    by (cases adopted) (auto simp: module_adopt_conversion_reading_def)
qed

lemma module_retain_prefix_ok:
  assumes ok: "module_ok m"
  shows "settles m (retain_clause_reading_prefix m pre)"
proof -
  have wf: "text_wf (im_kana m)" using ok by (simp add: module_ok_def replay_ok_def)
  from composer_retain_prefix_wf [OF wf, of pre] obtain c kept where
    c: "composer_retain_prefix (im_kana m) pre = Some (c, kept)" "text_wf c" by blast
  let ?m = "m\<lparr>im_kana := c\<rparr>"
  from reanchor_ok [of ?m False] c obtain s where
    s: "reanchor_after_surface_edit ?m False
          = Some (?m\<lparr>im_state := s, im_replay_from_canonical := True\<rparr>)" "replay_ok c s True" by auto
  have "module_ok m' \<and> follows m m'" if "m' = invalidate_live_display (invalidate_live_snapshot
      (clear_candidates (?m\<lparr>im_state := s, im_replay_from_canonical := True, im_revision := r\<rparr>)))" for m' r
    by (rule dropped_ticket) (use that s(2) in \<open>simp_all add: module_updates\<close>)
  then show ?thesis using ok c s(1) retain_prefix_refused [of "im_kana m" pre]
    by (cases kept) (auto simp: retain_clause_reading_prefix_def Let_def split: option.split sum.split)
qed

section \<open>Sequences of events\<close>

text \<open>Everything the text service does to the module: the two entry points, the snapshot tickets, the
  clause conversion's operations on the reading, and the counters of the state it shares.\<close>

datatype module_event =
  MeInput input_event
| MeComplete immediate_operation bool
| MeLiveSnapshot nat nat "ustring option"
| MeExplicitSnapshot nat nat "ustring option"
| MeRebind nat nat
| MeReseed
| MeTakeReceipt
| MeSetNotation notation_kind
| MeAwaitingLlm bool
| MeSetCursor reading_position
| MeFinalizeN
| MeAdoptReading ustring
| MePreserveLiteral uchar
| MeRetainPrefix ustring
| MeBumpLive
| MeBumpLlm

fun run_module ::
  "(ustring \<Rightarrow> ustring list) \<Rightarrow> input_module \<Rightarrow> module_event \<Rightarrow> input_module option"
where
  "run_module gs m (MeInput event) = map_option fst (module_handle gs m event)"
| "run_module gs m (MeComplete operation applied) = module_complete gs m operation applied"
| "run_module gs m (MeLiveSnapshot cg ng left) = map_option fst (module_live_snapshot m cg ng left)"
| "run_module gs m (MeExplicitSnapshot cg ng left) = map_option fst (module_explicit_snapshot m cg ng left)"
| "run_module gs m (MeRebind cg ng) = Some (fst (rebind_expected_snapshot_connection m cg ng))"
| "run_module gs m MeReseed = map_option fst (background_reseed m)"
| "run_module gs m MeTakeReceipt = Some (fst (take_auto_commit_receipt m))"
| "run_module gs m (MeSetNotation n) = Some (set_notation m n)"
| "run_module gs m (MeAwaitingLlm awaiting) = Some (module_set_awaiting_llm m awaiting)"
| "run_module gs m (MeSetCursor p) = map_option fst (set_reading_cursor m p)"
| "run_module gs m MeFinalizeN = map_option fst (module_finalize_pending_n m)"
| "run_module gs m (MeAdoptReading r) = map_option fst (module_adopt_conversion_reading m r)"
| "run_module gs m (MePreserveLiteral ch) = Some (module_preserve_last_literal_original m ch)"
| "run_module gs m (MeRetainPrefix p) = map_option fst (retain_clause_reading_prefix m p)"
| "run_module gs m MeBumpLive = map_option (\<lambda>(s, _). m\<lparr>im_state := s\<rparr>) (bump_live_seq (im_state m))"
| "run_module gs m MeBumpLlm = map_option (\<lambda>(s, _). m\<lparr>im_state := s\<rparr>) (bump_llm_seq (im_state m))"

text \<open>The machine bounds of one event: counters that have not run out of 64 bits, a reading whose
  positions fit 32 bits, a candidate move inside \<open>i32\<close>.\<close>

definition module_fits :: "input_module \<Rightarrow> module_event \<Rightarrow> bool" where
  "module_fits m event \<longleftrightarrow>
     im_next_request m < u64_max \<and> is_live_seq (im_state m) < u64_max \<and> is_llm_seq (im_state m) < u64_max
     \<and> length (lk_reading (im_kana m)) \<le> u32_max
     \<and> (case event of MeInput (InKey (KeyMoveCandidate delta)) \<Rightarrow> move_fits m delta | _ \<Rightarrow> True)"

definition steps_ok :: "input_module \<Rightarrow> input_module option \<Rightarrow> bool" where
  "steps_ok m r \<longleftrightarrow> (\<exists>m'. r = Some m' \<and> module_ok m' \<and> follows m m')"

lemma steps_ok_settles: "settles m r \<Longrightarrow> steps_ok m (map_option fst r)"
  by (auto simp: steps_ok_def settles_def)

lemma steps_ok_Some [simp]: "steps_ok m (Some m') \<longleftrightarrow> module_ok m' \<and> follows m m'"
  by (simp add: steps_ok_def)

lemma set_notation_ok: "module_ok m \<Longrightarrow> module_ok (set_notation m n) \<and> follows m (set_notation m n)"
  by (rule dropped_ticket) (simp_all add: set_notation_def module_updates module_ok_def)

lemma state_field_ok:
  assumes "module_ok m" and "\<And>c replay. replay_ok c s replay = replay_ok c (im_state m) replay"
  shows "module_ok (m\<lparr>im_state := s\<rparr>) \<and> follows m (m\<lparr>im_state := s\<rparr>)"
  by (rule kept_ticket) (use assms in \<open>simp_all add: module_ok_def\<close>)

lemma awaiting_ok:
  assumes ok: "module_ok m"
  shows "module_ok (module_set_awaiting_llm m b) \<and> follows m (module_set_awaiting_llm m b)"
proof (cases b)
  case True
  then show ?thesis using ok
    by (intro dropped_ticket) (simp_all add: module_set_awaiting_llm_def module_updates set_awaiting_llm_def module_ok_def)
next
  case False
  then show ?thesis using state_field_ok [OF ok] by (simp add: module_set_awaiting_llm_def set_awaiting_llm_def)
qed

lemma preserve_ok:
  assumes ok: "module_ok m"
  shows "module_ok (module_preserve_last_literal_original m ch) \<and> follows m (module_preserve_last_literal_original m ch)"
proof -
  let ?c = "preserve_last_literal_original (im_kana m) ch"
  have f: "lk_reading ?c = lk_reading (im_kana m)" "lk_stable ?c = lk_stable (im_kana m)"
    "lk_pending ?c = lk_pending (im_kana m)" "lk_suffix ?c = lk_suffix (im_kana m)"
    by (simp_all add: preserve_last_literal_original_def)
  have "replay_ok ?c (im_state m) (im_replay_from_canonical m)"
    using ok preserve_literal_wf [of "im_kana m" ch] by (simp add: module_ok_def replay_ok_def f)
  then show ?thesis
    by (intro kept_ticket [OF ok]) (simp_all add: f module_preserve_last_literal_original_def)
qed

lemma background_reseed_ok:
  assumes ok: "module_ok m" and room: "im_next_request m < u64_max"
  shows "settles m (background_reseed m)"
proof -
  let ?m = "m\<lparr>im_next_request := im_next_request m + 1\<rparr>"
  have m: "module_ok ?m \<and> follows m ?m" using ok by (intro unchanged_surface) (auto simp: module_ok_def)
  then obtain segs where "module_replay_segments ?m = Some segs"
    using replay_total [of ?m] by (auto simp: module_ok_def)
  then show ?thesis using m room by (simp add: background_reseed_def request_id_def checked_add_u64_def)
qed

lemma bump_ok:
  assumes ok: "module_ok m" and "n < u64_max"
  shows "is_live_seq (im_state m) = n \<Longrightarrow>
      steps_ok m (map_option (\<lambda>(s, _). m\<lparr>im_state := s\<rparr>) (bump_live_seq (im_state m)))"
    and "is_llm_seq (im_state m) = n \<Longrightarrow>
      steps_ok m (map_option (\<lambda>(s, _). m\<lparr>im_state := s\<rparr>) (bump_llm_seq (im_state m)))"
  using state_field_ok [OF ok] assms(2)
  by (simp_all add: bump_live_seq_def bump_llm_seq_def checked_add_u64_def)

lemma run_module_ok:
  assumes ok: "module_ok m" and gs: "segmentation gs" and fits: "module_fits m event"
  shows "steps_ok m (run_module gs m event)"
proof -
  have b: "im_next_request m < u64_max" "is_live_seq (im_state m) < u64_max" "is_llm_seq (im_state m) < u64_max"
    "length (lk_reading (im_kana m)) \<le> u32_max"
    using fits by (simp_all add: module_fits_def)
  have input: "event_fits m e" if "event = MeInput e" for e
    using fits that by (auto simp: module_fits_def event_fits_def key_fits_def split: input_event.split key_event.splits)
  show ?thesis
  proof (cases event)
    case (MeInput e)
    then show ?thesis using module_handle_ok [OF ok gs input] steps_ok_settles by simp
  next
    case (MeComplete operation applied)
    then show ?thesis using module_complete_ok [OF ok] by (simp add: steps_ok_def)
  next
    case (MeTakeReceipt)
    then show ?thesis using pending_fields_ok(5) [OF ok] by (simp add: take_auto_commit_receipt_def)
  next
    case (MeRebind cg ng)
    then show ?thesis using rebind_ok [OF ok, of cg ng] by (cases "rebind_expected_snapshot_connection m cg ng") simp
  qed (use ok b in \<open>auto intro!: steps_ok_settles snapshot_of_ok background_reseed_ok set_reading_cursor_ok
      module_finalize_ok module_adopt_ok module_retain_prefix_ok bump_ok [OF ok _ refl]
      simp: module_live_snapshot_def module_explicit_snapshot_def set_notation_ok awaiting_ok preserve_ok\<close>)
qed

inductive module_steps :: "(ustring \<Rightarrow> ustring list) \<Rightarrow> input_module \<Rightarrow> input_module \<Rightarrow> bool" for gs where
  here: "module_steps gs m m"
| step: "module_steps gs m m' \<Longrightarrow> module_fits m' event \<Longrightarrow> run_module gs m' event = Some m'' \<Longrightarrow>
    module_steps gs m m''"

abbreviation module_reach :: "(ustring \<Rightarrow> ustring list) \<Rightarrow> input_module \<Rightarrow> bool" where
  "module_reach gs m \<equiv> module_steps gs module_default m"

lemma module_default_ok: "module_ok module_default"
  by (simp add: module_ok_def module_default_def replay_ok_def ticket_ok_def text_wf_default
      input_state_default_def kana_batch_None next_unit_def)
    (simp add: composer_default_def)

lemma module_steps_ok:
  "module_steps gs m m' \<Longrightarrow> segmentation gs \<Longrightarrow> module_ok m \<Longrightarrow> module_ok m' \<and> follows m m'"
proof (induction rule: module_steps.induct)
  case (step m m' event m'')
  then have "module_ok m'" "follows m m'" by simp_all
  moreover from run_module_ok [OF this(1) step.prems(1) step.hyps(2)] step.hyps(3)
  have "module_ok m''" "follows m' m''" by simp_all
  ultimately show ?case using follows_trans by blast
qed simp

interpretation module: event_machine "module_reach gs" "\<lambda>m. m = module_default" module_fits "run_module gs"
    "\<lambda>m. segmentation gs \<longrightarrow> module_ok m" "\<lambda>m event. segmentation gs \<and> module_fits m event" for gs
proof unfold_locales
  fix P m
  assume "module_reach gs m" and "\<And>m. m = module_default \<Longrightarrow> P m"
    and "\<And>m m'. module_reach gs m \<Longrightarrow> P m
      \<Longrightarrow> \<exists>event. module_fits m event \<and> run_module gs m event = Some m' \<Longrightarrow> P m'"
  then show "P m" by (induction "module_default" m rule: module_steps.induct) blast+
next
  fix m m'
  assume ok: "segmentation gs \<longrightarrow> module_ok m"
    and "\<exists>event. module_fits m event \<and> run_module gs m event = Some m'"
  then obtain event where e: "module_fits m event" "run_module gs m event = Some m'" by blast
  show "segmentation gs \<longrightarrow> module_ok m'"
  proof
    assume gs: "segmentation gs"
    show "module_ok m'" using run_module_ok [OF mp [OF ok gs] gs e(1)] e(2) by (simp add: steps_ok_def)
  qed
next
  fix m event
  assume "segmentation gs \<longrightarrow> module_ok m" and "segmentation gs \<and> module_fits m event"
  then show "run_module gs m event \<noteq> None" using run_module_ok [of m gs event] by (auto simp: steps_ok_def)
qed (simp add: module_default_ok)

lemma module_reach_ok: "module_reach gs m \<Longrightarrow> segmentation gs \<Longrightarrow> module_ok m"
  using module.reach_good by blast

section \<open>Guarantees\<close>

text \<open>C11: no event panics the input module: from every state that events can lead to, and within the
  machine's bounds, each event returns, and the latin position and the composer's replay flag satisfy the
  assertion the source makes before a replay.\<close>

theorem module_never_panics:
  assumes "segmentation gs" and "module_reach gs m" and "module_fits m event"
  shows "\<exists>m'. run_module gs m event = Some m' \<and> replay_assertion m'"
proof -
  from module.reach_returns_good [OF assms(2)] assms(1,3) obtain m'
    where m': "run_module gs m event = Some m'" "module_ok m'" by blast
  then show ?thesis by (auto simp: module_ok_def replay_ok_def replay_assertion_def)
qed

definition chars_of :: "ustring \<Rightarrow> ustring list" where
  "chars_of t = map (\<lambda>ch. [ch]) t"

lemma chars_of_segments: "segmentation chars_of"
proof -
  have "concat (chars_of t) = t" for t by (induction t) (simp_all add: chars_of_def)
  then show ?thesis by (simp add: segmentation_def)
qed

lemma module_default_fits:
  "(\<And>delta. event \<noteq> MeInput (InKey (KeyMoveCandidate delta))) \<Longrightarrow> module_fits module_default event"
  by (auto simp: module_fits_def module_default_def input_state_default_def composer_default_def
      split: module_event.split input_event.split key_event.split)

theorem module_never_panics_witness:
  "\<exists>m'. run_module chars_of module_default (MeInput (InKey (KeyText 0x6b StyleKanaText ReplayFull))) = Some m'
    \<and> replay_assertion m'"
  by (rule module_never_panics [OF chars_of_segments module_steps.here]) (rule module_default_fits, simp)

text \<open>C10: what a replay sends to the engine is what the user sees: the segments always exist, and they
  are either pieces that spell the displayed reading, or the raw input as one kana piece whose batch parse
  is the displayed stable text and unfinished roman input.\<close>

theorem replay_spells_reading:
  assumes "segmentation gs" and "module_reach gs m"
  shows "\<exists>segs. module_replay_segments m = Some segs
    \<and> (if im_replay_from_canonical m then concat (map is_text segs) = canonical_reading m
       else segs = [\<lparr>is_text = is_raw (im_state m), is_style = StyleKanaText\<rparr>]
         \<and> kana_batch (is_raw (im_state m)) = reading_parts (im_kana m)
         \<and> canonical_reading m = fst (reading_parts (im_kana m)) @ snd (reading_parts (im_kana m)))"
proof -
  have ok: "replay_ok (im_kana m) (im_state m) (im_replay_from_canonical m)"
    using module_reach_ok [OF assms(2,1)] by (simp add: module_ok_def)
  then have wf: "text_wf (im_kana m)" by (simp add: replay_ok_def)
  have "concat (map (is_text \<circ> segment_of_replay) segs) = seg_text segs" for segs
    by (simp add: seg_text_def segment_of_replay_def comp_def)
  then have full: "concat (map (is_text \<circ> segment_of_replay) (replay_segments (im_kana m))) = canonical_reading m"
    using replay_segments_text [OF text_wf_parts [OF wf]] text_wf_reading [OF wf]
    by (simp add: canonical_reading_def)
  show ?thesis
  proof (cases "im_replay_from_canonical m")
    case True
    then show ?thesis using full by (simp add: module_replay_segments_def Let_def)
  next
    case False
    then show ?thesis using ok text_wf_reading [OF wf]
      by (simp add: module_replay_segments_def Let_def replay_ok_def reading_parts_def canonical_reading_def)
  qed
qed

theorem replay_spells_reading_witness:
  "\<exists>segs. module_replay_segments module_default = Some segs
    \<and> (if im_replay_from_canonical module_default
       then concat (map is_text segs) = canonical_reading module_default
       else segs = [\<lparr>is_text = is_raw (im_state module_default), is_style = StyleKanaText\<rparr>]
         \<and> kana_batch (is_raw (im_state module_default)) = reading_parts (im_kana module_default)
         \<and> canonical_reading module_default = fst (reading_parts (im_kana module_default))
             @ snd (reading_parts (im_kana module_default)))"
  by (rule replay_spells_reading [OF chars_of_segments module_steps.here])

text \<open>The snapshot a result answers.\<close>

fun answered_snapshot :: "engine_result \<Rightarrow> module_snapshot_identity option" where
  "answered_snapshot (ResLiveSnapshot identity _) = Some identity"
| "answered_snapshot (ResLiveAutoCommitProposal p) = Some (mp_identity p)"
| "answered_snapshot (ResExplicitSnapshot identity _) = Some identity"
| "answered_snapshot _ = None"

lemma unexpected_snapshot:
  assumes "answered_snapshot r = Some identity"
    and "\<And>purpose. im_expected_snapshot m \<noteq> Some (identity, purpose)"
  shows "handle_engine gs m r = (m, output_default)"
  using assms by (cases r) (simp_all add: handle_engine_def live_snapshot_result_def auto_commit_proposal_result_def)

lemma snapshot_of_issued:
  assumes "snapshot_of m purpose cg ng left = Some (m1, Some (BgLiveSnapshot snap))"
  shows "ms_request (cs_identity snap) \<le> im_next_snapshot_request m1
    \<and> lk_reading (im_kana m1) = lk_reading (im_kana m)"
  using assms by (auto simp: snapshot_of_def Let_def split: option.splits)

text \<open>C8: a late snapshot result cannot disturb newer text: whatever happens after a live or explicit
  snapshot was sent (keys, deletions, commits, clause edits, reconnects), a preedit, candidate list or
  automatic commit that answers it is either ignored, changing nothing, or the composition still has
  exactly the reading the snapshot was taken from.\<close>

theorem late_snapshot_harmless:
  assumes "segmentation gs" and "module_reach gs m"
    and "module_live_snapshot m cg ng left = Some (m1, Some (BgLiveSnapshot snap))
       \<or> module_explicit_snapshot m cg ng left = Some (m1, Some (BgLiveSnapshot snap))"
    and "module_steps gs m1 m2"
    and "answered_snapshot r = Some (cs_identity snap)"
  shows "handle_engine gs m2 r = (m2, output_default)
    \<or> canonical_reading m2 = canonical_reading m"
proof -
  from assms(3) obtain purpose where s: "snapshot_of m purpose cg ng left = Some (m1, Some (BgLiveSnapshot snap))"
    by (auto simp: module_live_snapshot_def module_explicit_snapshot_def split: if_splits)
  have "module_ok m1" using snapshot_of_ok [OF module_reach_ok [OF assms(2,1)], of purpose cg ng left] s by simp
  then have f: "follows m1 m2" using module_steps_ok [OF assms(4,1)] by blast
  show ?thesis
  proof (cases "\<exists>p. im_expected_snapshot m2 = Some (cs_identity snap, p)")
    case True
    then show ?thesis using f snapshot_of_issued [OF s] by (auto simp: follows_def canonical_reading_def)
  next
    case False
    then show ?thesis using unexpected_snapshot [OF assms(5)] by blast
  qed
qed

text \<open>Two letters typed directly, and the live snapshot after them.\<close>

definition typed_direct :: "ustring \<Rightarrow> input_journal \<Rightarrow> nat \<Rightarrow> input_module" where
  "typed_direct t journal n = module_default\<lparr>
     im_state := (input_state_default\<lparr>is_raw := t, is_composing := True, is_latin_from := Some 0\<rparr>),
     im_kana := composer_default\<lparr>lk_stable := t, lk_reading := t,
       lk_stable_segments := [\<lparr>sg_text = t, sg_style = StyleDirect\<rparr>], lk_journal := journal\<rparr>,
     im_next_request := n, im_composition := 1, im_revision := n, im_replay_from_canonical := True\<rparr>"

definition sample_one :: input_module where
  "sample_one = typed_direct [0x41] [\<lparr>iu_start = 0, iu_end = 1, iu_original = [0x41]\<rparr>] 1"

definition sample_two :: input_module where
  "sample_two = typed_direct [0x41, 0x42]
     [\<lparr>iu_start = 0, iu_end = 1, iu_original = [0x41]\<rparr>, \<lparr>iu_start = 1, iu_end = 2, iu_original = [0x42]\<rparr>] 2"

lemmas typing_defs = module_default_def module_handle_def handle_key_def handle_text_def
  input_state_default_def cursor_at_end_def composer_default_def module_updates Let_def
  composer_push_def append_input_unit_def append_stable_def append_segment_def refresh_reading_def
  composer_cursor_def on_char_def on_char_latin_def request_id_def checked_add_u64_def wrapping_succ_def
  immediate_display_def reading_parts_def canonical_reading_def journal_detach_suffix_def
  journal_append_suffix_def journal_append_def journal_remove_prefix_def journal_retain_prefix_def
  partition_point_def typed_direct_def

lemma sample_one_run:
  "run_module chars_of module_default (MeInput (InKey (KeyText 0x41 StyleDirectText ReplayDelta))) = Some sample_one"
  by (simp add: sample_one_def typing_defs)

lemma sample_two_run:
  "run_module chars_of sample_one (MeInput (InKey (KeyText 0x42 StyleDirectText ReplayDelta))) = Some sample_two"
  by (simp add: sample_one_def sample_two_def typing_defs)

lemma sample_fits:
  "module_fits sample_one (MeInput (InKey (KeyText ch style replay)))"
  "module_fits sample_two (MeLiveSnapshot cg ng left)"
  by (simp_all add: module_fits_def sample_one_def sample_two_def typing_defs)

lemma sample_two_reach: "module_reach chars_of sample_two"
  by (rule module_steps.step [OF module_steps.step [OF module_steps.here module_default_fits sample_one_run]
        sample_fits(1) sample_two_run]) simp

definition sample_ticket :: module_snapshot_identity where
  "sample_ticket = \<lparr>ms_request = 1, ms_composition = 1, ms_revision = 2,
     ms_configuration_generation = 7, ms_connection_generation = 3\<rparr>"

definition sample_sent :: input_module where
  "sample_sent = sample_two\<lparr>im_next_snapshot_request := 1, im_expected_snapshot := Some (sample_ticket, PurposeLive)\<rparr>"

definition sample_snapshot :: composition_snapshot where
  "sample_snapshot = \<lparr>cs_identity = sample_ticket, cs_purpose = PurposeLive,
     cs_segments = [\<lparr>is_text = [0x41, 0x42], is_style = StyleDirectText\<rparr>],
     cs_left_context = None, cs_live_search_width = 1\<rparr>"

lemma sample_snapshot_sent:
  "module_live_snapshot sample_two 7 3 None = Some (sample_sent, Some (BgLiveSnapshot sample_snapshot))"
  by (simp add: sample_sent_def sample_snapshot_def sample_ticket_def sample_two_def typing_defs module_live_snapshot_def
      snapshot_of_def module_replay_segments_def replay_segments_def segment_of_replay_def style_of_replay_def)

lemma sample_sent_reach: "module_reach chars_of sample_sent"
  by (rule module_steps.step [OF sample_two_reach sample_fits(2) [of 7 3 None]])
    (simp add: sample_snapshot_sent)

lemma sample_sent_awaiting:
  "module_steps chars_of sample_sent (module_set_awaiting_llm sample_sent True)"
  by (rule module_steps.step [OF module_steps.here, of _ "MeAwaitingLlm True"])
    (simp_all add: module_fits_def sample_sent_def sample_two_def typing_defs)

theorem late_snapshot_harmless_witness:
  "handle_engine chars_of (module_set_awaiting_llm sample_sent True) (ResLiveSnapshot sample_ticket [0x43])
     = (module_set_awaiting_llm sample_sent True, output_default)
   \<or> canonical_reading (module_set_awaiting_llm sample_sent True) = canonical_reading sample_two"
  by (rule late_snapshot_harmless [OF chars_of_segments sample_two_reach _ sample_sent_awaiting,
        where snap = sample_snapshot and cg = 7 and ng = 3 and left = None])
    (simp_all add: sample_snapshot_sent, simp add: sample_snapshot_def)

lemma validated_remaining:
  assumes "validate_partial_reseed gs m t = Some rest" and "lk_reading (im_kana m) = consumed @ t"
  shows "rest = t"
  using assms split_bytes_append [of consumed t] by (auto simp: validate_partial_reseed_def checked_sub_def split: if_splits)

lemma reseeded:
  assumes "text_wf (im_kana m)" and "length (lk_reading (im_kana m)) \<le> u32_max"
  shows "\<exists>m'. reseed_after_partial_commit_with_latin gs m rest latin = Some m' \<and> canonical_reading m' = rest
    \<and> im_state m' = Input_State.reseed_after_partial_commit (im_state m) rest latin
    \<and> im_auto_commit_receipt m' = im_auto_commit_receipt m \<and> im_revision m' = wrapping_succ (im_revision m)
    \<and> im_expected_snapshot m' = None \<and> im_candidates m' = []"
proof -
  from retain_suffix_wf [OF assms(1), of gs rest] obtain c kept where
    c: "retain_suffix gs (im_kana m) rest = Some (c, kept)" by blast
  then have "kept \<Longrightarrow> lk_reading c = rest" using retain_suffix_reading [OF assms] by simp
  then show ?thesis using c
    by (cases kept) (simp_all add: reseed_after_partial_commit_with_latin_def module_updates Let_def canonical_reading_def)
qed

lemma proposal_accepted:
  assumes "auto_commit_proposal_result gs m p = (m1, out)" and "mo_immediate out = Some op"
  obtains rest latin where "lk_reading (im_kana m) = mp_consumed_reading p @ mp_remaining p"
    and "validate_partial_reseed gs m (mp_remaining p) = Some rest"
    and "op = ImmCommit (mp_text p) None (Some rest) latin"
    and "m1 = m\<lparr>im_pending_auto_commit := Some \<lparr>ar_proposal = mp_proposal p, ar_identity = mp_identity p\<rparr>\<rparr>"
proof -
  have d: "mo_immediate output_default = None" by (simp add: output_default_def)
  have whole: "lk_reading (im_kana m) = mp_consumed_reading p @ mp_remaining p"
    using assms d unfolding auto_commit_proposal_result_def by (auto simp only: split: if_splits)
  from assms d obtain rest where rest: "validate_partial_reseed gs m (mp_remaining p) = Some rest"
    unfolding auto_commit_proposal_result_def
    by (cases "validate_partial_reseed gs m (mp_remaining p)") (auto split: if_splits)
  from assms d rest obtain latin where latin: "validated_remaining_latin_from m rest = Some latin"
    unfolding auto_commit_proposal_result_def
    by (cases "validated_remaining_latin_from m rest") (auto split: if_splits)
  show ?thesis
    by (rule that [OF whole rest, of latin])
      (use assms d rest latin in \<open>auto simp: auto_commit_proposal_result_def show_operation_def split: if_splits\<close>)
qed

text \<open>C9: an accepted automatic commit takes away exactly what it proposed: the reading was the consumed
  part followed by the remainder; when the commit is applied the composition goes on with the remainder as
  its reading and raw input, the receipt names the proposal, and nothing sent for the old text is awaited;
  when applying fails the reading stays whole and no receipt appears.\<close>

theorem auto_commit_leaves_remainder:
  assumes "segmentation gs" and "module_reach gs m" and "length (canonical_reading m) \<le> u32_max"
    and "handle_engine gs m (ResLiveAutoCommitProposal p) = (m1, out)" and "mo_immediate out = Some op"
  shows "canonical_reading m = mp_consumed_reading p @ mp_remaining p
    \<and> (\<exists>latin. op = ImmCommit (mp_text p) None (Some (mp_remaining p)) latin)
    \<and> (\<exists>m2. module_complete gs m1 op True = Some m2 \<and> canonical_reading m2 = mp_remaining p
        \<and> is_raw (im_state m2) = mp_remaining p \<and> is_composing (im_state m2)
        \<and> im_auto_commit_receipt m2 = Some \<lparr>ar_proposal = mp_proposal p, ar_identity = mp_identity p\<rparr>
        \<and> im_revision m2 = wrapping_succ (im_revision m) \<and> im_expected_snapshot m2 = None)
    \<and> (\<exists>m3. module_complete gs m1 op False = Some m3 \<and> canonical_reading m3 = canonical_reading m
        \<and> im_auto_commit_receipt m3 = im_auto_commit_receipt m \<and> im_pending_auto_commit m3 = None)"
proof -
  from assms(4) have "auto_commit_proposal_result gs m p = (m1, out)" by (simp add: handle_engine_def)
  from proposal_accepted [OF this assms(5)] obtain rest latin where
    whole: "lk_reading (im_kana m) = mp_consumed_reading p @ mp_remaining p"
    and rest: "validate_partial_reseed gs m (mp_remaining p) = Some rest"
    and op: "op = ImmCommit (mp_text p) None (Some rest) latin"
    and m1: "m1 = m\<lparr>im_pending_auto_commit := Some \<lparr>ar_proposal = mp_proposal p, ar_identity = mp_identity p\<rparr>\<rparr>"
    by blast
  have r: "rest = mp_remaining p" using validated_remaining [OF rest whole] .
  have ne: "mp_remaining p \<noteq> []" using rest by (auto simp: validate_partial_reseed_def)
  let ?m2 = "m1\<lparr>im_auto_commit_receipt := im_pending_auto_commit m1, im_pending_auto_commit := None\<rparr>"
  have "text_wf (im_kana ?m2)" "length (lk_reading (im_kana ?m2)) \<le> u32_max"
    using module_reach_ok [OF assms(2,1)] assms(3) m1
    by (simp_all add: module_ok_def replay_ok_def canonical_reading_def)
  from reseeded [OF this, of gs rest latin] show ?thesis using op r ne m1 whole
    by (auto simp: module_complete_def Input_State.reseed_after_partial_commit_def canonical_reading_def Let_def)
qed

definition sample_proposal :: module_auto_commit_proposal where
  "sample_proposal = \<lparr>mp_proposal = 9, mp_identity = sample_ticket, mp_text = [0x3042],
     mp_consumed_reading = [0x41], mp_remaining = [0x42]\<rparr>"

definition sample_accepted :: input_module where
  "sample_accepted = sample_sent\<lparr>im_pending_auto_commit := Some \<lparr>ar_proposal = 9, ar_identity = sample_ticket\<rparr>\<rparr>"

lemma sample_proposal_accepted:
  "handle_engine chars_of sample_sent (ResLiveAutoCommitProposal sample_proposal)
   = show_operation sample_accepted (ImmCommit [0x3042] None (Some [0x42]) (Some 0))"
  by (simp add: handle_engine_def auto_commit_proposal_result_def sample_sent_def sample_two_def typing_defs
      sample_proposal_def sample_accepted_def awaiting_llm_def validate_partial_reseed_def
      validated_remaining_latin_from_def replay_segments_def can_retain_suffix_def retained_stable_suffix_def
      stable_suffix_segments_def is_grapheme_boundary_def chars_of_def checked_sub_def utf8_width_def
      ends_with_def is_char_boundary_def)

theorem auto_commit_leaves_remainder_witness:
  "\<exists>m2. module_complete chars_of sample_accepted (ImmCommit [0x3042] None (Some [0x42]) (Some 0)) True = Some m2
    \<and> canonical_reading m2 = [0x42]
    \<and> im_auto_commit_receipt m2 = Some \<lparr>ar_proposal = 9, ar_identity = sample_ticket\<rparr>"
  using auto_commit_leaves_remainder [OF chars_of_segments sample_sent_reach _
      sample_proposal_accepted [unfolded show_operation_def], of "ImmCommit [0x3042] None (Some [0x42]) (Some 0)"]
  by (auto simp: sample_proposal_def sample_sent_def sample_two_def typing_defs)

section \<open>Typing after a live conversion\<close>







end
