(* ===== verification/Receipt_Outbox.thy ===== *)
theory Receipt_Outbox
  imports Clause_Guarantees
begin

text \<open>
  Delivery of commit receipts, \<open>crates/tip/src/receipt_outbox.rs\<close>: the receipt frozen from a clause
  model, the transport that may condemn an engine epoch, and the outbox shared by the text service and
  its worker thread. The two threads are the steps of one relation: each step is one access to the state
  they share, so every interleaving is a run. Times are milliseconds.
\<close>

section \<open>Freezing a receipt\<close>

definition outbox_capacity :: nat where "outbox_capacity = 128"
definition delivery_lifetime :: nat where "delivery_lifetime = 30000"
definition request_budget :: nat where "request_budget = 1200"
definition retry_delays :: "nat list" where "retry_delays = [250, 1000]"

text \<open>The client instance is a GUID the system may fail to create; the sequence is the process's counter.\<close>

definition next_commit_id :: "ustring option \<Rightarrow> nat \<Rightarrow> nat \<times> commit_id option" where
  "next_commit_id client_instance sequence =
     (case client_instance of
        None \<Rightarrow> (sequence, None)
      | Some i \<Rightarrow>
          (case checked_add_u64 sequence 1 of
             None \<Rightarrow> (sequence, None)
           | Some n \<Rightarrow> (n, Some \<lparr>cid_client_instance = i, cid_sequence = n\<rparr>)))"

definition learning_of :: "surface_source \<Rightarrow> interval_learning" where
  "learning_of s = (case s of
     SurfCandidate token explicitly_selected \<Rightarrow> LearnCandidate token explicitly_selected
   | SurfReading \<Rightarrow> LearnNone NlReading
   | SurfLocal \<Rightarrow> LearnNone NlInvalidated)"

definition interval_of_clause :: "local_clause \<Rightarrow> commit_interval" where
  "interval_of_clause c = \<lparr>ci_reading_start = cl_start c, ci_reading_end = cl_end c,
     ci_surface = cl_surface c, ci_learning = learning_of (cl_source c)\<rparr>"

definition freeze ::
  "ustring option \<Rightarrow> nat \<Rightarrow> clause_conversion \<Rightarrow> ustring \<Rightarrow> nat \<times> commit_receipt option"
where
  "freeze client_instance sequence model t =
     (case cv_learning_identity model of
        None \<Rightarrow> (sequence, None)
      | Some identity \<Rightarrow>
          (if clause_text model \<noteq> t then (sequence, None)
           else case next_commit_id client_instance sequence of
             (sequence', None) \<Rightarrow> (sequence', None)
           | (sequence', Some cid) \<Rightarrow>
               (let receipt = \<lparr>rc_commit_id = cid, rc_engine_epoch = li_engine_epoch identity,
                      rc_learning_generation = li_learning_generation identity,
                      rc_reading = cv_reading model, rc_text = t,
                      rc_intervals = map interval_of_clause (cv_clauses model),
                      rc_sentence_token = cv_sentence_token model\<rparr>
                in case receipt_validate (\<lambda>_ _. True) receipt of
                     Inl _ \<Rightarrow> (sequence', None)
                   | Inr _ \<Rightarrow> (sequence', Some receipt))))"

section \<open>One delivery\<close>

datatype delivery_notice =
  NoticeCapacity | NoticeExpired | NoticeFailed | NoticeEpochChanged | NoticeRejected receipt_rejection

record delivery =
  dv_receipt :: commit_receipt
  dv_expires :: instant
  dv_next_attempt :: instant
  dv_attempts :: nat

definition delivery_new :: "commit_receipt \<Rightarrow> instant \<Rightarrow> delivery" where
  "delivery_new receipt applied_at = \<lparr>dv_receipt = receipt, dv_expires = applied_at + delivery_lifetime,
     dv_next_attempt = applied_at, dv_attempts = 0\<rparr>"

definition delivery_retry :: "delivery \<Rightarrow> instant \<Rightarrow> delivery \<times> bool" where
  "delivery_retry d now =
     (case Option.bind (checked_sub (dv_attempts d) 1) (get retry_delays) of
        None \<Rightarrow> (d, False)
      | Some delay \<Rightarrow>
          (let d' = d\<lparr>dv_next_attempt := now + delay\<rparr> in (d', dv_next_attempt d' < dv_expires d')))"

datatype delivery_result = ResultAcknowledged receipt_status | ResultRetry | ResultEpochChanged

section \<open>The transport\<close>

text \<open>What the transport needs of a connection, over a state \<open>'w\<close> of the outside world: the clock, opening
  a connection, the epoch of its handshake, and sending a receipt, which may change the connection.\<close>

record ('w, 'c) receipt_link =
  rl_now :: "'w \<Rightarrow> instant"
  rl_connect :: "'w \<Rightarrow> nat \<Rightarrow> instant \<Rightarrow> 'w \<times> 'c option"
  rl_epoch :: "'c \<Rightarrow> ustring"
  rl_send :: "'w \<Rightarrow> 'c \<Rightarrow> commit_receipt \<Rightarrow> instant \<Rightarrow> 'w \<times> 'c \<times> receipt_status option"

text \<open>The acknowledgement of a sent receipt must name it.\<close>

definition acknowledged_status :: "commit_receipt \<Rightarrow> (commit_id \<times> receipt_status) option \<Rightarrow> receipt_status option"
where
  "acknowledged_status receipt reply =
     (case reply of
        Some (cid, status) \<Rightarrow> (if cid = rc_commit_id receipt then Some status else None)
      | None \<Rightarrow> None)"

definition ensure_connected ::
  "('w, 'c) receipt_link \<Rightarrow> 'w \<Rightarrow> 'c option \<Rightarrow> instant \<Rightarrow> 'w \<times> 'c option \<times> bool"
where
  "ensure_connected link w client deadline =
     (case client of
        Some c \<Rightarrow> (w, Some c, True)
      | None \<Rightarrow>
          (let timeout = min (deadline - rl_now link w) 500;
               (w', c) = rl_connect link w timeout deadline
           in (w', c, c \<noteq> None)))"

definition other_epoch :: "('w, 'c) receipt_link \<Rightarrow> 'c option \<Rightarrow> commit_receipt \<Rightarrow> bool" where
  "other_epoch link client receipt =
     (case client of None \<Rightarrow> False | Some c \<Rightarrow> rl_epoch link c \<noteq> rc_engine_epoch receipt)"

definition send_on ::
  "('w, 'c) receipt_link \<Rightarrow> 'w \<Rightarrow> 'c option \<Rightarrow> commit_receipt \<Rightarrow> instant
   \<Rightarrow> ('w \<times> 'c option) \<times> delivery_result"
where
  "send_on link w client receipt deadline =
     (case client of
        None \<Rightarrow> ((w, None), ResultRetry)
      | Some c \<Rightarrow>
          (case rl_send link w c receipt deadline of
             (w', c', Some status) \<Rightarrow> ((w', Some c'), ResultAcknowledged status)
           | (w', c', None) \<Rightarrow> ((w', None), ResultRetry)))"

definition transport_deliver ::
  "('w, 'c) receipt_link \<Rightarrow> 'w \<times> 'c option \<Rightarrow> commit_receipt \<Rightarrow> instant
   \<Rightarrow> ('w \<times> 'c option) \<times> delivery_result"
where
  "transport_deliver link t receipt deadline =
     (case ensure_connected link (fst t) (snd t) deadline of
        (w1, c1, False) \<Rightarrow> ((w1, c1), ResultRetry)
      | (w1, c1, True) \<Rightarrow>
          (if other_epoch link c1 receipt then
             (case ensure_connected link w1 None deadline of
                (w2, c2, False) \<Rightarrow> ((w2, c2), ResultRetry)
              | (w2, c2, True) \<Rightarrow>
                  (if other_epoch link c2 receipt then ((w2, c2), ResultEpochChanged)
                   else send_on link w2 c2 receipt deadline))
           else send_on link w1 c1 receipt deadline))"

section \<open>The outbox and its worker\<close>

text \<open>Where the worker stands in its loop. From \<open>WkReject\<close> on it publishes the end of an item, one
  shared cell at a time, and releases the item's place last.\<close>

datatype worker_phase =
  WkTop
| WkDelivering delivery instant
| WkReject delivery delivery_notice
| WkInvalidate delivery delivery_notice
| WkNotice delivery delivery_notice
| WkRelease
| WkWait nat
| WkReturned

text \<open>The text service inside \<open>text_applied\<close>: a place reserved, or to be given back.\<close>

datatype client_phase = ClIdle | ClReserved commit_receipt instant | ClGiveBack

record receipt_system =
  rs_channel :: "delivery list"
  rs_closed :: bool
  rs_outstanding :: nat
  rs_notice :: "delivery_notice option"
  rs_learning_invalidated :: bool
  rs_rejected :: "(ustring, nat) map"
  rs_client :: client_phase
  rs_pending :: "delivery list"
  rs_disconnected :: bool
  rs_worker :: worker_phase

definition outbox_start :: receipt_system where
  "outbox_start = \<lparr>rs_channel = [], rs_closed = False, rs_outstanding = 0, rs_notice = None,
     rs_learning_invalidated = False, rs_rejected = Map.empty, rs_client = ClIdle, rs_pending = [],
     rs_disconnected = False, rs_worker = WkTop\<rparr>"

subsection \<open>The text service\<close>

definition reserve_place :: "receipt_system \<Rightarrow> commit_receipt \<Rightarrow> instant \<Rightarrow> receipt_system" where
  "reserve_place s receipt applied_at =
     (if rs_outstanding s < outbox_capacity
      then s\<lparr>rs_outstanding := rs_outstanding s + 1, rs_client := ClReserved receipt applied_at\<rparr>
      else s\<lparr>rs_notice := Some NoticeCapacity\<rparr>)"

text \<open>\<open>try_send\<close> fails on a full channel and when the worker is gone.\<close>

definition send_reserved :: "receipt_system \<Rightarrow> commit_receipt \<Rightarrow> instant \<Rightarrow> receipt_system" where
  "send_reserved s receipt applied_at =
     (if length (rs_channel s) < outbox_capacity \<and> rs_worker s \<noteq> WkReturned
      then s\<lparr>rs_channel := rs_channel s @ [delivery_new receipt applied_at], rs_client := ClIdle\<rparr>
      else s\<lparr>rs_notice := Some NoticeFailed, rs_client := ClGiveBack\<rparr>)"

definition give_back :: "receipt_system \<Rightarrow> receipt_system" where
  "give_back s = s\<lparr>rs_outstanding := rs_outstanding s - 1, rs_client := ClIdle\<rparr>"

text \<open>The whole call, when the worker does not move in between.\<close>

definition text_applied :: "receipt_system \<Rightarrow> commit_receipt \<Rightarrow> instant \<Rightarrow> receipt_system \<times> bool" where
  "text_applied s receipt applied_at =
     (let s1 = reserve_place s receipt applied_at
      in case rs_client s1 of
           ClReserved r t \<Rightarrow>
             (let s2 = send_reserved s1 r t
              in if rs_client s2 = ClGiveBack then (give_back s2, False) else (s2, True))
         | _ \<Rightarrow> (s1, False))"

definition take_notice :: "receipt_system \<Rightarrow> receipt_system \<times> delivery_notice option" where
  "take_notice s = (s\<lparr>rs_notice := None\<rparr>, rs_notice s)"

definition take_learning_invalidation :: "receipt_system \<Rightarrow> receipt_system \<times> bool" where
  "take_learning_invalidation s = (s\<lparr>rs_learning_invalidated := False\<rparr>, rs_learning_invalidated s)"

definition rejects_identity :: "receipt_system \<Rightarrow> learning_identity \<Rightarrow> bool" where
  "rejects_identity s identity =
     (case rs_rejected s (li_engine_epoch identity) of
        None \<Rightarrow> False
      | Some generation \<Rightarrow> li_learning_generation identity \<le> generation)"

definition outbox_invalidate_model :: "receipt_system \<Rightarrow> clause_conversion \<Rightarrow> clause_conversion \<times> bool" where
  "outbox_invalidate_model s model =
     (let rejected = (case cv_learning_identity model of
            None \<Rightarrow> False | Some identity \<Rightarrow> rejects_identity s identity)
      in (if rejected then invalidate_learning model else model, rejected))"

definition outbox_configure_model ::
  "receipt_system \<Rightarrow> clause_conversion \<Rightarrow> learning_identity option \<Rightarrow> clause_conversion"
where
  "outbox_configure_model s model identity =
     (if (case identity of None \<Rightarrow> False | Some i \<Rightarrow> rejects_identity s i)
      then fst (outbox_invalidate_model s model)
      else configured_learning_identity model identity)"

definition outbox_pending :: "receipt_system \<Rightarrow> bool" where
  "outbox_pending s \<longleftrightarrow> rs_outstanding s \<noteq> 0 \<or> rs_learning_invalidated s \<or> rs_notice s \<noteq> None"

subsection \<open>The worker\<close>

definition is_due :: "instant \<Rightarrow> delivery \<Rightarrow> bool" where
  "is_due now d \<longleftrightarrow> dv_next_attempt d \<le> now \<or> dv_expires d \<le> now"

definition worker_wait :: "instant \<Rightarrow> delivery list \<Rightarrow> nat" where
  "worker_wait now pending =
     min (case pending of
            [] \<Rightarrow> 50
          | _ \<Rightarrow> Min (set (map (\<lambda>d. min (dv_next_attempt d) (dv_expires d) - now) pending))) 50"

text \<open>The end of an item: nothing to say, a message, or a message that also rejects its generation.\<close>

definition settle :: "delivery \<Rightarrow> delivery_notice option \<Rightarrow> worker_phase" where
  "settle item message =
     (case message of
        None \<Rightarrow> WkRelease
      | Some m \<Rightarrow>
          (if m = NoticeEpochChanged \<or> m = NoticeRejected RejStaleLearningGeneration
           then WkReject item m else WkNotice item m))"

definition worker_take :: "receipt_system \<Rightarrow> instant \<Rightarrow> receipt_system" where
  "worker_take s now =
     (let pending = rs_pending s @ rs_channel s; s1 = s\<lparr>rs_channel := [], rs_pending := pending\<rparr>
      in case position (is_due now) pending of
           Some i \<Rightarrow>
             (let item = pending ! i; s2 = s1\<lparr>rs_pending := take i pending @ drop (Suc i) pending\<rparr>
              in if dv_expires item \<le> now then s2\<lparr>rs_worker := settle item (Some NoticeExpired)\<rparr>
                 else s2\<lparr>rs_worker := WkDelivering (item\<lparr>dv_attempts := dv_attempts item + 1\<rparr>)
                        (min (now + request_budget) (dv_expires item))\<rparr>)
         | None \<Rightarrow>
             (if rs_disconnected s \<and> pending = [] then s1\<lparr>rs_worker := WkReturned\<rparr>
              else s1\<lparr>rs_worker := WkWait (worker_wait now pending)\<rparr>))"

text \<open>The transport's answer; the clock is read again for a retry, and once more when it is refused.\<close>

definition worker_result ::
  "receipt_system \<Rightarrow> delivery \<Rightarrow> delivery_result \<Rightarrow> instant \<Rightarrow> instant \<Rightarrow> receipt_system"
where
  "worker_result s item result now later =
     (case result of
        ResultAcknowledged RsApplied \<Rightarrow> s\<lparr>rs_worker := settle item None\<rparr>
      | ResultAcknowledged RsAlreadyProcessed \<Rightarrow> s\<lparr>rs_worker := settle item None\<rparr>
      | ResultAcknowledged (RsRejected reason) \<Rightarrow>
          s\<lparr>rs_worker := settle item (Some (NoticeRejected reason))\<rparr>
      | ResultEpochChanged \<Rightarrow> s\<lparr>rs_worker := settle item (Some NoticeEpochChanged)\<rparr>
      | ResultRetry \<Rightarrow>
          (let (item', again) = delivery_retry item now
           in if again then s\<lparr>rs_pending := rs_pending s @ [item'], rs_worker := WkTop\<rparr>
              else s\<lparr>rs_worker := settle item'
                     (Some (if dv_expires item' \<le> later then NoticeExpired else NoticeFailed))\<rparr>))"

definition rejected_generation :: "delivery \<Rightarrow> delivery_notice \<Rightarrow> nat" where
  "rejected_generation item message =
     (if message = NoticeEpochChanged then u64_max else rc_learning_generation (dv_receipt item))"

definition raise_watermark :: "(ustring, nat) map \<Rightarrow> ustring \<Rightarrow> nat \<Rightarrow> (ustring, nat) map" where
  "raise_watermark rejected epoch generation =
     rejected(epoch \<mapsto> (case rejected epoch of None \<Rightarrow> generation | Some old \<Rightarrow> max old generation))"

text \<open>One publication: the watermark, the invalidation flag, the notice, the place.\<close>

fun worker_publish :: "receipt_system \<Rightarrow> worker_phase \<Rightarrow> receipt_system option" where
  "worker_publish s (WkReject item m) =
     Some (s\<lparr>rs_rejected := raise_watermark (rs_rejected s) (rc_engine_epoch (dv_receipt item))
                (rejected_generation item m),
             rs_worker := WkInvalidate item m\<rparr>)"
| "worker_publish s (WkInvalidate item m) =
     Some (s\<lparr>rs_learning_invalidated := True, rs_worker := WkNotice item m\<rparr>)"
| "worker_publish s (WkNotice item m) = Some (s\<lparr>rs_notice := Some m, rs_worker := WkRelease\<rparr>)"
| "worker_publish s WkRelease = Some (s\<lparr>rs_outstanding := rs_outstanding s - 1, rs_worker := WkTop\<rparr>)"
| "worker_publish s _ = None"

text \<open>The wait ends with an item, with the last sender gone, or with the time.\<close>

definition worker_wake :: "receipt_system \<Rightarrow> receipt_system" where
  "worker_wake s =
     (if rs_disconnected s then s\<lparr>rs_worker := WkTop\<rparr>
      else case rs_channel s of
        item # rest \<Rightarrow> s\<lparr>rs_channel := rest, rs_pending := rs_pending s @ [item], rs_worker := WkTop\<rparr>
      | [] \<Rightarrow> (if rs_closed s then s\<lparr>rs_disconnected := True, rs_worker := WkTop\<rparr>
               else s\<lparr>rs_worker := WkTop\<rparr>))"

section \<open>Steps\<close>

inductive receipt_step :: "receipt_system \<Rightarrow> receipt_system \<Rightarrow> bool" where
  reserve: "rs_client s = ClIdle \<Longrightarrow> \<not> rs_closed s \<Longrightarrow> receipt_step s (reserve_place s receipt now)"
| send: "rs_client s = ClReserved receipt now \<Longrightarrow> receipt_step s (send_reserved s receipt now)"
| give_back: "rs_client s = ClGiveBack \<Longrightarrow> receipt_step s (give_back s)"
| take_notice: "rs_client s = ClIdle \<Longrightarrow> receipt_step s (fst (take_notice s))"
| take_invalidation: "rs_client s = ClIdle \<Longrightarrow> receipt_step s (fst (take_learning_invalidation s))"
| close: "rs_client s = ClIdle \<Longrightarrow> receipt_step s (s\<lparr>rs_closed := True\<rparr>)"
| worker_take: "rs_worker s = WkTop \<Longrightarrow> receipt_step s (worker_take s now)"
| worker_result: "rs_worker s = WkDelivering item deadline \<Longrightarrow>
    receipt_step s (worker_result s item result now later)"
| worker_publish: "worker_publish s (rs_worker s) = Some s' \<Longrightarrow> receipt_step s s'"
| worker_wake: "rs_worker s = WkWait w \<Longrightarrow> receipt_step s (worker_wake s)"

inductive receipt_run :: "receipt_system \<Rightarrow> receipt_system \<Rightarrow> bool" where
  here: "receipt_run s s"
| more: "receipt_run s s' \<Longrightarrow> receipt_step s' s'' \<Longrightarrow> receipt_run s s''"

abbreviation receipt_reach :: "receipt_system \<Rightarrow> bool" where
  "receipt_reach \<equiv> receipt_run outbox_start"

inductive_cases receipt_stepE: "receipt_step s s'"

section \<open>Accounting\<close>

fun worker_holds :: "worker_phase \<Rightarrow> nat" where
  "worker_holds WkTop = 0"
| "worker_holds (WkWait _) = 0"
| "worker_holds WkReturned = 0"
| "worker_holds _ = 1"

fun client_holds :: "client_phase \<Rightarrow> nat" where
  "client_holds ClIdle = 0"
| "client_holds _ = 1"

definition held_places :: "receipt_system \<Rightarrow> nat" where
  "held_places s = length (rs_channel s) + length (rs_pending s) + worker_holds (rs_worker s)
     + client_holds (rs_client s)"

fun delivering_ok :: "worker_phase \<Rightarrow> bool" where
  "delivering_ok (WkDelivering item deadline) \<longleftrightarrow>
     0 < dv_attempts item \<and> dv_attempts item \<le> 3 \<and> deadline \<le> dv_expires item"
| "delivering_ok _ \<longleftrightarrow> True"

definition system_ok :: "receipt_system \<Rightarrow> bool" where
  "system_ok s \<longleftrightarrow>
     rs_outstanding s = held_places s \<and> rs_outstanding s \<le> outbox_capacity
     \<and> rs_client s \<noteq> ClGiveBack
     \<and> (\<forall>d\<in>set (rs_channel s). dv_attempts d = 0) \<and> (\<forall>d\<in>set (rs_pending s). dv_attempts d \<le> 2)
     \<and> delivering_ok (rs_worker s)
     \<and> (rs_disconnected s \<longrightarrow> rs_closed s \<and> rs_channel s = [])
     \<and> (rs_worker s = WkReturned \<longrightarrow> rs_disconnected s)
     \<and> (rs_closed s \<longrightarrow> rs_client s = ClIdle)"

lemma start_ok: "system_ok outbox_start"
  by (simp add: system_ok_def outbox_start_def held_places_def outbox_capacity_def)

lemma settle_holds [simp]: "worker_holds (settle item m) = 1" "delivering_ok (settle item m)"
  "settle item m \<noteq> WkReturned"
  by (auto simp: settle_def split: option.split)

lemma retry_again:
  "delivery_retry d now = (d', again) \<Longrightarrow> dv_attempts d' = dv_attempts d \<and> (again \<longrightarrow> dv_attempts d \<le> 2)"
  by (auto simp: delivery_retry_def retry_delays_def Let_def split: option.splits bind_splits)

lemma reserve_ok: "system_ok s \<Longrightarrow> rs_client s = ClIdle \<Longrightarrow> \<not> rs_closed s \<Longrightarrow> system_ok (reserve_place s receipt now)"
  by (auto simp: system_ok_def reserve_place_def held_places_def)

text \<open>A reserved place leaves room in the channel, and a reserving client keeps the worker alive.\<close>

lemma reserved_room:
  assumes "system_ok s" and "rs_client s = ClReserved receipt now"
  shows "length (rs_channel s) < outbox_capacity \<and> rs_worker s \<noteq> WkReturned"
  using assms by (auto simp: system_ok_def held_places_def)

lemma send_ok: "system_ok s \<Longrightarrow> rs_client s = ClReserved receipt now \<Longrightarrow> system_ok (send_reserved s receipt now)"
  using reserved_room [of s receipt now]
  by (auto simp: system_ok_def send_reserved_def held_places_def delivery_new_def)

lemma taken_ok:
  assumes ok: "system_ok s" and "rs_worker s = WkTop"
    and "set p \<subseteq> set (rs_pending s) \<union> set (rs_channel s)"
    and "length p + worker_holds w = length (rs_pending s) + length (rs_channel s)"
    and "delivering_ok w" and "w = WkReturned \<Longrightarrow> rs_disconnected s"
  shows "system_ok (s\<lparr>rs_channel := [], rs_pending := p, rs_worker := w\<rparr>)"
proof -
  have "\<forall>d\<in>set p. dv_attempts d \<le> 2" using assms(1,3) by (fastforce simp: system_ok_def)
  then show ?thesis using assms by (simp add: system_ok_def held_places_def)
qed

lemma take_ok:
  assumes ok: "system_ok s" and w: "rs_worker s = WkTop"
  shows "system_ok (worker_take s now)"
proof -
  let ?p = "rs_pending s @ rs_channel s"
  show ?thesis
  proof (cases "position (is_due now) ?p")
    case (Some i)
    then have i: "i < length ?p" using position_SomeD by blast
    define r where "r = take i ?p @ drop (Suc i) ?p"
    have sub: "set r \<subseteq> set (rs_pending s) \<union> set (rs_channel s)"
      using set_take_subset [of i ?p] set_drop_subset [of "Suc i" ?p] by (auto simp: r_def)
    have len: "length r + 1 = length (rs_pending s) + length (rs_channel s)" using i by (simp add: r_def)
    have "?p ! i \<in> set (rs_pending s) \<union> set (rs_channel s)" using nth_mem [OF i] by simp
    then have "dv_attempts (?p ! i) \<le> 2" using ok by (fastforce simp: system_ok_def)
    moreover have "system_ok (s\<lparr>rs_channel := [], rs_pending := r, rs_worker := wk\<rparr>)"
      if "worker_holds wk = 1" and "delivering_ok wk" for wk
      by (rule taken_ok [OF ok w sub]) (use len that in auto)
    ultimately show ?thesis unfolding worker_take_def Let_def Some option.case r_def [symmetric] by simp
  next
    case None
    have a: "system_ok (s\<lparr>rs_channel := [], rs_pending := ?p, rs_worker := WkWait n\<rparr>)" for n
      by (rule taken_ok [OF ok w]) simp_all
    have b: "system_ok (s\<lparr>rs_channel := [], rs_pending := ?p, rs_worker := WkReturned\<rparr>)" if "rs_disconnected s"
      by (rule taken_ok [OF ok w]) (simp_all add: that)
    show ?thesis unfolding worker_take_def Let_def None option.case using a b by (auto split: if_split)
  qed
qed

lemma result_ok:
  assumes ok: "system_ok s" and w: "rs_worker s = WkDelivering item deadline"
  shows "system_ok (worker_result s item result now later)"
proof -
  have fin: "system_ok (s\<lparr>rs_worker := settle i m\<rparr>)" for i m
    using ok w by (simp add: system_ok_def held_places_def)
  have again: "system_ok (s\<lparr>rs_pending := rs_pending s @ [d], rs_worker := WkTop\<rparr>)" if "dv_attempts d \<le> 2" for d
    using ok w that by (auto simp: system_ok_def held_places_def)
  obtain d g where d: "delivery_retry item now = (d, g)" by (rule prod.exhaust)
  show ?thesis using fin again retry_again [OF d] d
    by (auto simp: worker_result_def split: delivery_result.split receipt_status.split)
qed

lemma publish_ok:
  "system_ok s \<Longrightarrow> worker_publish s (rs_worker s) = Some s' \<Longrightarrow> system_ok s'"
  by (cases "rs_worker s") (auto simp: system_ok_def held_places_def)

lemma wake_ok: "system_ok s \<Longrightarrow> rs_worker s = WkWait w \<Longrightarrow> system_ok (worker_wake s)"
  by (auto simp: system_ok_def worker_wake_def held_places_def split: list.split)

lemma receipt_step_ok: "receipt_step s s' \<Longrightarrow> system_ok s \<Longrightarrow> system_ok s'"
proof (induction rule: receipt_step.induct)
  case (give_back s)
  then show ?case by (simp add: system_ok_def)
next
  case (take_notice s)
  then show ?case by (simp add: take_notice_def system_ok_def held_places_def)
next
  case (take_invalidation s)
  then show ?case by (simp add: take_learning_invalidation_def system_ok_def held_places_def)
next
  case (close s)
  then show ?case by (simp add: system_ok_def held_places_def)
qed (blast intro: reserve_ok send_ok take_ok result_ok publish_ok wake_ok)+

lemma receipt_run_least:
  assumes "receipt_run s s'" and "\<And>t. t = s \<Longrightarrow> P t"
    and "\<And>t u. receipt_run s t \<Longrightarrow> P t \<Longrightarrow> receipt_step t u \<Longrightarrow> P u"
  shows "P s'"
  using assms by (induction rule: receipt_run.induct) blast+

interpretation outbox: safe_runs "receipt_reach" "\<lambda>s. s = outbox_start" receipt_step system_ok
  by unfold_locales (erule receipt_run_least, blast+, auto intro: start_ok receipt_step_ok)

lemma receipt_reach_ok: "receipt_reach s \<Longrightarrow> system_ok s"
  by (rule outbox.reach_good)

section \<open>Guarantees\<close>

text \<open>C16: in every interleaving of the text service and the worker the number of outstanding receipts is
  exactly the number of receipts queued, waiting for a retry, in the worker's hands or about to be sent, and
  never exceeds the capacity; so a reserved receipt always finds room in the channel and none is lost, and
  a receipt whose end is still being published keeps the outbox from looking idle.\<close>

theorem outbox_accounts_for_receipts:
  assumes "receipt_reach s"
  shows "rs_outstanding s = length (rs_channel s) + length (rs_pending s)
      + worker_holds (rs_worker s) + client_holds (rs_client s)
    \<and> rs_outstanding s \<le> 128
    \<and> rs_client s \<noteq> ClGiveBack
    \<and> (outbox_pending s \<or> rs_channel s = [] \<and> rs_pending s = [] \<and> worker_holds (rs_worker s) = 0)"
  using receipt_reach_ok [OF assms]
  by (auto simp: system_ok_def held_places_def outbox_capacity_def outbox_pending_def)

text \<open>A receipt is handed to the transport at most three times, and never with a deadline past the
  lifetime it was given when its text was applied.\<close>

theorem delivery_attempts_bounded:
  assumes "receipt_reach s" and "rs_worker s = WkDelivering item deadline"
  shows "1 \<le> dv_attempts item \<and> dv_attempts item \<le> 3 \<and> deadline \<le> dv_expires item"
  using receipt_reach_ok [OF assms(1)] assms(2) by (simp add: system_ok_def)

lemma raised_watermark:
  "raise_watermark r e g e' = Some old' \<Longrightarrow> r e' = Some old \<Longrightarrow> old \<le> old'"
  by (auto simp: raise_watermark_def split: if_splits)

lemma rejected_kept:
  assumes "receipt_step s s'"
  shows "\<forall>e old. rs_rejected s e = Some old \<longrightarrow> (\<exists>new. rs_rejected s' e = Some new \<and> old \<le> new)"
  using assms
proof (cases rule: receipt_step.cases)
  case worker_publish
  then show ?thesis by (cases "rs_worker s") (auto simp: raise_watermark_def split: option.split)
next
  case (worker_take now)
  then show ?thesis by (auto simp: worker_take_def Let_def split: option.split)
next
  case (worker_result item deadline result now later)
  then show ?thesis
    by (auto simp: worker_result_def split: delivery_result.split receipt_status.split prod.split)
qed (auto simp: reserve_place_def send_reserved_def give_back_def take_notice_def take_learning_invalidation_def
    worker_wake_def split: list.split)

lemma rejects_step: "receipt_step s s' \<Longrightarrow> rejects_identity s i \<Longrightarrow> rejects_identity s' i"
  using rejected_kept [of s s'] by (fastforce simp: rejects_identity_def split: option.splits)

interpretation rejection: safe_runs "receipt_run s" "\<lambda>t. t = s" receipt_step
    "\<lambda>t. rejects_identity s i \<longrightarrow> rejects_identity t i" for s i
  by unfold_locales (erule receipt_run_least, blast+, auto intro: rejects_step)

lemma rejects_run: "receipt_run s s' \<Longrightarrow> rejects_identity s i \<Longrightarrow> rejects_identity s' i"
  using rejection.reach_good by blast

text \<open>C13: a rejected learning generation stays rejected: whatever the outbox does afterwards, a model that
  still carries it is stripped of its learning data at the next check, and no receipt can be frozen from it,
  even when the engine offers the same identity again.\<close>

theorem rejected_generation_never_frozen:
  assumes "receipt_run s s'" and "rejects_identity s i" and "cv_learning_identity m = Some i"
  shows "outbox_invalidate_model s' m = (invalidate_learning m, True)
    \<and> outbox_configure_model s' m (Some i) = invalidate_learning m
    \<and> freeze client_instance sequence (invalidate_learning m) t = (sequence, None)"
  using rejects_run [OF assms(1,2)] assms(3)
  by (simp add: outbox_invalidate_model_def outbox_configure_model_def freeze_def invalidate_learning_def)

text \<open>C18: only a handshake made during the delivery itself may condemn a receipt's epoch: when the
  transport answers that the epoch changed, it has just opened a connection whose epoch differs from the
  receipt's, and the receipt was sent on no connection.\<close>

theorem epoch_verdict_is_fresh:
  assumes "transport_deliver link (w, client) receipt deadline = ((w', client'), ResultEpochChanged)"
  shows "\<exists>c w1 timeout. rl_connect link w1 timeout deadline = (w', Some c) \<and> client' = Some c
    \<and> rl_epoch link c \<noteq> rc_engine_epoch receipt
    \<and> (w1 = w \<or> (\<exists>timeout1 c1. rl_connect link w timeout1 deadline = (w1, c1)))"
proof -
  obtain w1 c1 ok1 where e1: "ensure_connected link w client deadline = (w1, c1, ok1)" by (metis prod.exhaust)
  obtain w2 c2 ok2 where e2: "ensure_connected link w1 None deadline = (w2, c2, ok2)" by (metis prod.exhaust)
  have send: "snd (send_on link v c receipt deadline) \<noteq> ResultEpochChanged" for v c
    by (simp add: send_on_def split: option.split prod.split)
  from assms e1 e2 send have v: "w' = w2" "client' = c2" "ok2" "other_epoch link c2 receipt"
    by (auto simp: transport_deliver_def dest!: arg_cong [where f = snd] split: if_splits bool.splits)
  show ?thesis using v e1 e2
    by (auto simp: ensure_connected_def other_epoch_def Let_def split: option.splits prod.splits)
qed

lemma sample_outbox_delivers:
  "receipt_reach (worker_take (fst (text_applied outbox_start r 5)) 5)"
proof -
  let ?s1 = "reserve_place outbox_start r 5"
  let ?s2 = "send_reserved ?s1 r 5"
  have "receipt_reach ?s1"
    by (rule receipt_run.more [OF receipt_run.here receipt_step.reserve]) (simp_all add: outbox_start_def)
  then have "receipt_reach ?s2"
    by (rule receipt_run.more) (rule receipt_step.send, simp add: reserve_place_def outbox_start_def outbox_capacity_def)
  moreover have "fst (text_applied outbox_start r 5) = ?s2"
    by (simp add: text_applied_def Let_def reserve_place_def send_reserved_def outbox_start_def outbox_capacity_def)
  moreover have w: "rs_worker ?s2 = WkTop"
    by (simp add: send_reserved_def reserve_place_def outbox_start_def outbox_capacity_def)
  ultimately show ?thesis using receipt_run.more [OF _ receipt_step.worker_take [OF w]] by simp
qed

lemma sample_taken:
  "rs_worker (worker_take (fst (text_applied outbox_start r 5)) 5) = WkDelivering
     \<lparr>dv_receipt = r, dv_expires = 30005, dv_next_attempt = 5, dv_attempts = 1\<rparr> 1205"
  by (simp add: text_applied_def Let_def reserve_place_def send_reserved_def outbox_start_def outbox_capacity_def
      worker_take_def is_due_def delivery_new_def delivery_lifetime_def request_budget_def)

definition sample_receipt :: commit_receipt where
  "sample_receipt = \<lparr>rc_commit_id = \<lparr>cid_client_instance = [0x69], cid_sequence = 1\<rparr>, rc_engine_epoch = [0x65],
     rc_learning_generation = 3, rc_reading = [0x3042], rc_text = [0x3042], rc_intervals = [], rc_sentence_token = None\<rparr>"

theorem outbox_accounts_for_receipts_witness:
  "rs_outstanding (worker_take (fst (text_applied outbox_start sample_receipt 5)) 5) = 1"
  using outbox_accounts_for_receipts [OF sample_outbox_delivers [of sample_receipt]]
  by (simp add: sample_taken)
    (simp add: text_applied_def Let_def reserve_place_def send_reserved_def outbox_start_def outbox_capacity_def
      worker_take_def is_due_def delivery_new_def delivery_lifetime_def request_budget_def)

theorem delivery_attempts_bounded_witness:
  "1 \<le> (1::nat) \<and> 1 \<le> (3::nat) \<and> 1205 \<le> dv_expires
     \<lparr>dv_receipt = sample_receipt, dv_expires = 30005, dv_next_attempt = 5, dv_attempts = 1\<rparr>"
  using delivery_attempts_bounded [OF sample_outbox_delivers sample_taken, of sample_receipt] by simp

definition sample_rejecting :: receipt_system where
  "sample_rejecting = outbox_start\<lparr>rs_rejected := [[0x65] \<mapsto> 3]\<rparr>"

lemma sample_rejecting_run: "receipt_run sample_rejecting (fst (take_notice sample_rejecting))"
  by (rule receipt_run.more [OF receipt_run.here receipt_step.take_notice])
    (simp add: sample_rejecting_def outbox_start_def)

theorem rejected_generation_never_frozen_witness:
  "freeze (Some [0x69]) 0 (invalidate_learning (sample_model\<lparr>cv_learning_identity :=
      Some \<lparr>li_engine_epoch = [0x65], li_learning_generation = 3\<rparr>\<rparr>)) [0x3042, 0x3044] = (0, None)"
  using rejected_generation_never_frozen [OF sample_rejecting_run,
      of "\<lparr>li_engine_epoch = [0x65], li_learning_generation = 3\<rparr>"
      "sample_model\<lparr>cv_learning_identity := Some \<lparr>li_engine_epoch = [0x65], li_learning_generation = 3\<rparr>\<rparr>"
      "Some [0x69]" 0 "[0x3042, 0x3044]"]
  by (simp add: sample_rejecting_def rejects_identity_def)

text \<open>A link to an engine of epoch \<open>[0x66]\<close>; its world counts the connections.\<close>

definition sample_link :: "(nat, ustring) receipt_link" where
  "sample_link = \<lparr>rl_now = (\<lambda>w. w), rl_connect = (\<lambda>w timeout deadline. (w + 1, Some [0x66])),
     rl_epoch = (\<lambda>c. c), rl_send = (\<lambda>w c r deadline. (w, c, Some RsApplied))\<rparr>"

theorem epoch_verdict_is_fresh_witness:
  "transport_deliver sample_link (0, Some [0x64]) sample_receipt 9 = ((1, Some [0x66]), ResultEpochChanged)
   \<and> (\<exists>c w1 timeout. rl_connect sample_link w1 timeout 9 = (1, Some c) \<and> rl_epoch sample_link c \<noteq> [0x65])"
proof -
  have d: "transport_deliver sample_link (0, Some [0x64]) sample_receipt 9 = ((1, Some [0x66]), ResultEpochChanged)"
    by (simp add: transport_deliver_def ensure_connected_def other_epoch_def sample_link_def sample_receipt_def)
  with epoch_verdict_is_fresh [OF d] show ?thesis by (auto simp: sample_receipt_def)
qed

section \<open>What is frozen\<close>

text \<open>C17: no commit is lost to the validation of its receipt: for every state the clause operations can
  reach, with a learning identity, a normalised reading and something shown for every clause, freezing the
  shown text yields a receipt that the wire contract accepts, whose intervals tile the reading and whose
  surfaces spell the committed text, under the next commit number.\<close>

theorem frozen_receipt_exact:
  assumes "clause_reach lgs m" and "cv_learning_identity m = Some i"
    and "normalize_reading (cv_reading m) = cv_reading m"
    and "\<forall>c\<in>set (cv_clauses m). cl_surface c \<noteq> []" and "sequence < u64_max"
  shows "\<exists>r. freeze (Some inst) sequence m (clause_text m) = (sequence + 1, Some r)
    \<and> receipt_validate (\<lambda>_ _. True) r = Inr ()
    \<and> tiles 0 (receipt_ranges (rc_intervals r)) (length (rc_reading r))
    \<and> concat (map ci_surface (rc_intervals r)) = rc_text r
    \<and> rc_reading r = cv_reading m \<and> rc_text r = clause_text m
    \<and> rc_commit_id r = \<lparr>cid_client_instance = inst, cid_sequence = sequence + 1\<rparr>
    \<and> rc_engine_epoch r = li_engine_epoch i \<and> rc_learning_generation r = li_learning_generation i"
proof -
  let ?r = "\<lparr>rc_commit_id = \<lparr>cid_client_instance = inst, cid_sequence = sequence + 1\<rparr>,
    rc_engine_epoch = li_engine_epoch i, rc_learning_generation = li_learning_generation i,
    rc_reading = cv_reading m, rc_text = clause_text m, rc_intervals = map interval_of_clause (cv_clauses m),
    rc_sentence_token = cv_sentence_token m\<rparr>"
  have ok: "clauses_ok m" using model_clauses [OF clause_reach_ok [OF assms(1)]] .
  have ranges: "receipt_ranges (map interval_of_clause cs) = map span cs" for cs
    by (simp add: receipt_ranges_def interval_of_clause_def comp_def)
  have surfaces: "map (ci_surface \<circ> interval_of_clause) cs = map cl_surface cs" for cs
    by (simp add: interval_of_clause_def comp_def)
  have "interval_ok (\<lambda>_ _. True) (cv_reading m) (legal (cv_reading m)) (interval_of_clause c)"
    if c: "c \<in> set (cv_clauses m)" for c
  proof -
    have s: "surface_ok (cv_reading m) c" "legal (cv_reading m) (cl_end c)"
      using ok c by (auto simp: clauses_ok_def layout_ok_def)
    have "cl_end c \<le> length (cv_reading m)" "cl_start c < cl_end c"
      using clause_ends [OF ok c] by simp_all
    then show ?thesis using s c assms(4)
      by (auto simp: interval_ok_def interval_of_clause_def learning_of_def surface_ok_def reading_slice_def
          split: surface_source.splits)
  qed
  then have "receipt_validate (\<lambda>_ _. True) ?r = Inr ()"
    using ok assms(3) by (simp add: receipt_validate_Inr ranges surfaces clause_text_def clauses_ok_def layout_ok_def)
  then have "freeze (Some inst) sequence m (clause_text m) = (sequence + 1, Some ?r)"
    using assms(2,5) by (simp add: freeze_def next_commit_id_def checked_add_u64_def Let_def)
  then show ?thesis using ok \<open>receipt_validate (\<lambda>_ _. True) ?r = Inr ()\<close>
    by (simp add: ranges surfaces clause_text_def clauses_ok_def layout_ok_def)
qed

definition sample_learning :: learning_identity where
  "sample_learning = \<lparr>li_engine_epoch = [0x65], li_learning_generation = 3\<rparr>"

lemma sample_learning_reach: "clause_reach lgs (sample_model\<lparr>cv_learning_identity := Some sample_learning\<rparr>)"
  by (rule clause_reach.step [OF sample_reach, of _ "EvSetLearning (Some sample_learning)"]) simp

theorem frozen_receipt_exact_witness:
  "\<exists>r. freeze (Some [0x69]) 0 (sample_model\<lparr>cv_learning_identity := Some sample_learning\<rparr>) [0x3042, 0x3044]
      = (1, Some r) \<and> tiles 0 (receipt_ranges (rc_intervals r)) (Suc (Suc 0))"
  using frozen_receipt_exact [OF sample_learning_reach, of sample_learning 0 "[0x69]"]
  by (auto simp: sample_model_def sample_clause_def clause_text_def normalize_reading_def normalize_char_def)

end
