(* ===== verification/Dictionary_Encoding.thy ===== *)
theory Dictionary_Encoding
  imports Rust_Text Symbols
begin

text \<open>
  The encodings of a dictionary file, from \<open>crates/settings/src/user_dictionary.rs\<close>: the strict and the
  lossy decoders of the standard library that it uses, and the choice of an encoding by what the decoded
  text looks like. A byte is a number below 256. The JSON parser is the parameter \<open>json\<close>.
\<close>

type_synonym octet = nat

section \<open>UTF-8\<close>

text \<open>The width a lead byte announces, and the range of its second byte.\<close>

definition utf8_lead :: "octet \<Rightarrow> (nat \<times> octet \<times> octet) option" where
  "utf8_lead b =
     (if b < 0x80 then Some (1, 0, 0)
      else if 0xc2 \<le> b \<and> b \<le> 0xdf then Some (2, 0x80, 0xbf)
      else if b = 0xe0 then Some (3, 0xa0, 0xbf)
      else if b = 0xed then Some (3, 0x80, 0x9f)
      else if 0xe1 \<le> b \<and> b \<le> 0xef then Some (3, 0x80, 0xbf)
      else if b = 0xf0 then Some (4, 0x90, 0xbf)
      else if 0xf1 \<le> b \<and> b \<le> 0xf3 then Some (4, 0x80, 0xbf)
      else if b = 0xf4 then Some (4, 0x80, 0x8f)
      else None)"

definition octet_at :: "octet list \<Rightarrow> nat \<Rightarrow> octet" where
  "octet_at bs i = (if i < length bs then bs ! i else 0)"

definition continues :: "octet \<Rightarrow> bool" where
  "continues b \<longleftrightarrow> 0x80 \<le> b \<and> b \<le> 0xbf"

text \<open>The character at the front, or nothing for an invalid sequence, and the bytes taken.\<close>

definition utf8_step :: "octet list \<Rightarrow> uchar option \<times> nat" where
  "utf8_step bs =
     (let b = octet_at bs 0; x = octet_at bs 1; y = octet_at bs 2; z = octet_at bs 3
      in case utf8_lead b of
           None \<Rightarrow> (None, 1)
         | Some (w, lo, hi) \<Rightarrow>
             (if w = 1 then (Some b, 1)
              else if \<not> (lo \<le> x \<and> x \<le> hi) then (None, 1)
              else if w = 2 then (Some ((b - 0xc0) * 64 + (x - 0x80)), 2)
              else if \<not> continues y then (None, 2)
              else if w = 3 then (Some ((b - 0xe0) * 4096 + (x - 0x80) * 64 + (y - 0x80)), 3)
              else if \<not> continues z then (None, 3)
              else (Some ((b - 0xf0) * 262144 + (x - 0x80) * 4096 + (y - 0x80) * 64 + (z - 0x80)), 4)))"

lemma utf8_step_pos: "0 < snd (utf8_step bs)"
  by (simp add: utf8_step_def Let_def split: option.split prod.split)

function utf8_chars :: "octet list \<Rightarrow> uchar option list" where
  "utf8_chars [] = []"
| "utf8_chars (b # bs) = fst (utf8_step (b # bs)) # utf8_chars (drop (snd (utf8_step (b # bs))) (b # bs))"
  by pat_completeness auto
termination
  by (relation "measure length") (auto simp: utf8_step_pos)

section \<open>UTF-16\<close>

definition is_high_surrogate :: "nat \<Rightarrow> bool" where "is_high_surrogate u \<longleftrightarrow> 0xd800 \<le> u \<and> u \<le> 0xdbff"
definition is_low_surrogate :: "nat \<Rightarrow> bool" where "is_low_surrogate u \<longleftrightarrow> 0xdc00 \<le> u \<and> u \<le> 0xdfff"

fun utf16_chars :: "nat list \<Rightarrow> uchar option list" where
  "utf16_chars [] = []"
| "utf16_chars [u] = [if is_high_surrogate u \<or> is_low_surrogate u then None else Some u]"
| "utf16_chars (u # v # us) =
     (if is_high_surrogate u then
        (if is_low_surrogate v then Some (0x10000 + (u - 0xd800) * 1024 + (v - 0xdc00)) # utf16_chars us
         else None # utf16_chars (v # us))
      else (if is_low_surrogate u then None else Some u) # utf16_chars (v # us))"

fun pair_units :: "bool \<Rightarrow> octet list \<Rightarrow> nat list" where
  "pair_units le (a # b # bs) = (if le then a + 256 * b else 256 * a + b) # pair_units le bs"
| "pair_units le _ = []"

definition utf16_units :: "octet list \<Rightarrow> bool \<Rightarrow> nat list option" where
  "utf16_units bytes le = (if length bytes mod 2 \<noteq> 0 then None else Some (pair_units le bytes))"

text \<open>Every character valid, or nothing; and invalid ones replaced, with a flag.\<close>

definition collect_strict :: "uchar option list \<Rightarrow> ustring option" where
  "collect_strict cs = (if None \<in> set cs then None else Some (map the cs))"

definition collect_lossy :: "uchar option list \<Rightarrow> ustring \<times> bool" where
  "collect_lossy cs = (map (\<lambda>c. case c of None \<Rightarrow> 0xfffd | Some x \<Rightarrow> x) cs, None \<in> set cs)"

definition decode_utf16_strict :: "octet list \<Rightarrow> bool \<Rightarrow> ustring option" where
  "decode_utf16_strict bytes le =
     Option.bind (utf16_units bytes le) (\<lambda>units. collect_strict (utf16_chars units))"

definition decode_utf16_lossy :: "octet list \<Rightarrow> bool \<Rightarrow> ustring \<times> bool" where
  "decode_utf16_lossy bytes le =
     (let (s, replaced) = collect_lossy (utf16_chars (pair_units le bytes))
      in (s, length bytes mod 2 \<noteq> 0 \<or> replaced))"

section \<open>Choosing an encoding\<close>

datatype text_encoding = EncUtf8 | EncUtf16Le | EncUtf16Be

definition is_white_space :: "uchar \<Rightarrow> bool" where
  "is_white_space c \<longleftrightarrow> 0x09 \<le> c \<and> c \<le> 0x0d \<or> c = 0x20 \<or> c = 0x85 \<or> c = 0xa0 \<or> c = 0x1680
     \<or> 0x2000 \<le> c \<and> c \<le> 0x200a \<or> c = 0x2028 \<or> c = 0x2029 \<or> c = 0x202f \<or> c = 0x205f \<or> c = 0x3000"

definition trim_matches :: "(uchar \<Rightarrow> bool) \<Rightarrow> ustring \<Rightarrow> ustring" where
  "trim_matches p s = rev (dropWhile p (rev (dropWhile p s)))"

definition trim_end_matches :: "(uchar \<Rightarrow> bool) \<Rightarrow> ustring \<Rightarrow> ustring" where
  "trim_end_matches p s = rev (dropWhile p (rev s))"

text \<open>\<open>str::lines\<close>: a line ends at a line feed, with a carriage return before it dropped.\<close>

definition without_cr :: "ustring \<Rightarrow> ustring" where
  "without_cr s = (case strip_suffix s [0x0d] of Some r \<Rightarrow> r | None \<Rightarrow> s)"

definition str_lines :: "ustring \<Rightarrow> ustring list" where
  "str_lines s = (let ps = split_on 0x0a s
     in map without_cr (butlast ps) @ (if last ps = [] then [] else [last ps]))"

fun json_has_ruby_word :: "json_value \<Rightarrow> bool" where
  "json_has_ruby_word (JObject fields) \<longleftrightarrow>
     ascii ''ruby'' \<in> fst ` set fields \<and> ascii ''word'' \<in> fst ` set fields
     \<or> (\<exists>x\<in>set fields. json_has_ruby_word (snd x))"
| "json_has_ruby_word (JArray vs) \<longleftrightarrow> (\<exists>v\<in>set vs. json_has_ruby_word v)"
| "json_has_ruby_word _ \<longleftrightarrow> False"

definition has_tsv_columns :: "ustring \<Rightarrow> bool" where
  "has_tsv_columns t \<longleftrightarrow> (\<exists>line\<in>set (str_lines t). line \<noteq> [] \<and> 2 \<le> length (split_on 0x09 line))"

definition is_invalid_internal_c0 :: "uchar \<Rightarrow> bool" where
  "is_invalid_internal_c0 c \<longleftrightarrow> c \<le> 0x1f \<and> c \<noteq> 0x09 \<and> c \<noteq> 0x0d \<and> c \<noteq> 0x0a"

definition dictionary_structure_score :: "(ustring \<Rightarrow> json_value option) \<Rightarrow> ustring \<Rightarrow> int" where
  "dictionary_structure_score json t =
     (let detection_text = trim_end_matches (\<lambda>c. c = 0) t;
          container = (case json (trim_matches is_white_space detection_text) of
              Some (JArray vs) \<Rightarrow> 100 + (if json_has_ruby_word (JArray vs) then 100 else 0)
            | Some (JObject fields) \<Rightarrow> 100 + (if json_has_ruby_word (JObject fields) then 100 else 0)
            | _ \<Rightarrow> 0);
          columns = (if has_tsv_columns detection_text \<and> \<not> (\<exists>c\<in>set detection_text. is_invalid_internal_c0 c)
                     then 100 else 0)
      in container + columns - int (length (filter is_invalid_internal_c0 detection_text)) * 20)"

definition bytes_without_trailing_nuls :: "octet list \<Rightarrow> octet list" where
  "bytes_without_trailing_nuls bytes = rev (dropWhile (\<lambda>b. b = 0) (rev bytes))"

text \<open>The bytes at even and at odd positions.\<close>

fun every_other :: "octet list \<Rightarrow> octet list" where
  "every_other (a # b # bs) = a # every_other bs"
| "every_other bs = bs"

definition sniff_encoding :: "(ustring \<Rightarrow> json_value option) \<Rightarrow> octet list \<Rightarrow> text_encoding" where
  "sniff_encoding json bytes =
     (if take 3 bytes = [0xef, 0xbb, 0xbf] then EncUtf8
      else if take 2 bytes = [0xff, 0xfe] then EncUtf16Le
      else if take 2 bytes = [0xfe, 0xff] then EncUtf16Be
      else
       (let candidates = [(EncUtf8, collect_strict (utf8_chars bytes)),
              (EncUtf16Le, decode_utf16_strict bytes True), (EncUtf16Be, decode_utf16_strict bytes False)];
            scores = List.map_filter (\<lambda>(e, t). map_option (\<lambda>s. (e, dictionary_structure_score json s)) t) candidates;
            best_score = (if scores = [] then - (2 ^ 31) else Max (set (map snd scores)));
            best = map fst (filter (\<lambda>x. snd x = best_score) scores)
        in if best_score \<le> 0 then EncUtf8
           else if length best = 1 then best ! 0
           else if EncUtf8 \<notin> set best then
             (let parity_bytes = bytes_without_trailing_nuls bytes;
                  even_nul = length (filter (\<lambda>b. b = 0) (every_other parity_bytes));
                  odd_nul = length (filter (\<lambda>b. b = 0) (every_other (drop 1 parity_bytes)))
              in if even_nul < odd_nul \<and> EncUtf16Le \<in> set best then EncUtf16Le
                 else if odd_nul < even_nul \<and> EncUtf16Be \<in> set best then EncUtf16Be
                 else EncUtf8)
           else EncUtf8))"

definition strip_leading_bom :: "ustring \<Rightarrow> ustring" where
  "strip_leading_bom s = (case strip_prefix s [0xfeff] of Some rest \<Rightarrow> rest | None \<Rightarrow> s)"

definition decode_bytes :: "(ustring \<Rightarrow> json_value option) \<Rightarrow> octet list \<Rightarrow> ustring option" where
  "decode_bytes json bytes =
     map_option strip_leading_bom (case sniff_encoding json bytes of
         EncUtf8 \<Rightarrow> collect_strict (utf8_chars bytes)
       | EncUtf16Le \<Rightarrow> decode_utf16_strict bytes True
       | EncUtf16Be \<Rightarrow> decode_utf16_strict bytes False)"

definition decode_bytes_lossy :: "(ustring \<Rightarrow> json_value option) \<Rightarrow> octet list \<Rightarrow> ustring \<times> bool" where
  "decode_bytes_lossy json bytes =
     (let (s, replaced) = (case sniff_encoding json bytes of
            EncUtf8 \<Rightarrow> collect_lossy (utf8_chars bytes)
          | EncUtf16Le \<Rightarrow> decode_utf16_lossy bytes True
          | EncUtf16Be \<Rightarrow> decode_utf16_lossy bytes False)
      in (strip_leading_bom s, replaced))"

end
