(* ===== verification/User_Dictionary.thy ===== *)
theory User_Dictionary
  imports Dictionary_Encoding "HOL-Library.List_Lexorder" "HOL-Library.Product_Lexorder"
begin

text \<open>
  The user dictionary, \<open>crates/settings/src/user_dictionary.rs\<close>: the lookup key of an entry, the checks on
  input, loading with the quarantine of a broken file, and the import and export of tab separated text.
  The file system is a parameter: what reading gave and whether the rename and the copy succeeded.
\<close>

section \<open>Entries and keys\<close>

record user_dict_entry =
  ud_ruby :: ustring
  ud_word :: ustring
  ud_pos :: "ustring option"

definition is_trim_ws_char :: "uchar \<Rightarrow> bool" where
  "is_trim_ws_char c \<longleftrightarrow> c = 0x09 \<or> c = 0x20 \<or> c = 0xa0 \<or> c = 0x1680 \<or> 0x2000 \<le> c \<and> c \<le> 0x200a
     \<or> c = 0x202f \<or> c = 0x205f \<or> c = 0x3000"

definition trim_ws :: "ustring \<Rightarrow> ustring" where
  "trim_ws s = trim_matches is_trim_ws_char s"

definition kana_pairs :: "((uchar \<times> uchar) \<times> uchar) list" where
  "kana_pairs = [
     ((0x304b, 0x3099), 0x304c), ((0x304d, 0x3099), 0x304e), ((0x304f, 0x3099), 0x3050), ((0x3051, 0x3099), 0x3052),
     ((0x3053, 0x3099), 0x3054), ((0x3055, 0x3099), 0x3056), ((0x3057, 0x3099), 0x3058), ((0x3059, 0x3099), 0x305a),
     ((0x305b, 0x3099), 0x305c), ((0x305d, 0x3099), 0x305e), ((0x305f, 0x3099), 0x3060), ((0x3061, 0x3099), 0x3062),
     ((0x3064, 0x3099), 0x3065), ((0x3066, 0x3099), 0x3067), ((0x3068, 0x3099), 0x3069), ((0x306f, 0x3099), 0x3070),
     ((0x3072, 0x3099), 0x3073), ((0x3075, 0x3099), 0x3076), ((0x3078, 0x3099), 0x3079), ((0x307b, 0x3099), 0x307c),
     ((0x3046, 0x3099), 0x3094), ((0x309d, 0x3099), 0x309e), ((0x30ab, 0x3099), 0x30ac), ((0x30ad, 0x3099), 0x30ae),
     ((0x30af, 0x3099), 0x30b0), ((0x30b1, 0x3099), 0x30b2), ((0x30b3, 0x3099), 0x30b4), ((0x30b5, 0x3099), 0x30b6),
     ((0x30b7, 0x3099), 0x30b8), ((0x30b9, 0x3099), 0x30ba), ((0x30bb, 0x3099), 0x30bc), ((0x30bd, 0x3099), 0x30be),
     ((0x30bf, 0x3099), 0x30c0), ((0x30c1, 0x3099), 0x30c2), ((0x30c4, 0x3099), 0x30c5), ((0x30c6, 0x3099), 0x30c7),
     ((0x30c8, 0x3099), 0x30c9), ((0x30cf, 0x3099), 0x30d0), ((0x30d2, 0x3099), 0x30d3), ((0x30d5, 0x3099), 0x30d6),
     ((0x30d8, 0x3099), 0x30d9), ((0x30db, 0x3099), 0x30dc), ((0x30a6, 0x3099), 0x30f4), ((0x30ef, 0x3099), 0x30f7),
     ((0x30f0, 0x3099), 0x30f8), ((0x30f1, 0x3099), 0x30f9), ((0x30f2, 0x3099), 0x30fa), ((0x30fd, 0x3099), 0x30fe),
     ((0x306f, 0x309a), 0x3071), ((0x3072, 0x309a), 0x3074), ((0x3075, 0x309a), 0x3077), ((0x3078, 0x309a), 0x307a),
     ((0x307b, 0x309a), 0x307d), ((0x30cf, 0x309a), 0x30d1), ((0x30d2, 0x309a), 0x30d4), ((0x30d5, 0x309a), 0x30d7),
     ((0x30d8, 0x309a), 0x30da), ((0x30db, 0x309a), 0x30dd)]"

definition compose_pair :: "uchar \<Rightarrow> uchar \<Rightarrow> uchar option" where
  "compose_pair base mark = map_of kana_pairs (base, mark)"

fun compose_kana :: "ustring \<Rightarrow> ustring" where
  "compose_kana (base # mark # rest) =
     (case compose_pair base mark of
        Some composed \<Rightarrow> composed # compose_kana rest
      | None \<Rightarrow> base # compose_kana (mark # rest))"
| "compose_kana s = s"

definition katakana_char :: "uchar \<Rightarrow> uchar" where
  "katakana_char c = (if 0x3041 \<le> c \<and> c \<le> 0x3096 then c + 0x60 else c)"

definition hiragana_to_katakana :: "ustring \<Rightarrow> ustring" where
  "hiragana_to_katakana s = map katakana_char s"

definition normalize_key :: "ustring \<Rightarrow> ustring" where
  "normalize_key ruby = compose_kana (hiragana_to_katakana (trim_ws ruby))"

definition normalize_word :: "ustring \<Rightarrow> ustring" where
  "normalize_word word = compose_kana (trim_ws word)"

definition entry_key :: "user_dict_entry \<Rightarrow> ustring \<times> ustring" where
  "entry_key e = (normalize_key (ud_ruby e), normalize_word (ud_word e))"

section \<open>Checks\<close>

datatype user_dict_error =
  UdInvalidRuby | UdEmptyField | UdTooLong | UdControlChar | UdDuplicate | UdNotFound | UdUnreadable

definition check_generic :: "ustring \<Rightarrow> user_dict_error + unit" where
  "check_generic s =
     (if length s = 0 then Inl UdEmptyField
      else if 300 < length s then Inl UdTooLong
      else if \<exists>c\<in>set s. c \<le> 0x1f then Inl UdControlChar else Inr ())"

definition is_valid_ruby_char :: "uchar \<Rightarrow> bool" where
  "is_valid_ruby_char c \<longleftrightarrow> 0x3041 \<le> c \<and> c \<le> 0x3096 \<or> 0x30a1 \<le> c \<and> c \<le> 0x30f6 \<or> c = 0x30fc"

definition validate_entry :: "ustring \<Rightarrow> ustring \<Rightarrow> user_dict_error + unit" where
  "validate_entry ruby word =
     (let ruby_n = compose_kana (trim_ws ruby); word_n = compose_kana (trim_ws word)
      in case check_generic ruby_n of
           Inl e \<Rightarrow> Inl e
         | Inr _ \<Rightarrow> (if \<not> list_all is_valid_ruby_char ruby_n then Inl UdInvalidRuby else check_generic word_n))"

section \<open>Parts of speech\<close>

fun contains_text :: "ustring \<Rightarrow> ustring \<Rightarrow> bool" where
  "contains_text [] p \<longleftrightarrow> p = []"
| "contains_text (c # s) p \<longleftrightarrow> starts_with (c # s) p \<or> contains_text s p"

text \<open>\<open>replace(pattern, "")\<close> for a pattern that is not empty.\<close>

fun remove_text :: "ustring \<Rightarrow> nat \<Rightarrow> ustring \<Rightarrow> ustring" where
  "remove_text p skip [] = []"
| "remove_text p (Suc skip) (c # s) = remove_text p skip s"
| "remove_text p 0 (c # s) =
     (if starts_with (c # s) p then remove_text p (length p - 1) s else c # remove_text p 0 s)"

definition pos_noun :: ustring where "pos_noun = [0x540d, 0x8a5e]"
definition pos_person :: ustring where "pos_person = [0x4eba, 0x540d]"
definition pos_family :: ustring where "pos_family = [0x59d3]"
definition pos_given :: ustring where "pos_given = [0x540d]"
definition pos_organization :: ustring where "pos_organization = [0x7d44, 0x7e54]"
definition pos_place :: ustring where "pos_place = [0x5730, 0x540d]"
definition pos_station :: ustring where "pos_station = [0x99c5]"
definition pos_proper_mark :: ustring where "pos_proper_mark = [0x56fa, 0x6709]"
definition pos_proper :: ustring where "pos_proper = [0x56fa, 0x6709, 0x540d, 0x8a5e]"
definition pos_number :: ustring where "pos_number = [0x6570]"

lemmas pos_defs = pos_noun_def pos_person_def pos_family_def pos_given_def pos_organization_def
  pos_place_def pos_station_def pos_proper_mark_def pos_proper_def pos_number_def

definition canonical_pos :: "ustring option \<Rightarrow> ustring" where
  "canonical_pos pos =
     (case pos of
        None \<Rightarrow> pos_noun
      | Some p \<Rightarrow>
          (if p = [] then pos_noun
           else if contains_text p pos_person then
             (if contains_text p pos_family then pos_family
              else if contains_text (remove_text pos_person 0 p) pos_given then pos_given
              else pos_person)
           else if p = pos_family then pos_family
           else if p = pos_given then pos_given
           else if contains_text p pos_organization then pos_organization
           else if contains_text p pos_place \<or> contains_text p pos_station then pos_place
           else if contains_text p pos_proper_mark then pos_proper
           else if contains_text p pos_number then pos_number
           else pos_noun))"

section \<open>Loading\<close>

datatype dict_corrupt = CorruptNone | CorruptQuarantined
datatype dict_load_error = LoadUnreadable | LoadQuarantineFailed

record loaded_dict =
  ld_entries :: "user_dict_entry list"
  ld_deduped :: nat
  ld_corrupt :: dict_corrupt

definition empty_loaded :: loaded_dict where
  "empty_loaded = \<lparr>ld_entries = [], ld_deduped = 0, ld_corrupt = CorruptNone\<rparr>"

fun dedup_loop ::
  "(ustring \<times> ustring) set \<Rightarrow> user_dict_entry list \<Rightarrow> user_dict_entry list \<times> nat"
where
  "dedup_loop seen [] = ([], 0)"
| "dedup_loop seen (e # es) =
     (if entry_key e \<in> seen
      then (let (out, deduped) = dedup_loop seen es in (out, deduped + 1))
      else (let (out, deduped) = dedup_loop (insert (entry_key e) seen) es in (e # out, deduped)))"

definition dedup_entries :: "user_dict_entry list \<Rightarrow> user_dict_entry list \<times> nat" where
  "dedup_entries entries = dedup_loop {} entries"

text \<open>The name for the broken file: the first number whose name is free. The counter is a \<open>u32\<close>.\<close>

function free_number :: "(nat \<Rightarrow> bool) \<Rightarrow> nat \<Rightarrow> nat option" where
  "free_number taken n =
     (if \<not> taken n then Some n else if u32_max \<le> n then None else free_number taken (n + 1))"
  by pat_completeness auto
termination
  by (relation "measure (\<lambda>(_, n). u32_max - n)") auto

datatype read_outcome = ReadBytes "octet list" | ReadNotFound | ReadFailed

text \<open>What happened to the file: it is where it was, or it was moved, or copied, to a free name.\<close>

datatype file_fate = FileKept | FileMoved nat | FileCopied nat

definition dict_quarantine ::
  "(nat \<Rightarrow> bool) \<Rightarrow> bool \<Rightarrow> bool \<Rightarrow> ((dict_load_error + loaded_dict) \<times> file_fate) option"
where
  "dict_quarantine taken rename_ok copy_ok =
     map_option (\<lambda>n.
       (if rename_ok then (Inr (empty_loaded\<lparr>ld_corrupt := CorruptQuarantined\<rparr>), FileMoved n)
        else if copy_ok then (Inr (empty_loaded\<lparr>ld_corrupt := CorruptQuarantined\<rparr>), FileCopied n)
        else (Inl LoadQuarantineFailed, FileKept)))
       (free_number taken 0)"

definition load_from_with ::
  "(ustring \<Rightarrow> json_value option) \<Rightarrow> (ustring \<Rightarrow> user_dict_entry list option) \<Rightarrow> (nat \<Rightarrow> bool)
   \<Rightarrow> bool \<Rightarrow> bool \<Rightarrow> read_outcome \<Rightarrow> ((dict_load_error + loaded_dict) \<times> file_fate) option"
where
  "load_from_with json entries_of taken rename_ok copy_ok outcome =
     (case outcome of
        ReadNotFound \<Rightarrow> Some (Inr empty_loaded, FileKept)
      | ReadFailed \<Rightarrow> Some (Inl LoadUnreadable, FileKept)
      | ReadBytes bytes \<Rightarrow>
          (if bytes = [] then Some (Inr empty_loaded, FileKept)
           else case decode_bytes json bytes of
             None \<Rightarrow> dict_quarantine taken rename_ok copy_ok
           | Some t \<Rightarrow>
               (if trim_matches is_white_space t = [] then Some (Inr empty_loaded, FileKept)
                else case entries_of t of
                  None \<Rightarrow> dict_quarantine taken rename_ok copy_ok
                | Some entries \<Rightarrow>
                    (let (out, deduped) = dedup_entries entries
                     in Some (Inr \<lparr>ld_entries = out, ld_deduped = deduped, ld_corrupt = CorruptNone\<rparr>,
                              FileKept)))))"

section \<open>Import and export\<close>

definition parse_row :: "ustring \<Rightarrow> user_dict_entry option" where
  "parse_row line =
     (if line = [] \<or> starts_with line [0x21] \<or> starts_with line [0x23] then None
      else (let cols = split_on 0x09 line
        in if length cols < 2 then None
           else Some \<lparr>ud_ruby = cols ! 0, ud_word = cols ! 1, ud_pos = get cols 2\<rparr>))"

definition parse_tsv :: "(ustring \<Rightarrow> json_value option) \<Rightarrow> octet list \<Rightarrow> user_dict_entry list \<times> bool" where
  "parse_tsv json bytes =
     (let (t, had_replacement) = decode_bytes_lossy json bytes
      in (List.map_filter parse_row (str_lines t), had_replacement))"

record merge_report =
  mr_added :: nat
  mr_skipped_dup :: nat
  mr_skipped_invalid :: nat
  mr_encoding_hint :: bool

record merge_state =
  ms_existing :: "user_dict_entry list"
  ms_seen :: "(ustring \<times> ustring) set"
  ms_report :: merge_report

definition merge_row :: "merge_state \<Rightarrow> user_dict_entry \<Rightarrow> merge_state" where
  "merge_row s row =
     (let r = ms_report s
      in case validate_entry (ud_ruby row) (ud_word row) of
           Inl _ \<Rightarrow> s\<lparr>ms_report := r\<lparr>mr_skipped_invalid := mr_skipped_invalid r + 1,
               mr_encoding_hint := mr_encoding_hint r \<or> 0xfffd \<in> set (ud_ruby row) \<or> 0xfffd \<in> set (ud_word row)\<rparr>\<rparr>
         | Inr _ \<Rightarrow>
             (if entry_key row \<in> ms_seen s then s\<lparr>ms_report := r\<lparr>mr_skipped_dup := mr_skipped_dup r + 1\<rparr>\<rparr>
              else s\<lparr>ms_existing := ms_existing s @ [row], ms_seen := insert (entry_key row) (ms_seen s),
                     ms_report := r\<lparr>mr_added := mr_added r + 1\<rparr>\<rparr>))"

text \<open>The hint also reports replacements seen when the text was decoded.\<close>

definition merge_imported ::
  "user_dict_entry list \<Rightarrow> user_dict_entry list \<Rightarrow> bool \<Rightarrow> user_dict_entry list \<times> merge_report"
where
  "merge_imported existing rows had_replacement =
     (let s = foldl merge_row \<lparr>ms_existing = existing, ms_seen = set (map entry_key existing),
            ms_report = \<lparr>mr_added = 0, mr_skipped_dup = 0, mr_skipped_invalid = 0, mr_encoding_hint = False\<rparr>\<rparr> rows;
          r = ms_report s
      in (ms_existing s, r\<lparr>mr_encoding_hint := had_replacement \<or> mr_encoding_hint r\<rparr>))"

record export_output =
  eo_tsv :: ustring
  eo_written :: nat
  eo_skipped_control :: nat

definition has_control_char :: "ustring \<Rightarrow> bool" where
  "has_control_char s \<longleftrightarrow> (\<exists>c\<in>set s. c \<le> 0x1f)"

definition row_exported :: "user_dict_entry \<Rightarrow> bool" where
  "row_exported e \<longleftrightarrow> \<not> (has_control_char (ud_ruby e) \<or> has_control_char (ud_word e)
     \<or> has_control_char (canonical_pos (ud_pos e)))"

definition export_row :: "user_dict_entry \<Rightarrow> ustring" where
  "export_row e = ud_ruby e @ [0x09] @ ud_word e @ [0x09] @ canonical_pos (ud_pos e) @ [0x0d, 0x0a]"

text \<open>The order of the entries: by key, then by word, as strings compare.\<close>

definition export_order :: "user_dict_entry list \<Rightarrow> user_dict_entry list" where
  "export_order entries = sort_key (\<lambda>e. (normalize_key (ud_ruby e), ud_word e)) entries"

definition to_google_tsv :: "user_dict_entry list \<Rightarrow> export_output" where
  "to_google_tsv entries =
     (let (written, skipped) = partition row_exported (export_order entries)
      in \<lparr>eo_tsv = concat (map export_row written), eo_written = length written,
          eo_skipped_control = length skipped\<rparr>)"

end
