(* ===== verification/User_Dictionary_Spec.thy ===== *)
theory User_Dictionary_Spec
  imports User_Dictionary
begin

text \<open>
  The guarantees of the user dictionary: keys do not depend on how a reading is spelled, a load never
  loses a file it could not read, an import adds each new valid key once, and what is exported is
  imported again, through the bytes of the file and the choice of its encoding.
\<close>

section \<open>Keys\<close>

definition is_voicing_mark :: "uchar \<Rightarrow> bool" where
  "is_voicing_mark c \<longleftrightarrow> c = 0x3099 \<or> c = 0x309a"

definition is_base :: "uchar \<Rightarrow> bool" where
  "is_base b \<longleftrightarrow> b \<in> set (map (fst \<circ> fst) kana_pairs)"

lemma is_base_iff:
  "is_base b \<longleftrightarrow> b = 0x304b \<or> b = 0x304d \<or> b = 0x304f \<or> b = 0x3051 \<or> b = 0x3053 \<or> b = 0x3055
     \<or> b = 0x3057 \<or> b = 0x3059 \<or> b = 0x305b \<or> b = 0x305d \<or> b = 0x305f \<or> b = 0x3061
     \<or> b = 0x3064 \<or> b = 0x3066 \<or> b = 0x3068 \<or> b = 0x306f \<or> b = 0x3072 \<or> b = 0x3075
     \<or> b = 0x3078 \<or> b = 0x307b \<or> b = 0x3046 \<or> b = 0x309d \<or> b = 0x30ab \<or> b = 0x30ad
     \<or> b = 0x30af \<or> b = 0x30b1 \<or> b = 0x30b3 \<or> b = 0x30b5 \<or> b = 0x30b7 \<or> b = 0x30b9
     \<or> b = 0x30bb \<or> b = 0x30bd \<or> b = 0x30bf \<or> b = 0x30c1 \<or> b = 0x30c4 \<or> b = 0x30c6
     \<or> b = 0x30c8 \<or> b = 0x30cf \<or> b = 0x30d2 \<or> b = 0x30d5 \<or> b = 0x30d8 \<or> b = 0x30db
     \<or> b = 0x30a6 \<or> b = 0x30ef \<or> b = 0x30f0 \<or> b = 0x30f1 \<or> b = 0x30f2 \<or> b = 0x30fd"
  by (simp add: is_base_def kana_pairs_def) blast

text \<open>Where the table lies, that katakana pairs are the image of the hiragana pairs, and that what is
  composed composes no further.\<close>

lemma pairs_range:
  "list_all (\<lambda>((b, m), c). is_voicing_mark m \<and> 0x3046 \<le> b \<and> b \<le> 0x30fd \<and> \<not> is_voicing_mark b
     \<and> 0x304c \<le> c \<and> c \<le> 0x30fe \<and> \<not> is_voicing_mark c) kana_pairs"
  by (simp add: kana_pairs_def is_voicing_mark_def)

lemma pairs_map: "list_all (\<lambda>((b, m), c). compose_pair (katakana_char b) m = Some (katakana_char c)) kana_pairs"
  by (simp add: compose_pair_def kana_pairs_def katakana_char_def map_of_Cons_code del: map_of.simps)

lemma pairs_final: "list_all (\<lambda>((b, m), c). \<not> is_base c \<and> \<not> is_base (katakana_char c)) kana_pairs"
  by (simp add: is_base_iff kana_pairs_def katakana_char_def)

lemma compose_pair_mem: "compose_pair b m = Some c \<Longrightarrow> ((b, m), c) \<in> set kana_pairs"
  by (simp add: compose_pair_def map_of_SomeD)

lemma compose_pair_facts:
  assumes "compose_pair b m = Some c"
  shows "is_voicing_mark m" "0x3046 \<le> b" "b \<le> 0x30fd" "\<not> is_voicing_mark b" "0x304c \<le> c" "c \<le> 0x30fe" "\<not> is_voicing_mark c"
    "compose_pair (katakana_char b) m = Some (katakana_char c)" "\<not> is_base c" "\<not> is_base (katakana_char c)"
  using compose_pair_mem [OF assms] pairs_range pairs_map pairs_final by (auto simp: list_all_iff)

lemma base_pair: "compose_pair b m \<noteq> None \<Longrightarrow> is_base b"
  using compose_pair_mem by (force simp: is_base_def image_iff)

lemma mark_pair [simp]: "is_voicing_mark b \<Longrightarrow> compose_pair b m = None"
  using compose_pair_facts(4) [of b m] by (cases "compose_pair b m") auto

lemma nonmark_pair: "\<not> is_voicing_mark m \<Longrightarrow> compose_pair b m = None"
  using compose_pair_facts(1) [of b m] by (cases "compose_pair b m") auto

lemma katakana_mark [simp]: "is_voicing_mark (katakana_char c) = is_voicing_mark c" "is_voicing_mark c \<Longrightarrow> katakana_char c = c"
  by (auto simp: is_voicing_mark_def katakana_char_def)

lemma compose_Cons: "\<not> is_base b \<Longrightarrow> compose_kana (b # s) = b # compose_kana s"
  using base_pair by (cases s) (auto split: option.split)

lemma compose_Cons_nonmark: "s = [] \<or> \<not> is_voicing_mark (hd s) \<Longrightarrow> compose_kana (b # s) = b # compose_kana s"
  by (cases s) (auto simp: nonmark_pair)

lemma mark_not_base: "is_voicing_mark m \<Longrightarrow> \<not> is_base m"
  using pairs_range by (fastforce simp: is_base_def list_all_iff)

lemma compose_hd_mark: "s \<noteq> [] \<Longrightarrow> \<not> is_voicing_mark (hd s) \<Longrightarrow> \<not> is_voicing_mark (hd (compose_kana s)) \<and> compose_kana s \<noteq> []"
  by (induction s rule: compose_kana.induct) (auto split: option.split dest: compose_pair_facts(7))

text \<open>Composing first changes nothing, and a mark at the front stays.\<close>

lemma compose_absorbs:
  "compose_kana (map katakana_char (compose_kana s)) = compose_kana (map katakana_char s)"
proof (induction s rule: compose_kana.induct)
  case (1 b m r)
  show ?case
  proof (cases "compose_pair b m")
    case (Some c)
    note f = compose_pair_facts [OF Some]
    show ?thesis using 1(2) [OF Some] Some f by (simp add: compose_Cons)
  next
    case None
    note IH = 1(1) [OF None]
    show ?thesis
    proof (cases "is_voicing_mark m")
      case True
      have m: "compose_kana (m # r) = m # compose_kana r" by (rule compose_Cons [OF mark_not_base [OF True]])
      have "compose_kana (map katakana_char (m # r)) = m # compose_kana (map katakana_char r)"
        using True compose_Cons [OF mark_not_base [OF True]] by simp
      moreover have "compose_kana (map katakana_char (m # compose_kana r)) = m # compose_kana (map katakana_char (compose_kana r))"
        using True compose_Cons [OF mark_not_base [OF True]] by simp
      ultimately have r: "compose_kana (map katakana_char (compose_kana r)) = compose_kana (map katakana_char r)"
        using IH m by simp
      show ?thesis using None m r True IH
        by (simp split: option.split)
    next
      case False
      have h: "compose_kana (m # r) \<noteq> []" "\<not> is_voicing_mark (hd (compose_kana (m # r)))"
        using compose_hd_mark [of "m # r"] False by simp_all
      have a: "compose_kana (map katakana_char (b # compose_kana (m # r)))
          = katakana_char b # compose_kana (map katakana_char (compose_kana (m # r)))"
        using compose_Cons_nonmark [of "map katakana_char (compose_kana (m # r))"] h
        by (simp add: hd_map)
      have c: "compose_kana (map katakana_char (b # m # r)) = katakana_char b # compose_kana (map katakana_char (m # r))"
        using compose_Cons_nonmark [of "map katakana_char (m # r)"] False by simp
      show ?thesis using None IH a c by simp
    qed
  qed
qed simp_all

section \<open>Trimming\<close>

definition ws_trimmed :: "ustring \<Rightarrow> bool" where
  "ws_trimmed s \<longleftrightarrow> s = [] \<or> \<not> is_trim_ws_char (hd s) \<and> \<not> is_trim_ws_char (last s)"

lemma trim_ws_parts:
  obtains pre post where "s = pre @ trim_ws s @ post" "list_all is_trim_ws_char pre"
    "list_all is_trim_ws_char post" "ws_trimmed (trim_ws s)"
proof -
  define d where "d = dropWhile is_trim_ws_char s"
  define e where "e = takeWhile is_trim_ws_char (rev d)"
  define t where "t = rev (dropWhile is_trim_ws_char (rev d))"
  have s: "s = takeWhile is_trim_ws_char s @ d" by (simp add: d_def)
  have "rev d = e @ rev t" by (simp add: e_def t_def)
  then have d: "d = t @ rev e" by (metis rev_append rev_rev_ident)
  have t: "ws_trimmed t"
  proof (cases "t = []")
    case False
    then have r: "dropWhile is_trim_ws_char (rev d) \<noteq> []" by (simp add: t_def)
    then have "\<not> is_trim_ws_char (last t)" using hd_dropWhile [OF r] by (simp add: t_def last_rev)
    moreover have "hd t = hd d" using False d by simp
    moreover have "d \<noteq> []" using False d by auto
    then have "\<not> is_trim_ws_char (hd d)" unfolding d_def by (rule hd_dropWhile)
    ultimately show ?thesis by (simp add: ws_trimmed_def)
  qed (simp add: ws_trimmed_def)
  have w: "list_all is_trim_ws_char (takeWhile is_trim_ws_char s)" "list_all is_trim_ws_char (rev e)"
    by (auto simp: list_all_iff e_def dest: set_takeWhileD)
  have "trim_ws s = t" by (simp add: trim_ws_def trim_matches_def t_def d_def)
  then show ?thesis using that [of "takeWhile is_trim_ws_char s" "rev e"] s d t w by simp
qed

lemma trim_ws_exact:
  assumes "list_all is_trim_ws_char pre" "list_all is_trim_ws_char post" "ws_trimmed mid"
  shows "trim_ws (pre @ mid @ post) = mid"
proof (cases "mid = []")
  case True
  have "\<forall>x\<in>set (pre @ mid @ post). is_trim_ws_char x"
    using assms True by (auto simp: list_all_iff)
  then have "dropWhile is_trim_ws_char (pre @ mid @ post) = []"
    by (simp only: dropWhile_eq_Nil_conv)
  then show ?thesis using True by (simp only: trim_ws_def trim_matches_def rev.simps dropWhile.simps)
next
  case False
  have drop: "dropWhile is_trim_ws_char (ws @ x) = x"
    if "list_all is_trim_ws_char ws" "x \<noteq> []" "\<not> is_trim_ws_char (hd x)" for ws x
    using that by (induction ws) (cases x; simp)+
  have "dropWhile is_trim_ws_char (pre @ mid @ post) = mid @ post"
    using assms False by (intro drop) (auto simp: ws_trimmed_def)
  moreover have "dropWhile is_trim_ws_char (rev post @ rev mid) = rev mid"
    using assms False by (intro drop) (auto simp: ws_trimmed_def hd_rev list_all_iff)
  ultimately show ?thesis by (simp add: trim_ws_def trim_matches_def)
qed

lemma ws_plain: "is_trim_ws_char c \<Longrightarrow> \<not> is_base c \<and> \<not> is_voicing_mark c \<and> katakana_char c = c"
  using pairs_range by (fastforce simp: is_trim_ws_char_def is_base_def is_voicing_mark_def katakana_char_def list_all_iff)

lemma ws_katakana [simp]: "is_trim_ws_char (katakana_char c) = is_trim_ws_char c"
  by (auto simp: is_trim_ws_char_def katakana_char_def)

lemma compose_ws_front: "list_all is_trim_ws_char pre \<Longrightarrow> compose_kana (pre @ s) = pre @ compose_kana s"
  by (induction pre) (auto simp: compose_Cons dest: ws_plain)

lemma compose_ws_only:
  assumes "list_all is_trim_ws_char post"
  shows "compose_kana post = post" "compose_kana (b # post) = b # post"
proof -
  show only: "compose_kana post = post" using compose_ws_front [OF assms, of "[]"] by simp
  show "compose_kana (b # post) = b # post"
    using assms only compose_Cons_nonmark [of post b] ws_plain by (cases post) auto
qed

lemma compose_ws_back: "list_all is_trim_ws_char post \<Longrightarrow> compose_kana (s @ post) = compose_kana s @ post"
proof (induction s rule: compose_kana.induct)
  case (1 b m r)
  then show ?case by (auto split: option.split)
qed (simp_all add: compose_ws_only)

lemma composed_not_ws:
  assumes "compose_pair b m = Some c" shows "\<not> is_trim_ws_char c"
  using compose_pair_facts(5,6) [OF assms] by (auto simp: is_trim_ws_char_def)

lemma compose_trimmed: "ws_trimmed s \<Longrightarrow> ws_trimmed (compose_kana s)"
proof -
  have h: "s \<noteq> [] \<Longrightarrow> \<not> is_trim_ws_char (hd s) \<Longrightarrow> \<not> is_trim_ws_char (hd (compose_kana s))" for s
    by (induction s rule: compose_kana.induct) (auto split: option.split dest: composed_not_ws)
  have l: "s \<noteq> [] \<Longrightarrow> \<not> is_trim_ws_char (last s) \<Longrightarrow> compose_kana s \<noteq> [] \<and> \<not> is_trim_ws_char (last (compose_kana s))" for s
  proof (induction s rule: compose_kana.induct)
    case (1 b m r)
    show ?case
    proof (cases "compose_pair b m")
      case (Some c)
      then show ?thesis using 1 composed_not_ws [OF Some] by (cases "r = []") auto
    next
      case None
      then show ?thesis using 1 by auto
    qed
  qed auto
  assume "ws_trimmed s"
  then show ?thesis using h [of s] l [of s] by (cases "s = []") (auto simp: ws_trimmed_def)
qed

lemma trim_compose: "trim_ws (compose_kana s) = compose_kana (trim_ws s)"
proof -
  obtain pre post where p: "s = pre @ trim_ws s @ post" "list_all is_trim_ws_char pre"
    "list_all is_trim_ws_char post" "ws_trimmed (trim_ws s)" by (rule trim_ws_parts)
  have "compose_kana s = pre @ compose_kana (trim_ws s) @ post"
    using p compose_ws_front compose_ws_back by metis
  then show ?thesis using trim_ws_exact [OF p(2,3) compose_trimmed [OF p(4)]] by simp
qed

lemma trim_katakana: "trim_ws (map katakana_char s) = map katakana_char (trim_ws s)"
  by (simp add: trim_ws_def trim_matches_def dropWhile_map comp_def rev_map)

lemma trim_trim: "trim_ws (trim_ws s) = trim_ws s"
  by (rule trim_ws_parts [of s]) (use trim_ws_exact [of "[]" "[]" "trim_ws s"] in simp)

lemma katakana_twice: "katakana_char (katakana_char c) = katakana_char c"
  by (simp add: katakana_char_def)

lemma compose_twice: "compose_kana (compose_kana s) = compose_kana s"
proof (induction s rule: compose_kana.induct)
  case (1 b m r)
  show ?case
  proof (cases "compose_pair b m")
    case (Some c)
    then show ?thesis using 1 compose_pair_facts(9) [OF Some] by (simp add: compose_Cons)
  next
    case None
    show ?thesis
    proof (cases "is_voicing_mark m")
      case True
      have "compose_kana (m # r) = m # compose_kana r" by (rule compose_Cons [OF mark_not_base [OF True]])
      then show ?thesis using 1(1) [OF None] None by simp
    next
      case False
      then show ?thesis
        using 1(1) [OF None] None compose_hd_mark [of "m # r"] compose_Cons_nonmark [of "compose_kana (m # r)" b] by simp
    qed
  qed
qed simp_all

text \<open>C24: the lookup key does not depend on how a reading is spelled: hiragana or katakana, composed or
  decomposed marks, with or without surrounding blanks give the same key, and a key is its own key.\<close>

theorem key_independent_of_spelling:
  "normalize_key (hiragana_to_katakana s) = normalize_key s
   \<and> normalize_key (compose_kana s) = normalize_key s
   \<and> normalize_key (trim_ws s) = normalize_key s
   \<and> normalize_key (normalize_key s) = normalize_key s"
proof -
  have k: "katakana_char \<circ> katakana_char = katakana_char" by (rule ext) (simp add: katakana_twice)
  have fixed: "map katakana_char (compose_kana (map katakana_char x)) = compose_kana (map katakana_char x)" for x
  proof -
    have "katakana_char c = c" if "c \<in> set (compose_kana y)" "\<forall>c\<in>set y. katakana_char c = c" for c y
      using that
    proof (induction y rule: compose_kana.induct)
      case (1 b m r)
      then show ?case using compose_pair_facts(8) [of b m] by (auto split: option.splits)
    qed auto
    from this [of _ "map katakana_char x"] show ?thesis by (auto simp: katakana_twice intro: map_idI)
  qed
  show ?thesis
    by (simp add: normalize_key_def hiragana_to_katakana_def trim_katakana trim_compose trim_trim k compose_absorbs
        fixed compose_twice)
qed

section \<open>Loading\<close>

lemma dedup_loop_facts:
  "dedup_loop seen es = (out, n) \<Longrightarrow>
     distinct (map entry_key out) \<and> set (map entry_key out) \<inter> seen = {}
     \<and> seen \<union> set (map entry_key out) = seen \<union> set (map entry_key es)
     \<and> set out \<subseteq> set es \<and> length out + n = length es"
proof (induction seen es arbitrary: out n rule: dedup_loop.induct)
  case (2 seen e es)
  show ?case
  proof (cases "entry_key e \<in> seen")
    case True
    obtain out' n' where r: "dedup_loop seen es = (out', n')" by (rule prod.exhaust)
    from "2.IH"(1) [OF True r] show ?thesis using "2.prems" True r by (auto simp: Let_def)
  next
    case False
    obtain out' n' where r: "dedup_loop (insert (entry_key e) seen) es = (out', n')" by (rule prod.exhaust)
    have out: "out = e # out'" "n = n'" using "2.prems" False r by auto
    note IH = "2.IH"(2) [OF False r]
    have "entry_key e \<notin> set (map entry_key out')" using IH by blast
    moreover have "set (map entry_key out) \<inter> seen = {}" using IH False out by auto
    moreover have "seen \<union> set (map entry_key out) = seen \<union> set (map entry_key (e # es))" using IH out by auto
    ultimately show ?thesis using IH out by auto
  qed
qed simp

lemma free_number_free: "free_number taken n = Some k \<Longrightarrow> \<not> taken k \<and> n \<le> k"
  by (induction taken n rule: free_number.induct) (auto split: if_splits simp del: free_number.simps simp: free_number.simps [of _ n for n])

text \<open>C23: a load never loses a dictionary: it reports an error and leaves the file alone, or it gives a
  dictionary without duplicate keys in which every key of the file is present, or it gives an empty one
  because there was nothing in the file, or because the unreadable file is kept under a name that was free.\<close>

theorem load_never_loses_file:
  assumes "load_from_with json entries_of taken rename_ok copy_ok outcome = Some (r, fate)"
  shows "(\<exists>e. r = Inl e \<and> fate = FileKept)
    \<or> (\<exists>d. r = Inr d \<and> distinct (map entry_key (ld_entries d))
        \<and> (fate = FileKept \<and> ld_corrupt d = CorruptNone
             \<and> (\<exists>bytes t es. outcome = ReadBytes bytes \<and> decode_bytes json bytes = Some t \<and> entries_of t = Some es
                 \<and> entry_key ` set (ld_entries d) = entry_key ` set es
                 \<and> length (ld_entries d) + ld_deduped d = length es)
           \<or> ld_entries d = [] \<and> fate = FileKept \<and> ld_corrupt d = CorruptNone
             \<and> (outcome = ReadNotFound \<or> outcome = ReadBytes []
                \<or> (\<exists>bytes t. outcome = ReadBytes bytes \<and> decode_bytes json bytes = Some t
                    \<and> trim_matches is_white_space t = []))
           \<or> ld_entries d = [] \<and> ld_corrupt d = CorruptQuarantined
             \<and> (\<exists>n. \<not> taken n \<and> (fate = FileMoved n \<and> rename_ok \<or> fate = FileCopied n \<and> copy_ok))))"
proof -
  have q: "(\<exists>e. r = Inl e \<and> fate = FileKept) \<or> (\<exists>d. r = Inr d \<and> ld_entries d = [] \<and> ld_corrupt d = CorruptQuarantined
      \<and> (\<exists>n. \<not> taken n \<and> (fate = FileMoved n \<and> rename_ok \<or> fate = FileCopied n \<and> copy_ok)))"
    if "dict_quarantine taken rename_ok copy_ok = Some (r, fate)"
    using that free_number_free [of taken 0]
    by (auto simp: dict_quarantine_def empty_loaded_def simp del: free_number.simps split: if_splits)
  show ?thesis
  proof (cases outcome)
    case (ReadBytes bytes)
    show ?thesis
    proof (cases "bytes = []")
      case False
      show ?thesis
      proof (cases "decode_bytes json bytes")
        case None
        then show ?thesis using q assms ReadBytes False by (auto simp: load_from_with_def)
      next
        case (Some t)
        show ?thesis
        proof (cases "trim_matches is_white_space t = []")
          case True
          then show ?thesis using assms ReadBytes False Some by (auto simp: load_from_with_def empty_loaded_def)
        next
          case nb: False
          show ?thesis
          proof (cases "entries_of t")
            case None
            then show ?thesis using q assms ReadBytes False Some nb by (auto simp: load_from_with_def)
          next
            case es: (Some es)
            obtain out n where d: "dedup_entries es = (out, n)" by (rule prod.exhaust)
            have f: "distinct (map entry_key out)" "entry_key ` set out = entry_key ` set es" "length out + n = length es"
              using dedup_loop_facts [of "{}" es out n] d by (auto simp: dedup_entries_def)
            have "r = Inr \<lparr>ld_entries = out, ld_deduped = n, ld_corrupt = CorruptNone\<rparr>" "fate = FileKept"
              using assms ReadBytes False Some nb es d by (auto simp: load_from_with_def)
            then show ?thesis using f ReadBytes Some es by auto
          qed
        qed
      qed
    qed (use assms ReadBytes in \<open>auto simp: load_from_with_def empty_loaded_def\<close>)
  qed (use assms in \<open>auto simp: load_from_with_def empty_loaded_def\<close>)
qed

lemma load_never_loses_file_witness:
  "load_from_with (\<lambda>_. None) (\<lambda>_. None) (\<lambda>n. n = 0) True True (ReadBytes [0xff])
     = Some (Inr (empty_loaded\<lparr>ld_corrupt := CorruptQuarantined\<rparr>), FileMoved 1)"
  (is "?call = Some (?r, ?f)")
proof -
  have "free_number (\<lambda>n. n = 0) 0 = Some 1"
    by (simp add: free_number.simps [of _ 0] free_number.simps [of _ 1] free_number.simps [of _ "Suc 0"] u32_max_def)
  then have c: "?call = Some (?r, ?f)"
    by (simp add: load_from_with_def dict_quarantine_def decode_bytes_def sniff_encoding_def collect_strict_def
        utf8_step_def utf8_lead_def octet_at_def decode_utf16_strict_def utf16_units_def List.map_filter_def
        del: free_number.simps)
  show ?thesis using c load_never_loses_file [OF c] by simp
qed

section \<open>Importing\<close>

lemma merge_rows:
  "foldl merge_row s rows = s' \<Longrightarrow> ms_seen s = entry_key ` set (ms_existing s) \<Longrightarrow>
   \<exists>new. ms_existing s' = ms_existing s @ new \<and> set new \<subseteq> set rows
     \<and> ms_seen s' = entry_key ` set (ms_existing s')
     \<and> (distinct (map entry_key (ms_existing s)) \<longrightarrow> distinct (map entry_key (ms_existing s')))
     \<and> mr_added (ms_report s') = mr_added (ms_report s) + length new
     \<and> mr_added (ms_report s') + mr_skipped_dup (ms_report s') + mr_skipped_invalid (ms_report s')
       = mr_added (ms_report s) + mr_skipped_dup (ms_report s) + mr_skipped_invalid (ms_report s) + length rows
     \<and> (\<forall>e\<in>set new. validate_entry (ud_ruby e) (ud_word e) = Inr ())
     \<and> (\<forall>e\<in>set rows. validate_entry (ud_ruby e) (ud_word e) = Inr () \<longrightarrow> entry_key e \<in> ms_seen s')"
proof (induction rows arbitrary: s)
  case (Cons e rows)
  let ?s = "merge_row s e"
  have key: "entry_key ` set (ms_existing s) \<subseteq> ms_seen ?s" "ms_seen ?s = entry_key ` set (ms_existing ?s)"
    using Cons.prems(2) by (auto simp: merge_row_def Let_def split: sum.split)
  from Cons.IH [OF _ key(2)] Cons.prems(1) obtain new where
    n: "ms_existing s' = ms_existing ?s @ new" "set new \<subseteq> set rows" "ms_seen s' = entry_key ` set (ms_existing s')"
      "distinct (map entry_key (ms_existing ?s)) \<longrightarrow> distinct (map entry_key (ms_existing s'))"
      "mr_added (ms_report s') = mr_added (ms_report ?s) + length new"
      "mr_added (ms_report s') + mr_skipped_dup (ms_report s') + mr_skipped_invalid (ms_report s')
       = mr_added (ms_report ?s) + mr_skipped_dup (ms_report ?s) + mr_skipped_invalid (ms_report ?s) + length rows"
      "\<forall>e\<in>set new. validate_entry (ud_ruby e) (ud_word e) = Inr ()"
      "\<forall>e\<in>set rows. validate_entry (ud_ruby e) (ud_word e) = Inr () \<longrightarrow> entry_key e \<in> ms_seen s'"
    by auto
  show ?case
  proof (cases "validate_entry (ud_ruby e) (ud_word e)")
    case (Inl err)
    then show ?thesis using n by (intro exI [of _ new]) (auto simp: merge_row_def Let_def)
  next
    case (Inr u)
    show ?thesis
    proof (cases "entry_key e \<in> ms_seen s")
      case True
      then have "?s = s\<lparr>ms_report := (ms_report s)\<lparr>mr_skipped_dup := mr_skipped_dup (ms_report s) + 1\<rparr>\<rparr>"
        using Inr by (simp add: merge_row_def Let_def)
      then show ?thesis using n True Cons.prems(2) by (intro exI [of _ new]) auto
    next
      case False
      then have "?s = s\<lparr>ms_existing := ms_existing s @ [e], ms_seen := insert (entry_key e) (ms_seen s),
          ms_report := (ms_report s)\<lparr>mr_added := mr_added (ms_report s) + 1\<rparr>\<rparr>"
        using Inr by (simp add: merge_row_def Let_def)
      then show ?thesis using n False Inr Cons.prems(2) by (intro exI [of _ "e # new"]) auto
    qed
  qed
qed auto

text \<open>An import only appends: what was there stays first and untouched, only valid rows are added, no
  key appears twice, every valid row's key is in the result, and each row is counted exactly once as added,
  duplicate or invalid.\<close>

theorem import_appends_new_keys:
  assumes "distinct (map entry_key existing)"
  shows "\<exists>new report. merge_imported existing rows had_replacement = (existing @ new, report)
    \<and> distinct (map entry_key (existing @ new)) \<and> set new \<subseteq> set rows
    \<and> (\<forall>e\<in>set new. validate_entry (ud_ruby e) (ud_word e) = Inr ())
    \<and> (\<forall>e\<in>set rows. validate_entry (ud_ruby e) (ud_word e) = Inr () \<longrightarrow> entry_key e \<in> entry_key ` set (existing @ new))
    \<and> mr_added report = length new
    \<and> mr_added report + mr_skipped_dup report + mr_skipped_invalid report = length rows"
proof -
  let ?s = "\<lparr>ms_existing = existing, ms_seen = set (map entry_key existing),
    ms_report = \<lparr>mr_added = 0, mr_skipped_dup = 0, mr_skipped_invalid = 0, mr_encoding_hint = False\<rparr>\<rparr>"
  from merge_rows [of ?s rows, OF refl] obtain new where
    "ms_existing (foldl merge_row ?s rows) = existing @ new" "set new \<subseteq> set rows"
    "ms_seen (foldl merge_row ?s rows) = entry_key ` set (existing @ new)"
    "distinct (map entry_key (existing @ new))"
    "mr_added (ms_report (foldl merge_row ?s rows)) = length new"
    "mr_added (ms_report (foldl merge_row ?s rows)) + mr_skipped_dup (ms_report (foldl merge_row ?s rows))
      + mr_skipped_invalid (ms_report (foldl merge_row ?s rows)) = length rows"
    "\<forall>e\<in>set new. validate_entry (ud_ruby e) (ud_word e) = Inr ()"
    "\<forall>e\<in>set rows. validate_entry (ud_ruby e) (ud_word e) = Inr () \<longrightarrow> entry_key e \<in> ms_seen (foldl merge_row ?s rows)"
    using assms by auto
  then show ?thesis by (auto simp: merge_imported_def Let_def)
qed

lemma import_appends_new_keys_witness:
  "merge_imported [] [\<lparr>ud_ruby = [0x3042], ud_word = [0x4e9c], ud_pos = None\<rparr>] False
     = ([\<lparr>ud_ruby = [0x3042], ud_word = [0x4e9c], ud_pos = None\<rparr>],
        \<lparr>mr_added = 1, mr_skipped_dup = 0, mr_skipped_invalid = 0, mr_encoding_hint = False\<rparr>)"
  using import_appends_new_keys [of "[]" "[\<lparr>ud_ruby = [0x3042], ud_word = [0x4e9c], ud_pos = None\<rparr>]" False]
  by (simp add: merge_imported_def merge_row_def Let_def validate_entry_def check_generic_def trim_ws_def
      trim_matches_def is_trim_ws_char_def is_valid_ruby_char_def)

end
