(* ===== verification/Dictionary_Roundtrip.thy ===== *)
theory Dictionary_Roundtrip
  imports User_Dictionary_Spec
begin

text \<open>
  What the dictionary exports it imports again. The file holds the text as UTF-8 without a mark at its
  front, so the choice of the encoding is part of the statement.
\<close>

section \<open>UTF-8\<close>

text \<open>The bytes of a string, as the standard library stores it.\<close>

definition utf8_bytes :: "uchar \<Rightarrow> octet list" where
  "utf8_bytes c =
     (if c < 0x80 then [c]
      else if c < 0x800 then [0xc0 + c div 64, 0x80 + c mod 64]
      else if c < 0x10000 then [0xe0 + c div 4096, 0x80 + c div 64 mod 64, 0x80 + c mod 64]
      else [0xf0 + c div 262144, 0x80 + c div 4096 mod 64, 0x80 + c div 64 mod 64, 0x80 + c mod 64])"

definition utf8_encode :: "ustring \<Rightarrow> octet list" where
  "utf8_encode s = concat (map utf8_bytes s)"

definition is_scalar :: "uchar \<Rightarrow> bool" where
  "is_scalar c \<longleftrightarrow> c \<le> 0x10ffff \<and> \<not> (0xd800 \<le> c \<and> c \<le> 0xdfff)"

lemma octet_at_Cons [simp]: "octet_at (b # bs) 0 = b" "octet_at (b # bs) (Suc i) = octet_at bs i"
  "octet_at (b # bs) 1 = octet_at bs 0" "octet_at (b # bs) 2 = octet_at bs 1" "octet_at (b # bs) 3 = octet_at bs 2"
  by (simp_all add: octet_at_def numeral_2_eq_2 numeral_3_eq_3)

lemma split64: "\<exists>q r. (c::nat) = q * 64 + r \<and> r < 64 \<and> c div 64 = q \<and> c mod 64 = r"
  by (intro exI [of _ "c div 64"] exI [of _ "c mod 64"]) simp

lemma utf8_step_two:
  assumes "0x80 \<le> c" "c < 0x800" shows "utf8_step (utf8_bytes c @ rest) = (Some c, 2)"
proof -
  obtain q r where c: "c = q * 64 + r" "r < 64" "c div 64 = q" "c mod 64 = r" using split64 by blast
  have "2 \<le> q" "q < 32" using assms c by simp_all
  then show ?thesis using assms c(2-4) c(1)
    by (simp add: utf8_step_def utf8_bytes_def utf8_lead_def Let_def)
qed

lemma utf8_step_three:
  assumes "0x800 \<le> c" "c < 0x10000" "is_scalar c" shows "utf8_step (utf8_bytes c @ rest) = (Some c, 3)"
proof -
  obtain q r where c: "c = q * 64 + r" "r < 64" "c div 64 = q" "c mod 64 = r" using split64 by blast
  obtain p s where q: "q = p * 64 + s" "s < 64" "q div 64 = p" "q mod 64 = s" using split64 by blast
  have d: "c div 4096 = p" using c(3) q(3) by (simp flip: div_mult2_eq)
  have b: "p < 16" "p = 0 \<longrightarrow> 32 \<le> s" "p = 13 \<longrightarrow> s < 32"
    using assms c q by (auto simp: is_scalar_def)
  have bytes: "utf8_bytes c = [0xe0 + p, 0x80 + s, 0x80 + r]"
    using assms(1,2) c(4) q(4) d c(3) by (simp add: utf8_bytes_def)
  obtain lo hi where lead: "utf8_lead (0xe0 + p) = Some (3, lo, hi)" "lo \<le> 0x80 + s" "0x80 + s \<le> hi"
  proof -
    consider "p = 0" | "p = 13" | "1 \<le> p" "p \<le> 15" "p \<noteq> 13" using b(1) by linarith
    then show ?thesis using b(2,3) q(2) that by cases (simp_all add: utf8_lead_def)
  qed
  have "continues (0x80 + r)" using c(2) by (simp add: continues_def)
  moreover have "p * 4096 + s * 64 + r = c" using c(1) q(1) by simp
  ultimately show ?thesis using lead by (simp add: utf8_step_def bytes Let_def)
qed

lemma utf8_step_four:
  assumes "0x10000 \<le> c" "is_scalar c" shows "utf8_step (utf8_bytes c @ rest) = (Some c, 4)"
proof -
  obtain q r where c: "c = q * 64 + r" "r < 64" "c div 64 = q" "c mod 64 = r" using split64 by blast
  obtain p s where q: "q = p * 64 + s" "s < 64" "q div 64 = p" "q mod 64 = s" using split64 by blast
  obtain o' t where p: "p = o' * 64 + t" "t < 64" "p div 64 = o'" "p mod 64 = t" using split64 by blast
  have d: "c div 4096 = p" using c(3) q(3) by (simp flip: div_mult2_eq)
  have e: "c div 262144 = o'" using d p(3) by (simp flip: div_mult2_eq)
  have b: "o' \<le> 4" "o' = 0 \<longrightarrow> 16 \<le> t" "o' = 4 \<longrightarrow> t < 16"
    using assms c q p by (auto simp: is_scalar_def)
  have bytes: "utf8_bytes c = [0xf0 + o', 0x80 + t, 0x80 + s, 0x80 + r]"
    using assms(1) c(4) q(4) p(4) d e c(3) by (simp add: utf8_bytes_def)
  obtain lo hi where lead: "utf8_lead (0xf0 + o') = Some (4, lo, hi)" "lo \<le> 0x80 + t" "0x80 + t \<le> hi"
  proof -
    consider "o' = 0" | "1 \<le> o'" "o' \<le> 3" | "o' = 4" using b(1) by linarith
    then show ?thesis using b(2,3) p(2) that by cases (simp_all add: utf8_lead_def)
  qed
  have "continues (0x80 + s)" "continues (0x80 + r)" using c(2) q(2) by (simp_all add: continues_def)
  moreover have "o' * 262144 + t * 4096 + s * 64 + r = c" using c(1) q(1) p(1) by simp
  ultimately show ?thesis using lead by (simp add: utf8_step_def bytes Let_def)
qed

lemma utf8_step_bytes: "is_scalar c \<Longrightarrow> utf8_step (utf8_bytes c @ rest) = (Some c, length (utf8_bytes c))"
  using utf8_step_two [of c rest] utf8_step_three [of c rest] utf8_step_four [of c rest]
  by (cases "c < 0x80"; cases "c < 0x800"; cases "c < 0x10000")
    (simp_all add: utf8_bytes_def, simp_all add: utf8_step_def utf8_lead_def Let_def)

lemma utf8_bytes_Cons: "utf8_bytes c \<noteq> []" by (simp add: utf8_bytes_def)

lemma utf8_chars_bytes:
  assumes "is_scalar c" shows "utf8_chars (utf8_bytes c @ rest) = Some c # utf8_chars rest"
proof -
  obtain b bs where b: "utf8_bytes c @ rest = b # bs" using utf8_bytes_Cons by (cases "utf8_bytes c") auto
  have "utf8_chars (b # bs) = Some c # utf8_chars (drop (length (utf8_bytes c)) (b # bs))"
    using utf8_step_bytes [OF assms, of rest] b by (simp only: utf8_chars.simps fst_conv snd_conv)
  then show ?thesis by (simp flip: b)
qed

lemma utf8_chars_encode: "list_all is_scalar s \<Longrightarrow> utf8_chars (utf8_encode s) = map Some s"
proof (induction s)
  case (Cons c s)
  have "utf8_encode (c # s) = utf8_bytes c @ utf8_encode s" by (simp add: utf8_encode_def)
  then show ?case using Cons utf8_chars_bytes by simp
qed (simp add: utf8_encode_def)

text \<open>Text without zero characters has no zero bytes, and no byte above \<open>0xf4\<close>.\<close>

lemma utf8_bytes_range:
  assumes "is_scalar c" "c \<noteq> 0" "b \<in> set (utf8_bytes c)" shows "0 < b \<and> b \<le> 0xf4"
proof -
  have "c div 262144 \<le> 4" "c div 4096 < 16 \<or> 0x10000 \<le> c" "c div 64 < 32 \<or> 0x800 \<le> c"
    using assms(1) by (auto simp: is_scalar_def)
  moreover have "c mod 64 < 64" "c div 64 mod 64 < 64" "c div 4096 mod 64 < 64" by simp_all
  ultimately show ?thesis using assms(2,3)
    by (auto simp: utf8_bytes_def split: if_splits)
qed

section \<open>The encoding is recognised\<close>

lemma utf16_high:
  assumes "\<forall>u\<in>set us. 256 \<le> u" "Some c \<in> set (utf16_chars us)" shows "256 \<le> c"
  using assms by (induction us rule: utf16_chars.induct) (auto split: if_splits)

lemma pair_units_high:
  "\<forall>b\<in>set bs. 0 < b \<Longrightarrow> \<forall>u\<in>set (pair_units le bs). 256 \<le> u"
  by (induction le bs rule: pair_units.induct) (auto intro: trans_le_add2)

lemma utf16_text_high:
  assumes "\<forall>b\<in>set bytes. 0 < b" "decode_utf16_strict bytes le = Some t" "c \<in> set t"
  shows "256 \<le> c"
proof -
  have "t = map the (utf16_chars (pair_units le bytes))" "None \<notin> set (utf16_chars (pair_units le bytes))"
    using assms(2) by (auto simp: decode_utf16_strict_def utf16_units_def collect_strict_def split: if_splits)
  then have "Some c \<in> set (utf16_chars (pair_units le bytes))" using assms(3) by (auto simp: image_iff) (metis option.collapse)
  then show ?thesis by (rule utf16_high [OF pair_units_high [OF assms(1)]])
qed

text \<open>What the parser of JSON promises: an array or an object is written with its bracket.\<close>

definition json_brackets :: "(ustring \<Rightarrow> json_value option) \<Rightarrow> bool" where
  "json_brackets json \<longleftrightarrow>
     (\<forall>t vs. json t = Some (JArray vs) \<longrightarrow> 0x5b \<in> set t) \<and> (\<forall>t fs. json t = Some (JObject fs) \<longrightarrow> 0x7b \<in> set t)"

lemma set_trim: "set (trim_matches p s) \<subseteq> set s"
  by (auto simp: trim_matches_def dest!: set_dropWhileD)

lemma set_trim_end: "set (trim_end_matches p s) \<subseteq> set s"
  by (auto simp: trim_end_matches_def dest!: set_dropWhileD)

lemma in_set_join_with: "p \<in> set ps \<Longrightarrow> c \<in> set p \<Longrightarrow> c \<in> set (join_with d ps)"
  by (induction d ps rule: join_with.induct) auto

lemma split_on_chars: "p \<in> set (split_on d s) \<Longrightarrow> c \<in> set p \<Longrightarrow> c \<in> set s"
  by (metis join_split_on in_set_join_with)

lemma str_lines_chars: "p \<in> set (str_lines s) \<Longrightarrow> c \<in> set p \<Longrightarrow> c \<in> set s"
  by (auto simp: str_lines_def Let_def without_cr_def strip_suffix_Some split: if_splits option.splits
      dest!: in_set_butlastD intro: split_on_chars [OF last_in_set [OF split_on_not_Nil]] split_on_chars)

lemma high_score:
  assumes "json_brackets json" "\<forall>c\<in>set t. 256 \<le> c"
  shows "dictionary_structure_score json t = 0"
proof -
  let ?d = "trim_end_matches (\<lambda>c. c = 0) t"
  have d: "\<forall>c\<in>set ?d. 256 \<le> c" using assms(2) set_trim_end by blast
  have b: "x \<notin> set (trim_matches is_white_space ?d)" if "x < 256" for x
    using d set_trim that by fastforce
  have "json (trim_matches is_white_space ?d) \<noteq> Some (JArray vs)" "json (trim_matches is_white_space ?d) \<noteq> Some (JObject fs)" for vs fs
    using assms(1) b [of "0x5b"] b [of "0x7b"] by (auto simp: json_brackets_def)
  moreover have "\<not> has_tsv_columns ?d"
  proof
    assume "has_tsv_columns ?d"
    then obtain line where l: "line \<in> set (str_lines ?d)" "2 \<le> length (split_on 0x09 line)"
      by (auto simp: has_tsv_columns_def)
    then have "0x09 \<in> set line" using split_on_fresh [of "0x09" line] by (cases "0x09 \<in> set line") auto
    then have "0x09 \<in> set ?d" using str_lines_chars [OF l(1)] by blast
    then show False using d by fastforce
  qed
  moreover have "filter is_invalid_internal_c0 ?d = []"
    using d by (force simp: filter_empty_conv is_invalid_internal_c0_def)
  ultimately show ?thesis by (auto simp: dictionary_structure_score_def Let_def split: option.split json_value.split)
qed

lemma take_2_bytes: "take 2 bs = [a, b] \<Longrightarrow> a \<in> set bs"
  by (metis in_set_takeD list.set_intros(1))

lemma sniff_utf8:
  assumes j: "json_brackets json" and s: "list_all is_scalar s" "0 \<notin> set s"
  shows "sniff_encoding json (utf8_encode s) = EncUtf8"
proof -
  let ?b = "utf8_encode s"
  have r: "\<forall>b\<in>set ?b. 0 < b \<and> b \<le> 0xf4"
    using s utf8_bytes_range by (fastforce simp: utf8_encode_def list_all_iff)
  have "take 2 ?b \<noteq> [0xff, 0xfe]" "take 2 ?b \<noteq> [0xfe, 0xff]"
    using r take_2_bytes [of ?b "0xff" "0xfe"] take_2_bytes [of ?b "0xfe" "0xff"] by fastforce+
  moreover have u: "collect_strict (utf8_chars ?b) = Some s"
    using utf8_chars_encode [OF s(1)] by (auto simp: collect_strict_def comp_def)
  moreover have z: "dictionary_structure_score json t = 0" if "decode_utf16_strict ?b le = Some t" for t le
    using utf16_text_high [OF _ that] r by (intro high_score [OF j]) blast
  ultimately show ?thesis
    by (cases "decode_utf16_strict ?b True"; cases "decode_utf16_strict ?b False";
        cases "0 < dictionary_structure_score json s")
      (simp_all add: sniff_encoding_def Let_def List.map_filter_def z)
qed

section \<open>Rows and lines\<close>

definition export_columns :: "user_dict_entry \<Rightarrow> ustring" where
  "export_columns e = ud_ruby e @ [0x09] @ ud_word e @ [0x09] @ canonical_pos (ud_pos e)"

lemma export_row_columns: "export_row e = export_columns e @ [0x0d, 0x0a]"
  by (simp add: export_row_def export_columns_def)

lemma clean_mem: "\<not> has_control_char s \<Longrightarrow> c \<le> 0x1f \<Longrightarrow> c \<notin> set s"
  by (auto simp: has_control_char_def)

lemma exported_clean: "row_exported e \<Longrightarrow> c \<le> 0x1f \<Longrightarrow> c \<noteq> 0x09 \<Longrightarrow> c \<notin> set (export_columns e)"
  by (auto simp: row_exported_def export_columns_def dest: clean_mem)

lemma split_rows:
  "\<forall>r\<in>set rs. 0x0a \<notin> set (f r) \<Longrightarrow>
     split_on 0x0a (concat (map (\<lambda>r. f r @ [0x0d, 0x0a]) rs)) = map (\<lambda>r. f r @ [0x0d]) rs @ [[]]"
proof (induction rs)
  case (Cons r rs)
  show ?case using split_on_append [of "0x0a" "f r @ [0x0d]"] Cons by simp
qed simp

lemma without_cr_row: "without_cr (s @ [0x0d]) = s"
  by (simp add: without_cr_def strip_suffix_Some [THEN iffD2])

lemma export_lines:
  assumes "\<forall>e\<in>set es. row_exported e"
  shows "str_lines (concat (map export_row es)) = map export_columns es"
proof -
  have rows: "map export_row es = map (\<lambda>e. export_columns e @ [0x0d, 0x0a]) es" by (simp add: export_row_columns)
  have "split_on 0x0a (concat (map export_row es)) = map (\<lambda>e. export_columns e @ [0x0d]) es @ [[]]"
    using split_rows [of es export_columns] exported_clean [of _ "0x0a"] assms
    unfolding rows by simp
  then show ?thesis by (simp add: str_lines_def without_cr_row comp_def)
qed

text \<open>The front of a valid reading is no comment sign and no byte order mark.\<close>

lemma valid_front:
  assumes "validate_entry ruby word = Inr u"
  shows "ruby \<noteq> [] \<and> hd ruby \<notin> {0x21, 0x23, 0xfeff}"
proof -
  obtain pre post where p: "ruby = pre @ trim_ws ruby @ post" "list_all is_trim_ws_char pre"
    "list_all is_trim_ws_char post" "ws_trimmed (trim_ws ruby)" by (rule trim_ws_parts)
  have v: "compose_kana (trim_ws ruby) \<noteq> []" "list_all is_valid_ruby_char (compose_kana (trim_ws ruby))"
    using assms by (auto simp: validate_entry_def check_generic_def Let_def split: if_splits sum.splits)
  then obtain c s where t: "trim_ws ruby = c # s" by (cases "trim_ws ruby") auto
  have c: "c \<notin> {0x21, 0x23, 0xfeff}"
  proof (cases "\<exists>m s' x. s = m # s' \<and> compose_pair c m = Some x")
    case True
    then show ?thesis using compose_pair_facts(2,3) by fastforce
  next
    case False
    then have "hd (compose_kana (c # s)) = c" by (cases s) (auto split: option.split)
    then show ?thesis using v t by (cases "compose_kana (trim_ws ruby)") (auto simp: is_valid_ruby_char_def)
  qed
  show ?thesis
  proof (cases pre)
    case Nil
    then show ?thesis using p(1) t c by auto
  next
    case (Cons w ws)
    define rest where "rest = ws @ trim_ws ruby @ post"
    have "ruby = w # rest" using p(1) Cons by (simp add: rest_def)
    then have "hd ruby = w" "ruby \<noteq> []" by simp_all
    then show ?thesis using p(2) Cons by (auto simp: is_trim_ws_char_def)
  qed
qed

lemma parse_export_columns:
  assumes "validate_entry (ud_ruby e) (ud_word e) = Inr u" "row_exported e"
  shows "parse_row (export_columns e) = Some (e\<lparr>ud_pos := Some (canonical_pos (ud_pos e))\<rparr>)"
proof -
  obtain c s where r: "ud_ruby e = c # s" "c \<noteq> 0x21" "c \<noteq> 0x23"
    using valid_front [OF assms(1)] by (cases "ud_ruby e") auto
  have n: "0x09 \<notin> set (ud_ruby e)" "0x09 \<notin> set (ud_word e)" "0x09 \<notin> set (canonical_pos (ud_pos e))"
    using assms(2) clean_mem [where c = "0x09"] by (simp_all add: row_exported_def)
  have "split_on 0x09 (export_columns e) = [ud_ruby e, ud_word e, canonical_pos (ud_pos e)]"
    using split_on_append [OF n(1)] split_on_append [OF n(2)] split_on_fresh [OF n(3)]
    by (simp add: export_columns_def)
  moreover have "\<not> (export_columns e = [] \<or> starts_with (export_columns e) [0x21] \<or> starts_with (export_columns e) [0x23])"
    using r by (auto simp: export_columns_def starts_with_iff)
  ultimately show ?thesis by (simp add: parse_row_def get_def)
qed

text \<open>What an entry is after a round trip: its part of speech is the canonical one.\<close>

definition with_canonical_pos :: "user_dict_entry \<Rightarrow> user_dict_entry" where
  "with_canonical_pos e = e\<lparr>ud_pos := Some (canonical_pos (ud_pos e))\<rparr>"

lemma map_filter_all: "\<forall>x\<in>set xs. f (g x) = Some (h x) \<Longrightarrow> List.map_filter f (map g xs) = map h xs"
  by (induction xs) (auto simp: List.map_filter_def)

lemma canonical_pos_cases:
  "canonical_pos p \<in> {pos_noun, pos_person, pos_family, pos_given, pos_organization, pos_place, pos_proper, pos_number}"
  by (auto simp: canonical_pos_def split: option.split)

lemma pos_scalar: "list_all (\<lambda>c. is_scalar c \<and> 0x1f < c) (canonical_pos p)"
  using canonical_pos_cases [of p] by (auto simp: pos_defs is_scalar_def)

lemma canonical_pos_twice: "canonical_pos (Some (canonical_pos p)) = canonical_pos p"
proof -
  define q where "q = canonical_pos p"
  have "q \<in> {pos_noun, pos_person, pos_family, pos_given, pos_organization, pos_place, pos_proper, pos_number}"
    unfolding q_def by (rule canonical_pos_cases)
  then have "canonical_pos (Some q) = q"
    by (elim insertE emptyE) (simp_all add: canonical_pos_def pos_defs starts_with_def)
  then show ?thesis by (simp add: q_def)
qed

definition entries_valid :: "user_dict_entry list \<Rightarrow> bool" where
  "entries_valid es \<longleftrightarrow> (\<forall>e\<in>set es. validate_entry (ud_ruby e) (ud_word e) = Inr ()
     \<and> list_all is_scalar (ud_ruby e) \<and> list_all is_scalar (ud_word e))"

lemma exported_text:
  assumes "entries_valid es" "\<forall>e\<in>set es. row_exported e"
  shows "list_all is_scalar (concat (map export_row es))" "0 \<notin> set (concat (map export_row es))"
    "strip_leading_bom (concat (map export_row es)) = concat (map export_row es)"
proof -
  show "list_all is_scalar (concat (map export_row es))"
    using assms(1) pos_scalar by (fastforce simp: entries_valid_def export_row_def list_all_iff is_scalar_def)
  show "0 \<notin> set (concat (map export_row es))"
    using assms(2) exported_clean [of _ 0] by (auto simp: export_row_columns)
  show "strip_leading_bom (concat (map export_row es)) = concat (map export_row es)"
  proof (cases es)
    case (Cons e rest)
    then have "ud_ruby e \<noteq> []" "hd (ud_ruby e) \<noteq> 0xfeff"
      using assms(1) valid_front [of "ud_ruby e" "ud_word e"] by (auto simp: entries_valid_def)
    then show ?thesis using Cons
      by (cases "ud_ruby e") (auto simp: strip_leading_bom_def export_row_def strip_prefix_Some split: option.split)
  qed (auto simp: strip_leading_bom_def strip_prefix_Some split: option.split)
qed

lemma export_decodes:
  assumes "json_brackets json" "entries_valid es" "\<forall>e\<in>set es. row_exported e"
  shows "parse_tsv json (utf8_encode (concat (map export_row es))) = (map with_canonical_pos es, False)"
proof -
  let ?t = "concat (map export_row es)"
  note t = exported_text [OF assms(2,3)]
  have "decode_bytes_lossy json (utf8_encode ?t) = (?t, False)"
    using sniff_utf8 [OF assms(1) t(1,2)] utf8_chars_encode [OF t(1)] t(3)
    by (auto simp: decode_bytes_lossy_def collect_lossy_def comp_def)
  moreover have "List.map_filter parse_row (map export_columns es) = map with_canonical_pos es"
    using assms(2,3) parse_export_columns
    by (intro map_filter_all) (auto simp: entries_valid_def with_canonical_pos_def)
  ultimately show ?thesis using export_lines [OF assms(3)] by (simp add: parse_tsv_def)
qed

lemma export_order_canonical:
  "export_order (map with_canonical_pos (filter row_exported (export_order es)))
     = map with_canonical_pos (filter row_exported (export_order es))"
proof -
  let ?k = "\<lambda>e. (normalize_key (ud_ruby e), ud_word e)"
  have "sorted (map ?k (filter row_exported (export_order es)))"
    unfolding export_order_def by (rule sorted_filter) (rule sorted_sort_key)
  then have "sorted (map ?k (map with_canonical_pos (filter row_exported (export_order es))))"
    by (simp add: with_canonical_pos_def comp_def)
  then show ?thesis unfolding export_order_def by (rule sort_key_id_if_sorted)
qed

text \<open>C22: what is exported is imported again. For valid entries of Unicode text the file that the export
  writes, read back as bytes, is recognised as UTF-8 and gives, in order and without a replacement, every
  exported entry with the same reading and word and its canonical part of speech; exporting those rows
  writes the same text again, and importing them into the same dictionary adds nothing.\<close>

theorem export_imports_back:
  assumes "json_brackets json" "entries_valid es"
  shows "parse_tsv json (utf8_encode (eo_tsv (to_google_tsv es)))
      = (map with_canonical_pos (filter row_exported (export_order es)), False)
    \<and> eo_tsv (to_google_tsv (fst (parse_tsv json (utf8_encode (eo_tsv (to_google_tsv es)))))) = eo_tsv (to_google_tsv es)
    \<and> fst (merge_imported es (fst (parse_tsv json (utf8_encode (eo_tsv (to_google_tsv es))))) False) = es"
proof -
  let ?w = "filter row_exported (export_order es)"
  have w: "entries_valid ?w" "\<forall>e\<in>set ?w. row_exported e" "set ?w \<subseteq> set es"
    using assms(2) by (auto simp: entries_valid_def export_order_def)
  have p: "parse_tsv json (utf8_encode (eo_tsv (to_google_tsv es))) = (map with_canonical_pos ?w, False)"
    using export_decodes [OF assms(1) w(1,2)] by (simp add: to_google_tsv_def Let_def)
  have key: "entry_key (with_canonical_pos e) = entry_key e" for e
    by (simp add: entry_key_def with_canonical_pos_def)
  have dup: "ms_existing (foldl merge_row s (map with_canonical_pos rs)) = es"
    if "set rs \<subseteq> set es" "ms_existing s = es" "ms_seen s = entry_key ` set es" for s rs
    using that
  proof (induction rs arbitrary: s)
    case (Cons r rs)
    have "ms_existing (merge_row s (with_canonical_pos r)) = es"
      "ms_seen (merge_row s (with_canonical_pos r)) = entry_key ` set es"
      using Cons.prems by (auto simp: merge_row_def Let_def key split: sum.split)
    then show ?case using Cons by simp
  qed simp
  have same: "row_exported (with_canonical_pos e) = row_exported e" "export_row (with_canonical_pos e) = export_row e" for e
    by (simp_all add: row_exported_def export_row_def with_canonical_pos_def canonical_pos_twice)
  have "eo_tsv (to_google_tsv (map with_canonical_pos ?w)) = eo_tsv (to_google_tsv es)"
    by (simp add: to_google_tsv_def Let_def export_order_canonical filter_map same comp_def)
  then show ?thesis using p dup [OF w(3)] by (simp add: merge_imported_def Let_def)
qed

lemma export_imports_back_witness:
  "parse_tsv (\<lambda>_. None) (utf8_encode (eo_tsv (to_google_tsv [\<lparr>ud_ruby = [0x3042], ud_word = [0x4e9c], ud_pos = None\<rparr>])))
     = ([\<lparr>ud_ruby = [0x3042], ud_word = [0x4e9c], ud_pos = Some pos_noun\<rparr>], False)"
proof -
  let ?es = "[\<lparr>ud_ruby = [0x3042], ud_word = [0x4e9c], ud_pos = None\<rparr>]"
  have v: "json_brackets (\<lambda>_. None)" "entries_valid ?es"
    by (simp_all add: json_brackets_def entries_valid_def validate_entry_def check_generic_def trim_ws_def
        trim_matches_def is_trim_ws_char_def is_valid_ruby_char_def is_scalar_def)
  have "filter row_exported (export_order ?es) = ?es"
    by (simp add: export_order_def row_exported_def has_control_char_def canonical_pos_def pos_defs)
  then show ?thesis using conjunct1 [OF export_imports_back [OF v]]
    by (simp add: with_canonical_pos_def canonical_pos_def)
qed

end
