(* ===== verification/Dictionary_Commands.thy ===== *)
theory Dictionary_Commands
  imports Dictionary_Roundtrip
begin

text \<open>
  The dictionary commands of the settings program, \<open>crates/config/src/logic.rs\<close>, with the atomic save of
  \<open>crates/settings/src/lib.rs\<close> and the notice to the engine of \<open>crates/config/src/commands.rs\<close>. A command
  runs under one lock, so it is a function from the file before to the file after. The file system and the
  JSON library are parameters.
\<close>

section \<open>The file\<close>

record save_host =
  sv_mkdir :: "ustring option"
  sv_write :: "ustring option"
  sv_rename :: "nat \<Rightarrow> ustring option"

text \<open>The rename is tried four times; the last error is reported.\<close>

definition rename_retries :: nat where "rename_retries = 4"

fun rename_from :: "(nat \<Rightarrow> ustring option) \<Rightarrow> nat \<Rightarrow> nat \<Rightarrow> ustring \<Rightarrow> ustring + unit" where
  "rename_from rename attempt 0 last_err = Inl last_err"
| "rename_from rename attempt (Suc left) last_err =
     (case rename attempt of None \<Rightarrow> Inr () | Some e \<Rightarrow> rename_from rename (attempt + 1) left e)"

definition rename_with_retry :: "(nat \<Rightarrow> ustring option) \<Rightarrow> ustring + unit" where
  "rename_with_retry rename = rename_from rename 0 rename_retries []"

text \<open>The new content goes to a temporary file first, so an error leaves the file as it was.\<close>

definition save_atomic :: "save_host \<Rightarrow> octet list \<Rightarrow> read_outcome \<Rightarrow> (ustring + unit) \<times> read_outcome" where
  "save_atomic sv content file =
     (case sv_mkdir sv of
        Some e \<Rightarrow> (Inl e, file)
      | None \<Rightarrow>
          (case sv_write sv of
             Some e \<Rightarrow> (Inl e, file)
           | None \<Rightarrow>
               (case rename_with_retry (sv_rename sv) of
                  Inl e \<Rightarrow> (Inl e, file)
                | Inr _ \<Rightarrow> (Inr (), ReadBytes content))))"

record dict_host =
  dh_json :: "ustring \<Rightarrow> json_value option"
  dh_entries_of :: "ustring \<Rightarrow> user_dict_entry list option"
  dh_json_of :: "user_dict_entry list \<Rightarrow> ustring"
  dh_taken :: "nat \<Rightarrow> bool"
  dh_rename_ok :: bool
  dh_copy_ok :: bool
  dh_save :: save_host

definition save_to ::
  "dict_host \<Rightarrow> user_dict_entry list \<Rightarrow> read_outcome \<Rightarrow> (ustring + unit) \<times> read_outcome"
where
  "save_to h entries file = save_atomic (dh_save h) (utf8_encode (dh_json_of h entries)) file"

definition file_after :: "file_fate \<Rightarrow> read_outcome \<Rightarrow> read_outcome" where
  "file_after fate file = (case fate of FileMoved _ \<Rightarrow> ReadNotFound | _ \<Rightarrow> file)"

definition load_from ::
  "dict_host \<Rightarrow> read_outcome \<Rightarrow> ((dict_load_error + loaded_dict) \<times> file_fate) option"
where
  "load_from h file =
     load_from_with (dh_json h) (dh_entries_of h) (dh_taken h) (dh_rename_ok h) (dh_copy_ok h) file"

section \<open>Results\<close>

datatype engine_status = EngineApplied | EngineDeclined | EngineAbsent | EngineTimeout | EngineVersionMismatch

datatype dict_cmd_error =
  CmdNotFound | CmdDuplicate | CmdInvalid ustring | CmdUnreadable | CmdQuarantineFailed | CmdIo ustring

record dict_entry_dto =
  dto_ruby :: ustring
  dto_word :: ustring
  dto_pos :: "ustring option"
  dto_pos_display :: ustring

record list_report =
  lr_entries :: "dict_entry_dto list"
  lr_deduped :: nat
  lr_corrupt :: ustring

record import_report =
  ir_added :: nat
  ir_skipped_dup :: nat
  ir_skipped_invalid :: nat
  ir_encoding_hint :: bool
  ir_engine :: engine_status

record export_report =
  er_written :: nat
  er_skipped_control :: nat

text \<open>A command gives its result and the file after it; nothing at all when it panics.\<close>

type_synonym 'r dict_run = "((dict_cmd_error + 'r) \<times> read_outcome) option"

definition invalid_field :: "ustring \<Rightarrow> ustring" where
  "invalid_field ruby =
     (case validate_entry ruby (ascii ''x'') of Inl _ \<Rightarrow> ascii ''ruby'' | Inr _ \<Rightarrow> ascii ''word'')"

definition load_locked :: "dict_host \<Rightarrow> read_outcome \<Rightarrow> loaded_dict dict_run" where
  "load_locked h file =
     map_option (\<lambda>(r, fate).
       (case r of
          Inl LoadUnreadable \<Rightarrow> Inl CmdUnreadable
        | Inl LoadQuarantineFailed \<Rightarrow> Inl CmdQuarantineFailed
        | Inr loaded \<Rightarrow> Inr loaded, file_after fate file))
       (load_from h file)"

definition with_loaded ::
  "dict_host \<Rightarrow> read_outcome \<Rightarrow> (loaded_dict \<Rightarrow> read_outcome \<Rightarrow> (dict_cmd_error + 'r) \<times> read_outcome) \<Rightarrow> 'r dict_run"
where
  "with_loaded h file k =
     map_option (\<lambda>(r, file). case r of Inl e \<Rightarrow> (Inl e, file) | Inr loaded \<Rightarrow> k loaded file) (load_locked h file)"

text \<open>The engine is told after the save, and what it answers is part of the success.\<close>

definition save_and_send ::
  "dict_host \<Rightarrow> engine_status \<Rightarrow> user_dict_entry list \<Rightarrow> read_outcome \<Rightarrow> (dict_cmd_error + engine_status) \<times> read_outcome"
where
  "save_and_send h engine entries file =
     (case save_to h entries file of
        (Inl e, file) \<Rightarrow> (Inl (CmdIo e), file)
      | (Inr _, file) \<Rightarrow> (Inr engine, file))"

section \<open>Commands\<close>

definition dto_of :: "user_dict_entry \<Rightarrow> dict_entry_dto" where
  "dto_of e = \<lparr>dto_ruby = ud_ruby e, dto_word = ud_word e, dto_pos = ud_pos e,
     dto_pos_display = canonical_pos (ud_pos e)\<rparr>"

definition to_sorted_dtos :: "user_dict_entry list \<Rightarrow> dict_entry_dto list" where
  "to_sorted_dtos entries = map dto_of (sort_key (\<lambda>e. (normalize_key (ud_ruby e), ud_word e)) entries)"

definition dict_list_logic :: "dict_host \<Rightarrow> read_outcome \<Rightarrow> list_report dict_run" where
  "dict_list_logic h file =
     map_option (\<lambda>(r, fate).
       (case r of
          Inr loaded \<Rightarrow>
            Inr \<lparr>lr_entries = to_sorted_dtos (ld_entries loaded), lr_deduped = ld_deduped loaded,
              lr_corrupt = (case ld_corrupt loaded of CorruptNone \<Rightarrow> ascii ''none'' | CorruptQuarantined \<Rightarrow> ascii ''quarantined'')\<rparr>
        | Inl LoadUnreadable \<Rightarrow> Inl CmdUnreadable
        | Inl LoadQuarantineFailed \<Rightarrow>
            Inr \<lparr>lr_entries = [], lr_deduped = 0, lr_corrupt = ascii ''quarantine_failed''\<rparr>,
        file_after fate file))
       (load_from h file)"

definition dict_add_logic ::
  "dict_host \<Rightarrow> engine_status \<Rightarrow> ustring \<Rightarrow> ustring \<Rightarrow> ustring \<Rightarrow> read_outcome \<Rightarrow> engine_status dict_run"
where
  "dict_add_logic h engine ruby word pos file =
     (case validate_entry ruby word of
        Inl _ \<Rightarrow> Some (Inl (CmdInvalid (invalid_field ruby)), file)
      | Inr _ \<Rightarrow> with_loaded h file (\<lambda>loaded file.
          (let entry = \<lparr>ud_ruby = ruby, ud_word = word, ud_pos = Some pos\<rparr>; key = entry_key entry
           in if list_ex (\<lambda>e. entry_key e = key) (ld_entries loaded) then (Inl CmdDuplicate, file)
              else save_and_send h engine (ld_entries loaded @ [entry]) file)))"

definition old_entry :: "ustring \<Rightarrow> ustring \<Rightarrow> user_dict_entry" where
  "old_entry ruby word = \<lparr>ud_ruby = ruby, ud_word = word, ud_pos = None\<rparr>"

definition dict_update_logic ::
  "dict_host \<Rightarrow> engine_status \<Rightarrow> ustring \<Rightarrow> ustring \<Rightarrow> ustring \<Rightarrow> ustring \<Rightarrow> ustring \<Rightarrow> read_outcome
   \<Rightarrow> engine_status dict_run"
where
  "dict_update_logic h engine old_ruby old_word ruby word pos file =
     (case validate_entry ruby word of
        Inl _ \<Rightarrow> Some (Inl (CmdInvalid (invalid_field ruby)), file)
      | Inr _ \<Rightarrow> with_loaded h file (\<lambda>loaded file.
          (let entries = ld_entries loaded; old_key = entry_key (old_entry old_ruby old_word)
           in case position (\<lambda>e. entry_key e = old_key) entries of
                None \<Rightarrow> (Inl CmdNotFound, file)
              | Some idx \<Rightarrow>
                  (let new_entry = \<lparr>ud_ruby = ruby, ud_word = word, ud_pos = Some pos\<rparr>; new_key = entry_key new_entry
                   in if list_ex (\<lambda>i. i \<noteq> idx \<and> entry_key (entries ! i) = new_key) [0..<length entries]
                      then (Inl CmdDuplicate, file)
                      else save_and_send h engine (entries[idx := new_entry]) file))))"

definition dict_delete_logic ::
  "dict_host \<Rightarrow> engine_status \<Rightarrow> ustring \<Rightarrow> ustring \<Rightarrow> read_outcome \<Rightarrow> engine_status dict_run"
where
  "dict_delete_logic h engine ruby word file =
     with_loaded h file (\<lambda>loaded file.
       (let entries = ld_entries loaded; key = entry_key (old_entry ruby word)
        in case position (\<lambda>e. entry_key e = key) entries of
             None \<Rightarrow> (Inl CmdNotFound, file)
           | Some idx \<Rightarrow> save_and_send h engine (take idx entries @ drop (idx + 1) entries) file))"

definition dict_import_logic ::
  "dict_host \<Rightarrow> engine_status \<Rightarrow> octet list \<Rightarrow> read_outcome \<Rightarrow> import_report dict_run"
where
  "dict_import_logic h engine bytes file =
     (let (rows, had_replacement) = parse_tsv (dh_json h) bytes
      in with_loaded h file (\<lambda>loaded file.
           (let (entries, report) = merge_imported (ld_entries loaded) rows had_replacement
            in case save_to h entries file of
                 (Inl e, file) \<Rightarrow> (Inl (CmdIo e), file)
               | (Inr _, file) \<Rightarrow>
                   (Inr \<lparr>ir_added = mr_added report, ir_skipped_dup = mr_skipped_dup report,
                      ir_skipped_invalid = mr_skipped_invalid report, ir_encoding_hint = mr_encoding_hint report,
                      ir_engine = engine\<rparr>, file))))"

definition dict_export_logic :: "dict_host \<Rightarrow> read_outcome \<Rightarrow> (ustring \<times> export_report) dict_run" where
  "dict_export_logic h file =
     with_loaded h file (\<lambda>loaded file.
       (let out = to_google_tsv (ld_entries loaded)
        in (Inr (eo_tsv out, \<lparr>er_written = eo_written out, er_skipped_control = eo_skipped_control out\<rparr>), file)))"

section \<open>Telling the engine\<close>

datatype load_outcome =
  OutcomeLoaded | OutcomeMissing | OutcomePermissionDenied | OutcomeIoError | OutcomeNoPath | OutcomeEmpty
| OutcomeCorrupt | OutcomeCorruptQuarantineFailed | OutcomeUnsupportedVersion

definition reload_payload :: "load_outcome \<Rightarrow> bool \<Rightarrow> bool option" where
  "reload_payload outcome enabled =
     (case outcome of OutcomeLoaded \<Rightarrow> Some enabled | OutcomeMissing \<Rightarrow> Some enabled | _ \<Rightarrow> None)"

datatype pipe_connect = PipeConnected | PipeMismatch | PipeUnreachable
datatype pipe_reply = ReplyOk | ReplyError | ReplyOther | ReplyTimedOut | ReplyLost

definition send_reload_over_pipe :: "pipe_connect \<Rightarrow> (bool \<Rightarrow> pipe_reply) \<Rightarrow> bool \<Rightarrow> engine_status" where
  "send_reload_over_pipe connect request enabled =
     (case connect of
        PipeMismatch \<Rightarrow> EngineVersionMismatch
      | PipeUnreachable \<Rightarrow> EngineAbsent
      | PipeConnected \<Rightarrow>
          (case request enabled of
             ReplyOk \<Rightarrow> EngineApplied
           | ReplyError \<Rightarrow> EngineDeclined
           | ReplyOther \<Rightarrow> EngineDeclined
           | ReplyTimedOut \<Rightarrow> EngineTimeout
           | ReplyLost \<Rightarrow> EngineAbsent))"

definition reload_sender :: "load_outcome \<Rightarrow> bool \<Rightarrow> (bool \<Rightarrow> engine_status) \<Rightarrow> engine_status" where
  "reload_sender outcome enabled send =
     (case reload_payload outcome enabled of Some enabled \<Rightarrow> send enabled | None \<Rightarrow> EngineAbsent)"

text \<open>The synchronisation at the start reads the settings anew before each of three attempts.\<close>

fun sync_attempts :: "(nat \<Rightarrow> load_outcome \<times> bool) \<Rightarrow> (nat \<Rightarrow> bool \<Rightarrow> engine_status) \<Rightarrow> nat \<Rightarrow> nat \<Rightarrow> engine_status" where
  "sync_attempts disk send attempt 0 = EngineAbsent"
| "sync_attempts disk send attempt (Suc left) =
     (let (outcome, enabled) = disk attempt
      in case reload_payload outcome enabled of
           None \<Rightarrow> EngineAbsent
         | Some enabled \<Rightarrow>
             (if send attempt enabled = EngineAbsent \<and> 0 < left then sync_attempts disk send (attempt + 1) left
              else send attempt enabled))"

definition dict_sync_engine :: "(nat \<Rightarrow> load_outcome \<times> bool) \<Rightarrow> (nat \<Rightarrow> bool \<Rightarrow> engine_status) \<Rightarrow> engine_status" where
  "dict_sync_engine disk send = sync_attempts disk send 0 3"

end
