(* ===== verification/Dictionary_Commands_Spec.thy ===== *)
theory Dictionary_Commands_Spec
  imports Dictionary_Commands
begin

text \<open>
  The dictionary commands against their contract: the dictionary is a finite map from lookup keys to
  entries, each command is one operation on that map, and no command destroys what it could not read.
\<close>

section \<open>The JSON library and the saved file\<close>

definition scalar_entry :: "user_dict_entry \<Rightarrow> bool" where
  "scalar_entry e \<longleftrightarrow> list_all is_scalar (ud_ruby e) \<and> list_all is_scalar (ud_word e)
     \<and> list_all is_scalar (case ud_pos e of None \<Rightarrow> [] | Some p \<Rightarrow> p)"

text \<open>What the code relies on: a list is written as JSON text that starts with its bracket and has no zero
  character, and reading that text gives the list back.\<close>

definition json_library :: "dict_host \<Rightarrow> bool" where
  "json_library h \<longleftrightarrow> json_brackets (dh_json h)
     \<and> (\<forall>es. list_all scalar_entry es \<longrightarrow>
          list_all is_scalar (dh_json_of h es) \<and> 0 \<notin> set (dh_json_of h es) \<and> starts_with (dh_json_of h es) [0x5b]
          \<and> dh_entries_of h (dh_json_of h es) = Some es)"

lemma rename_from_ok:
  "rename_from r a left e = Inr u \<longleftrightarrow> (\<exists>i<left. r (a + i) = None)"
proof (induction left arbitrary: a e)
  case (Suc left)
  show ?case
  proof (cases "r a")
    case None
    then show ?thesis by (auto intro: exI [of _ 0])
  next
    case (Some x)
    have "(\<exists>i<Suc left. r (a + i) = None) \<longleftrightarrow> (\<exists>i<left. r (a + 1 + i) = None)"
    proof
      assume "\<exists>i<Suc left. r (a + i) = None"
      then obtain i where i: "i < Suc left" "r (a + i) = None" by blast
      with Some obtain j where "i = Suc j" by (cases i) auto
      with i show "\<exists>i<left. r (a + 1 + i) = None" by (intro exI [of _ j]) simp
    next
      assume "\<exists>i<left. r (a + 1 + i) = None"
      then obtain i where "i < left" "r (a + 1 + i) = None" by blast
      then show "\<exists>i<Suc left. r (a + i) = None" by (intro exI [of _ "Suc i"]) simp
    qed
    then show ?thesis using Suc Some by simp
  qed
qed simp

text \<open>The save works out when no step before the rename fails and one of the four renames succeeds.\<close>

definition save_works :: "save_host \<Rightarrow> bool" where
  "save_works sv \<longleftrightarrow> sv_mkdir sv = None \<and> sv_write sv = None \<and> (\<exists>i<rename_retries. sv_rename sv i = None)"

lemma save_atomic_cases:
  "save_atomic sv content file =
     (if save_works sv then (Inr (), ReadBytes content) else (Inl (projl (fst (save_atomic sv content file))), file))"
proof -
  have r: "rename_with_retry (sv_rename sv) = Inr () \<longleftrightarrow> (\<exists>i<rename_retries. sv_rename sv i = None)"
    using rename_from_ok [of "sv_rename sv" 0 rename_retries "[]" "()"] by (simp add: rename_with_retry_def)
  show ?thesis
  proof (cases "rename_with_retry (sv_rename sv)")
    case (Inl e)
    then have "\<not> save_works sv" using r by (simp add: save_works_def)
    then show ?thesis using Inl by (simp add: save_atomic_def split: option.split)
  next
    case (Inr u)
    then have "save_works sv \<longleftrightarrow> sv_mkdir sv = None \<and> sv_write sv = None" using r by (simp add: save_works_def)
    then show ?thesis using Inr by (simp add: save_atomic_def split: option.split)
  qed
qed

lemma save_atomic_file:
  "snd (save_atomic sv content file) = (if save_works sv then ReadBytes content else file)"
  "fst (save_atomic sv content file) = Inr () \<longleftrightarrow> save_works sv"
  by (subst save_atomic_cases, simp)+

lemma save_to_ok: "save_works (dh_save h) \<Longrightarrow> save_to h es file = (Inr (), ReadBytes (utf8_encode (dh_json_of h es)))"
  by (simp add: save_to_def save_atomic_cases [of "dh_save h"])

lemma save_to_error: "save_to h es file = (Inl e, file') \<Longrightarrow> file' = file"
  using save_atomic_file [of "dh_save h" "utf8_encode (dh_json_of h es)" "file"]
  by (simp add: save_to_def split: if_splits)

lemma save_to_kept: "fst (save_to h es file) = Inl e \<Longrightarrow> snd (save_to h es file) = file"
  using save_to_error by (metis prod.collapse)

lemma dedup_distinct:
  "distinct (map entry_key es) \<Longrightarrow> entry_key ` set es \<inter> seen = {} \<Longrightarrow> dedup_loop seen es = (es, 0)"
  by (induction es arbitrary: seen) auto

lemma bracket_not_blank: "trim_matches is_white_space (0x5b # t) \<noteq> []"
proof -
  have "dropWhile is_white_space (0x5b # t) = 0x5b # t" by (simp add: is_white_space_def)
  moreover have "\<exists>c\<in>set (rev (0x5b # t)). \<not> is_white_space c" by (auto simp: is_white_space_def)
  ultimately show ?thesis by (simp add: trim_matches_def dropWhile_eq_Nil_conv)
qed

text \<open>What was saved is read back.\<close>

lemma load_saved:
  assumes "json_library h" "list_all scalar_entry es" "distinct (map entry_key es)"
  shows "load_from h (ReadBytes (utf8_encode (dh_json_of h es)))
    = Some (Inr \<lparr>ld_entries = es, ld_deduped = 0, ld_corrupt = CorruptNone\<rparr>, FileKept)"
proof -
  let ?t = "dh_json_of h es"
  have j: "json_brackets (dh_json h)" "list_all is_scalar ?t" "0 \<notin> set ?t" "dh_entries_of h ?t = Some es"
    using assms(1,2) by (auto simp: json_library_def)
  obtain r where r: "?t = 0x5b # r" using assms(1,2) by (auto simp: json_library_def starts_with_iff)
  have "utf8_encode ?t \<noteq> []" using r utf8_bytes_Cons by (simp add: utf8_encode_def)
  moreover have "strip_leading_bom ?t = ?t"
    using r by (auto simp: strip_leading_bom_def strip_prefix_Some split: option.split)
  then have "decode_bytes (dh_json h) (utf8_encode ?t) = Some ?t"
    using sniff_utf8 [OF j(1-3)] utf8_chars_encode [OF j(2)] by (auto simp: decode_bytes_def collect_strict_def comp_def)
  moreover have "trim_matches is_white_space ?t \<noteq> []" unfolding r by (rule bracket_not_blank)
  moreover have "dedup_entries es = (es, 0)" using dedup_distinct [OF assms(3)] by (simp add: dedup_entries_def)
  ultimately show ?thesis using j(4) by (simp add: load_from_def load_from_with_def)
qed

section \<open>The map\<close>

type_synonym dict_abs = "ustring \<times> ustring \<rightharpoonup> user_dict_entry"

definition dict_map :: "user_dict_entry list \<Rightarrow> dict_abs" where
  "dict_map es = map_of (map (\<lambda>e. (entry_key e, e)) es)"

lemma dom_dict_map: "dom (dict_map es) = entry_key ` set es"
  by (simp add: dict_map_def dom_map_of_conv_image_fst image_image)

lemma dict_map_simps [simp]:
  "dict_map [] = Map.empty" "dict_map (e # es) = (dict_map es)(entry_key e \<mapsto> e)"
  "dict_map (as @ bs) = dict_map bs ++ dict_map as"
  by (simp_all add: dict_map_def)

lemma dict_map_None: "dict_map es k = None \<longleftrightarrow> k \<notin> entry_key ` set es"
  by (metis domIff dom_dict_map)

lemma dict_map_absent [simp]: "k \<notin> entry_key ` set es \<Longrightarrow> dict_map es k = None"
  by (simp add: dict_map_None)

lemmas map_ext = ext [where 'a = "ustring \<times> ustring" and 'b = "user_dict_entry option"]

lemma dict_map_snoc: "entry_key e \<notin> entry_key ` set es \<Longrightarrow> dict_map (es @ [e]) = (dict_map es)(entry_key e \<mapsto> e)"
  by (rule map_ext) (simp add: map_add_def split: option.split)

lemma dict_map_replace:
  assumes "distinct (map entry_key (as @ x # bs))" "entry_key e \<notin> entry_key ` set as" "entry_key e \<notin> entry_key ` set bs"
  shows "dict_map (as @ e # bs) = (dict_map (as @ x # bs))(entry_key x := None, entry_key e \<mapsto> e)"
  using assms by (intro map_ext) (auto simp: map_add_def split: option.split)

lemma dict_map_remove:
  assumes "distinct (map entry_key (as @ x # bs))"
  shows "dict_map (as @ bs) = (dict_map (as @ x # bs))(entry_key x := None)"
  using assms by (intro map_ext) (auto simp: map_add_def split: option.split)

lemma position_split:
  "position p xs = Some i \<Longrightarrow> \<exists>as x bs. xs = as @ x # bs \<and> i = length as \<and> p x"
proof -
  assume "position p xs = Some i"
  then have i: "i < length xs" "p (xs ! i)" by (auto dest: position_SomeD)
  then show ?thesis
    by (intro exI [of _ "take i xs"] exI [of _ "xs ! i"] exI [of _ "drop (Suc i) xs"]) (simp add: id_take_nth_drop)
qed

definition row_valid :: "user_dict_entry \<Rightarrow> bool" where
  "row_valid e \<longleftrightarrow> validate_entry (ud_ruby e) (ud_word e) = Inr ()"

lemma merge_rows_map:
  "ms_seen s = entry_key ` set (ms_existing s) \<Longrightarrow>
   dict_map (ms_existing (foldl merge_row s rows)) = dict_map (filter row_valid rows) ++ dict_map (ms_existing s)"
proof (induction rows arbitrary: s)
  case (Cons e rows)
  show ?case
  proof (cases "row_valid e")
    case False
    then obtain err where err: "validate_entry (ud_ruby e) (ud_word e) = Inl err"
      by (cases "validate_entry (ud_ruby e) (ud_word e)") (auto simp: row_valid_def)
    have "ms_existing (merge_row s e) = ms_existing s" "ms_seen (merge_row s e) = ms_seen s"
      by (simp_all add: merge_row_def Let_def err)
    then show ?thesis using Cons False by simp
  next
    case True
    then have ok: "validate_entry (ud_ruby e) (ud_word e) = Inr ()" by (simp add: row_valid_def)
    show ?thesis
    proof (cases "entry_key e \<in> ms_seen s")
      case dup: True
      have "ms_existing (merge_row s e) = ms_existing s" "ms_seen (merge_row s e) = ms_seen s"
        using dup by (simp_all add: merge_row_def Let_def ok)
      moreover obtain x where "dict_map (ms_existing s) (entry_key e) = Some x"
        using dup Cons.prems dict_map_None [of "ms_existing s" "entry_key e"] by auto
      ultimately show ?thesis using Cons True by (auto intro!: map_ext simp: map_add_def split: option.split)
    next
      case new: False
      have m: "ms_existing (merge_row s e) = ms_existing s @ [e]" "ms_seen (merge_row s e) = insert (entry_key e) (ms_seen s)"
        using new by (simp_all add: merge_row_def Let_def ok)
      then have "dict_map (ms_existing (foldl merge_row s (e # rows)))
          = dict_map (filter row_valid rows) ++ dict_map (ms_existing s @ [e])"
        using Cons by simp
      moreover have "dict_map (ms_existing s) (entry_key e) = None"
        using new Cons.prems by (simp add: dict_map_None)
      ultimately show ?thesis using True by (auto intro!: map_ext simp: map_add_def split: option.split)
    qed
  qed
qed simp

section \<open>Decoded text is text\<close>

lemma utf8_step_scalar:
  assumes "fst (utf8_step bs) = Some c" "\<forall>b\<in>set bs. b < 256"
  shows "is_scalar c"
proof -
  define b x y z where v: "b = octet_at bs 0" "x = octet_at bs 1" "y = octet_at bs 2" "z = octet_at bs 3"
  obtain w lo hi where l: "utf8_lead b = Some (w, lo, hi)"
    using assms(1) by (cases "utf8_lead b") (auto simp: utf8_step_def v)
  have x: "w \<noteq> 1 \<Longrightarrow> lo \<le> x \<and> x \<le> hi"
    using assms(1) l by (auto simp: utf8_step_def Let_def v split: if_splits)
  have c: "c = (if w = 1 then b else if w = 2 then (b - 0xc0) * 64 + (x - 0x80)
      else if w = 3 then (b - 0xe0) * 4096 + (x - 0x80) * 64 + (y - 0x80)
      else (b - 0xf0) * 262144 + (x - 0x80) * 4096 + (y - 0x80) * 64 + (z - 0x80))"
    "w \<noteq> 1 \<Longrightarrow> w \<noteq> 2 \<Longrightarrow> 0x80 \<le> y \<and> y \<le> 0xbf"
    "w \<noteq> 1 \<Longrightarrow> w \<noteq> 2 \<Longrightarrow> w \<noteq> 3 \<Longrightarrow> 0x80 \<le> z \<and> z \<le> 0xbf"
    using assms(1) l by (auto simp: utf8_step_def Let_def v continues_def split: if_splits)
  consider "w = 1" "b < 0x80" | "w = 2" "b \<le> 0xdf" "lo = 0x80" "hi = 0xbf"
    | "w = 3" "b = 0xe0" "hi = 0xbf" | "w = 3" "b = 0xed" "lo = 0x80" "hi = 0x9f"
    | "w = 3" "0xe1 \<le> b" "b \<le> 0xef" "b \<noteq> 0xed" "lo = 0x80" "hi = 0xbf"
    | "w = 4" "b \<le> 0xf3" "hi = 0xbf" | "w = 4" "b = 0xf4" "hi = 0x8f"
    using l by (auto simp: utf8_lead_def split: if_splits)
  then show ?thesis
  proof cases
    case 5
    then have "b \<le> 0xec \<or> 0xee \<le> b" by linarith
    then show ?thesis
    proof
      assume "b \<le> 0xec"
      then have "b - 0xe0 \<le> 12" "x - 0x80 \<le> 63" "y - 0x80 \<le> 63" using 5 c(2) x by auto
      moreover have "c = (b - 0xe0) * 4096 + (x - 0x80) * 64 + (y - 0x80)" using 5 c(1) by simp
      ultimately have "c < 0xd800" by linarith
      then show ?thesis by (simp add: is_scalar_def)
    next
      assume "0xee \<le> b"
      then have "14 \<le> b - 0xe0" "b - 0xe0 \<le> 15" "x - 0x80 \<le> 63" "y - 0x80 \<le> 63" using 5 c(2) x by auto
      moreover have "c = (b - 0xe0) * 4096 + (x - 0x80) * 64 + (y - 0x80)" using 5 c(1) by simp
      ultimately have "0xe000 \<le> c" "c \<le> 0xffff" by linarith+
      then show ?thesis by (simp add: is_scalar_def)
    qed
  next
    case 6
    then have "b - 0xf0 \<le> 3" "x - 0x80 \<le> 63" "y - 0x80 \<le> 63" "z - 0x80 \<le> 63" using c(2,3) x by auto
    moreover have e: "c = (b - 0xf0) * 262144 + (x - 0x80) * 4096 + (y - 0x80) * 64 + (z - 0x80)" using 6 c(1) by simp
    ultimately have "c \<le> 0xfffff" by linarith
    moreover have "b = 0xf0 \<and> 0x90 \<le> x \<or> 0xf1 \<le> b" using l 6 x by (auto simp: utf8_lead_def split: if_splits)
    then have "1 \<le> b - 0xf0 \<or> 16 \<le> x - 0x80" by auto
    then have "0x10000 \<le> c" unfolding e by (elim disjE) linarith+
    ultimately show ?thesis by (simp add: is_scalar_def)
  next
    case 7
    then have "x - 0x80 \<le> 15" "y - 0x80 \<le> 63" "z - 0x80 \<le> 63" using c(2,3) x by auto
    moreover have "c = 4 * 262144 + (x - 0x80) * 4096 + (y - 0x80) * 64 + (z - 0x80)" using 7 c(1) by simp
    ultimately have "c \<le> 0x10ffff" "0x100000 \<le> c" by linarith+
    then show ?thesis by (simp add: is_scalar_def)
  next
    case 4
    then have "x - 0x80 \<le> 31" "y - 0x80 \<le> 63" using c(2) x by auto
    moreover have "c = 13 * 4096 + (x - 0x80) * 64 + (y - 0x80)" using 4 c(1) by simp
    ultimately have "c \<le> 0xd7ff" by linarith
    then show ?thesis by (simp add: is_scalar_def)
  next
    case 3
    then have "x - 0x80 \<le> 63" "y - 0x80 \<le> 63" using c(2) x by auto
    moreover have "c = (x - 0x80) * 64 + (y - 0x80)" using 3 c(1) by simp
    ultimately have "c \<le> 0xfff" by linarith
    then show ?thesis by (simp add: is_scalar_def)
  next
    case 2
    then have "b - 0xc0 \<le> 31" "x - 0x80 \<le> 63" using x by auto
    moreover have "c = (b - 0xc0) * 64 + (x - 0x80)" using 2 c(1) by simp
    ultimately have "c \<le> 0x7ff" by linarith
    then show ?thesis by (simp add: is_scalar_def)
  qed (use c in \<open>simp_all add: is_scalar_def\<close>)
qed

lemma utf8_chars_scalar: "Some c \<in> set (utf8_chars bs) \<Longrightarrow> \<forall>b\<in>set bs. b < 256 \<Longrightarrow> is_scalar c"
proof (induction bs rule: utf8_chars.induct)
  case (2 b bs)
  consider "fst (utf8_step (b # bs)) = Some c"
    | "Some c \<in> set (utf8_chars (drop (snd (utf8_step (b # bs))) (b # bs)))"
    using 2(2) by (auto simp only: utf8_chars.simps list.set insert_iff)
  then show ?case
  proof cases
    case 1
    then show ?thesis using 2(3) by (rule utf8_step_scalar)
  next
    case rest: 2
    have "\<forall>x\<in>set (drop (snd (utf8_step (b # bs))) (b # bs)). x < 256" using 2(3) by (meson in_set_dropD)
    then show ?thesis using 2(1) rest by blast
  qed
qed simp

lemma utf16_chars_scalar:
  "Some c \<in> set (utf16_chars us) \<Longrightarrow> \<forall>u\<in>set us. u < 0x10000 \<Longrightarrow> is_scalar c"
  by (induction us rule: utf16_chars.induct)
    (auto simp: is_scalar_def is_high_surrogate_def is_low_surrogate_def split: if_splits)

lemma pair_units_bound: "\<forall>b\<in>set bs. b < 256 \<Longrightarrow> \<forall>u\<in>set (pair_units le bs). u < 0x10000"
  by (induction le bs rule: pair_units.induct) auto

lemma lossy_scalar: "\<forall>c. Some c \<in> set cs \<longrightarrow> is_scalar c \<Longrightarrow> list_all is_scalar (fst (collect_lossy cs))"
  by (auto simp: collect_lossy_def list_all_iff is_scalar_def split: option.split)

lemma decoded_scalar:
  assumes "\<forall>b\<in>set bytes. b < 256"
  shows "list_all is_scalar (fst (decode_bytes_lossy json bytes))"
proof -
  have strip: "list_all is_scalar s \<Longrightarrow> list_all is_scalar (strip_leading_bom s)" for s
    by (auto simp: strip_leading_bom_def strip_prefix_Some split: option.split)
  have u8: "list_all is_scalar (fst (collect_lossy (utf8_chars bytes)))"
    using utf8_chars_scalar assms by (intro lossy_scalar) blast
  have u16: "list_all is_scalar (fst (decode_utf16_lossy bytes le))" for le
    using lossy_scalar [of "utf16_chars (pair_units le bytes)"] utf16_chars_scalar pair_units_bound [OF assms]
    by (auto simp: decode_utf16_lossy_def case_prod_beta)
  show ?thesis
    using strip [OF u8] strip [OF u16]
    by (cases "sniff_encoding json bytes") (simp_all add: decode_bytes_lossy_def case_prod_beta)
qed

lemma imported_scalar:
  assumes "\<forall>b\<in>set bytes. b < 256" "e \<in> set (fst (parse_tsv json bytes))"
  shows "scalar_entry e"
proof -
  let ?t = "fst (decode_bytes_lossy json bytes)"
  obtain line where l: "line \<in> set (str_lines ?t)" "parse_row line = Some e"
    using assms(2) by (auto simp: parse_tsv_def case_prod_beta List.map_filter_def split: option.splits)
  have line: "list_all is_scalar p" if "p \<in> set (split_on 0x09 line)" for p
    using decoded_scalar [OF assms(1), of json] split_on_chars [OF that] str_lines_chars [OF l(1)]
    by (auto simp: list_all_iff)
  have cols: "2 \<le> length (split_on 0x09 line)" "e = \<lparr>ud_ruby = split_on 0x09 line ! 0, ud_word = split_on 0x09 line ! 1,
      ud_pos = get (split_on 0x09 line) 2\<rparr>"
    using l(2) by (auto simp: parse_row_def Let_def split: if_splits)
  have "list_all is_scalar (split_on 0x09 line ! i)" if "i < length (split_on 0x09 line)" for i
    using line nth_mem [OF that] by blast
  then show ?thesis using cols by (auto simp: scalar_entry_def get_def split: option.splits if_splits)
qed

section \<open>The commands against the map\<close>

definition dict_holds :: "dict_host \<Rightarrow> read_outcome \<Rightarrow> user_dict_entry list \<Rightarrow> bool" where
  "dict_holds h file es \<longleftrightarrow>
     (\<exists>n. load_from h file = Some (Inr \<lparr>ld_entries = es, ld_deduped = n, ld_corrupt = CorruptNone\<rparr>, FileKept))
     \<and> list_all scalar_entry es \<and> distinct (map entry_key es)"

text \<open>The commands that change the dictionary, as one type, with the arguments of each.\<close>

datatype dict_command =
  DictAdd ustring ustring ustring
| DictUpdate ustring ustring ustring ustring ustring
| DictDelete ustring ustring
| DictImport "octet list"

definition dict_error :: "dict_cmd_error + 'r \<Rightarrow> dict_cmd_error option" where
  "dict_error r = (case r of Inl e \<Rightarrow> Some e | Inr _ \<Rightarrow> None)"

abbreviation forget :: "'r dict_run \<Rightarrow> (dict_cmd_error option \<times> read_outcome) option" where
  "forget \<equiv> map_option (map_prod dict_error id)"

fun dict_serve ::
  "dict_host \<Rightarrow> engine_status \<Rightarrow> dict_command \<Rightarrow> read_outcome \<Rightarrow> (dict_cmd_error option \<times> read_outcome) option"
where
  "dict_serve h engine (DictAdd ruby word pos) file = forget (dict_add_logic h engine ruby word pos file)"
| "dict_serve h engine (DictUpdate old_ruby old_word ruby word pos) file =
     forget (dict_update_logic h engine old_ruby old_word ruby word pos file)"
| "dict_serve h engine (DictDelete ruby word) file = forget (dict_delete_logic h engine ruby word file)"
| "dict_serve h engine (DictImport bytes) file = forget (dict_import_logic h engine bytes file)"

fun command_text :: "dict_command \<Rightarrow> bool" where
  "command_text (DictAdd ruby word pos) \<longleftrightarrow> list_all is_scalar (ruby @ word @ pos)"
| "command_text (DictUpdate _ _ ruby word pos) \<longleftrightarrow> list_all is_scalar (ruby @ word @ pos)"
| "command_text (DictDelete _ _) \<longleftrightarrow> True"
| "command_text (DictImport bytes) \<longleftrightarrow> (\<forall>b\<in>set bytes. b < 256)"

text \<open>What each command does to the map, or the error it reports.\<close>

fun dict_spec :: "(ustring \<Rightarrow> json_value option) \<Rightarrow> dict_command \<Rightarrow> dict_abs \<Rightarrow> dict_cmd_error + dict_abs" where
  "dict_spec json (DictAdd ruby word pos) m =
     (let e = \<lparr>ud_ruby = ruby, ud_word = word, ud_pos = Some pos\<rparr>
      in if \<not> row_valid e then Inl (CmdInvalid (invalid_field ruby))
         else if entry_key e \<in> dom m then Inl CmdDuplicate
         else Inr (m(entry_key e \<mapsto> e)))"
| "dict_spec json (DictUpdate old_ruby old_word ruby word pos) m =
     (let e = \<lparr>ud_ruby = ruby, ud_word = word, ud_pos = Some pos\<rparr>; old = entry_key (old_entry old_ruby old_word)
      in if \<not> row_valid e then Inl (CmdInvalid (invalid_field ruby))
         else if old \<notin> dom m then Inl CmdNotFound
         else if entry_key e \<in> dom m - {old} then Inl CmdDuplicate
         else Inr (m(old := None, entry_key e \<mapsto> e)))"
| "dict_spec json (DictDelete ruby word) m =
     (let old = entry_key (old_entry ruby word)
      in if old \<notin> dom m then Inl CmdNotFound else Inr (m(old := None)))"
| "dict_spec json (DictImport bytes) m =
     Inr (dict_map (filter row_valid (fst (parse_tsv json bytes))) ++ m)"

lemma row_valid_Inr:
  "row_valid \<lparr>ud_ruby = ruby, ud_word = word, ud_pos = p\<rparr> \<Longrightarrow> validate_entry ruby word = Inr ()"
  by (simp add: row_valid_def)

lemma row_invalid_Inl:
  assumes "\<not> row_valid \<lparr>ud_ruby = ruby, ud_word = word, ud_pos = p\<rparr>"
  obtains err where "validate_entry ruby word = Inl err"
  using assms by (cases "validate_entry ruby word") (auto simp: row_valid_def)

text \<open>A command that finds the dictionary, and one that saves.\<close>

lemma with_loaded_kept:
  "load_from h file = Some (Inr loaded, FileKept) \<Longrightarrow> with_loaded h file k = Some (k loaded file)"
  by (simp add: with_loaded_def load_locked_def file_after_def)

lemma dict_holdsE:
  assumes "dict_holds h file es"
  obtains n where
    "load_from h file = Some (Inr \<lparr>ld_entries = es, ld_deduped = n, ld_corrupt = CorruptNone\<rparr>, FileKept)"
    "list_all scalar_entry es" "distinct (map entry_key es)"
  using assms by (auto simp: dict_holds_def)

lemma saved_holds:
  assumes "json_library h" "list_all scalar_entry es" "distinct (map entry_key es)"
  shows "dict_holds h (ReadBytes (utf8_encode (dh_json_of h es))) es"
  using load_saved [OF assms] assms by (auto simp: dict_holds_def)

definition dict_done :: "dict_host \<Rightarrow> (dict_cmd_error option \<times> read_outcome) option \<Rightarrow> dict_abs \<Rightarrow> bool" where
  "dict_done h run m \<longleftrightarrow> (\<exists>file' es'. run = Some (None, file') \<and> dict_holds h file' es' \<and> dict_map es' = m)"

lemma save_done:
  assumes "json_library h" "save_works (dh_save h)" "list_all scalar_entry es" "distinct (map entry_key es)"
    and "dict_map es = m"
  shows "dict_done h (Some (map_prod dict_error id (save_and_send h engine es file))) m"
  using saved_holds [OF assms(1,3,4)] assms(5)
  by (auto simp: dict_done_def save_and_send_def save_to_ok [OF assms(2)] dict_error_def)

lemma has_key [simp]: "list_ex (\<lambda>x. entry_key x = k) es \<longleftrightarrow> k \<in> entry_key ` set es"
  by (auto simp: list_ex_iff)

lemmas command_simps = with_loaded_kept dict_error_def dom_dict_map Let_def

lemma add_refines:
  assumes "json_library h" "save_works (dh_save h)" "dict_holds h file es" "command_text (DictAdd ruby word pos)"
  shows "case dict_spec json (DictAdd ruby word pos) (dict_map es) of
      Inl err \<Rightarrow> dict_serve h engine (DictAdd ruby word pos) file = Some (Some err, file)
    | Inr m \<Rightarrow> dict_done h (dict_serve h engine (DictAdd ruby word pos) file) m"
proof -
  define e where "e = \<lparr>ud_ruby = ruby, ud_word = word, ud_pos = Some pos\<rparr>"
  from assms(3) obtain n where
    l: "load_from h file = Some (Inr \<lparr>ld_entries = es, ld_deduped = n, ld_corrupt = CorruptNone\<rparr>, FileKept)"
    and es: "list_all scalar_entry es" "distinct (map entry_key es)" by (rule dict_holdsE)
  show ?thesis
  proof (cases "row_valid e \<and> entry_key e \<notin> entry_key ` set es")
    case True
    then have "list_all scalar_entry (es @ [e])" "distinct (map entry_key (es @ [e]))"
      using es assms(4) by (auto simp: e_def scalar_entry_def)
    from save_done [OF assms(1,2) this dict_map_snoc] True row_valid_Inr [of ruby word "Some pos"] show ?thesis
      by (simp add: dict_add_logic_def command_simps l flip: e_def)
  next
    case False
    show ?thesis
    proof (cases "row_valid e")
      case True
      then show ?thesis using False row_valid_Inr [of ruby word "Some pos"]
        by (simp add: dict_add_logic_def command_simps l flip: e_def)
    next
      case invalid: False
      then obtain err where "validate_entry ruby word = Inl err" by (rule row_invalid_Inl [of ruby word "Some pos", folded e_def])
      then show ?thesis using invalid by (simp add: dict_add_logic_def command_simps flip: e_def)
    qed
  qed
qed

text \<open>The entry at the found position.\<close>

lemma at_position:
  assumes "k \<in> entry_key ` set es"
  obtains i as x bs where "position (\<lambda>e. entry_key e = k) es = Some i" "es = as @ x # bs" "i = length as" "entry_key x = k"
proof -
  from assms obtain i where i: "position (\<lambda>e. entry_key e = k) es = Some i"
    by (cases "position (\<lambda>e. entry_key e = k) es") auto
  from position_split [OF this] i show ?thesis using that by blast
qed

lemma no_position: "k \<notin> entry_key ` set es \<Longrightarrow> position (\<lambda>e. entry_key e = k) es = None"
  by auto

lemma other_keys:
  "list_ex (\<lambda>i. i \<noteq> length as \<and> entry_key ((as @ x # bs) ! i) = k) [0..<length (as @ x # bs)]
     \<longleftrightarrow> k \<in> entry_key ` set as \<or> k \<in> entry_key ` set bs"
  (is "?l \<longleftrightarrow> _")
proof
  assume ?l
  then obtain i where i: "i < length (as @ x # bs)" "i \<noteq> length as" "entry_key ((as @ x # bs) ! i) = k"
    unfolding list_ex_iff set_upt by auto
  show "k \<in> entry_key ` set as \<or> k \<in> entry_key ` set bs"
  proof (cases "i < length as")
    case True
    then show ?thesis using i(3) by (auto simp: nth_append)
  next
    case False
    then obtain j where "i = length as + Suc j" "j < length bs"
      using i(1,2) that [of "i - Suc (length as)"] by auto
    then show ?thesis using i(3) by (auto simp: nth_append)
  qed
next
  assume "k \<in> entry_key ` set as \<or> k \<in> entry_key ` set bs"
  then show ?l
  proof
    assume "k \<in> entry_key ` set as"
    then obtain i where "i < length as" "k = entry_key (as ! i)" by (auto simp: in_set_conv_nth)
    then show ?l by (auto simp: list_ex_iff nth_append intro!: bexI [of _ i])
  next
    assume "k \<in> entry_key ` set bs"
    then obtain i where "i < length bs" "k = entry_key (bs ! i)" by (auto simp: in_set_conv_nth)
    then show ?l unfolding list_ex_iff set_upt by (intro bexI [of _ "length as + Suc i"]) (auto simp: nth_append)
  qed
qed

lemma delete_refines:
  assumes "json_library h" "save_works (dh_save h)" "dict_holds h file es"
  shows "case dict_spec json (DictDelete ruby word) (dict_map es) of
      Inl err \<Rightarrow> dict_serve h engine (DictDelete ruby word) file = Some (Some err, file)
    | Inr m \<Rightarrow> dict_done h (dict_serve h engine (DictDelete ruby word) file) m"
proof -
  define k where "k = entry_key (old_entry ruby word)"
  from assms(3) obtain n where
    l: "load_from h file = Some (Inr \<lparr>ld_entries = es, ld_deduped = n, ld_corrupt = CorruptNone\<rparr>, FileKept)"
    and es: "list_all scalar_entry es" "distinct (map entry_key es)" by (rule dict_holdsE)
  show ?thesis
  proof (cases "k \<in> entry_key ` set es")
    case True
    then obtain i as x bs where p: "position (\<lambda>e. entry_key e = k) es = Some i"
      "es = as @ x # bs" "i = length as" "entry_key x = k" by (rule at_position)
    have "list_all scalar_entry (as @ bs)" "distinct (map entry_key (as @ bs))" using es p(2) by auto
    moreover have "dict_map (as @ bs) = (dict_map es)(k := None)"
      using dict_map_remove [of as x bs] es(2) p(2,4) by simp
    ultimately have "dict_done h (Some (map_prod dict_error id (save_and_send h engine (as @ bs) file))) ((dict_map es)(k := None))"
      by (rule save_done [OF assms(1,2)])
    moreover have "take i es = as" "drop (Suc i) es = bs" using p(2,3) by simp_all
    ultimately show ?thesis using True p(1)
      by (simp add: dict_delete_logic_def command_simps l flip: k_def)
  next
    case False
    then show ?thesis by (simp add: dict_delete_logic_def command_simps l no_position flip: k_def)
  qed
qed

lemma update_refines:
  assumes "json_library h" "save_works (dh_save h)" "dict_holds h file es"
    and "command_text (DictUpdate old_ruby old_word ruby word pos)"
  shows "case dict_spec json (DictUpdate old_ruby old_word ruby word pos) (dict_map es) of
      Inl err \<Rightarrow> dict_serve h engine (DictUpdate old_ruby old_word ruby word pos) file = Some (Some err, file)
    | Inr m \<Rightarrow> dict_done h (dict_serve h engine (DictUpdate old_ruby old_word ruby word pos) file) m"
proof -
  define e where "e = \<lparr>ud_ruby = ruby, ud_word = word, ud_pos = Some pos\<rparr>"
  define k where "k = entry_key (old_entry old_ruby old_word)"
  from assms(3) obtain n where
    l: "load_from h file = Some (Inr \<lparr>ld_entries = es, ld_deduped = n, ld_corrupt = CorruptNone\<rparr>, FileKept)"
    and es: "list_all scalar_entry es" "distinct (map entry_key es)" by (rule dict_holdsE)
  show ?thesis
  proof (cases "row_valid e")
    case False
    then obtain err where "validate_entry ruby word = Inl err" by (rule row_invalid_Inl [of ruby word "Some pos", folded e_def])
    then show ?thesis using False by (simp add: dict_update_logic_def command_simps flip: e_def)
  next
    case True
    have valid: "validate_entry ruby word = Inr ()" using True row_valid_Inr by (simp add: e_def)
    show ?thesis
    proof (cases "k \<in> entry_key ` set es")
      case False
      then show ?thesis using True
        by (simp add: dict_update_logic_def command_simps l valid no_position flip: k_def e_def)
    next
      case old: True
      then obtain i as x bs where p: "position (\<lambda>e. entry_key e = k) es = Some i"
        "es = as @ x # bs" "i = length as" "entry_key x = k" by (rule at_position)
      have x: "k \<notin> entry_key ` set as" "k \<notin> entry_key ` set bs" using es(2) p(2,4) by auto
      define clash where "clash \<longleftrightarrow> entry_key e \<in> entry_key ` set as \<or> entry_key e \<in> entry_key ` set bs"
      have c: "list_ex (\<lambda>j. j \<noteq> i \<and> entry_key (es ! j) = entry_key e) [0..<length es] = clash"
        using other_keys [of as x bs "entry_key e"] p(2,3) by (simp add: clash_def)
      have d: "entry_key e \<in> entry_key ` set es - {k} \<longleftrightarrow> clash"
        using x p(2,4) by (auto simp: clash_def)
      show ?thesis
      proof (cases clash)
        case True
        then show ?thesis using \<open>row_valid e\<close> old d
          by (simp add: dict_update_logic_def command_simps l valid p(1) c flip: k_def e_def)
      next
        case False
        then have ne: "entry_key e \<notin> entry_key ` set as" "entry_key e \<notin> entry_key ` set bs" by (simp_all add: clash_def)
        have u: "es[i := e] = as @ e # bs" using p(2,3) by simp
        have "list_all scalar_entry (es[i := e])" "distinct (map entry_key (es[i := e]))"
          using es p(2) assms(4) ne unfolding u by (auto simp: e_def scalar_entry_def)
        moreover have "dict_map (es[i := e]) = (dict_map es)(k := None, entry_key e \<mapsto> e)"
          using dict_map_replace [of as x bs e] es(2) p(2,4) ne unfolding u by simp
        ultimately have "dict_done h (Some (map_prod dict_error id (save_and_send h engine (es[i := e]) file)))
            ((dict_map es)(k := None, entry_key e \<mapsto> e))"
          by (rule save_done [OF assms(1,2)])
        then show ?thesis using \<open>row_valid e\<close> old d False p(1) c
          by (cases "entry_key e = k") (simp_all add: dict_update_logic_def command_simps l valid flip: k_def e_def)
      qed
    qed
  qed
qed

lemma import_refines:
  assumes "json_library h" "save_works (dh_save h)" "dict_holds h file es" "command_text (DictImport bytes)"
  shows "dict_done h (dict_serve h engine (DictImport bytes) file)
    (dict_map (filter row_valid (fst (parse_tsv (dh_json h) bytes))) ++ dict_map es)"
proof -
  obtain rows replaced where r: "parse_tsv (dh_json h) bytes = (rows, replaced)" by (rule prod.exhaust)
  from assms(3) obtain n where
    l: "load_from h file = Some (Inr \<lparr>ld_entries = es, ld_deduped = n, ld_corrupt = CorruptNone\<rparr>, FileKept)"
    and es: "list_all scalar_entry es" "distinct (map entry_key es)" by (rule dict_holdsE)
  let ?s = "\<lparr>ms_existing = es, ms_seen = set (map entry_key es),
      ms_report = \<lparr>mr_added = 0, mr_skipped_dup = 0, mr_skipped_invalid = 0, mr_encoding_hint = False\<rparr>\<rparr>"
  let ?out = "ms_existing (foldl merge_row ?s rows)"
  obtain report where m: "merge_imported es rows replaced = (?out, report)" by (simp add: merge_imported_def Let_def)
  from merge_rows [of ?s rows, OF refl] obtain new where new: "?out = es @ new" "set new \<subseteq> set rows" "distinct (map entry_key ?out)"
    using es(2) by auto
  have rows: "list_all scalar_entry rows"
    using imported_scalar [of bytes _ "dh_json h"] assms(4) by (simp add: list_all_iff r)
  have out: "list_all scalar_entry ?out" using es(1) rows new(1,2) by (auto simp: list_all_iff)
  have "dict_map ?out = dict_map (filter row_valid rows) ++ dict_map es" using merge_rows_map [of ?s rows] by simp
  with saved_holds [OF assms(1) out new(3)] show ?thesis
    by (auto simp: dict_done_def dict_import_logic_def r m save_to_ok [OF assms(2)] command_simps l)
qed

text \<open>C20: every dictionary command is one operation on a finite map from lookup keys to entries. On a
  dictionary that holds the map, with a file system that works, a command reports the error of its
  specification and leaves the file alone, or it succeeds and the saved file holds the specified map.\<close>

theorem commands_refine_map:
  assumes "json_library h" "save_works (dh_save h)" "dict_holds h file es" "command_text cmd"
  shows "case dict_spec (dh_json h) cmd (dict_map es) of
      Inl err \<Rightarrow> dict_serve h engine cmd file = Some (Some err, file)
    | Inr m \<Rightarrow> \<exists>file' es'. dict_serve h engine cmd file = Some (None, file') \<and> dict_holds h file' es' \<and> dict_map es' = m"
proof (cases cmd)
  case (DictAdd ruby word pos)
  then show ?thesis
    using add_refines [OF assms(1-3), where json = "dh_json h" and engine = engine] assms(4)
    by (simp only: dict_done_def)
next
  case (DictUpdate old_ruby old_word ruby word pos)
  then show ?thesis
    using update_refines [OF assms(1-3), where json = "dh_json h" and engine = engine] assms(4)
    by (simp only: dict_done_def)
next
  case (DictDelete ruby word)
  then show ?thesis
    using delete_refines [OF assms(1-3), where json = "dh_json h" and engine = engine] by (simp only: dict_done_def)
next
  case (DictImport bytes)
  then show ?thesis
    using import_refines [OF assms(1-3), where bytes = bytes and engine = engine] assms(4) by (simp only: dict_done_def dict_spec.simps sum.case)
qed

section \<open>A JSON library that keeps its promise\<close>

definition write_text :: "ustring \<Rightarrow> ustring" where
  "write_text s = concat (map (\<lambda>c. show_nat c @ [0x2c]) s)"

definition read_text :: "ustring \<Rightarrow> ustring" where
  "read_text s = map digits_value (butlast (split_on 0x2c s))"

definition write_entry :: "user_dict_entry \<Rightarrow> ustring" where
  "write_entry e = write_text (ud_ruby e) @ [0x3b] @ write_text (ud_word e) @ [0x3b]
     @ (case ud_pos e of None \<Rightarrow> [] | Some p \<Rightarrow> 0x73 # write_text p)"

definition read_entry :: "ustring \<Rightarrow> user_dict_entry" where
  "read_entry s = (let fs = split_on 0x3b s in
     \<lparr>ud_ruby = read_text (fs ! 0), ud_word = read_text (fs ! 1),
      ud_pos = (case fs ! 2 of [] \<Rightarrow> None | _ # p \<Rightarrow> Some (read_text p))\<rparr>)"

definition write_entries :: "user_dict_entry list \<Rightarrow> ustring" where
  "write_entries es = 0x5b # concat (map (\<lambda>e. write_entry e @ [0x0a]) es)"

definition read_entries :: "ustring \<Rightarrow> user_dict_entry list option" where
  "read_entries s = Some (map read_entry (butlast (split_on 0x0a (tl s))))"

lemma write_text_mem: "c \<in> set (write_text s) \<Longrightarrow> c = 0x2c \<or> 0x30 \<le> c \<and> c \<le> 0x39"
  by (auto simp: write_text_def dest: show_nat_mem split: if_splits)

lemma read_write_text: "read_text (write_text s) = s"
proof -
  have c: "0x2c \<notin> set (show_nat n)" for n using show_nat_mem [of "0x2c" n] by auto
  have "split_on 0x2c (write_text s) = map show_nat s @ [[]]"
    by (induction s) (simp_all add: write_text_def split_on_append [OF c])
  then show ?thesis by (simp add: read_text_def comp_def)
qed

lemma write_entry_mem: "c \<in> set (write_entry e) \<Longrightarrow> 0x2c \<le> c \<and> c \<le> 0x73"
  by (auto simp: write_entry_def dest!: write_text_mem split: option.splits)

lemma read_write_entry: "read_entry (write_entry e) = e"
proof -
  have n: "0x3b \<notin> set (write_text s)" for s using write_text_mem [of "0x3b" s] by auto
  have p: "0x3b \<notin> set (case ud_pos e of None \<Rightarrow> [] | Some p \<Rightarrow> 0x73 # write_text p)"
    using n by (auto split: option.splits)
  have "split_on 0x3b (write_entry e)
      = [write_text (ud_ruby e), write_text (ud_word e), case ud_pos e of None \<Rightarrow> [] | Some p \<Rightarrow> 0x73 # write_text p]"
    using split_on_append [OF n] split_on_fresh [OF p] by (simp add: write_entry_def)
  then show ?thesis
    by (simp add: read_entry_def Let_def read_write_text numeral_2_eq_2 split: option.split)
qed

lemma read_write_entries: "read_entries (write_entries es) = Some es"
proof -
  have n: "0x0a \<notin> set (write_entry e)" for e using write_entry_mem [of "0x0a" e] by auto
  have "split_on 0x0a (concat (map (\<lambda>e. write_entry e @ [0x0a]) es)) = map write_entry es @ [[]]"
    by (induction es) (simp_all add: split_on_append [OF n])
  then show ?thesis by (simp add: read_entries_def write_entries_def comp_def read_write_entry)
qed

definition sample_host :: dict_host where
  "sample_host = \<lparr>dh_json = (\<lambda>_. None), dh_entries_of = read_entries, dh_json_of = write_entries,
     dh_taken = (\<lambda>_. False), dh_rename_ok = True, dh_copy_ok = True,
     dh_save = \<lparr>sv_mkdir = None, sv_write = None, sv_rename = (\<lambda>i. if i < 2 then Some (ascii ''busy'') else None)\<rparr>\<rparr>"

lemma sample_host_ok: "json_library sample_host" "save_works (dh_save sample_host)" "dict_holds sample_host ReadNotFound []"
proof -
  have m: "0x0a \<le> c \<and> c \<le> 0x73" if "c \<in> set (write_entries es)" for c es
  proof -
    from that consider "c = 0x5b" | "c = 0x0a" | e where "c \<in> set (write_entry e)"
      by (auto simp: write_entries_def split: if_splits)
    then show ?thesis using write_entry_mem by cases (simp, simp, fastforce)
  qed
  have "is_scalar c" if "c \<in> set (write_entries es)" for c es using m [OF that] by (simp add: is_scalar_def)
  then have "list_all is_scalar (write_entries es)" for es by (simp add: list_all_iff)
  moreover have "0 \<notin> set (write_entries es)" for es using m [of 0 es] by auto
  moreover have "starts_with (write_entries es) [0x5b]" for es by (simp add: write_entries_def starts_with_iff)
  ultimately show "json_library sample_host"
    by (simp add: json_library_def sample_host_def json_brackets_def read_write_entries)
  show "save_works (dh_save sample_host)"
    by (auto simp: save_works_def sample_host_def rename_retries_def intro!: exI [of _ 2])
  show "dict_holds sample_host ReadNotFound []"
    by (simp add: dict_holds_def load_from_def load_from_with_def empty_loaded_def)
qed

definition sample_word :: user_dict_entry where
  "sample_word = \<lparr>ud_ruby = [0x3042], ud_word = [0x4e9c], ud_pos = Some pos_noun\<rparr>"

lemma commands_refine_map_witness:
  "\<exists>file' es'. dict_serve sample_host EngineApplied (DictAdd [0x3042] [0x4e9c] pos_noun) ReadNotFound = Some (None, file')
     \<and> dict_holds sample_host file' es' \<and> dict_map es' = [entry_key sample_word \<mapsto> sample_word]"
proof -
  have t: "command_text (DictAdd [0x3042] [0x4e9c] pos_noun)" by (simp add: pos_noun_def is_scalar_def)
  have "row_valid sample_word"
    by (simp add: sample_word_def row_valid_def validate_entry_def check_generic_def trim_ws_def trim_matches_def
        is_trim_ws_char_def is_valid_ruby_char_def)
  then have "dict_spec (dh_json sample_host) (DictAdd [0x3042] [0x4e9c] pos_noun) (dict_map [])
      = Inr [entry_key sample_word \<mapsto> sample_word]"
    by (simp add: sample_word_def Let_def)
  then show ?thesis
    using commands_refine_map [OF sample_host_ok t, of EngineApplied] by (simp only: sum.case)
qed

section \<open>Nothing unread is overwritten\<close>

lemma load_fate:
  assumes "load_from h file = Some (Inr d, fate)"
  shows "ld_corrupt d = CorruptNone \<and> fate = FileKept
    \<or> (\<exists>n. \<not> dh_taken h n \<and> (fate = FileMoved n \<or> fate = FileCopied n))"
proof -
  have q: "\<exists>n. \<not> dh_taken h n \<and> (fate = FileMoved n \<or> fate = FileCopied n)"
    if "dict_quarantine (dh_taken h) (dh_rename_ok h) (dh_copy_ok h) = Some (Inr d, fate)"
    using that free_number_free [of "dh_taken h" 0]
    by (auto simp: dict_quarantine_def simp del: free_number.simps split: if_splits)
  show ?thesis using assms q
    by (auto simp: load_from_def load_from_with_def empty_loaded_def Let_def simp del: free_number.simps
        split: read_outcome.splits if_splits option.splits prod.splits)
qed

text \<open>What a command does with the loaded dictionary: an error writes nothing.\<close>

lemma with_loaded_file:
  assumes "with_loaded h file k = Some (r, file')"
    and "\<And>d f e f'. k d f = (Inl e, f') \<Longrightarrow> f' = f"
  shows "(\<exists>e. r = Inl e \<and> file' = file) \<or> (\<exists>d fate. load_from h file = Some (Inr d, fate)
    \<and> (dict_error r = None \<or> file' = file \<or> file' = ReadNotFound \<and> (\<exists>n. fate = FileMoved n)))"
proof -
  obtain lr fate where l: "load_from h file = Some (lr, fate)"
    using assms(1) by (cases "load_from h file") (auto simp: with_loaded_def load_locked_def)
  show ?thesis
  proof (cases lr)
    case (Inl e)
    have "fate = FileKept"
      using l Inl by (auto simp: load_from_def load_from_with_def dict_quarantine_def Let_def simp del: free_number.simps
          split: read_outcome.splits if_splits option.splits prod.splits)
    then show ?thesis using assms(1) l Inl
      by (cases e) (auto simp: with_loaded_def load_locked_def file_after_def)
  next
    case (Inr d)
    then have k: "k d (file_after fate file) = (r, file')"
      using assms(1) l by (auto simp: with_loaded_def load_locked_def)
    show ?thesis
    proof (cases r)
      case (Inl e)
      then have "file' = file_after fate file" using assms(2) k by simp
      then have "file' = file \<or> file' = ReadNotFound \<and> (\<exists>n. fate = FileMoved n)"
        by (cases fate) (simp_all add: file_after_def)
      then show ?thesis using l \<open>lr = Inr d\<close> by blast
    next
      case (Inr x)
      then show ?thesis using l \<open>lr = Inr d\<close> by (auto simp: dict_error_def)
    qed
  qed
qed

lemma save_and_send_error: "save_and_send h engine es file = (Inl e, file') \<Longrightarrow> file' = file"
  by (auto simp: save_and_send_def dest: save_to_error split: prod.splits sum.splits)

lemma command_file:
  assumes "dict_serve h engine cmd file = Some (err, file')"
  shows "file' = file \<or> (\<exists>d fate. load_from h file = Some (Inr d, fate)
    \<and> (err = None \<or> file' = ReadNotFound \<and> (\<exists>n. fate = FileMoved n)))"
proof -
  have by_load: "file' = file \<or> (\<exists>d fate. load_from h file = Some (Inr d, fate)
      \<and> (err = None \<or> file' = ReadNotFound \<and> (\<exists>n. fate = FileMoved n)))"
    if "forget (with_loaded h file k) = Some (err, file')" "\<And>d f e f'. k d f = (Inl e, f') \<Longrightarrow> f' = f"
    for k :: "loaded_dict \<Rightarrow> read_outcome \<Rightarrow> (dict_cmd_error + 'r) \<times> read_outcome"
  proof -
    from that(1) obtain r where r: "with_loaded h file k = Some (r, file')" "dict_error r = err" by auto
    have "(\<exists>e. r = Inl e \<and> file' = file) \<or> (\<exists>d fate. load_from h file = Some (Inr d, fate)
        \<and> (dict_error r = None \<or> file' = file \<or> file' = ReadNotFound \<and> (\<exists>n. fate = FileMoved n)))"
      by (rule with_loaded_file [OF r(1)]) (rule that(2))
    then show ?thesis using r(2) by blast
  qed
  show ?thesis
  proof (cases cmd)
    case (DictAdd ruby word pos)
    show ?thesis
    proof (cases "validate_entry ruby word")
      case (Inl e)
      then show ?thesis using assms DictAdd by (simp add: dict_add_logic_def)
    next
      case (Inr u)
      show ?thesis
        by (rule by_load) (use assms DictAdd Inr in \<open>auto simp: dict_add_logic_def Let_def
            dest: save_and_send_error split: if_splits\<close>)
    qed
  next
    case (DictUpdate old_ruby old_word ruby word pos)
    show ?thesis
    proof (cases "validate_entry ruby word")
      case (Inl e)
      then show ?thesis using assms DictUpdate by (simp add: dict_update_logic_def)
    next
      case (Inr u)
      show ?thesis
        by (rule by_load) (use assms DictUpdate Inr in \<open>auto simp: dict_update_logic_def Let_def
            dest: save_and_send_error split: if_splits option.splits\<close>)
    qed
  next
    case (DictDelete ruby word)
    show ?thesis
      by (rule by_load) (use assms DictDelete in \<open>auto simp: dict_delete_logic_def Let_def
          dest: save_and_send_error split: option.splits\<close>)
  next
    case (DictImport bytes)
    show ?thesis
      by (rule by_load) (use assms DictImport in \<open>auto simp: dict_import_logic_def case_prod_beta save_to_kept
          split: sum.splits\<close>)
  qed
qed

text \<open>C21: no command overwrites a dictionary it could not read. The file changes only when it was loaded
  whole, or when the unreadable file is kept under a name that was free; and a command that reports an
  error changes the file in no other way than by moving an unreadable one aside.\<close>

theorem unread_never_overwritten:
  assumes "dict_serve h engine cmd file = Some (err, file')" and "file' \<noteq> file"
  shows "\<exists>d fate. load_from h file = Some (Inr d, fate)
    \<and> (ld_corrupt d = CorruptNone \<and> fate = FileKept
       \<or> (\<exists>n. \<not> dh_taken h n \<and> (fate = FileMoved n \<or> fate = FileCopied n)))
    \<and> (err = None \<or> file' = ReadNotFound \<and> (\<exists>n. fate = FileMoved n))"
  using command_file [OF assms(1)] assms(2) load_fate [of h "file"] by blast

lemma unread_never_overwritten_witness:
  "\<exists>file'. dict_serve sample_host EngineApplied (DictDelete [] []) (ReadBytes [0xff]) = Some (Some CmdNotFound, file')
     \<and> file' = ReadNotFound"
proof -
  have d: "decode_bytes (dh_json sample_host) [0xff] = None"
    by (simp add: decode_bytes_def sniff_encoding_def collect_strict_def utf8_step_def utf8_lead_def octet_at_def
        decode_utf16_strict_def utf16_units_def List.map_filter_def)
  have "free_number (dh_taken sample_host) 0 = Some 0"
    by (simp add: free_number.simps [of _ 0] sample_host_def del: free_number.simps)
  then have q: "load_from sample_host (ReadBytes [0xff]) = Some (Inr (empty_loaded\<lparr>ld_corrupt := CorruptQuarantined\<rparr>), FileMoved 0)"
    using d by (simp add: load_from_def load_from_with_def dict_quarantine_def del: free_number.simps)
      (simp add: sample_host_def)
  have r: "dict_serve sample_host EngineApplied (DictDelete [] []) (ReadBytes [0xff]) = Some (Some CmdNotFound, ReadNotFound)"
    using q by (simp add: dict_delete_logic_def with_loaded_def load_locked_def file_after_def empty_loaded_def
        Let_def dict_error_def)
  show ?thesis using r unread_never_overwritten [OF r] by simp
qed

end
