(* ===== verification/Update_Releases.thy ===== *)
theory Update_Releases
  imports Dictionary_Encoding
begin

text \<open>
  The choice of a release to offer, \<open>crates/update/src/release.rs\<close>: versions, the assets of a release, the
  checksums and the addresses that are allowed. The libraries for semantic versions and for addresses are
  the parameter \<open>L\<close>.
\<close>

section \<open>Libraries\<close>

datatype ordering = OrdLess | OrdEqual | OrdGreater

record semver =
  sem_major :: nat
  sem_minor :: nat
  sem_patch :: nat
  sem_pre :: ustring

record url_parts =
  url_scheme :: ustring
  url_host :: "ustring option"
  url_port :: "nat option"
  url_username :: ustring
  url_password :: "ustring option"
  url_query :: "ustring option"
  url_fragment :: "ustring option"
  url_segments :: "ustring list option"

record update_lib =
  ul_semver :: "ustring \<Rightarrow> semver option"
  ul_cmp :: "semver \<Rightarrow> semver \<Rightarrow> ordering"
  ul_url :: "ustring \<Rightarrow> url_parts option"

section \<open>Versions\<close>

record app_version =
  ver_major :: nat
  ver_minor :: nat
  ver_patch :: nat
  ver_pre :: "ustring option"

definition from_semver :: "semver \<Rightarrow> app_version" where
  "from_semver v = \<lparr>ver_major = sem_major v, ver_minor = sem_minor v, ver_patch = sem_patch v,
     ver_pre = (if sem_pre v = [] then None else Some (sem_pre v))\<rparr>"

definition dot :: ustring where "dot = [0x2e]"
definition dash :: ustring where "dash = [0x2d]"

definition format_version :: "app_version \<Rightarrow> ustring" where
  "format_version v =
     show_nat (ver_major v) @ dot @ show_nat (ver_minor v) @ dot @ show_nat (ver_patch v)
     @ (case ver_pre v of Some pre \<Rightarrow> dash @ pre | None \<Rightarrow> [])"

definition as_semver :: "update_lib \<Rightarrow> app_version \<Rightarrow> semver option" where
  "as_semver L v =
     ul_semver L (show_nat (ver_major v) @ dot @ show_nat (ver_minor v) @ dot @ show_nat (ver_patch v)
       @ (case ver_pre v of Some pre \<Rightarrow> dash @ pre | None \<Rightarrow> []))"

definition parse_version :: "update_lib \<Rightarrow> ustring \<Rightarrow> app_version option" where
  "parse_version L value =
     (let trimmed = trim_matches is_white_space value;
          without_v = (case strip_prefix trimmed (ascii ''v'') of
              Some r \<Rightarrow> r
            | None \<Rightarrow> (case strip_prefix trimmed (ascii ''V'') of Some r \<Rightarrow> r | None \<Rightarrow> trimmed))
      in map_option from_semver (ul_semver L without_v))"

text \<open>The comparison of tuples that stands in when the library rejects a version.\<close>

definition cmp_nat :: "nat \<Rightarrow> nat \<Rightarrow> ordering" where
  "cmp_nat a b = (if a < b then OrdLess else if a = b then OrdEqual else OrdGreater)"

fun cmp_text :: "ustring \<Rightarrow> ustring \<Rightarrow> ordering" where
  "cmp_text [] [] = OrdEqual"
| "cmp_text [] (_ # _) = OrdLess"
| "cmp_text (_ # _) [] = OrdGreater"
| "cmp_text (a # s) (b # t) = (case cmp_nat a b of OrdEqual \<Rightarrow> cmp_text s t | r \<Rightarrow> r)"

fun cmp_pre :: "ustring option \<Rightarrow> ustring option \<Rightarrow> ordering" where
  "cmp_pre None None = OrdEqual"
| "cmp_pre None (Some _) = OrdLess"
| "cmp_pre (Some _) None = OrdGreater"
| "cmp_pre (Some s) (Some t) = cmp_text s t"

definition then_cmp :: "ordering \<Rightarrow> ordering \<Rightarrow> ordering" where
  "then_cmp a b = (if a = OrdEqual then b else a)"

definition compare_versions :: "update_lib \<Rightarrow> app_version \<Rightarrow> app_version \<Rightarrow> ordering" where
  "compare_versions L a b =
     (case (as_semver L a, as_semver L b) of
        (Some x, Some y) \<Rightarrow> ul_cmp L x y
      | _ \<Rightarrow> then_cmp (cmp_nat (ver_major a) (ver_major b)) (then_cmp (cmp_nat (ver_minor a) (ver_minor b))
               (then_cmp (cmp_nat (ver_patch a) (ver_patch b)) (cmp_pre (ver_pre a) (ver_pre b)))))"

section \<open>Releases and assets\<close>

record github_asset =
  ga_name :: ustring
  ga_size :: nat
  ga_url :: ustring
  ga_state :: "ustring option"

record github_release =
  gr_tag :: ustring
  gr_prerelease :: bool
  gr_draft :: bool
  gr_body :: ustring
  gr_assets :: "github_asset list"

definition is_uploaded :: "github_asset \<Rightarrow> bool" where
  "is_uploaded a \<longleftrightarrow> ga_state a = Some (ascii ''uploaded'')"

datatype channel = ChannelStable | ChannelBeta

definition channel_text :: "channel \<Rightarrow> ustring" where
  "channel_text c = (case c of ChannelStable \<Rightarrow> ascii ''stable'' | ChannelBeta \<Rightarrow> ascii ''beta'')"

record installer_asset =
  ia_name :: ustring
  ia_url :: ustring
  ia_size :: nat

record installable_release =
  inst_version :: app_version
  inst_channel :: channel
  inst_installer :: installer_asset
  inst_sums :: installer_asset
  inst_tag :: ustring
  inst_notes :: ustring

text \<open>\<open>trim_end_matches\<close> with a text that is not empty.\<close>

function trim_end_text :: "ustring \<Rightarrow> ustring \<Rightarrow> ustring" where
  "trim_end_text p s = (case strip_suffix s p of Some r \<Rightarrow> if p = [] then s else trim_end_text p r | None \<Rightarrow> s)"
  by pat_completeness auto
termination
  by (relation "measure (\<lambda>(_, s). length s)") (auto simp: strip_suffix_Some)

declare trim_end_text.simps [simp del]

definition api_releases_url :: "ustring \<Rightarrow> ustring option" where
  "api_releases_url repo =
     (let slash = (\<lambda>c. c = 0x2f);
          base = trim_end_matches slash (trim_end_text (ascii ''.git'') (trim_end_matches slash repo))
      in case strip_prefix base (ascii ''https://github.com/'') of
           None \<Rightarrow> None
         | Some path \<Rightarrow>
             (if length (split_on 0x2f path) \<noteq> 2 \<or> 0x3f \<in> set path \<or> 0x23 \<in> set path then None
              else Some (ascii ''https://api.github.com/repos/'' @ path @ ascii ''/releases?per_page=30'')))"

definition release_matches_channel :: "github_release \<Rightarrow> app_version \<Rightarrow> channel \<Rightarrow> bool" where
  "release_matches_channel item v c \<longleftrightarrow>
     (if gr_prerelease item \<noteq> (ver_pre v \<noteq> None) then False
      else case c of ChannelStable \<Rightarrow> \<not> gr_prerelease item \<and> ver_pre v = None | ChannelBeta \<Rightarrow> True)"

definition better_release ::
  "update_lib \<Rightarrow> channel \<Rightarrow> (app_version \<times> nat) option \<Rightarrow> nat \<times> github_release \<Rightarrow> (app_version \<times> nat) option"
where
  "better_release L c best entry =
     (let (index, item) = entry
      in if gr_draft item then best
         else case parse_version L (gr_tag item) of
           None \<Rightarrow> best
         | Some v \<Rightarrow>
             (if \<not> release_matches_channel item v c then best
              else case best of
                None \<Rightarrow> Some (v, index)
              | Some (current, _) \<Rightarrow>
                  (if compare_versions L v current = OrdGreater then Some (v, index) else best)))"

definition select_latest_release ::
  "update_lib \<Rightarrow> github_release list \<Rightarrow> bool \<Rightarrow> (app_version \<times> nat) option"
where
  "select_latest_release L items include_beta =
     (let c = (if include_beta then ChannelBeta else ChannelStable)
      in foldl (better_release L c) None (enumerate 0 items))"

section \<open>Addresses\<close>

definition official_segments :: "ustring list" where
  "official_segments = [ascii ''yachtida'', ascii ''nospacekey'', ascii ''releases'', ascii ''download'']"

definition is_official_release_asset_url :: "update_lib \<Rightarrow> ustring \<Rightarrow> bool" where
  "is_official_release_asset_url L value =
     (case ul_url L value of
        None \<Rightarrow> False
      | Some url \<Rightarrow>
          (if url_scheme url \<noteq> ascii ''https'' \<or> url_host url \<noteq> Some (ascii ''github.com'') \<or> url_port url \<noteq> None
              \<or> url_username url \<noteq> [] \<or> url_password url \<noteq> None \<or> url_query url \<noteq> None \<or> url_fragment url \<noteq> None
           then False
           else case url_segments url of
             Some [a, b, c, d, tag, file] \<Rightarrow>
               [a, b, c, d] = official_segments \<and> tag \<noteq> [] \<and> file \<noteq> [] \<and> 0x25 \<notin> set tag \<and> 0x25 \<notin> set file
           | _ \<Rightarrow> False))"

definition setup_name :: "ustring \<Rightarrow> ustring" where
  "setup_name version = ascii ''nospacekey-setup-'' @ version @ ascii ''.exe''"

definition devsigned_name :: "ustring \<Rightarrow> ustring" where
  "devsigned_name version = ascii ''nospacekey-setup-'' @ version @ ascii ''-devsigned.exe''"

definition asset_to :: "github_asset \<Rightarrow> installer_asset" where
  "asset_to a = \<lparr>ia_name = ga_name a, ia_url = ga_url a, ia_size = ga_size a\<rparr>"

fun pick_installer_from ::
  "update_lib \<Rightarrow> ustring \<Rightarrow> installer_asset option \<Rightarrow> github_asset list \<Rightarrow> installer_asset option"
where
  "pick_installer_from L version fallback [] = fallback"
| "pick_installer_from L version fallback (a # as) =
     (if \<not> is_uploaded a \<or> \<not> is_official_release_asset_url L (ga_url a) then pick_installer_from L version fallback as
      else if ga_name a = setup_name version then Some (asset_to a)
      else if ga_name a = devsigned_name version \<and> fallback = None
           then pick_installer_from L version (Some (asset_to a)) as
      else pick_installer_from L version fallback as)"

definition pick_installer_asset :: "update_lib \<Rightarrow> github_asset list \<Rightarrow> ustring \<Rightarrow> installer_asset option" where
  "pick_installer_asset L assets version = pick_installer_from L version None assets"

definition pick_sums_asset :: "update_lib \<Rightarrow> github_asset list \<Rightarrow> installer_asset option" where
  "pick_sums_asset L assets =
     map_option asset_to (find (\<lambda>a. ga_name a = ascii ''SHA256SUMS.txt'' \<and> is_uploaded a
       \<and> is_official_release_asset_url L (ga_url a)) assets)"

definition exact_url :: "ustring \<Rightarrow> ustring \<Rightarrow> ustring" where
  "exact_url tag name =
     ascii ''https://github.com/yachtida/nospacekey/releases/download/'' @ tag @ ascii ''/'' @ name"

definition is_exact_release_asset_url :: "ustring \<Rightarrow> ustring \<Rightarrow> ustring \<Rightarrow> bool" where
  "is_exact_release_asset_url url tag name \<longleftrightarrow> url = exact_url tag name"

definition validate_release_assets ::
  "update_lib \<Rightarrow> github_release \<Rightarrow> app_version \<Rightarrow> (installer_asset \<times> installer_asset) option"
where
  "validate_release_assets L release version =
     (case pick_installer_asset L (gr_assets release) (format_version version) of
        None \<Rightarrow> None
      | Some installer \<Rightarrow>
          (case pick_sums_asset L (gr_assets release) of
             None \<Rightarrow> None
           | Some sums \<Rightarrow>
               (if \<not> is_exact_release_asset_url (ia_url installer) (gr_tag release) (ia_name installer)
                   \<or> \<not> is_exact_release_asset_url (ia_url sums) (gr_tag release) (ia_name sums)
                then None else Some (installer, sums))))"

definition select_installable_release ::
  "update_lib \<Rightarrow> github_release list \<Rightarrow> app_version \<Rightarrow> bool \<Rightarrow> installable_release option"
where
  "select_installable_release L items current include_beta =
     (case select_latest_release L items include_beta of
        None \<Rightarrow> None
      | Some (version, index) \<Rightarrow>
          (if compare_versions L version current \<noteq> OrdGreater then None
           else let release = items ! index
             in case validate_release_assets L release version of
                  None \<Rightarrow> None
                | Some (installer, sums) \<Rightarrow>
                    Some \<lparr>inst_version = version,
                      inst_channel = (if ver_pre version \<noteq> None then ChannelBeta else ChannelStable),
                      inst_installer = installer, inst_sums = sums, inst_tag = gr_tag release,
                      inst_notes = gr_body release\<rparr>))"

section \<open>Checksums\<close>

definition is_hex_digit :: "uchar \<Rightarrow> bool" where
  "is_hex_digit c \<longleftrightarrow> is_ascii_digit c \<or> 0x41 \<le> c \<and> c \<le> 0x46 \<or> 0x61 \<le> c \<and> c \<le> 0x66"

definition is_valid_sha256_hex :: "ustring \<Rightarrow> bool" where
  "is_valid_sha256_hex s \<longleftrightarrow> byte_len s = 64 \<and> list_all is_hex_digit s"

definition ascii_lower :: "ustring \<Rightarrow> ustring" where
  "ascii_lower s = map (\<lambda>c. if is_ascii_uppercase c then c + 0x20 else c) s"

definition eq_ignore_ascii_case :: "ustring \<Rightarrow> ustring \<Rightarrow> bool" where
  "eq_ignore_ascii_case a b \<longleftrightarrow> ascii_lower a = ascii_lower b"

fun words_from :: "ustring \<Rightarrow> ustring \<Rightarrow> ustring list" where
  "words_from w [] = (if w = [] then [] else [w])"
| "words_from w (c # s) =
     (if is_white_space c then (if w = [] then words_from [] s else w # words_from [] s)
      else words_from (w @ [c]) s)"

definition split_whitespace :: "ustring \<Rightarrow> ustring list" where
  "split_whitespace s = words_from [] s"

text \<open>The hash of a line for the file: its first word, when its last word, another one, names the file.\<close>

definition line_hash :: "ustring \<Rightarrow> ustring \<Rightarrow> ustring option" where
  "line_hash target line =
     (case split_whitespace line of
        hash # x # rest \<Rightarrow>
          (let name = last (x # rest)
           in if (case strip_prefix name (ascii ''*'') of Some r \<Rightarrow> r | None \<Rightarrow> name) \<noteq> target
                 \<or> \<not> is_valid_sha256_hex hash then None
              else Some hash)
      | _ \<Rightarrow> None)"

fun sums_from :: "ustring \<Rightarrow> ustring option \<Rightarrow> ustring list \<Rightarrow> ustring option" where
  "sums_from target found [] = found"
| "sums_from target found (line # rest) =
     (case line_hash target line of
        None \<Rightarrow> sums_from target found rest
      | Some hash \<Rightarrow>
          (case found of
             Some existing \<Rightarrow>
               (if \<not> eq_ignore_ascii_case existing hash then None else sums_from target found rest)
           | None \<Rightarrow> sums_from target (Some hash) rest))"

definition parse_sha256sums :: "ustring \<Rightarrow> ustring \<Rightarrow> ustring option" where
  "parse_sha256sums t target = sums_from target None (str_lines t)"

section \<open>The address at the download\<close>

definition validate_installer_asset_url :: "update_lib \<Rightarrow> ustring \<Rightarrow> app_version \<Rightarrow> ustring + unit" where
  "validate_installer_asset_url L value current =
     (if \<not> is_official_release_asset_url L value then Inl (ascii ''not official'')
      else case ul_url L value of
        None \<Rightarrow> Inl (ascii ''not parsed'')
      | Some url \<Rightarrow>
          (case url_segments url of
             None \<Rightarrow> Inl (ascii ''bad path'')
           | Some segments \<Rightarrow>
               (case segments of
                  [a, b, c, d, tag, file] \<Rightarrow>
                    (if [a, b, c, d] \<noteq> official_segments then Inl (ascii ''bad release path'')
                     else case parse_version L tag of
                       None \<Rightarrow> Inl (ascii ''bad tag'')
                     | Some version \<Rightarrow>
                         (if compare_versions L version current \<noteq> OrdGreater then Inl (ascii ''not newer'')
                          else if file \<noteq> setup_name (format_version version) \<and> file \<noteq> devsigned_name (format_version version)
                               then Inl (ascii ''bad name'') else Inr ()))
                | _ \<Rightarrow> Inl (ascii ''bad release path''))))"

end
