(* ===== verification/Update_Checker.thy ===== *)
theory Update_Checker
  imports Update_Releases Dictionary_Commands
begin

text \<open>
  The update checker: its state and throttle (\<open>crates/update/src/state.rs\<close>), the response it reads
  (\<open>client.rs\<close>), the notice it shows (\<open>notification.rs\<close>) and one run of it (\<open>main.rs\<close>), with its effects in
  the order they happen. Times are nanoseconds; the library of dates is the parameter \<open>C\<close>.
\<close>

section \<open>State and throttle\<close>

record date_lib =
  cl_parse :: "ustring \<Rightarrow> int option"
  cl_format :: "int \<Rightarrow> ustring"
  cl_rfc2822 :: "ustring \<Rightarrow> int option"
  cl_of_seconds :: "int \<Rightarrow> int option"
  cl_add_seconds :: "int \<Rightarrow> int \<Rightarrow> int option"

definition nanos :: "int \<Rightarrow> int" where "nanos seconds = seconds * 1000000000"

definition update_check_interval :: int where "update_check_interval = nanos (6 * 60 * 60)"
definition update_state_schema_version :: nat where "update_state_schema_version = 1"

record notification_tuple =
  nt_installed :: ustring
  nt_available :: ustring
  nt_channel :: ustring

record update_state =
  us_schema :: nat
  us_last_check :: "ustring option"
  us_retry :: "ustring option"
  us_notified :: "notification_tuple option"

definition update_state_default :: update_state where
  "update_state_default = \<lparr>us_schema = update_state_schema_version, us_last_check = None, us_retry = None,
     us_notified = None\<rparr>"

definition parse_time :: "date_lib \<Rightarrow> ustring option \<Rightarrow> int option" where
  "parse_time C value = Option.bind value (cl_parse C)"

definition should_throttle :: "date_lib \<Rightarrow> update_state \<Rightarrow> int \<Rightarrow> bool" where
  "should_throttle C s now =
     (if (case parse_time C (us_retry s) of Some retry \<Rightarrow> now < retry | None \<Rightarrow> False) then True
      else case parse_time C (us_last_check s) of
        None \<Rightarrow> False
      | Some previous \<Rightarrow> (if now < previous then False else now - previous < update_check_interval))"

definition mark_success :: "date_lib \<Rightarrow> update_state \<Rightarrow> int \<Rightarrow> int option \<Rightarrow> update_state" where
  "mark_success C s now retry =
     s\<lparr>us_last_check := Some (cl_format C now), us_retry := map_option (cl_format C) retry\<rparr>"

definition notification_was_sent :: "update_state \<Rightarrow> notification_tuple \<Rightarrow> bool" where
  "notification_was_sent s tuple \<longleftrightarrow> us_notified s = Some tuple"

text \<open>A file that is not a state of this schema is put aside; if that fails the load fails.\<close>

datatype state_file = StateMissing | StateUnreadable | StateText ustring

definition state_load ::
  "(ustring \<Rightarrow> update_state option) \<Rightarrow> bool \<Rightarrow> state_file \<Rightarrow> update_state option"
where
  "state_load json quarantine_ok file =
     (case file of
        StateMissing \<Rightarrow> Some update_state_default
      | StateUnreadable \<Rightarrow> None
      | StateText t \<Rightarrow>
          (case json t of
             Some s \<Rightarrow>
               (if us_schema s = update_state_schema_version then Some s
                else if quarantine_ok then Some update_state_default else None)
           | None \<Rightarrow> (if quarantine_ok then Some update_state_default else None)))"

section \<open>The response\<close>

definition max_response_bytes :: nat where "max_response_bytes = 2 * 1024 * 1024"

datatype client_error = CeRequest | CeHttp nat "int option" | CeTooLarge | CeBody | CeJson

fun read_body :: "octet list \<Rightarrow> octet list option list \<Rightarrow> client_error + octet list" where
  "read_body body [] = Inr body"
| "read_body body (None # chunks) = Inl CeBody"
| "read_body body (Some chunk # chunks) =
     (if max_response_bytes < length body + length chunk then Inl CeTooLarge
      else read_body (body @ chunk) chunks)"

text \<open>\<open>parse::<i64>\<close>.\<close>

definition parse_i64 :: "ustring \<Rightarrow> int option" where
  "parse_i64 s =
     (case strip_prefix s (ascii ''-'') of
        Some r \<Rightarrow> (if starts_with r (ascii ''+'') then None
          else map_option (\<lambda>n. - int n) (parse_unsigned (2 ^ 63) r))
      | None \<Rightarrow> map_option int (parse_unsigned (2 ^ 63 - 1) s))"

text \<open>When to ask again; the addition of the seconds panics when the library cannot represent the sum.\<close>

datatype 'a may_panic = Panics | Gives 'a

definition retry_not_before ::
  "date_lib \<Rightarrow> int \<Rightarrow> ustring option \<Rightarrow> ustring option \<Rightarrow> int option may_panic"
where
  "retry_not_before C now retry_after reset =
     (let from_reset = Option.bind reset (\<lambda>v. Option.bind (parse_i64 v) (cl_of_seconds C))
      in case retry_after of
           None \<Rightarrow> Gives from_reset
         | Some value \<Rightarrow>
             (case parse_i64 (trim_matches is_white_space value) of
                Some seconds \<Rightarrow>
                  (case cl_add_seconds C now (max seconds 0) of None \<Rightarrow> Panics | Some t \<Rightarrow> Gives (Some t))
              | None \<Rightarrow>
                  (case cl_rfc2822 C value of Some t \<Rightarrow> Gives (Some t) | None \<Rightarrow> Gives from_reset)))"

record http_response =
  hr_status :: nat
  hr_retry_after :: "ustring option"
  hr_reset :: "ustring option"
  hr_length :: "nat option"
  hr_chunks :: "octet list option list"

definition fetch_url_impl ::
  "date_lib \<Rightarrow> (octet list \<Rightarrow> github_release list option) \<Rightarrow> int \<Rightarrow> http_response option
   \<Rightarrow> (client_error + github_release list) may_panic"
where
  "fetch_url_impl C json now response =
     (case response of
        None \<Rightarrow> Gives (Inl CeRequest)
      | Some r \<Rightarrow>
          (if \<not> (200 \<le> hr_status r \<and> hr_status r < 300) then
             (if hr_status r = 403 \<or> hr_status r = 429 then
                (case retry_not_before C now (hr_retry_after r) (hr_reset r) of
                   Panics \<Rightarrow> Panics
                 | Gives retry \<Rightarrow> Gives (Inl (CeHttp (hr_status r) retry)))
              else Gives (Inl (CeHttp (hr_status r) None)))
           else if (case hr_length r of Some l \<Rightarrow> max_response_bytes < l | None \<Rightarrow> False) then Gives (Inl CeTooLarge)
           else case read_body [] (hr_chunks r) of
             Inl e \<Rightarrow> Gives (Inl e)
           | Inr body \<Rightarrow> (case json body of Some releases \<Rightarrow> Gives (Inr releases) | None \<Rightarrow> Gives (Inl CeJson))))"

section \<open>The notice\<close>

definition replace_char :: "uchar \<Rightarrow> ustring \<Rightarrow> ustring \<Rightarrow> ustring" where
  "replace_char c r s = concat (map (\<lambda>x. if x = c then r else [x]) s)"

definition xml_escape :: "ustring \<Rightarrow> ustring" where
  "xml_escape value =
     replace_char 0x27 (ascii ''&apos;'') (replace_char 0x22 (ascii ''&quot;'') (replace_char 0x3e (ascii ''&gt;'')
       (replace_char 0x3c (ascii ''&lt;'') (replace_char 0x26 (ascii ''&amp;'') value))))"

definition update_uri :: ustring where "update_uri = ascii ''nospacekey://update''"

definition toast_payload :: "app_version \<Rightarrow> ustring" where
  "toast_payload version =
     (let quote = [0x22]; uri = quote @ xml_escape update_uri @ quote
      in ascii ''<toast activationType='' @ quote @ ascii ''protocol'' @ quote @ ascii '' launch='' @ uri
         @ ascii ''><visual><binding template='' @ quote @ ascii ''ToastGeneric'' @ quote @ ascii ''><text>nospacekey ''
         @ xml_escape (format_version version)
         @ [0x20, 0x304c, 0x5229, 0x7528, 0x53ef, 0x80fd, 0x3067, 0x3059]
         @ ascii ''</text></binding></visual><actions><action content='' @ quote
         @ [0x30a2, 0x30c3, 0x30d7, 0x30c7, 0x30fc, 0x30c8] @ quote
         @ ascii '' activationType='' @ quote @ ascii ''protocol'' @ quote @ ascii '' arguments='' @ uri
         @ ascii ''/></actions></toast>'')"

section \<open>A run\<close>

definition exit_ok :: nat where "exit_ok = 0"
definition exit_state :: nat where "exit_state = 10"
definition exit_network :: nat where "exit_network = 20"
definition exit_toast :: nat where "exit_toast = 30"
definition exit_panic :: nat where "exit_panic = 40"

lemmas exit_defs = exit_ok_def exit_state_def exit_network_def exit_toast_def exit_panic_def

text \<open>The effects of a run: a request, the removal of an old notice, a notice and whether it was accepted, and a
  save and whether it worked.\<close>

datatype check_effect = EffFetch | EffRemoveStale | EffSubmit ustring bool | EffSave update_state bool

definition save_then :: "bool \<Rightarrow> update_state \<Rightarrow> check_effect list \<Rightarrow> nat \<Rightarrow> nat \<times> check_effect list" where
  "save_then save_ok s effects code =
     (if save_ok then (code, effects @ [EffSave s True]) else (exit_state, effects @ [EffSave s False]))"

definition tuple_of :: "app_version \<Rightarrow> installable_release \<Rightarrow> notification_tuple" where
  "tuple_of current r = \<lparr>nt_installed = format_version current, nt_available = format_version (inst_version r),
     nt_channel = channel_text (inst_channel r)\<rparr>"

definition run_flow ::
  "update_lib \<Rightarrow> date_lib \<Rightarrow> bool \<Rightarrow> bool \<Rightarrow> app_version \<Rightarrow> update_state \<Rightarrow> int
   \<Rightarrow> client_error + github_release list \<Rightarrow> bool \<Rightarrow> bool \<Rightarrow> nat \<times> check_effect list"
where
  "run_flow L C automatic_check include_beta current s now fetched submit_ok save_ok =
     (if \<not> automatic_check then (exit_ok, [])
      else if should_throttle C s now then (exit_ok, [])
      else case fetched of
        Inl (CeHttp status retry) \<Rightarrow>
          (if status = 403 \<or> status = 429
           then save_then save_ok (s\<lparr>us_retry := map_option (cl_format C) retry\<rparr>) [EffFetch] exit_network
           else (exit_network, [EffFetch]))
      | Inl _ \<Rightarrow> (exit_network, [EffFetch])
      | Inr releases \<Rightarrow>
          (let s = mark_success C s now None
           in case select_installable_release L releases current include_beta of
                None \<Rightarrow> save_then save_ok s [EffFetch, EffRemoveStale] exit_ok
              | Some candidate \<Rightarrow>
                  (let tuple = tuple_of current candidate
                   in if notification_was_sent s tuple then save_then save_ok s [EffFetch] exit_ok
                      else let payload = toast_payload (inst_version candidate)
                        in if \<not> submit_ok then save_then save_ok s [EffFetch, EffSubmit payload False] exit_toast
                           else save_then save_ok (s\<lparr>us_notified := Some tuple\<rparr>)
                             [EffFetch, EffSubmit payload True] exit_ok)))"

section \<open>The whole program\<close>

record update_settings =
  up_automatic :: bool
  up_beta :: bool

type_synonym settings_read = "update_settings \<times> load_outcome"

definition readable_outcome :: "load_outcome \<Rightarrow> bool" where
  "readable_outcome outcome \<longleftrightarrow> outcome = OutcomeLoaded \<or> outcome = OutcomeMissing"

definition settings_after_lock :: "update_settings \<Rightarrow> settings_read \<Rightarrow> nat + update_settings option" where
  "settings_after_lock initial reload =
     (if \<not> up_automatic initial then Inr None
      else let (settings, outcome) = reload
        in if \<not> readable_outcome outcome then Inl exit_state
           else if up_automatic settings then Inr (Some settings) else Inr None)"

datatype lock_result = LockTaken | LockHeld | LockFailed

record check_world =
  cw_first :: settings_read
  cw_path :: bool
  cw_lock :: lock_result
  cw_second :: settings_read
  cw_load :: "update_state option"
  cw_third :: settings_read
  cw_version :: "app_version option"
  cw_client :: bool
  cw_runtime :: bool
  cw_now :: int
  cw_fetched :: "(client_error + github_release list) may_panic"
  cw_submit :: bool
  cw_save :: bool

definition run_inner :: "update_lib \<Rightarrow> date_lib \<Rightarrow> check_world \<Rightarrow> (nat \<times> check_effect list) may_panic" where
  "run_inner L C w =
     (let (initial, outcome) = cw_first w
      in if \<not> readable_outcome outcome then Gives (exit_state, [])
         else if \<not> up_automatic initial then Gives (exit_ok, [])
         else if \<not> cw_path w then Gives (exit_state, [])
         else case cw_lock w of
           LockHeld \<Rightarrow> Gives (exit_ok, [])
         | LockFailed \<Rightarrow> Gives (exit_state, [])
         | LockTaken \<Rightarrow>
             (case settings_after_lock initial (cw_second w) of
                Inl code \<Rightarrow> Gives (code, [])
              | Inr None \<Rightarrow> Gives (exit_ok, [])
              | Inr (Some settings) \<Rightarrow>
                  (case cw_load w of
                     None \<Rightarrow> Gives (exit_state, [])
                   | Some s \<Rightarrow>
                       (case settings_after_lock settings (cw_third w) of
                          Inl code \<Rightarrow> Gives (code, [])
                        | Inr None \<Rightarrow> Gives (exit_ok, [])
                        | Inr (Some settings) \<Rightarrow>
                            (case cw_version w of
                               None \<Rightarrow> Gives (exit_network, [])
                             | Some current \<Rightarrow>
                                 (if \<not> cw_client w \<or> \<not> cw_runtime w then Gives (exit_network, [])
                                  else case cw_fetched w of
                                    Gives fetched \<Rightarrow>
                                      Gives (run_flow L C (up_automatic settings) (up_beta settings) current s (cw_now w)
                                        fetched (cw_submit w) (cw_save w))
                                  | Panics \<Rightarrow>
                                      (if should_throttle C s (cw_now w) then Gives (exit_ok, []) else Panics)))))))"

text \<open>A panic is caught and gives its own exit code; the request was made, nothing was saved.\<close>

definition checker_run :: "update_lib \<Rightarrow> date_lib \<Rightarrow> check_world \<Rightarrow> nat \<times> check_effect list" where
  "checker_run L C w = (case run_inner L C w of Gives r \<Rightarrow> r | Panics \<Rightarrow> (exit_panic, [EffFetch]))"

end
