(* ===== verification/Update_Releases_Spec.thy ===== *)
theory Update_Releases_Spec
  imports Update_Releases
begin

text \<open>
  What the choice of a release guarantees: the offered release is genuine, complete and the newest one, the
  download accepts what was offered, and an accepted checksum is unambiguous.
\<close>

section \<open>The newest release\<close>

text \<open>What is relied on of the version library: what it parsed can be written and parsed again, and its order
  is an order.\<close>

definition semver_order :: "update_lib \<Rightarrow> bool" where
  "semver_order L \<longleftrightarrow>
     (\<forall>s v. ul_semver L s = Some v \<longrightarrow> as_semver L (from_semver v) \<noteq> None)
     \<and> (\<forall>a b c. ul_cmp L a b = OrdGreater \<longrightarrow> ul_cmp L b c = OrdGreater \<longrightarrow> ul_cmp L a c = OrdGreater)
     \<and> (\<forall>a. ul_cmp L a a \<noteq> OrdGreater)"

definition eligible :: "update_lib \<Rightarrow> bool \<Rightarrow> github_release \<Rightarrow> app_version \<Rightarrow> bool" where
  "eligible L include_beta item v \<longleftrightarrow>
     \<not> gr_draft item \<and> parse_version L (gr_tag item) = Some v \<and> gr_prerelease item = (ver_pre v \<noteq> None)
     \<and> (include_beta \<or> ver_pre v = None)"

lemma matches_eligible:
  "\<not> gr_draft item \<and> parse_version L (gr_tag item) = Some v
     \<and> release_matches_channel item v (if include_beta then ChannelBeta else ChannelStable)
   \<longleftrightarrow> eligible L include_beta item v"
  by (auto simp: eligible_def release_matches_channel_def)

lemma eligible_parsed: "semver_order L \<Longrightarrow> eligible L beta item v \<Longrightarrow> as_semver L v \<noteq> None"
  by (auto simp: eligible_def parse_version_def semver_order_def Let_def)

lemma compare_parsed:
  assumes "semver_order L" "as_semver L a \<noteq> None" "as_semver L b \<noteq> None" "as_semver L c \<noteq> None"
  shows "compare_versions L a b = OrdGreater \<Longrightarrow> compare_versions L b c = OrdGreater \<Longrightarrow> compare_versions L a c = OrdGreater"
    "compare_versions L a a \<noteq> OrdGreater"
  using assms by (auto simp: compare_versions_def semver_order_def split: option.splits)

lemma better_release_cases:
  "better_release L (if beta then ChannelBeta else ChannelStable) best (index, item) =
     (if \<exists>v. eligible L beta item v
      then (let v = the (parse_version L (gr_tag item)) in
        case best of None \<Rightarrow> Some (v, index)
        | Some (current, _) \<Rightarrow> if compare_versions L v current = OrdGreater then Some (v, index) else best)
      else best)"
  by (auto simp: better_release_def eligible_def release_matches_channel_def Let_def split: option.split)

text \<open>What holds of the best release so far.\<close>

definition best_of :: "update_lib \<Rightarrow> bool \<Rightarrow> github_release list \<Rightarrow> (app_version \<times> nat) option \<Rightarrow> bool" where
  "best_of L beta items best \<longleftrightarrow>
     (case best of
        None \<Rightarrow> \<forall>item\<in>set items. \<forall>v. \<not> eligible L beta item v
      | Some (v, i) \<Rightarrow> i < length items \<and> eligible L beta (items ! i) v
          \<and> (\<forall>item\<in>set items. \<forall>w. eligible L beta item w \<longrightarrow> compare_versions L w v \<noteq> OrdGreater))"

lemma best_of_snoc:
  assumes "semver_order L" "best_of L beta items best"
  shows "best_of L beta (items @ [item])
    (better_release L (if beta then ChannelBeta else ChannelStable) best (length items, item))"
proof (cases "\<exists>v. eligible L beta item v")
  case False
  then show ?thesis using assms(2)
    by (auto simp: best_of_def better_release_cases nth_append split: option.splits)
next
  case True
  then obtain v where v: "eligible L beta item v" by blast
  then have p: "parse_version L (gr_tag item) = Some v" by (simp add: eligible_def)
  have only: "w = v" if "eligible L beta item w" for w using that p by (simp add: eligible_def)
  have pv: "as_semver L v \<noteq> None" by (rule eligible_parsed [OF assms(1) v])
  show ?thesis
  proof (cases best)
    case None
    have step: "better_release L (if beta then ChannelBeta else ChannelStable) best (length items, item) = Some (v, length items)"
      unfolding better_release_cases using True p None by simp
    have "\<forall>x\<in>set items. \<forall>w. \<not> eligible L beta x w" using assms(2) None by (simp add: best_of_def)
    then have all: "\<forall>x\<in>set (items @ [item]). \<forall>w. eligible L beta x w \<longrightarrow> compare_versions L w v \<noteq> OrdGreater"
      using only compare_parsed(2) [OF assms(1) pv pv pv] by auto
    show ?thesis unfolding step best_of_def using v all by simp
  next
    case (Some b)
    obtain c i where b: "b = (c, i)" by (rule prod.exhaust)
    have c: "i < length items" "eligible L beta (items ! i) c"
      "\<And>x w. x \<in> set items \<Longrightarrow> eligible L beta x w \<Longrightarrow> compare_versions L w c \<noteq> OrdGreater"
      using assms(2) Some b by (auto simp: best_of_def)
    have pc: "as_semver L c \<noteq> None" by (rule eligible_parsed [OF assms(1) c(2)])
    show ?thesis
    proof (cases "compare_versions L v c = OrdGreater")
      case greater: True
      have "compare_versions L w v \<noteq> OrdGreater" if "x \<in> set items" "eligible L beta x w" for x w
        using compare_parsed(1) [OF assms(1) eligible_parsed [OF assms(1) that(2)] pv pc] greater c(3) [OF that] by blast
      then have all: "\<forall>x\<in>set (items @ [item]). \<forall>w. eligible L beta x w \<longrightarrow> compare_versions L w v \<noteq> OrdGreater"
        using only compare_parsed(2) [OF assms(1) pv pv pv] by auto
      have step: "better_release L (if beta then ChannelBeta else ChannelStable) best (length items, item) = Some (v, length items)"
        unfolding better_release_cases using True p Some b greater by simp
      show ?thesis unfolding step best_of_def using v all by simp
    next
      case False
      then have all: "\<forall>x\<in>set (items @ [item]). \<forall>w. eligible L beta x w \<longrightarrow> compare_versions L w c \<noteq> OrdGreater"
        using only c(3) by auto
      have step: "better_release L (if beta then ChannelBeta else ChannelStable) best (length items, item) = Some (c, i)"
        unfolding better_release_cases using True p Some b False by simp
      show ?thesis unfolding step best_of_def using c(1,2) all by (simp add: nth_append)
    qed
  qed
qed

lemma select_latest_best: "semver_order L \<Longrightarrow> best_of L beta items (select_latest_release L items beta)"
proof (induction items rule: rev_induct)
  case Nil
  then show ?case by (simp add: select_latest_release_def best_of_def)
next
  case (snoc item items)
  then show ?case using best_of_snoc [OF snoc.prems snoc.IH [OF snoc.prems]]
    by (simp add: select_latest_release_def Let_def enumerate_append_eq)
qed

section \<open>The assets\<close>

lemma pick_installer_from_genuine:
  assumes "pick_installer_from L version fallback as = Some x"
  shows "fallback = Some x \<or> (\<exists>a\<in>set as. is_uploaded a \<and> is_official_release_asset_url L (ga_url a) \<and> asset_to a = x
    \<and> ga_name a \<in> {setup_name version, devsigned_name version})"
  using assms
proof (induction L version fallback as rule: pick_installer_from.induct)
  case (2 L version fallback a as)
  then show ?case by (fastforce split: if_splits)
qed simp

lemma pick_installer_genuine:
  assumes "pick_installer_asset L as version = Some x"
  shows "\<exists>a\<in>set as. is_uploaded a \<and> is_official_release_asset_url L (ga_url a) \<and> asset_to a = x
    \<and> ga_name a \<in> {setup_name version, devsigned_name version}"
  using pick_installer_from_genuine [of L version None as x] assms by (simp add: pick_installer_asset_def)

lemma pick_sums_genuine:
  assumes "pick_sums_asset L as = Some x"
  shows "\<exists>a\<in>set as. is_uploaded a \<and> is_official_release_asset_url L (ga_url a) \<and> asset_to a = x
    \<and> ga_name a = ascii ''SHA256SUMS.txt''"
  using assms by (auto simp: pick_sums_asset_def find_Some_iff intro: nth_mem)

lemma asset_to_sel [simp]: "ia_name (asset_to a) = ga_name a" "ia_url (asset_to a) = ga_url a"
  by (simp_all add: asset_to_def)

lemma validated_assets:
  assumes "validate_release_assets L release v = Some (installer, sums)"
  shows "pick_installer_asset L (gr_assets release) (format_version v) = Some installer"
    "pick_sums_asset L (gr_assets release) = Some sums"
    "ia_url installer = exact_url (gr_tag release) (ia_name installer)"
    "ia_url sums = exact_url (gr_tag release) (ia_name sums)"
  using assms by (auto simp: validate_release_assets_def is_exact_release_asset_url_def split: option.splits if_splits)

lemma selected_parts:
  assumes "select_installable_release L items current beta = Some r"
  obtains v i where "select_latest_release L items beta = Some (v, i)" "inst_version r = v"
    "compare_versions L v current = OrdGreater" "inst_tag r = gr_tag (items ! i)"
    "validate_release_assets L (items ! i) v = Some (inst_installer r, inst_sums r)"
  using assms by (auto simp: select_installable_release_def Let_def split: option.splits if_splits prod.splits)

text \<open>C25: the offered release is genuine and the newest. It is a published release whose tag is its
  version, newer than the installed one, a pre-release only for those who asked for one and only when it is
  marked as such; its installer and its checksums are uploaded assets with the exact names and addresses of
  that release; and no other eligible release is newer.\<close>

theorem offered_release_genuine:
  assumes "semver_order L" "select_installable_release L items current include_beta = Some r"
  shows "\<exists>item\<in>set items. eligible L include_beta item (inst_version r) \<and> inst_tag r = gr_tag item
      \<and> compare_versions L (inst_version r) current = OrdGreater
      \<and> (\<exists>a\<in>set (gr_assets item). is_uploaded a \<and> asset_to a = inst_installer r
           \<and> ga_name a \<in> {setup_name (format_version (inst_version r)), devsigned_name (format_version (inst_version r))}
           \<and> ga_url a = exact_url (gr_tag item) (ga_name a))
      \<and> (\<exists>a\<in>set (gr_assets item). is_uploaded a \<and> asset_to a = inst_sums r
           \<and> ga_name a = ascii ''SHA256SUMS.txt'' \<and> ga_url a = exact_url (gr_tag item) (ga_name a))
      \<and> (\<forall>other\<in>set items. \<forall>v. eligible L include_beta other v \<longrightarrow> compare_versions L v (inst_version r) \<noteq> OrdGreater)"
proof -
  from assms(2) obtain v i where s: "select_latest_release L items include_beta = Some (v, i)" "inst_version r = v"
    "compare_versions L v current = OrdGreater" "inst_tag r = gr_tag (items ! i)"
    "validate_release_assets L (items ! i) v = Some (inst_installer r, inst_sums r)" by (rule selected_parts)
  have b: "i < length items" "eligible L include_beta (items ! i) v"
    "\<forall>item\<in>set items. \<forall>w. eligible L include_beta item w \<longrightarrow> compare_versions L w v \<noteq> OrdGreater"
    using select_latest_best [OF assms(1), of include_beta items] s(1) by (auto simp: best_of_def)
  note a = validated_assets [OF s(5)]
  from pick_installer_genuine [OF a(1)] obtain x where x: "x \<in> set (gr_assets (items ! i))" "is_uploaded x"
    "asset_to x = inst_installer r" "ga_name x \<in> {setup_name (format_version v), devsigned_name (format_version v)}" by blast
  from pick_sums_genuine [OF a(2)] obtain y where y: "y \<in> set (gr_assets (items ! i))" "is_uploaded y"
    "asset_to y = inst_sums r" "ga_name y = ascii ''SHA256SUMS.txt''" by blast
  have u: "ga_url x = exact_url (gr_tag (items ! i)) (ga_name x)" "ga_url y = exact_url (gr_tag (items ! i)) (ga_name y)"
    using a(3,4) by (simp_all flip: x(3) y(3))
  show ?thesis
    unfolding s(2) using nth_mem [OF b(1)] b(2,3) s(3,4) x y u by blast
qed

section \<open>The download accepts the offer\<close>

definition plain_text :: "ustring \<Rightarrow> bool" where
  "plain_text s \<longleftrightarrow> s \<notin> {[], dot, dot @ dot}
     \<and> list_all (\<lambda>c. is_ascii_digit c \<or> is_ascii_uppercase c \<or> is_ascii_lowercase c \<or> c \<in> {0x2b, 0x2d, 0x2e}) s"

text \<open>What is relied on of the address library: an address made of plain parts is taken apart into them.\<close>

definition plain_addresses :: "update_lib \<Rightarrow> bool" where
  "plain_addresses L \<longleftrightarrow> (\<forall>tag name. plain_text tag \<longrightarrow> plain_text name \<longrightarrow>
     ul_url L (exact_url tag name) = Some \<lparr>url_scheme = ascii ''https'', url_host = Some (ascii ''github.com''),
       url_port = None, url_username = [], url_password = None, url_query = None, url_fragment = None,
       url_segments = Some (official_segments @ [tag, name])\<rparr>)"

text \<open>The download accepts what was offered: the address of the offered installer passes the check made
  before the program is downloaded and started.\<close>

theorem offer_accepted:
  assumes "semver_order L" "plain_addresses L" "select_installable_release L items current include_beta = Some r"
    and "plain_text (inst_tag r)" "plain_text (ia_name (inst_installer r))"
  shows "validate_installer_asset_url L (ia_url (inst_installer r)) current = Inr ()"
proof -
  from assms(3) obtain v i where l: "select_latest_release L items include_beta = Some (v, i)"
    and s: "inst_version r = v" "compare_versions L v current = OrdGreater"
    "inst_tag r = gr_tag (items ! i)" "validate_release_assets L (items ! i) v = Some (inst_installer r, inst_sums r)"
    by (rule selected_parts)
  have parsed: "parse_version L (inst_tag r) = Some v"
    using select_latest_best [OF assms(1), of include_beta items] l s(3) by (simp add: best_of_def eligible_def)
  note a = validated_assets [OF s(4)]
  have name: "ia_name (inst_installer r) \<in> {setup_name (format_version v), devsigned_name (format_version v)}"
    using pick_installer_genuine [OF a(1)] by (metis asset_to_sel(1))
  let ?u = "\<lparr>url_scheme = ascii ''https'', url_host = Some (ascii ''github.com''),
       url_port = None, url_username = [], url_password = None, url_query = None, url_fragment = None,
       url_segments = Some (official_segments @ [inst_tag r, ia_name (inst_installer r)])\<rparr>"
  have u: "ul_url L (ia_url (inst_installer r)) = Some ?u"
    using assms(2,4,5) a(3) s(3) by (simp add: plain_addresses_def)
  have p: "0x25 \<notin> set x" "x \<noteq> []" if "plain_text x" for x
    using that by (auto simp: plain_text_def list_all_iff is_ascii_digit_def is_ascii_uppercase_def is_ascii_lowercase_def)
  have "is_official_release_asset_url L (ia_url (inst_installer r))"
    using u p assms(4,5) by (simp add: is_official_release_asset_url_def official_segments_def)
  then show ?thesis
    using u parsed s(2) name by (auto simp: validate_installer_asset_url_def official_segments_def)
qed

section \<open>Checksums\<close>

lemma sums_from_found:
  "sums_from target (Some h) lines =
     (if \<forall>x\<in>set (List.map_filter (line_hash target) lines). eq_ignore_ascii_case h x then Some h else None)"
  by (induction lines) (auto simp: List.map_filter_def split: option.split)

lemma sums_from_start:
  "sums_from target None lines =
     (case List.map_filter (line_hash target) lines of
        [] \<Rightarrow> None
      | h # hs \<Rightarrow> if \<forall>x\<in>set hs. eq_ignore_ascii_case h x then Some h else None)"
  by (induction lines) (auto simp: List.map_filter_def sums_from_found split: option.split)

text \<open>A checksum is accepted only when it is unambiguous: it is the hash of the first line for the file,
  sixty-four hexadecimal digits, and every other line for the file gives the same hash up to the case of its
  letters; a single line that disagrees leaves no checksum at all.\<close>

theorem checksum_unambiguous:
  "parse_sha256sums t target = Some h \<longleftrightarrow>
     (\<exists>hs. List.map_filter (line_hash target) (str_lines t) = h # hs
        \<and> is_valid_sha256_hex h \<and> list_all (eq_ignore_ascii_case h) hs)"
proof -
  have valid: "is_valid_sha256_hex x" if "line_hash target l = Some x" for l x
    using that by (auto simp: line_hash_def Let_def split: list.splits if_splits)
  have "is_valid_sha256_hex h" if "List.map_filter (line_hash target) (str_lines t) = h # hs" for hs
  proof -
    have "h \<in> set (List.map_filter (line_hash target) (str_lines t))" using that by simp
    then show ?thesis using valid by (auto simp: List.map_filter_def)
  qed
  then show ?thesis
    by (auto simp: parse_sha256sums_def sums_from_start list_all_iff split: list.splits)
qed

section \<open>An example\<close>

definition address_prefix :: ustring where
  "address_prefix = ascii ''https://github.com/yachtida/nospacekey/releases/download/''"

definition sample_url :: "ustring \<Rightarrow> url_parts option" where
  "sample_url s =
     (case strip_prefix s address_prefix of
        None \<Rightarrow> None
      | Some r \<Rightarrow> Some \<lparr>url_scheme = ascii ''https'', url_host = Some (ascii ''github.com''),
          url_port = None, url_username = [], url_password = None, url_query = None, url_fragment = None,
          url_segments = Some (official_segments @ split_on 0x2f r)\<rparr>)"

definition sample_lib :: update_lib where
  "sample_lib = \<lparr>
     ul_semver = (\<lambda>s. if s = ascii ''1.0.0'' then Some \<lparr>sem_major = 1, sem_minor = 0, sem_patch = 0, sem_pre = []\<rparr>
       else if s = ascii ''2.0.0'' then Some \<lparr>sem_major = 2, sem_minor = 0, sem_patch = 0, sem_pre = []\<rparr> else None),
     ul_cmp = (\<lambda>a b. cmp_nat (sem_major a) (sem_major b)),
     ul_url = sample_url\<rparr>"

definition sample_current :: app_version where
  "sample_current = \<lparr>ver_major = 1, ver_minor = 0, ver_patch = 0, ver_pre = None\<rparr>"

definition sample_name :: ustring where "sample_name = ascii ''nospacekey-setup-2.0.0.exe''"

definition sample_asset :: "ustring \<Rightarrow> github_asset" where
  "sample_asset name = \<lparr>ga_name = name, ga_size = 7, ga_url = exact_url (ascii ''v2.0.0'') name,
     ga_state = Some (ascii ''uploaded'')\<rparr>"

definition sample_release :: github_release where
  "sample_release = \<lparr>gr_tag = ascii ''v2.0.0'', gr_prerelease = False, gr_draft = False, gr_body = [],
     gr_assets = [sample_asset (ascii ''SHA256SUMS.txt''), sample_asset sample_name]\<rparr>"

definition sample_offer :: installable_release where
  "sample_offer = \<lparr>inst_version = \<lparr>ver_major = 2, ver_minor = 0, ver_patch = 0, ver_pre = None\<rparr>, inst_channel = ChannelStable,
     inst_installer = asset_to (sample_asset sample_name), inst_sums = asset_to (sample_asset (ascii ''SHA256SUMS.txt'')),
     inst_tag = ascii ''v2.0.0'', inst_notes = []\<rparr>"

lemma sample_format: "show_nat 0 = [0x30]" "show_nat 1 = [0x31]" "show_nat (Suc 0) = [0x31]" "show_nat 2 = [0x32]"
  by (simp_all add: show_nat.simps)

lemma sample_semver: "semver_order sample_lib"
proof -
  have "as_semver sample_lib (from_semver v) \<noteq> None" if "ul_semver sample_lib s = Some v" for s v
    using that by (auto simp: sample_lib_def as_semver_def from_semver_def sample_format dot_def split: if_splits)
  then show ?thesis by (auto simp: semver_order_def) (auto simp: sample_lib_def cmp_nat_def split: if_splits)
qed

lemma sample_addresses: "plain_addresses sample_lib"
proof -
  have s: "split_on 0x2f (tag @ ascii ''/'' @ name) = [tag, name]" if "plain_text tag" "plain_text name" for tag name
  proof -
    have n: "0x2f \<notin> set tag" "0x2f \<notin> set name"
      using that by (auto simp: plain_text_def list_all_iff is_ascii_digit_def is_ascii_uppercase_def is_ascii_lowercase_def)
    show ?thesis using split_on_append [OF n(1), of name] split_on_fresh [OF n(2)] by simp
  qed
  have "ul_url sample_lib (exact_url tag name) = Some \<lparr>url_scheme = ascii ''https'', url_host = Some (ascii ''github.com''),
       url_port = None, url_username = [], url_password = None, url_query = None, url_fragment = None,
       url_segments = Some (official_segments @ [tag, name])\<rparr>" if "plain_text tag" "plain_text name" for tag name
  proof -
    have "strip_prefix (exact_url tag name) address_prefix = Some (tag @ ascii ''/'' @ name)"
      by (simp only: strip_prefix_Some exact_url_def address_prefix_def)
    then show ?thesis using s [OF that] by (simp add: sample_lib_def sample_url_def)
  qed
  then show ?thesis by (simp add: plain_addresses_def)
qed

lemma sample_plain: "plain_text (ascii ''v2.0.0'')" "plain_text sample_name" "plain_text (ascii ''SHA256SUMS.txt'')"
  by (simp_all add: plain_text_def sample_name_def dot_def is_ascii_digit_def is_ascii_uppercase_def is_ascii_lowercase_def)

lemma sample_official:
  assumes "plain_text name"
  shows "is_official_release_asset_url sample_lib (exact_url (ascii ''v2.0.0'') name)"
proof -
  have "0x25 \<notin> set name" "name \<noteq> []"
    using assms by (auto simp: plain_text_def list_all_iff is_ascii_digit_def is_ascii_uppercase_def is_ascii_lowercase_def)
  moreover have "0x25 \<notin> set (ascii ''v2.0.0'')" "ascii ''v2.0.0'' \<noteq> []" by simp_all
  ultimately show ?thesis
    using sample_addresses sample_plain(1) assms
    by (simp only: plain_addresses_def is_official_release_asset_url_def official_segments_def option.case list.case
        url_parts.simps append.simps simp_thms if_False)
qed

lemma sample_selected: "select_installable_release sample_lib [sample_release] sample_current False = Some sample_offer"
proof -
  let ?v = "\<lparr>ver_major = 2, ver_minor = 0, ver_patch = 0, ver_pre = None\<rparr>"
  have p: "parse_version sample_lib (gr_tag sample_release) = Some ?v"
    by (simp add: parse_version_def sample_lib_def sample_release_def from_semver_def trim_matches_def is_white_space_def
        strip_prefix_def starts_with_def)
  have l: "select_latest_release sample_lib [sample_release] False = Some (?v, 0)"
    using p by (simp add: select_latest_release_def better_release_def release_matches_channel_def)
      (simp add: sample_release_def)
  have c: "compare_versions sample_lib ?v sample_current = OrdGreater"
    by (simp add: compare_versions_def as_semver_def sample_lib_def sample_current_def sample_format dot_def cmp_nat_def)
  have f: "setup_name (format_version ?v) = sample_name"
    by (simp add: setup_name_def format_version_def sample_format dot_def sample_name_def)
  have o: "is_official_release_asset_url sample_lib (ga_url (sample_asset sample_name))"
    "is_official_release_asset_url sample_lib (ga_url (sample_asset (ascii ''SHA256SUMS.txt'')))"
    using sample_official sample_plain by (simp_all add: sample_asset_def)
  have n: "ga_name (sample_asset x) = x" "is_uploaded (sample_asset x)" "ga_url (sample_asset x) = exact_url (ascii ''v2.0.0'') x" for x
    by (simp_all add: sample_asset_def is_uploaded_def)
  have d: "ascii ''SHA256SUMS.txt'' \<noteq> sample_name" "ascii ''SHA256SUMS.txt'' \<noteq> devsigned_name v" for v
    by (simp_all add: sample_name_def devsigned_name_def)
  have "validate_release_assets sample_lib sample_release ?v
      = Some (asset_to (sample_asset sample_name), asset_to (sample_asset (ascii ''SHA256SUMS.txt'')))"
    using o d by (simp add: validate_release_assets_def pick_installer_asset_def pick_sums_asset_def f n
        sample_release_def is_exact_release_asset_url_def del: ascii_simps)
  then show ?thesis using l c
    by (simp add: select_installable_release_def Let_def sample_offer_def) (simp add: sample_release_def)
qed

lemma offered_release_genuine_witness:
  "\<exists>item\<in>set [sample_release]. eligible sample_lib False item (inst_version sample_offer)
     \<and> inst_tag sample_offer = gr_tag item"
  using offered_release_genuine [OF sample_semver sample_selected] by blast

lemma offer_accepted_witness:
  "validate_installer_asset_url sample_lib (ia_url (inst_installer sample_offer)) sample_current = Inr ()"
proof -
  have "plain_text (inst_tag sample_offer)" "plain_text (ia_name (inst_installer sample_offer))"
    using sample_plain by (simp_all add: sample_offer_def sample_asset_def)
  from offer_accepted [OF sample_semver sample_addresses sample_selected this] show ?thesis .
qed

end
