(* ===== verification/Update_Checker_Spec.thy ===== *)
theory Update_Checker_Spec
  imports Update_Checker Update_Releases_Spec
begin

text \<open>
  What a run of the checker guarantees: no request without consent, at most one successful check in six hours,
  one announcement of a version, a bounded response, and text that cannot break out of the notice.
\<close>

section \<open>The response\<close>

lemma read_body_exact:
  "read_body body chunks = Inr whole \<Longrightarrow> length body \<le> max_response_bytes \<Longrightarrow>
     (\<exists>parts. chunks = map Some parts \<and> whole = body @ concat parts) \<and> length whole \<le> max_response_bytes"
proof (induction body chunks rule: read_body.induct)
  case (3 body chunk chunks)
  then have r: "read_body (body @ chunk) chunks = Inr whole" "length (body @ chunk) \<le> max_response_bytes"
    by (auto split: if_splits)
  with 3(1) obtain parts where "chunks = map Some parts" "whole = (body @ chunk) @ concat parts" "length whole \<le> max_response_bytes"
    using 3(2) by (auto split: if_splits)
  then show ?case by (intro conjI exI [of _ "chunk # parts"]) simp_all
qed auto

text \<open>A server that asks for a wait the library cannot represent ends the run with a panic.\<close>

theorem long_wait_panics:
  assumes "cl_add_seconds C now (2 ^ 63 - 1) = None" "hr_status r = 429" "hr_retry_after r = Some (show_nat (2 ^ 63 - 1))"
  shows "fetch_url_impl C json now (Some r) = Panics"
proof -
  let ?s = "show_nat (2 ^ 63 - 1)"
  have d: "0x30 \<le> c \<and> c \<le> 0x39" if "c \<in> set ?s" for c using show_nat_mem [OF that] .
  have w: "\<not> is_white_space c" if "c \<in> set ?s" for c using d [OF that] by (auto simp: is_white_space_def)
  obtain a l where s: "?s = a # l" by (cases ?s) auto
  have "dropWhile is_white_space ?s = ?s" using w s by simp
  moreover have "dropWhile is_white_space (rev ?s) = rev ?s"
    using w by (cases "rev ?s") (auto simp flip: set_rev [of ?s])
  ultimately have t: "trim_matches is_white_space ?s = ?s" by (simp add: trim_matches_def)
  have "strip_prefix ?s (ascii ''-'') = None"
  proof (cases "strip_prefix ?s (ascii ''-'')")
    case (Some x)
    then have "0x2d \<in> set ?s" by (simp add: strip_prefix_Some)
    then show ?thesis using d by fastforce
  qed
  then have "parse_i64 ?s = Some (2 ^ 63 - 1)"
    using parse_show_nat [of "2 ^ 63 - 1" "2 ^ 63 - 1"] by (simp add: parse_i64_def of_nat_diff)
  then show ?thesis using assms t by (simp add: fetch_url_impl_def retry_not_before_def Let_def)
qed

section \<open>The notice\<close>

definition escape_char :: "uchar \<Rightarrow> ustring" where
  "escape_char c =
     (if c = 0x26 then ascii ''&amp;'' else if c = 0x3c then ascii ''&lt;'' else if c = 0x3e then ascii ''&gt;''
      else if c = 0x22 then ascii ''&quot;'' else if c = 0x27 then ascii ''&apos;'' else [c])"

lemma replace_char_append: "replace_char c r (s @ t) = replace_char c r s @ replace_char c r t"
  by (simp add: replace_char_def)

lemma xml_escape_chars: "xml_escape s = concat (map escape_char s)"
proof (induction s)
  case Nil
  show ?case by (simp add: xml_escape_def replace_char_def)
next
  case (Cons c s)
  have "xml_escape ([c] @ s) = xml_escape [c] @ xml_escape s" by (simp only: xml_escape_def replace_char_append)
  moreover have "xml_escape [c] = escape_char c"
    by (simp add: xml_escape_def escape_char_def replace_char_def)
  ultimately show ?case using Cons by simp
qed

text \<open>How a reader of the text takes the entities back.\<close>

definition entities :: "(ustring \<times> uchar) list" where
  "entities = [(ascii ''&amp;'', 0x26), (ascii ''&lt;'', 0x3c), (ascii ''&gt;'', 0x3e), (ascii ''&quot;'', 0x22),
     (ascii ''&apos;'', 0x27)]"

fun unescape :: "nat \<Rightarrow> ustring \<Rightarrow> ustring" where
  "unescape skip [] = []"
| "unescape (Suc skip) (c # s) = unescape skip s"
| "unescape 0 (c # s) =
     (case find (\<lambda>e. starts_with (c # s) (fst e)) entities of
        Some (name, x) \<Rightarrow> x # unescape (length name - 1) s
      | None \<Rightarrow> c # unescape 0 s)"

lemma unescape_skip: "unescape (length p) (p @ s) = unescape 0 s"
  by (induction p) simp_all

lemma starts_with_Cons [simp]: "starts_with (c # s) (d # p) \<longleftrightarrow> c = d \<and> starts_with s p" "starts_with s []"
  by (auto simp: starts_with_iff)

lemma unescape_entity:
  "find (\<lambda>e. starts_with (c # p @ s) (fst e)) entities = Some (c # p, x) \<Longrightarrow> unescape 0 (c # p @ s) = x # unescape 0 s"
  by (simp add: unescape_skip)

lemma unescape_escaped: "unescape 0 (escape_char c @ s) = c # unescape 0 s"
proof -
  note e = entities_def find.simps starts_with_Cons
  consider "c = 0x26" | "c = 0x3c" | "c = 0x3e" | "c = 0x22" | "c = 0x27" | "c \<notin> {0x26, 0x3c, 0x3e, 0x22, 0x27}" by auto
  then show ?thesis
  proof cases
    case 1
    then show ?thesis using unescape_entity [of "0x26" "ascii ''amp;''" s "0x26"] by (simp add: escape_char_def e)
  next
    case 2
    then show ?thesis using unescape_entity [of "0x26" "ascii ''lt;''" s "0x3c"] by (simp add: escape_char_def e)
  next
    case 3
    then show ?thesis using unescape_entity [of "0x26" "ascii ''gt;''" s "0x3e"] by (simp add: escape_char_def e)
  next
    case 4
    then show ?thesis using unescape_entity [of "0x26" "ascii ''quot;''" s "0x22"] by (simp add: escape_char_def e)
  next
    case 5
    then show ?thesis using unescape_entity [of "0x26" "ascii ''apos;''" s "0x27"] by (simp add: escape_char_def e)
  next
    case 6
    then have "find (\<lambda>e. starts_with (c # s) (fst e)) entities = None" by (simp add: e)
    then show ?thesis using 6 by (simp add: escape_char_def)
  qed
qed

text \<open>Text in the notice stays text: an escaped text has no quote and no angle bracket, and a reader that
  resolves the entities gets back exactly the text that was escaped.\<close>

theorem escaped_text_round_trip:
  "unescape 0 (xml_escape s) = s \<and> set (xml_escape s) \<inter> {0x22, 0x27, 0x3c, 0x3e} = {}"
proof
  show "unescape 0 (xml_escape s) = s"
    by (induction s) (simp_all add: xml_escape_chars unescape_escaped)
  show "set (xml_escape s) \<inter> {0x22, 0x27, 0x3c, 0x3e} = {}"
    by (auto simp: xml_escape_chars escape_char_def split: if_splits)
qed

section \<open>One run\<close>

text \<open>The shapes of a run that asks.\<close>

lemma run_flow_effects:
  assumes "run_flow L C on beta current s now fetched submit_ok save_ok = (code, effs)" "effs \<noteq> []"
  shows "on \<and> \<not> should_throttle C s now \<and> (\<exists>rest. effs = EffFetch # rest \<and> EffFetch \<notin> set rest)"
  using assms
  by (auto simp: run_flow_def save_then_def Let_def split: if_splits sum.splits client_error.splits option.splits)

text \<open>C26: the checker asks only with consent. Whatever a run does, it starts with its one request, and then
  each of the three reads of the settings could be read and had the automatic check on, the lock was held,
  the state was read, and the last check was not too recent; otherwise a run has no effect at all.\<close>

theorem request_needs_consent:
  assumes "checker_run L C w = (code, effs)" "effs \<noteq> []"
  shows "(\<exists>rest. effs = EffFetch # rest \<and> EffFetch \<notin> set rest)
    \<and> list_all (\<lambda>(settings, outcome). readable_outcome outcome \<and> up_automatic settings) [cw_first w, cw_second w, cw_third w]
    \<and> cw_lock w = LockTaken \<and> (\<exists>s. cw_load w = Some s \<and> \<not> should_throttle C s (cw_now w))"
proof -
  obtain s1 o1 s2 o2 s3 o3 where r: "cw_first w = (s1, o1)" "cw_second w = (s2, o2)" "cw_third w = (s3, o3)"
    by (metis prod.exhaust)
  have inner: "run_inner L C w \<noteq> Gives (c, [])" for c
    using assms by (auto simp: checker_run_def)
  note step = run_inner_def settings_after_lock_def
  have ok1: "readable_outcome o1" by (rule ccontr) (use inner [of exit_state] r in \<open>simp add: step\<close>)
  have on1: "up_automatic s1" by (rule ccontr) (use inner [of exit_ok] r ok1 in \<open>simp add: step\<close>)
  have path: "cw_path w" by (rule ccontr) (use inner [of exit_state] r ok1 on1 in \<open>simp add: step\<close>)
  have lock: "cw_lock w = LockTaken"
    using inner [of exit_ok] inner [of exit_state] r ok1 on1 path by (cases "cw_lock w") (simp_all add: step)
  note known = r ok1 on1 path lock
  have ok2: "readable_outcome o2" by (rule ccontr) (use inner [of exit_state] known in \<open>simp add: step\<close>)
  have on2: "up_automatic s2" by (rule ccontr) (use inner [of exit_ok] known ok2 in \<open>simp add: step\<close>)
  obtain s where s: "cw_load w = Some s"
    using inner [of exit_state] known ok2 on2 by (cases "cw_load w") (simp_all add: step)
  have ok3: "readable_outcome o3" by (rule ccontr) (use inner [of exit_state] known ok2 on2 s in \<open>simp add: step\<close>)
  have on3: "up_automatic s3" by (rule ccontr) (use inner [of exit_ok] known ok2 on2 s ok3 in \<open>simp add: step\<close>)
  obtain current where v: "cw_version w = Some current"
    using inner [of exit_network] known ok2 on2 s ok3 on3 by (cases "cw_version w") (simp_all add: step)
  have client: "cw_client w" "cw_runtime w"
    by (rule ccontr, use inner [of exit_network] known ok2 on2 s ok3 on3 v in \<open>simp add: step\<close>)+
  note known = known ok2 on2 s ok3 on3 v client
  have "\<not> should_throttle C s (cw_now w) \<and> (\<exists>rest. effs = EffFetch # rest \<and> EffFetch \<notin> set rest)"
  proof (cases "cw_fetched w")
    case Panics
    have "\<not> should_throttle C s (cw_now w)"
      by (rule notI) (use inner [of exit_ok] known Panics in \<open>simp add: step\<close>)
    then show ?thesis using assms Panics known by (auto simp: checker_run_def step)
  next
    case (Gives fetched)
    then have "run_flow L C (up_automatic s3) (up_beta s3) current s (cw_now w) fetched (cw_submit w) (cw_save w) = (code, effs)"
      using assms known by (simp add: checker_run_def step)
    from run_flow_effects [OF this assms(2)] show ?thesis by blast
  qed
  then show ?thesis using known by simp
qed

section \<open>The throttle\<close>

text \<open>The library keeps whole seconds.\<close>

definition second_of :: "int \<Rightarrow> int" where "second_of t = nanos (t div 1000000000)"

definition whole_seconds :: "date_lib \<Rightarrow> bool" where
  "whole_seconds C \<longleftrightarrow> (\<forall>t. cl_parse C (cl_format C t) = Some (second_of t))"

lemma marked_throttle:
  "whole_seconds C \<Longrightarrow>
     should_throttle C (mark_success C s now None) t \<longleftrightarrow> second_of now \<le> t \<and> t < second_of now + update_check_interval"
  by (auto simp: should_throttle_def mark_success_def parse_time_def whole_seconds_def)

lemma throttle_notified [simp]: "should_throttle C (s\<lparr>us_notified := n\<rparr>) t = should_throttle C s t"
  by (simp add: should_throttle_def)

text \<open>C28: a successful check is followed by six hours of rest. When the response was read, the run saves a
  state that holds back every run in the six hours after the second of the check, and no other run; when the
  server asked to wait until some time, the saved state holds back every run before the second of that time.\<close>

theorem check_spacing:
  assumes "whole_seconds C" "\<not> should_throttle C s now"
    and "run_flow L C True beta current s now fetched submit_ok True = (code, effs)"
  shows "case fetched of
      Inr releases \<Rightarrow> \<exists>s'. last effs = EffSave s' True
        \<and> (\<forall>t. should_throttle C s' t \<longleftrightarrow> second_of now \<le> t \<and> t < second_of now + update_check_interval)
    | Inl (CeHttp status (Some retry)) \<Rightarrow> status = 403 \<or> status = 429 \<longrightarrow>
        (\<exists>s'. last effs = EffSave s' True \<and> (\<forall>t. t < second_of retry \<longrightarrow> should_throttle C s' t))
    | _ \<Rightarrow> True"
proof (cases fetched)
  case (Inr releases)
  have "\<exists>s'. last effs = EffSave s' True \<and> (\<forall>t. should_throttle C s' t = should_throttle C (mark_success C s now None) t)"
    using assms(2,3) Inr
    by (auto simp: run_flow_def save_then_def Let_def split: option.splits if_splits)
  then show ?thesis using Inr marked_throttle [OF assms(1)] by simp
next
  case (Inl e)
  show ?thesis
  proof (cases e)
    case (CeHttp status retry)
    show ?thesis
    proof (cases retry)
      case (Some r)
      have "t < second_of r \<Longrightarrow> should_throttle C (s\<lparr>us_retry := Some (cl_format C r)\<rparr>) t" for t
        using assms(1) by (simp add: should_throttle_def parse_time_def whole_seconds_def)
      then show ?thesis using assms(2,3) Inl CeHttp Some by (auto simp: run_flow_def save_then_def)
    qed (use Inl CeHttp in simp)
  qed (use Inl in simp_all)
qed

section \<open>Announcing once\<close>

fun saved_state :: "update_state \<Rightarrow> check_effect list \<Rightarrow> update_state" where
  "saved_state s [] = s"
| "saved_state s (EffSave s' True # effs) = saved_state s' effs"
| "saved_state s (_ # effs) = saved_state s effs"

text \<open>One run after the other, each with its own time, channel, response and luck with the notice.\<close>

type_synonym check_input = "bool \<times> int \<times> (client_error + github_release list) \<times> bool"

fun check_runs ::
  "update_lib \<Rightarrow> date_lib \<Rightarrow> app_version \<Rightarrow> update_state \<Rightarrow> check_input list \<Rightarrow> check_effect list"
where
  "check_runs L C current s [] = []"
| "check_runs L C current s ((beta, now, fetched, submit_ok) # inputs) =
     (let effs = snd (run_flow L C True beta current s now fetched submit_ok True)
      in effs @ check_runs L C current (saved_state s effs) inputs)"

fun announced :: "check_effect \<Rightarrow> bool" where
  "announced (EffSubmit _ ok) = ok"
| "announced _ = False"

fun offers_only :: "update_lib \<Rightarrow> app_version \<Rightarrow> notification_tuple \<Rightarrow> check_input \<Rightarrow> bool" where
  "offers_only L current tuple (beta, now, fetched, submit_ok) \<longleftrightarrow>
     (case fetched of
        Inl _ \<Rightarrow> True
      | Inr releases \<Rightarrow>
          (case select_installable_release L releases current beta of
             None \<Rightarrow> True
           | Some r \<Rightarrow> tuple_of current r = tuple))"

text \<open>A run announces at most once and remembers it; a run that remembers announces nothing and goes on
  remembering.\<close>

lemma run_announces:
  fixes s :: update_state and C :: date_lib
  assumes "offers_only L current tuple (beta, now, fetched, submit_ok)"
  defines "effs \<equiv> snd (run_flow L C True beta current s now fetched submit_ok True)"
  shows "length (filter announced effs) \<le> 1"
    "filter announced effs \<noteq> [] \<Longrightarrow> us_notified (saved_state s effs) = Some tuple"
    "us_notified s = Some tuple \<Longrightarrow> filter announced effs = [] \<and> us_notified (saved_state s effs) = Some tuple"
  using assms(1) unfolding effs_def
  by (auto simp: run_flow_def save_then_def mark_success_def notification_was_sent_def Let_def
      split: sum.splits client_error.splits option.splits if_splits)

lemma remembered_announces:
  "list_all (offers_only L current tuple) inputs \<Longrightarrow> us_notified s = Some tuple \<Longrightarrow>
     filter announced (check_runs L C current s inputs) = []"
proof (induction inputs arbitrary: s)
  case (Cons i inputs)
  obtain beta now fetched submit_ok where i: "i = (beta, now, fetched, submit_ok)" by (rule prod_cases4)
  then have "offers_only L current tuple (beta, now, fetched, submit_ok)" using Cons.prems(1) by simp
  from run_announces(3) [OF this, of s C] Cons show ?case by (simp add: i Let_def)
qed simp

text \<open>C27: a version is announced once. Over any sequence of runs whose saves work and that find no other
  update than the same one, whatever the times, the failures of the network and of the notice and whatever
  was remembered before, at most one notice is accepted.\<close>

theorem announced_once:
  assumes "list_all (offers_only L current tuple) inputs"
  shows "length (filter announced (check_runs L C current s inputs)) \<le> 1"
  using assms
proof (induction inputs arbitrary: s)
  case (Cons i inputs)
  obtain beta now fetched submit_ok where i: "i = (beta, now, fetched, submit_ok)" by (rule prod_cases4)
  let ?effs = "snd (run_flow L C True beta current s now fetched submit_ok True)"
  have o: "offers_only L current tuple (beta, now, fetched, submit_ok)" "list_all (offers_only L current tuple) inputs"
    using Cons.prems i by simp_all
  show ?case
  proof (cases "filter announced ?effs = []")
    case True
    then show ?thesis using Cons.IH [OF o(2)] by (simp add: i Let_def)
  next
    case False
    then have "us_notified (saved_state s ?effs) = Some tuple" by (rule run_announces(2) [OF o(1)])
    from remembered_announces [OF o(2) this] run_announces(1) [OF o(1), of C s] show ?thesis by (simp add: i Let_def)
  qed
qed simp

section \<open>Examples\<close>

definition sample_dates :: date_lib where
  "sample_dates = \<lparr>
     cl_parse = (\<lambda>s. Some (nanos (if starts_with s dash then - int (digits_value (tl s)) else int (digits_value s)))),
     cl_format = (\<lambda>t. if t div 1000000000 < 0 then dash @ show_nat (nat (- (t div 1000000000)))
       else show_nat (nat (t div 1000000000))),
     cl_rfc2822 = (\<lambda>_. None), cl_of_seconds = (\<lambda>n. Some (nanos n)), cl_add_seconds = (\<lambda>t n. Some (t + nanos n))\<rparr>"

lemma sample_whole_seconds: "whole_seconds sample_dates"
proof -
  have "\<not> starts_with (show_nat n) dash" for n
  proof
    assume "starts_with (show_nat n) dash"
    then have "0x2d \<in> set (show_nat n)" by (auto simp: starts_with_iff dash_def)
    then show False using show_nat_mem by fastforce
  qed
  then show ?thesis by (auto simp: whole_seconds_def sample_dates_def second_of_def dash_def)
qed

definition sample_world :: check_world where
  "sample_world = \<lparr>cw_first = (\<lparr>up_automatic = True, up_beta = False\<rparr>, OutcomeLoaded), cw_path = True, cw_lock = LockTaken,
     cw_second = (\<lparr>up_automatic = True, up_beta = False\<rparr>, OutcomeLoaded), cw_load = Some update_state_default,
     cw_third = (\<lparr>up_automatic = True, up_beta = False\<rparr>, OutcomeMissing), cw_version = Some sample_current,
     cw_client = True, cw_runtime = True, cw_now = 0, cw_fetched = Gives (Inl CeTooLarge), cw_submit = True,
     cw_save = True\<rparr>"

lemma sample_fresh: "\<not> should_throttle C update_state_default t"
  by (simp add: should_throttle_def update_state_default_def parse_time_def)

lemma request_needs_consent_witness:
  "checker_run sample_lib sample_dates sample_world = (exit_network, [EffFetch])
     \<and> (\<exists>s. cw_load sample_world = Some s \<and> \<not> should_throttle sample_dates s (cw_now sample_world))"
proof -
  have r: "checker_run sample_lib sample_dates sample_world = (exit_network, [EffFetch])"
    using sample_fresh by (simp add: checker_run_def run_inner_def sample_world_def settings_after_lock_def
        readable_outcome_def run_flow_def)
  show ?thesis using r request_needs_consent [OF r] by blast
qed

lemma check_spacing_witness:
  "\<exists>s'. last (snd (run_flow sample_lib sample_dates True False sample_current update_state_default 5 (Inr []) True True))
       = EffSave s' True
     \<and> (\<forall>t. should_throttle sample_dates s' t \<longleftrightarrow> 0 \<le> t \<and> t < update_check_interval)"
proof -
  have z: "second_of 5 = 0" by (simp add: second_of_def nanos_def)
  obtain code effs where r: "run_flow sample_lib sample_dates True False sample_current update_state_default 5 (Inr []) True True
      = (code, effs)" by (rule prod.exhaust)
  show ?thesis using check_spacing [OF sample_whole_seconds sample_fresh r] by (simp add: r z)
qed

lemma announced_once_witness:
  "length (filter announced (check_runs sample_lib sample_dates sample_current update_state_default
     [(False, 0, Inr [sample_release], False), (False, nanos 30000, Inr [sample_release], True),
      (False, nanos 60000, Inr [sample_release], True)])) \<le> 1"
  by (rule announced_once [where tuple = "tuple_of sample_current sample_offer"]) (simp add: sample_selected)

end
