(* ===== verification/Update_Tasks.thy ===== *)
theory Update_Tasks
  imports Update_Checker
begin

text \<open>
  The scheduled task of the checker, \<open>crates/update/src/scheduler.rs\<close>: the identity of the user, the text
  of the task and its bytes, and the commands that are run, watched and cut off. What a process does and
  what the clock shows are parameters.
\<close>

section \<open>Identity\<close>

text \<open>Bytes that are all digits are characters that are all digits.\<close>

definition valid_sid :: "ustring \<Rightarrow> bool" where
  "valid_sid value =
     (case split_on 0x2d value of
        a # b # parts \<Rightarrow>
          a = ascii ''S'' \<and> b = ascii ''1'' \<and> list_all (\<lambda>p. p \<noteq> [] \<and> list_all is_ascii_digit p) parts \<and> parts \<noteq> []
      | _ \<Rightarrow> False)"

definition parse_sid_csv :: "ustring \<Rightarrow> ustring + ustring" where
  "parse_sid_csv t =
     (case find valid_sid (map (\<lambda>v. trim_matches (\<lambda>c. c = 0x22) (trim_matches is_white_space v)) (split_on 0x2c t)) of
        Some sid \<Rightarrow> Inr sid
      | None \<Rightarrow> Inl (ascii ''current user SID was not returned''))"

definition task_name :: "ustring \<Rightarrow> ustring" where
  "task_name sid = [0x5c] @ ascii ''nospacekey'' @ [0x5c] @ ascii ''UpdateCheck-'' @ sid"

section \<open>The text of the task\<close>

definition quoted :: "ustring \<Rightarrow> ustring" where "quoted s = [0x22] @ s @ [0x22]"

definition nl :: ustring where "nl = [0x0a]"

definition task_xml :: "ustring \<Rightarrow> ustring \<Rightarrow> ustring option \<Rightarrow> ustring" where
  "task_xml identity checker_path parent =
     (let sid = xml_escape identity; command = xml_escape checker_path;
          working = xml_escape (case parent of Some p \<Rightarrow> p | None \<Rightarrow> ascii ''.'')
      in ascii ''<?xml version='' @ quoted (ascii ''1.0'') @ ascii '' encoding='' @ quoted (ascii ''UTF-16'') @ ascii ''?>'' @ nl
       @ ascii ''<Task version='' @ quoted (ascii ''1.4'') @ ascii '' xmlns=''
         @ quoted (ascii ''http://schemas.microsoft.com/windows/2004/02/mit/task'') @ ascii ''>'' @ nl
       @ ascii ''  <RegistrationInfo><Author>'' @ sid @ ascii ''</Author></RegistrationInfo>'' @ nl
       @ ascii ''  <Triggers><LogonTrigger><Repetition><Interval>PT6H</Interval><StopAtDurationEnd>false</StopAtDurationEnd></Repetition><UserId>''
         @ sid @ ascii ''</UserId><Delay>PT30M</Delay></LogonTrigger></Triggers>'' @ nl
       @ ascii ''  <Principals><Principal id='' @ quoted (ascii ''Author'') @ ascii ''><UserId>'' @ sid
         @ ascii ''</UserId><LogonType>InteractiveToken</LogonType><RunLevel>LeastPrivilege</RunLevel></Principal></Principals>'' @ nl
       @ ascii ''  <Settings>'' @ nl
       @ ascii ''    <MultipleInstancesPolicy>IgnoreNew</MultipleInstancesPolicy>'' @ nl
       @ ascii ''    <DisallowStartIfOnBatteries>false</DisallowStartIfOnBatteries>'' @ nl
       @ ascii ''    <StopIfGoingOnBatteries>false</StopIfGoingOnBatteries>'' @ nl
       @ ascii ''    <AllowHardTerminate>true</AllowHardTerminate>'' @ nl
       @ ascii ''    <StartWhenAvailable>true</StartWhenAvailable>'' @ nl
       @ ascii ''    <Enabled>true</Enabled><Hidden>true</Hidden><WakeToRun>false</WakeToRun>'' @ nl
       @ ascii ''    <ExecutionTimeLimit>PT2M</ExecutionTimeLimit>'' @ nl
       @ ascii ''  </Settings>'' @ nl
       @ ascii ''  <Actions Context='' @ quoted (ascii ''Author'') @ ascii ''><Exec><Command>'' @ command
         @ ascii ''</Command><WorkingDirectory>'' @ working @ ascii ''</WorkingDirectory></Exec></Actions>'' @ nl
       @ ascii ''</Task>'')"

text \<open>The file is UTF-16 with its mark, low byte first.\<close>

definition utf16_encode :: "ustring \<Rightarrow> nat list" where
  "utf16_encode s = concat (map (\<lambda>c. if c < 0x10000 then [c]
     else [0xd800 + (c - 0x10000) div 1024, 0xdc00 + (c - 0x10000) mod 1024]) s)"

definition utf16_file :: "ustring \<Rightarrow> octet list" where
  "utf16_file s = [0xff, 0xfe] @ concat (map (\<lambda>u. [u mod 256, u div 256]) (utf16_encode s))"

section \<open>Commands\<close>

definition command_timeout :: nat where "command_timeout = 3000"
definition command_poll_interval :: nat where "command_poll_interval = 20"

record command_output =
  co_success :: bool
  co_code :: "int option"
  co_stdout :: "octet list"
  co_stderr :: "octet list"

definition output_detail :: "command_output \<Rightarrow> ustring" where
  "output_detail out =
     (let bytes = (if co_stderr out \<noteq> [] then co_stderr out else co_stdout out);
          t = trim_matches is_white_space (fst (collect_lossy (utf8_chars bytes)))
      in if t = [] then [] else ascii '': '' @ t)"

text \<open>A code is an \<open>i32\<close> read as a \<open>u32\<close>.\<close>

definition is_task_not_found :: "command_output \<Rightarrow> bool" where
  "is_task_not_found out \<longleftrightarrow> \<not> co_success out
     \<and> (case co_code out of Some code \<Rightarrow> code mod 2 ^ 32 = 0x80070002 \<or> code mod 2 ^ 32 = 0x80070003 | None \<Rightarrow> False)"

definition command_failed :: "ustring \<Rightarrow> command_output \<Rightarrow> ustring" where
  "command_failed action out =
     (if co_success out then action @ ascii '' failed''
      else if output_detail out = [] then action @ ascii '' failed (non-zero exit)''
      else action @ ascii '' failed'' @ output_detail out)"

definition delete_args :: "ustring \<Rightarrow> ustring list" where
  "delete_args sid = [ascii ''/Delete'', ascii ''/TN'', task_name sid, ascii ''/F'']"

definition query_args :: "ustring \<Rightarrow> ustring list" where
  "query_args sid = [ascii ''/Query'', ascii ''/TN'', task_name sid, ascii ''/HResult'']"

definition delete_with_runner ::
  "ustring \<Rightarrow> (ustring list \<Rightarrow> ustring + command_output) \<Rightarrow> ustring + unit"
where
  "delete_with_runner sid run =
     (case run (delete_args sid) of
        Inl e \<Rightarrow> Inl e
      | Inr out \<Rightarrow>
          (if co_success out then Inr ()
           else (let delete_error = command_failed (ascii ''Task Scheduler delete'') out
             in case run (query_args sid) of
                  Inr q \<Rightarrow> (if is_task_not_found q then Inr () else Inl delete_error)
                | Inl _ \<Rightarrow> Inl delete_error)))"

definition current_user_sid :: "ustring + command_output \<Rightarrow> ustring + ustring" where
  "current_user_sid whoami =
     (case whoami of
        Inl e \<Rightarrow> Inl e
      | Inr out \<Rightarrow>
          (if \<not> co_success out then Inl (command_failed (ascii ''whoami'') out)
           else parse_sid_csv (fst (collect_lossy (utf8_chars (co_stdout out))))))"

definition run_now :: "ustring + command_output \<Rightarrow> ustring + unit" where
  "run_now result =
     (case result of
        Inl e \<Rightarrow> Inl e
      | Inr out \<Rightarrow> (if co_success out then Inr () else Inl (command_failed (ascii ''Task Scheduler run'') out)))"

definition register_or_update_under_gate ::
  "bool \<Rightarrow> ustring + ustring \<Rightarrow> ustring option \<Rightarrow> ustring + command_output \<Rightarrow> ustring + ustring"
where
  "register_or_update_under_gate absolute sid write_error result =
     (if \<not> absolute then Inl (ascii ''checker path must be absolute'')
      else case sid of
        Inl e \<Rightarrow> Inl e
      | Inr identity \<Rightarrow>
          (case write_error of
             Some e \<Rightarrow> Inl e
           | None \<Rightarrow>
               (case result of
                  Inl e \<Rightarrow> Inl e
                | Inr out \<Rightarrow>
                    (if \<not> co_success out then Inl (command_failed (ascii ''Task Scheduler registration'') out)
                     else Inr identity))))"

section \<open>Watching a process\<close>

text \<open>What the loop sees: the result of each look at the process, the readings of the clock in the order they
  are taken (in milliseconds), what killing gives, and what reaping gives without a kill (\<open>False\<close>) and after one was
  tried (\<open>True\<close>). Reaping waits for the end of the process and of its output: when that does not come, it blocks
  and \<open>pw_reap\<close> is \<open>None\<close>.\<close>

datatype wait_result = WaitDone | WaitRunning | WaitFailed ustring

record process_world =
  pw_wait :: "nat \<Rightarrow> wait_result"
  pw_clock :: "nat \<Rightarrow> nat"
  pw_kill :: "ustring option"
  pw_reap :: "bool \<Rightarrow> (ustring + command_output) option"

text \<open>The watch returns a result, or it blocks in the reaping.\<close>

datatype poll_end = PollReturned "ustring + command_output" | PollBlocked

definition reaping ::
  "process_world \<Rightarrow> bool \<Rightarrow> (ustring + command_output \<Rightarrow> ustring + command_output) \<Rightarrow> poll_end" where
  "reaping w kill_tried f = (case pw_reap w kill_tried of None \<Rightarrow> PollBlocked | Some r \<Rightarrow> PollReturned (f r))"

definition kill_detail :: "ustring option \<Rightarrow> ustring" where
  "kill_detail kill_error = (case kill_error of Some e \<Rightarrow> ascii ''; kill failed: '' @ e | None \<Rightarrow> [])"

definition poll_done :: "process_world \<Rightarrow> poll_end" where
  "poll_done w = reaping w False (\<lambda>r. case r of
     Inl e \<Rightarrow> Inl (ascii ''command output collection failed: '' @ e) | Inr out \<Rightarrow> Inr out)"

definition poll_timed_out :: "process_world \<Rightarrow> nat \<Rightarrow> poll_end" where
  "poll_timed_out w timeout = reaping w True (\<lambda>r. case r of
        Inl e \<Rightarrow> Inl (ascii ''command timed out and reap failed: '' @ e)
      | Inr out \<Rightarrow> Inl (ascii ''command timed out after '' @ show_nat timeout @ ascii '' ms'' @ kill_detail (pw_kill w)
          @ output_detail out))"

definition poll_broken :: "process_world \<Rightarrow> ustring \<Rightarrow> poll_end" where
  "poll_broken w e = reaping w True (\<lambda>r. case r of
        Inl r \<Rightarrow> Inl (ascii ''command status polling failed: '' @ e @ ascii ''; reap failed: '' @ r)
      | Inr out \<Rightarrow> Inl (ascii ''command status polling failed: '' @ e @ kill_detail (pw_kill w) @ output_detail out))"

text \<open>Round \<open>i\<close> takes the readings \<open>2 i + 1\<close> and \<open>2 i + 2\<close>; the sleep before the next round is at most the
  interval and at most what is left.\<close>

fun poll_loop :: "nat \<Rightarrow> process_world \<Rightarrow> nat \<Rightarrow> nat \<Rightarrow> nat \<Rightarrow> poll_end option" where
  "poll_loop 0 w timeout deadline i = None"
| "poll_loop (Suc fuel) w timeout deadline i =
     (case pw_wait w i of
        WaitDone \<Rightarrow> Some (poll_done w)
      | WaitRunning \<Rightarrow>
          (if deadline \<le> pw_clock w (2 * i + 1) then Some (poll_timed_out w timeout)
           else poll_loop fuel w timeout deadline (i + 1))
      | WaitFailed e \<Rightarrow> Some (poll_broken w e))"

definition poll_sleep :: "process_world \<Rightarrow> nat \<Rightarrow> nat \<Rightarrow> nat" where
  "poll_sleep w deadline i = min (deadline - pw_clock w (2 * i + 2)) command_poll_interval"

definition poll_process_with :: "nat \<Rightarrow> process_world \<Rightarrow> nat \<Rightarrow> poll_end option" where
  "poll_process_with fuel w timeout = poll_loop fuel w timeout (pw_clock w 0 + timeout) 0"

definition poll_process :: "nat \<Rightarrow> process_world \<Rightarrow> poll_end option" where
  "poll_process fuel w = poll_process_with fuel w command_timeout"

section \<open>The watch ends\<close>

text \<open>What is relied on of the clock: it never runs back, and it shows at least the sleep when a sleep is over.\<close>

definition clock_runs :: "process_world \<Rightarrow> nat \<Rightarrow> bool" where
  "clock_runs w deadline \<longleftrightarrow> (\<forall>i. pw_clock w i \<le> pw_clock w (Suc i))
     \<and> (\<forall>i. pw_clock w (2 * i + 2) + poll_sleep w deadline i \<le> pw_clock w (2 * (i + 1) + 1))"

lemma clock_progress:
  assumes "clock_runs w deadline" "pw_clock w (2 * i + 1) < deadline"
  shows "min deadline (pw_clock w (2 * i + 1) + command_poll_interval) \<le> pw_clock w (2 * (i + 1) + 1)"
proof -
  have a: "pw_clock w (2 * i + 1) \<le> pw_clock w (2 * i + 2)"
    using assms(1) by (metis clock_runs_def add_2_eq_Suc' Suc_eq_plus1)
  have "pw_clock w (2 * i + 2) + poll_sleep w deadline i \<le> pw_clock w (2 * (i + 1) + 1)"
    using assms(1) by (simp add: clock_runs_def)
  then show ?thesis using a by (auto simp: poll_sleep_def min_def split: if_splits)
qed

lemma poll_loop_ends:
  assumes "clock_runs w deadline" "deadline - pw_clock w (2 * i + 1) < fuel * command_poll_interval"
  shows "\<exists>r. poll_loop (Suc fuel) w timeout deadline i = Some r"
  using assms(2)
proof (induction fuel arbitrary: i)
  case 0
  then show ?case by (auto split: wait_result.split)
next
  case (Suc fuel)
  show ?case
  proof (cases "pw_wait w i = WaitRunning \<and> pw_clock w (2 * i + 1) < deadline")
    case True
    have p: "min deadline (pw_clock w (2 * i + 1) + command_poll_interval) \<le> pw_clock w (2 * (i + 1) + 1)"
      by (rule clock_progress [OF assms(1)]) (use True in simp)
    show ?thesis
    proof (cases "deadline \<le> pw_clock w (2 * (i + 1) + 1)")
      case late: True
      then show ?thesis using True by (auto split: wait_result.split)
    next
      case False
      then have "deadline - pw_clock w (2 * (i + 1) + 1) < fuel * command_poll_interval"
        using p Suc.prems True by (auto simp: min_def split: if_splits)
      from Suc.IH [OF this] show ?thesis using True by simp
    qed
  next
    case False
    then show ?thesis by (auto split: wait_result.split)
  qed
qed

lemma loop_result:
  assumes "poll_loop fuel w timeout deadline i = Some r"
  shows "\<exists>k<fuel. (\<forall>j<k. pw_wait w (i + j) = WaitRunning \<and> pw_clock w (2 * (i + j) + 1) < deadline)
    \<and> (case pw_wait w (i + k) of
          WaitDone \<Rightarrow> r = poll_done w
        | WaitRunning \<Rightarrow> deadline \<le> pw_clock w (2 * (i + k) + 1) \<and> r = poll_timed_out w timeout
        | WaitFailed e \<Rightarrow> r = poll_broken w e)"
  using assms
proof (induction fuel arbitrary: i)
  case (Suc fuel)
  show ?case
  proof (cases "pw_wait w i = WaitRunning \<and> pw_clock w (2 * i + 1) < deadline")
    case True
    then have "poll_loop fuel w timeout deadline (i + 1) = Some r" using Suc.prems by simp
    from Suc.IH [OF this] obtain k where k: "k < fuel"
      "\<forall>j<k. pw_wait w (i + 1 + j) = WaitRunning \<and> pw_clock w (2 * (i + 1 + j) + 1) < deadline"
      "case pw_wait w (i + 1 + k) of
          WaitDone \<Rightarrow> r = poll_done w
        | WaitRunning \<Rightarrow> deadline \<le> pw_clock w (2 * (i + 1 + k) + 1) \<and> r = poll_timed_out w timeout
        | WaitFailed e \<Rightarrow> r = poll_broken w e" by blast
    have "pw_wait w (i + j) = WaitRunning \<and> pw_clock w (2 * (i + j) + 1) < deadline" if "j < Suc k" for j
      using True k(2) that by (cases j) auto
    moreover have "i + 1 + k = i + Suc k" by simp
    ultimately show ?thesis using k(1) k(3) [unfolded \<open>i + 1 + k = i + Suc k\<close>] by (intro exI [of _ "Suc k"]) blast
  next
    case False
    then show ?thesis using Suc.prems by (intro exI [of _ 0]) (auto split: wait_result.splits if_splits)
  qed
qed simp

lemma ending_blocks:
  "poll_done w = PollBlocked \<longleftrightarrow> pw_reap w False = None"
  "poll_timed_out w timeout = PollBlocked \<longleftrightarrow> pw_reap w True = None"
  "poll_broken w e = PollBlocked \<longleftrightarrow> pw_reap w True = None"
  by (simp_all add: poll_done_def poll_timed_out_def poll_broken_def reaping_def split: option.split)

lemma looks_end:
  assumes "clock_runs w (pw_clock w 0 + command_timeout)"
  shows "\<exists>r. poll_process 152 w = Some r"
proof -
  have "pw_clock w 0 \<le> pw_clock w 1" using assms by (simp add: clock_runs_def)
  then have "(pw_clock w 0 + command_timeout) - pw_clock w (2 * 0 + 1) < 151 * command_poll_interval"
    by (simp add: command_timeout_def command_poll_interval_def)
  from poll_loop_ends [OF assms this, of command_timeout] show ?thesis
    by (simp add: poll_process_def poll_process_with_def numeral_nat del: poll_loop.simps)
qed

text \<open>What the system is relied on for: a process that has ended can be reaped, and so can one that was killed.\<close>

definition kill_ends :: "process_world \<Rightarrow> bool" where
  "kill_ends w \<longleftrightarrow> ((\<exists>i. pw_wait w i = WaitDone) \<longrightarrow> pw_reap w False \<noteq> None)
     \<and> (pw_kill w = None \<longrightarrow> pw_reap w True \<noteq> None)"

text \<open>C29: On a clock that runs and a system that can reap a process that has ended or was killed, the watch of a command
  looks at most one hundred and fifty-two times, whatever the process does. It stops at the first look at which the process has ended, the look fails or the deadline has passed,
  and never before. From a process that has ended it returns; otherwise it kills the process, and when the kill
  succeeds it returns too, even from a process that would never end. When the kill fails it blocks for ever exactly
  when reaping the process blocks: the timeout does not bound that wait.\<close>

theorem poll_returns:
  assumes "clock_runs w (pw_clock w 0 + command_timeout)" and "kill_ends w"
  shows "\<exists>k<152. \<exists>r. poll_process 152 w = Some r
    \<and> (\<forall>j<k. pw_wait w j = WaitRunning \<and> pw_clock w (2 * j + 1) < pw_clock w 0 + command_timeout)
    \<and> (case pw_wait w k of
          WaitDone \<Rightarrow> r = poll_done w \<and> r \<noteq> PollBlocked
        | WaitRunning \<Rightarrow> pw_clock w 0 + command_timeout \<le> pw_clock w (2 * k + 1) \<and> r = poll_timed_out w command_timeout
        | WaitFailed e \<Rightarrow> r = poll_broken w e)
    \<and> (pw_kill w = None \<longrightarrow> r \<noteq> PollBlocked)
    \<and> (r = PollBlocked \<longleftrightarrow> pw_wait w k \<noteq> WaitDone \<and> pw_reap w True = None)"
proof -
  obtain r where r: "poll_process 152 w = Some r" using looks_end [OF assms(1)] by blast
  from loop_result [OF r [unfolded poll_process_def poll_process_with_def], unfolded add_0] obtain k where k: "k < 152"
    "\<forall>j<k. pw_wait w j = WaitRunning \<and> pw_clock w (2 * j + 1) < pw_clock w 0 + command_timeout"
    "case pw_wait w k of
        WaitDone \<Rightarrow> r = poll_done w
      | WaitRunning \<Rightarrow> pw_clock w 0 + command_timeout \<le> pw_clock w (2 * k + 1) \<and> r = poll_timed_out w command_timeout
      | WaitFailed e \<Rightarrow> r = poll_broken w e" by blast
  have done_reaped: "pw_wait w k = WaitDone \<Longrightarrow> pw_reap w False \<noteq> None"
    and killed_reaped: "pw_kill w = None \<Longrightarrow> pw_reap w True \<noteq> None"
    using assms(2) by (auto simp: kill_ends_def)
  show ?thesis
    using r k done_reaped killed_reaped
    by (intro exI [of _ k] conjI exI [of _ r]) (auto simp: ending_blocks split: wait_result.splits)
qed

text \<open>A process that never ends by itself, and one that cannot be killed either.\<close>

definition hung_world :: process_world where
  "hung_world = \<lparr>pw_wait = (\<lambda>_. WaitRunning), pw_clock = (\<lambda>i. 20 * i), pw_kill = None,
     pw_reap = (\<lambda>k. if k then Some (Inl []) else None)\<rparr>"

definition stuck_world :: process_world where
  "stuck_world = hung_world\<lparr>pw_kill := Some [], pw_reap := \<lambda>_. None\<rparr>"

lemma hung_clock: "clock_runs hung_world (pw_clock hung_world 0 + command_timeout)"
  "clock_runs stuck_world (pw_clock stuck_world 0 + command_timeout)"
  by (simp_all add: clock_runs_def hung_world_def stuck_world_def poll_sleep_def command_poll_interval_def)

lemma hung_ends: "kill_ends hung_world" "kill_ends stuck_world"
  by (simp_all add: kill_ends_def hung_world_def stuck_world_def)

theorem poll_returns_witness:
  "poll_process 152 hung_world = Some (PollReturned (Inl (ascii ''command timed out and reap failed: '')))"
proof -
  have "poll_timed_out hung_world command_timeout
      = PollReturned (Inl (ascii ''command timed out and reap failed: ''))"
    by (simp add: poll_timed_out_def reaping_def hung_world_def)
  then show ?thesis
    using poll_returns [OF hung_clock(1) hung_ends(1)] by (auto simp: hung_world_def)
qed

text \<open>The timeout is no bound: the watch of the second process never comes back.\<close>

lemma unkillable_blocks: "poll_process 152 stuck_world = Some PollBlocked"
proof -
  obtain r where r: "poll_process 152 stuck_world = Some r" using looks_end [OF hung_clock(2)] by blast
  then show ?thesis
    using loop_result [OF r [unfolded poll_process_def poll_process_with_def]]
    by (auto simp: stuck_world_def hung_world_def ending_blocks)
qed

section \<open>The task file\<close>

text \<open>The bytes of the task file decode to its text, after the mark.\<close>

lemma utf16_encode_units: "list_all is_scalar s \<Longrightarrow> \<forall>u\<in>set (utf16_encode s). u < 0x10000"
  by (auto simp: utf16_encode_def is_scalar_def list_all_iff split: if_splits)

lemma pair_units_bytes: "\<forall>u\<in>set us. u < 0x10000 \<Longrightarrow> pair_units True (concat (map (\<lambda>u. [u mod 256, u div 256]) us)) = us"
  by (induction us) simp_all

lemma utf16_chars_encode: "list_all is_scalar s \<Longrightarrow> utf16_chars (utf16_encode s) = map Some s"
proof (induction s)
  case (Cons c s)
  show ?case
  proof (cases "c < 0x10000")
    case True
    then have "\<not> is_high_surrogate c" "\<not> is_low_surrogate c"
      using Cons.prems by (auto simp: is_scalar_def is_high_surrogate_def is_low_surrogate_def)
    then have "utf16_chars (c # us) = Some c # utf16_chars us" for us by (cases us) simp_all
    then show ?thesis using True Cons by (simp add: utf16_encode_def)
  next
    case False
    define q r where qr: "q = (c - 0x10000) div 1024" "r = (c - 0x10000) mod 1024"
    have "c - 0x10000 = q * 1024 + r" "r < 1024" using qr by simp_all
    then have c: "c = 0x10000 + q * 1024 + r" "r < 1024" "q \<le> 0x3ff"
      using False Cons.prems by (auto simp: is_scalar_def)
    then have "is_high_surrogate (0xd800 + q)" "is_low_surrogate (0xdc00 + r)"
      by (simp_all add: is_high_surrogate_def is_low_surrogate_def)
    then have "utf16_chars ((0xd800 + q) # (0xdc00 + r) # us) = Some c # utf16_chars us" for us using c(1) by simp
    then show ?thesis using False Cons qr by (simp add: utf16_encode_def)
  qed
qed (simp add: utf16_encode_def)

lemma task_file_decodes:
  assumes "list_all is_scalar s"
  shows "decode_utf16_strict (utf16_file s) True = Some (0xfeff # s)"
proof -
  have "pair_units True (utf16_file s) = 0xfeff # utf16_encode s"
    using pair_units_bytes [OF utf16_encode_units [OF assms]] by (simp add: utf16_file_def)
  moreover have "even (length (utf16_file s))" by (induction s) (simp_all add: utf16_file_def utf16_encode_def)
  moreover have "utf16_chars (0xfeff # utf16_encode s) = Some 0xfeff # utf16_chars (utf16_encode s)"
    by (cases "utf16_encode s") (simp_all add: is_high_surrogate_def is_low_surrogate_def)
  ultimately show ?thesis using utf16_chars_encode [OF assms]
    by (auto simp: decode_utf16_strict_def utf16_units_def collect_strict_def comp_def even_iff_mod_2_eq_zero)
qed

text \<open>A deletion succeeds exactly when the command did, or when the task is found to be gone.\<close>

lemma deletion_idempotent:
  "delete_with_runner sid run = Inr () \<longleftrightarrow>
     (\<exists>out. run (delete_args sid) = Inr out
        \<and> (co_success out \<or> (\<exists>q. run (query_args sid) = Inr q \<and> is_task_not_found q)))"
  by (auto simp: delete_with_runner_def Let_def split: sum.split)

end
