(* ===== verification/Background_Mailbox.thy ===== *)
theory Background_Mailbox
  imports Input_Module "HOL-Library.Sublist"
begin

text \<open>
  The mailbox between the text service and the worker that types into the engine,
  \<open>crates/tip/src/background_input.rs\<close>: one thread offers intents, one worker applies them, and they share a
  word that packs a generation and a phase. The model interleaves the atomic steps of the two. A loop that
  retries a compare and exchange is the one step that succeeds, taken on the value it found.
\<close>

section \<open>The shared word\<close>

definition phase_dirty :: nat where "phase_dirty = 0"
definition phase_reseed_queued :: nat where "phase_reseed_queued = 1"
definition phase_synced :: nat where "phase_synced = 2"
definition phase_terminal :: nat where "phase_terminal = 3"

lemmas phase_defs = phase_dirty_def phase_reseed_queued_def phase_synced_def phase_terminal_def

definition mb_encode :: "nat \<Rightarrow> nat \<Rightarrow> nat" where "mb_encode g p = (g * 4) mod 2 ^ 64 + p"
definition mb_generation :: "nat \<Rightarrow> nat" where "mb_generation s = s div 4"
definition mb_phase :: "nat \<Rightarrow> nat" where "mb_phase s = s mod 4"

text \<open>The packing is exact below the two bits that are shifted out.\<close>

lemma mb_decode [simp]:
  assumes "g < 2 ^ 62" "p < 4"
  shows "mb_generation (mb_encode g p) = g" "mb_phase (mb_encode g p) = p"
proof -
  have "g * 4 mod 2 ^ 64 = g * 4" using assms(1) by simp
  then show "mb_generation (mb_encode g p) = g" "mb_phase (mb_encode g p) = p"
    using assms(2) by (simp_all add: mb_encode_def mb_generation_def mb_phase_def)
qed

section \<open>Intents and threads\<close>

datatype worker_intent = WiInsert nat "input_segment list" bool | WiCommitAndClose | WiClose

type_synonym queued_intent = "nat \<times> worker_intent"

fun is_reseed :: "worker_intent \<Rightarrow> bool" where
  "is_reseed (WiInsert _ _ reseed) = reseed"
| "is_reseed _ = False"

text \<open>Where the offering thread is: idle, about to send, about to ask for a close because a send failed, about
  to publish the generation of a close, about to send the close, or gone.\<close>

datatype producer =
  PrIdle | PrEnqueue nat worker_intent | PrRejected | PrPublish nat | PrSendClose nat | PrGone

text \<open>Where the worker is: at the top of its loop, before the receive, with an item not yet checked, about to
  apply it, after it failed, about to publish the next generation, about to close, after a reseed, or done.\<close>

datatype mb_worker =
  WrTop | WrReceive | WrGot queued_intent | WrApply queued_intent | WrFailed queued_intent | WrPublish nat
| WrClose | WrSync nat | WrDone

text \<open>The last three fields are the history: what is applied in the open session of the engine, everything that
  was applied, and everything that was accepted by the queue, closes apart.\<close>

record mailbox =
  mb_pipeline :: nat
  mb_close_before :: nat
  mb_rejected :: nat
  mb_queue :: "queued_intent list"
  mb_producer :: producer
  mb_worker :: mb_worker
  mb_wgen :: nat
  mb_session :: "queued_intent list"
  mb_applied :: "queued_intent list"
  mb_sent :: "queued_intent list"

definition bounded_mailbox :: mailbox where
  "bounded_mailbox = \<lparr>mb_pipeline = mb_encode 1 phase_dirty, mb_close_before = 0, mb_rejected = 0, mb_queue = [],
     mb_producer = PrIdle, mb_worker = WrTop, mb_wgen = 0, mb_session = [], mb_applied = [], mb_sent = []\<rparr>"

abbreviation gen_of :: "mailbox \<Rightarrow> nat" where "gen_of m \<equiv> mb_generation (mb_pipeline m)"
abbreviation phase_of :: "mailbox \<Rightarrow> nat" where "phase_of m \<equiv> mb_phase (mb_pipeline m)"

section \<open>The offering thread\<close>

definition advance_to_dirty :: "mailbox \<Rightarrow> mailbox" where
  "advance_to_dirty m = m\<lparr>mb_pipeline := mb_encode ((gen_of m + 1) mod 2 ^ 64) phase_dirty\<rparr>"

definition begin_composition :: "mailbox \<Rightarrow> mailbox" where
  "begin_composition m = advance_to_dirty m"

definition request_close :: "mailbox \<Rightarrow> mailbox" where
  "request_close m = (advance_to_dirty m)\<lparr>mb_producer := PrPublish ((gen_of m + 1) mod 2 ^ 64)\<rparr>"

definition publish_close :: "mailbox \<Rightarrow> nat \<Rightarrow> mailbox" where
  "publish_close m g = m\<lparr>mb_close_before := max (mb_close_before m) g, mb_producer := PrSendClose g\<rparr>"

definition send_room :: "nat \<Rightarrow> mailbox \<Rightarrow> bool" where
  "send_room capacity m \<longleftrightarrow> length (mb_queue m) < capacity \<and> mb_worker m \<noteq> WrDone"

definition send_close :: "nat \<Rightarrow> mailbox \<Rightarrow> nat \<Rightarrow> mailbox" where
  "send_close capacity m g =
     (if send_room capacity m then m\<lparr>mb_queue := mb_queue m @ [(g, WiClose)], mb_producer := PrIdle\<rparr>
      else m\<lparr>mb_producer := PrIdle\<rparr>)"

definition needs_reseed :: "mailbox \<Rightarrow> bool" where
  "needs_reseed m \<longleftrightarrow> phase_of m = phase_dirty"

definition try_reseed :: "mailbox \<Rightarrow> nat \<Rightarrow> input_segment list \<Rightarrow> mailbox" where
  "try_reseed m request segments =
     (if phase_of m \<noteq> phase_dirty then m
      else m\<lparr>mb_pipeline := mb_encode (gen_of m) phase_reseed_queued,
             mb_producer := PrEnqueue (gen_of m) (WiInsert request segments True)\<rparr>)"

definition try_delta :: "mailbox \<Rightarrow> nat \<Rightarrow> input_segment list \<Rightarrow> mailbox" where
  "try_delta m request segments =
     (if phase_of m \<noteq> phase_reseed_queued \<and> phase_of m \<noteq> phase_synced then m
      else m\<lparr>mb_producer := PrEnqueue (gen_of m) (WiInsert request segments False)\<rparr>)"

definition try_commit_and_close :: "mailbox \<Rightarrow> mailbox" where
  "try_commit_and_close m =
     (if phase_of m \<noteq> phase_reseed_queued \<and> phase_of m \<noteq> phase_synced then request_close m
      else m\<lparr>mb_pipeline := mb_encode (gen_of m) phase_terminal,
             mb_producer := PrEnqueue (gen_of m) WiCommitAndClose\<rparr>)"

definition enqueue :: "nat \<Rightarrow> mailbox \<Rightarrow> nat \<Rightarrow> worker_intent \<Rightarrow> mailbox" where
  "enqueue capacity m g intent =
     (if send_room capacity m
      then m\<lparr>mb_queue := mb_queue m @ [(g, intent)], mb_sent := mb_sent m @ [(g, intent)], mb_producer := PrIdle\<rparr>
      else m\<lparr>mb_rejected := mb_rejected m + 1, mb_producer := PrRejected\<rparr>)"

section \<open>The worker\<close>

definition engine_close :: "mailbox \<Rightarrow> mailbox" where
  "engine_close m = m\<lparr>mb_wgen := 0, mb_session := []\<rparr>"

definition worker_top :: "mailbox \<Rightarrow> mailbox" where
  "worker_top m =
     (if mb_wgen m \<noteq> 0 \<and> mb_wgen m < mb_close_before m then engine_close m else m)\<lparr>mb_worker := WrReceive\<rparr>"

definition flush_rejected :: "mailbox \<Rightarrow> mailbox" where
  "flush_rejected m = m\<lparr>mb_rejected := 0\<rparr>"

text \<open>The receive gives an item, times out, or finds the sender gone.\<close>

definition worker_receive :: "mailbox \<Rightarrow> bool \<Rightarrow> mailbox" where
  "worker_receive m timeout =
     (case mb_queue m of
        item # rest \<Rightarrow> (flush_rejected m)\<lparr>mb_queue := rest, mb_worker := WrGot item\<rparr>
      | [] \<Rightarrow>
          (if mb_producer m = PrGone then (flush_rejected (engine_close m))\<lparr>mb_worker := WrDone\<rparr>
           else if timeout then (flush_rejected m)\<lparr>mb_worker := WrTop\<rparr> else m))"

definition worker_check :: "mailbox \<Rightarrow> queued_intent \<Rightarrow> mailbox" where
  "worker_check m item =
     (let (g, intent) = item
      in if g \<noteq> gen_of m then m\<lparr>mb_worker := WrTop\<rparr>
         else if intent = WiClose then (engine_close m)\<lparr>mb_worker := WrTop\<rparr>
         else if mb_wgen m \<noteq> g then (engine_close m)\<lparr>mb_wgen := g, mb_worker := WrApply item\<rparr>
         else m\<lparr>mb_worker := WrApply item\<rparr>)"

text \<open>The engine takes the whole intent or the application failed.\<close>

definition worker_apply :: "mailbox \<Rightarrow> queued_intent \<Rightarrow> bool \<Rightarrow> mailbox" where
  "worker_apply m item applied =
     (if \<not> applied then m\<lparr>mb_worker := WrFailed item\<rparr>
      else let m1 = m\<lparr>mb_session := mb_session m @ [item], mb_applied := mb_applied m @ [item]\<rparr>
        in if is_reseed (snd item) then m1\<lparr>mb_worker := WrSync (fst item)\<rparr>
           else if snd item = WiCommitAndClose then (engine_close m1)\<lparr>mb_worker := WrTop\<rparr>
           else m1\<lparr>mb_worker := WrTop\<rparr>)"

definition worker_sync :: "mailbox \<Rightarrow> nat \<Rightarrow> mailbox" where
  "worker_sync m g =
     (if mb_pipeline m = mb_encode g phase_reseed_queued then m\<lparr>mb_pipeline := mb_encode g phase_synced\<rparr> else m)
       \<lparr>mb_worker := WrTop\<rparr>"

definition mark_worker_failed :: "mailbox \<Rightarrow> nat \<Rightarrow> mailbox" where
  "mark_worker_failed m failed_generation =
     (if gen_of m \<noteq> failed_generation then m\<lparr>mb_worker := WrClose\<rparr>
      else m\<lparr>mb_pipeline := mb_encode ((failed_generation + 1) mod 2 ^ 64) phase_dirty,
             mb_worker := WrPublish ((failed_generation + 1) mod 2 ^ 64)\<rparr>)"

definition publish_failed :: "mailbox \<Rightarrow> nat \<Rightarrow> mailbox" where
  "publish_failed m g = m\<lparr>mb_close_before := max (mb_close_before m) g, mb_worker := WrClose\<rparr>"

definition worker_close :: "mailbox \<Rightarrow> mailbox" where
  "worker_close m = (engine_close m)\<lparr>mb_worker := WrTop\<rparr>"

section \<open>The interleaving\<close>

inductive mailbox_step :: "nat \<Rightarrow> mailbox \<Rightarrow> mailbox \<Rightarrow> bool" for capacity where
  step_begin: "mb_producer m = PrIdle \<Longrightarrow> mailbox_step capacity m (begin_composition m)"
| step_request_close: "mb_producer m = PrIdle \<Longrightarrow> mailbox_step capacity m (request_close m)"
| step_reseed: "mb_producer m = PrIdle \<Longrightarrow> mailbox_step capacity m (try_reseed m request segments)"
| step_delta: "mb_producer m = PrIdle \<Longrightarrow> mailbox_step capacity m (try_delta m request segments)"
| step_commit: "mb_producer m = PrIdle \<Longrightarrow> mailbox_step capacity m (try_commit_and_close m)"
| step_gone: "mb_producer m = PrIdle \<Longrightarrow> mailbox_step capacity m (m\<lparr>mb_producer := PrGone\<rparr>)"
| step_enqueue: "mb_producer m = PrEnqueue g intent \<Longrightarrow> mailbox_step capacity m (enqueue capacity m g intent)"
| step_rejected: "mb_producer m = PrRejected \<Longrightarrow> mailbox_step capacity m (request_close m)"
| step_publish_close: "mb_producer m = PrPublish g \<Longrightarrow> mailbox_step capacity m (publish_close m g)"
| step_send_close: "mb_producer m = PrSendClose g \<Longrightarrow> mailbox_step capacity m (send_close capacity m g)"
| step_top: "mb_worker m = WrTop \<Longrightarrow> mailbox_step capacity m (worker_top m)"
| step_receive: "mb_worker m = WrReceive \<Longrightarrow> mailbox_step capacity m (worker_receive m timeout)"
| step_check: "mb_worker m = WrGot item \<Longrightarrow> mailbox_step capacity m (worker_check m item)"
| step_apply: "mb_worker m = WrApply item \<Longrightarrow> mailbox_step capacity m (worker_apply m item applied)"
| step_sync: "mb_worker m = WrSync g \<Longrightarrow> mailbox_step capacity m (worker_sync m g)"
| step_failed: "mb_worker m = WrFailed item \<Longrightarrow> mailbox_step capacity m (mark_worker_failed m (fst item))"
| step_publish_failed: "mb_worker m = WrPublish g \<Longrightarrow> mailbox_step capacity m (publish_failed m g)"
| step_worker_close: "mb_worker m = WrClose \<Longrightarrow> mailbox_step capacity m (worker_close m)"

inductive_cases mailbox_stepE: "mailbox_step capacity m m'"

text \<open>The states of runs in which the generation stays below \<open>2 ^ 62\<close>: a step is taken while there is room for
  one more.\<close>

inductive mailbox_reach :: "nat \<Rightarrow> mailbox \<Rightarrow> bool" for capacity where
  reach_start: "mailbox_reach capacity bounded_mailbox"
| reach_step: "mailbox_reach capacity m \<Longrightarrow> mailbox_step capacity m m' \<Longrightarrow> gen_of m + 1 < 2 ^ 62
    \<Longrightarrow> mailbox_reach capacity m'"

end
