(* ===== verification/Background_Mailbox_Spec.thy ===== *)
theory Background_Mailbox_Spec
  imports Background_Mailbox
begin

text \<open>
  The guarantee of the mailbox: whatever the two threads do and whatever fails, the open session of the engine
  holds a prefix of what was typed since the reseed of one generation, and nothing of the current generation
  is lost.
\<close>

section \<open>What is where\<close>

definition of_gen :: "nat \<Rightarrow> queued_intent list \<Rightarrow> queued_intent list" where
  "of_gen g xs = filter (\<lambda>x. fst x = g) xs"

definition typed :: "queued_intent list \<Rightarrow> queued_intent list" where
  "typed xs = filter (\<lambda>x. snd x \<noteq> WiClose) xs"

lemma of_gen_simps [simp]:
  "of_gen g [] = []" "of_gen g (x # xs) = (if fst x = g then x # of_gen g xs else of_gen g xs)"
  "of_gen g (xs @ ys) = of_gen g xs @ of_gen g ys"
  by (simp_all add: of_gen_def)

lemma typed_simps [simp]:
  "typed [] = []" "typed (x # xs) = (if snd x \<noteq> WiClose then x # typed xs else typed xs)"
  "typed (xs @ ys) = typed xs @ typed ys"
  by (simp_all add: typed_def)

lemma of_gen_none: "\<forall>x\<in>set xs. fst x < g \<Longrightarrow> of_gen g xs = []"
  by (induction xs) auto

fun held :: "mb_worker \<Rightarrow> queued_intent list" where
  "held (WrGot x) = [x]"
| "held (WrApply x) = [x]"
| "held (WrFailed x) = [x]"
| "held _ = []"

fun applying :: "mb_worker \<Rightarrow> queued_intent list" where
  "applying (WrApply x) = [x]"
| "applying _ = []"

fun producer_gen :: "producer \<Rightarrow> nat" where
  "producer_gen (PrEnqueue g _) = g"
| "producer_gen (PrPublish g) = g"
| "producer_gen (PrSendClose g) = g"
| "producer_gen _ = 0"

fun worker_gen :: "mb_worker \<Rightarrow> nat" where
  "worker_gen (WrPublish g) = g"
| "worker_gen (WrSync g) = g"
| "worker_gen _ = 0"

section \<open>The invariant\<close>

definition inv_bounds :: "mailbox \<Rightarrow> bool" where
  "inv_bounds m \<longleftrightarrow> 1 \<le> gen_of m \<and> gen_of m < 2 ^ 62 \<and> phase_of m < 4
     \<and> (\<forall>x\<in>set (mb_sent m @ mb_applied m @ mb_queue m @ held (mb_worker m)). fst x \<le> gen_of m)
     \<and> mb_wgen m \<le> gen_of m \<and> mb_close_before m \<le> gen_of m
     \<and> producer_gen (mb_producer m) \<le> gen_of m \<and> worker_gen (mb_worker m) \<le> gen_of m"

definition inv_typed :: "mailbox \<Rightarrow> bool" where
  "inv_typed m \<longleftrightarrow> (\<forall>x\<in>set (mb_sent m @ mb_applied m @ applying (mb_worker m)). snd x \<noteq> WiClose)
     \<and> (\<forall>g intent. mb_producer m = PrEnqueue g intent \<longrightarrow> intent \<noteq> WiClose)"

text \<open>Of the current generation everything accepted is applied, held or queued, in order; of an older one a
  prefix is applied.\<close>

definition inv_order :: "mailbox \<Rightarrow> bool" where
  "inv_order m \<longleftrightarrow>
     of_gen (gen_of m) (mb_sent m) = of_gen (gen_of m) (mb_applied m)
       @ typed (of_gen (gen_of m) (held (mb_worker m))) @ typed (of_gen (gen_of m) (mb_queue m))
     \<and> (\<forall>g. prefix (of_gen g (mb_applied m) @ of_gen g (applying (mb_worker m))) (of_gen g (mb_sent m)))"

lemma inv_orderD:
  assumes "inv_order m"
  shows "of_gen (gen_of m) (mb_sent m) = of_gen (gen_of m) (mb_applied m)
       @ typed (of_gen (gen_of m) (held (mb_worker m))) @ typed (of_gen (gen_of m) (mb_queue m))"
    and "prefix (of_gen g (mb_applied m) @ of_gen g (applying (mb_worker m))) (of_gen g (mb_sent m))"
    and "prefix (of_gen g (mb_applied m)) (of_gen g (mb_sent m))"
  using assms append_prefixD unfolding inv_order_def by blast+

definition inv_session :: "mailbox \<Rightarrow> bool" where
  "inv_session m \<longleftrightarrow> mb_session m = (if mb_wgen m = 0 then [] else of_gen (mb_wgen m) (mb_applied m))
     \<and> (\<forall>x. mb_worker m = WrApply x \<or> mb_worker m = WrFailed x \<longrightarrow> fst x = mb_wgen m \<and> fst x \<noteq> 0)
     \<and> (mb_worker m = WrClose \<or> (\<exists>g. mb_worker m = WrPublish g) \<longrightarrow> mb_wgen m \<noteq> gen_of m)
     \<and> (mb_wgen m \<noteq> gen_of m \<longrightarrow> of_gen (gen_of m) (mb_applied m) = [] \<or> mb_worker m = WrDone
          \<or> (\<exists>x\<in>set (of_gen (gen_of m) (mb_applied m)). snd x = WiCommitAndClose))"

lemma inv_sessionI:
  assumes "mb_session m = (if mb_wgen m = 0 then [] else of_gen (mb_wgen m) (mb_applied m))"
    and "\<And>x. mb_worker m = WrApply x \<or> mb_worker m = WrFailed x \<Longrightarrow> fst x = mb_wgen m \<and> fst x \<noteq> 0"
    and "\<And>g. mb_worker m = WrClose \<or> mb_worker m = WrPublish g \<Longrightarrow> mb_wgen m \<noteq> gen_of m"
    and "mb_wgen m \<noteq> gen_of m \<Longrightarrow> of_gen (gen_of m) (mb_applied m) = [] \<or> mb_worker m = WrDone
          \<or> (\<exists>x\<in>set (of_gen (gen_of m) (mb_applied m)). snd x = WiCommitAndClose)"
  shows "inv_session m"
  unfolding inv_session_def using assms by blast

lemma inv_sessionD:
  assumes "inv_session m"
  shows "mb_session m = (if mb_wgen m = 0 then [] else of_gen (mb_wgen m) (mb_applied m))"
    and "mb_worker m = WrApply x \<or> mb_worker m = WrFailed x \<Longrightarrow> fst x = mb_wgen m \<and> fst x \<noteq> 0"
    and "mb_worker m = WrClose \<or> mb_worker m = WrPublish g \<Longrightarrow> mb_wgen m \<noteq> gen_of m"
    and "mb_wgen m \<noteq> gen_of m \<Longrightarrow> of_gen (gen_of m) (mb_applied m) = [] \<or> mb_worker m = WrDone
          \<or> (\<exists>x\<in>set (of_gen (gen_of m) (mb_applied m)). snd x = WiCommitAndClose)"
  using assms unfolding inv_session_def by blast+

text \<open>The close of a generation is ahead of what is typed in it.\<close>

fun closes_lead :: "nat \<Rightarrow> queued_intent list \<Rightarrow> bool" where
  "closes_lead g [] \<longleftrightarrow> True"
| "closes_lead g (x # xs) \<longleftrightarrow> (if fst x = g \<and> snd x \<noteq> WiClose then (g, WiClose) \<notin> set xs else closes_lead g xs)"

lemma closes_lead_none: "(g, WiClose) \<notin> set xs \<Longrightarrow> closes_lead g xs"
  by (induction xs) auto

lemma closes_lead_tl: "closes_lead g (x # xs) \<Longrightarrow> closes_lead g xs"
  using closes_lead_none by (auto split: if_splits)

lemma closes_lead_typed: "snd x \<noteq> WiClose \<Longrightarrow> closes_lead g (xs @ [x]) \<longleftrightarrow> closes_lead g xs"
  by (induction xs) auto

lemma closes_lead_other: "fst x \<noteq> g \<Longrightarrow> closes_lead g (xs @ [x]) \<longleftrightarrow> closes_lead g xs"
  by (induction xs) auto

lemma closes_lead_close: "typed (of_gen g xs) = [] \<Longrightarrow> closes_lead g (xs @ [(g, WiClose)])"
  by (induction xs) (auto split: if_splits)

definition inv_close :: "mailbox \<Rightarrow> bool" where
  "inv_close m \<longleftrightarrow> closes_lead (gen_of m) (held (mb_worker m) @ mb_queue m)
     \<and> ((gen_of m, WiClose) \<in> set (held (mb_worker m) @ mb_queue m) \<longrightarrow> of_gen (gen_of m) (mb_applied m) = [])"

definition inv_phase :: "mailbox \<Rightarrow> bool" where
  "inv_phase m \<longleftrightarrow>
     (phase_of m = phase_dirty \<longrightarrow> of_gen (gen_of m) (mb_sent m) = [] \<and> (\<forall>i. mb_producer m \<noteq> PrEnqueue (gen_of m) i))
     \<and> (phase_of m \<noteq> phase_dirty \<longrightarrow> of_gen (gen_of m) (mb_sent m) \<noteq> []
          \<or> (\<exists>i. mb_producer m = PrEnqueue (gen_of m) i \<and> is_reseed i) \<or> mb_producer m = PrRejected)
     \<and> (mb_producer m = PrPublish (gen_of m) \<or> mb_producer m = PrSendClose (gen_of m) \<longrightarrow> phase_of m = phase_dirty)
     \<and> (\<forall>i. phase_of m = phase_terminal \<and> mb_producer m = PrEnqueue (gen_of m) i \<longrightarrow> i = WiCommitAndClose)
     \<and> ((\<exists>x\<in>set (of_gen (gen_of m) (mb_sent m)). snd x = WiCommitAndClose)
         \<or> mb_producer m = PrEnqueue (gen_of m) WiCommitAndClose \<longrightarrow> phase_of m = phase_terminal)"

lemma inv_phase_cong:
  assumes "inv_phase m" "mb_pipeline m' = mb_pipeline m"
    and "of_gen (gen_of m) (mb_sent m') = of_gen (gen_of m) (mb_sent m)" "mb_producer m' = mb_producer m"
  shows "inv_phase m'"
  using assms(1) unfolding inv_phase_def assms(2-4) .

lemma inv_phaseI:
  assumes "phase_of m = phase_dirty \<Longrightarrow> of_gen (gen_of m) (mb_sent m) = []"
    and "\<And>i. mb_producer m = PrEnqueue (gen_of m) i \<Longrightarrow> phase_of m \<noteq> phase_dirty"
    and "phase_of m \<noteq> phase_dirty \<Longrightarrow> of_gen (gen_of m) (mb_sent m) \<noteq> []
          \<or> (\<exists>i. mb_producer m = PrEnqueue (gen_of m) i \<and> is_reseed i) \<or> mb_producer m = PrRejected"
    and "mb_producer m = PrPublish (gen_of m) \<or> mb_producer m = PrSendClose (gen_of m) \<Longrightarrow> phase_of m = phase_dirty"
    and "\<And>i. phase_of m = phase_terminal \<Longrightarrow> mb_producer m = PrEnqueue (gen_of m) i \<Longrightarrow> i = WiCommitAndClose"
    and "\<And>x. x \<in> set (of_gen (gen_of m) (mb_sent m)) \<Longrightarrow> snd x = WiCommitAndClose \<Longrightarrow> phase_of m = phase_terminal"
    and "mb_producer m = PrEnqueue (gen_of m) WiCommitAndClose \<Longrightarrow> phase_of m = phase_terminal"
  shows "inv_phase m"
  unfolding inv_phase_def using assms by metis

lemma inv_phaseD:
  assumes "inv_phase m"
  shows "phase_of m = phase_dirty \<Longrightarrow> of_gen (gen_of m) (mb_sent m) = []"
    and "mb_producer m = PrEnqueue (gen_of m) i \<Longrightarrow> phase_of m \<noteq> phase_dirty"
    and "phase_of m \<noteq> phase_dirty \<Longrightarrow> of_gen (gen_of m) (mb_sent m) \<noteq> []
          \<or> (\<exists>i. mb_producer m = PrEnqueue (gen_of m) i \<and> is_reseed i) \<or> mb_producer m = PrRejected"
    and "mb_producer m = PrPublish (gen_of m) \<or> mb_producer m = PrSendClose (gen_of m) \<Longrightarrow> phase_of m = phase_dirty"
    and "phase_of m = phase_terminal \<Longrightarrow> mb_producer m = PrEnqueue (gen_of m) i \<Longrightarrow> i = WiCommitAndClose"
    and "x \<in> set (of_gen (gen_of m) (mb_sent m)) \<Longrightarrow> snd x = WiCommitAndClose \<Longrightarrow> phase_of m = phase_terminal"
    and "mb_producer m = PrEnqueue (gen_of m) WiCommitAndClose \<Longrightarrow> phase_of m = phase_terminal"
  using assms unfolding inv_phase_def by metis+

definition reseed_first :: "queued_intent list \<Rightarrow> bool" where
  "reseed_first xs \<longleftrightarrow> (xs = [] \<or> is_reseed (snd (hd xs))) \<and> (\<forall>x\<in>set (tl xs). \<not> is_reseed (snd x))
     \<and> (\<forall>x\<in>set (butlast xs). snd x \<noteq> WiCommitAndClose)"

definition inv_shape :: "mailbox \<Rightarrow> bool" where
  "inv_shape m \<longleftrightarrow> (\<forall>g. reseed_first (of_gen g (mb_sent m)))
     \<and> (\<forall>g i. mb_producer m = PrEnqueue g i \<longrightarrow> (is_reseed i \<longleftrightarrow> of_gen g (mb_sent m) = [])
          \<and> (\<forall>x\<in>set (of_gen g (mb_sent m)). snd x \<noteq> WiCommitAndClose))"

definition inv_sync :: "mailbox \<Rightarrow> bool" where
  "inv_sync m \<longleftrightarrow> (phase_of m = phase_synced \<longrightarrow> of_gen (gen_of m) (mb_applied m) \<noteq> [])
     \<and> (\<forall>g. mb_worker m = WrSync g \<longrightarrow> of_gen g (mb_applied m) \<noteq> [])"

definition mb_inv :: "mailbox \<Rightarrow> bool" where
  "mb_inv m \<longleftrightarrow> inv_bounds m \<and> inv_typed m \<and> inv_order m \<and> inv_session m \<and> inv_close m \<and> inv_phase m
     \<and> inv_shape m \<and> inv_sync m"

lemmas inv_defs = inv_bounds_def inv_typed_def inv_order_def inv_session_def inv_close_def inv_phase_def inv_shape_def
  inv_sync_def

lemma mb_invI:
  "inv_bounds m \<Longrightarrow> inv_typed m \<Longrightarrow> inv_order m \<Longrightarrow> inv_session m \<Longrightarrow> inv_close m \<Longrightarrow> inv_phase m \<Longrightarrow>
   inv_shape m \<Longrightarrow> inv_sync m \<Longrightarrow> mb_inv m"
  by (simp add: mb_inv_def)

lemma mb_inv_start: "mb_inv bounded_mailbox"
  by (rule mb_invI) (simp_all add: inv_defs bounded_mailbox_def phase_defs reseed_first_def)

lemma phases [simp]:
  "phase_dirty < 4" "phase_reseed_queued < 4" "phase_synced < 4" "phase_terminal < 4"
  "phase_dirty \<noteq> phase_reseed_queued" "phase_dirty \<noteq> phase_synced" "phase_dirty \<noteq> phase_terminal"
  "phase_reseed_queued \<noteq> phase_dirty" "phase_reseed_queued \<noteq> phase_synced" "phase_reseed_queued \<noteq> phase_terminal"
  "phase_synced \<noteq> phase_dirty" "phase_synced \<noteq> phase_reseed_queued" "phase_synced \<noteq> phase_terminal"
  "phase_terminal \<noteq> phase_dirty" "phase_terminal \<noteq> phase_reseed_queued" "phase_terminal \<noteq> phase_synced"
  by (simp_all add: phase_defs)

text \<open>A new generation starts with nothing.\<close>

lemma new_generation:
  assumes "mb_inv m" "gen_of m + 1 < 2 ^ 62"
    and "p' = mb_producer m \<or> p' = PrPublish (gen_of m + 1)"
    and "w' = mb_worker m \<or> w' = WrPublish (gen_of m + 1)"
  shows "mb_inv (m\<lparr>mb_pipeline := mb_encode (gen_of m + 1) phase_dirty, mb_producer := p', mb_worker := w'\<rparr>)"
proof -
  let ?G = "gen_of m + 1"
  have b: "inv_bounds m" "inv_typed m" "inv_order m" "inv_session m" "inv_shape m" "inv_sync m"
    using assms(1) by (simp_all add: mb_inv_def)
  have none: "of_gen ?G xs = []" if "set xs \<subseteq> set (mb_sent m @ mb_applied m @ mb_queue m @ held (mb_worker m))" for xs
  proof (rule of_gen_none)
    have "\<forall>x\<in>set (mb_sent m @ mb_applied m @ mb_queue m @ held (mb_worker m)). fst x \<le> gen_of m"
      using b(1) unfolding inv_bounds_def by (elim conjE)
    then show "\<forall>x\<in>set xs. fst x < ?G" using that by (meson less_add_one order.strict_trans1 subsetD)
  qed
  have g: "mb_generation (mb_encode ?G phase_dirty) = ?G" "mb_phase (mb_encode ?G phase_dirty) = phase_dirty"
    using assms(2) by (simp_all add:)
  have n: "of_gen ?G (mb_sent m) = []" "of_gen ?G (mb_applied m) = []" "of_gen ?G (mb_queue m) = []" "of_gen ?G (held w') = []"
    using none assms(4) by auto
  have gs: "mb_generation (mb_encode (Suc (gen_of m)) phase_dirty) = Suc (gen_of m)"
      "mb_phase (mb_encode (Suc (gen_of m)) phase_dirty) = phase_dirty"
    using g by simp_all
  have p: "producer_gen p' \<le> ?G" "worker_gen w' \<le> ?G" "\<forall>i. p' \<noteq> PrEnqueue ?G i"
    subgoal using b(1) assms(3) by (auto simp: inv_bounds_def)
    subgoal using b(1) assms(4) by (auto simp: inv_bounds_def)
    subgoal
    proof
      fix i
      have "producer_gen (mb_producer m) \<le> gen_of m" using b(1) by (simp add: inv_bounds_def)
      then show "p' \<noteq> PrEnqueue ?G i" using assms(3) by (cases "mb_producer m") auto
    qed
    done
  have a: "set (held w') \<subseteq> set (held (mb_worker m))" "set (applying w') \<subseteq> set (applying (mb_worker m))"
    using assms(4) by auto
  have wg: "mb_wgen m \<noteq> ?G" using b(1) by (simp add: inv_bounds_def)
  show ?thesis
  proof (rule mb_invI)
    show "inv_bounds (m\<lparr>mb_pipeline := mb_encode ?G phase_dirty, mb_producer := p', mb_worker := w'\<rparr>)"
      unfolding inv_bounds_def using b(1) p(1,2) assms(2,4)
      by (intro conjI) (auto simp: inv_bounds_def g intro: le_SucI)
    show "inv_typed (m\<lparr>mb_pipeline := mb_encode ?G phase_dirty, mb_producer := p', mb_worker := w'\<rparr>)"
      using b(2) assms(3) a(2) by (auto simp: inv_typed_def)
    show "inv_order (m\<lparr>mb_pipeline := mb_encode ?G phase_dirty, mb_producer := p', mb_worker := w'\<rparr>)"
    proof -
      have "prefix (of_gen g (mb_applied m) @ of_gen g (applying w')) (of_gen g (mb_sent m))" for g
        using assms(4)
      proof
        assume "w' = mb_worker m"
        then show ?thesis using inv_orderD(2)[OF b(3)] by simp
      next
        assume "w' = WrPublish ?G"
        then show ?thesis using inv_orderD(3)[OF b(3)] by simp
      qed
      then show ?thesis using n by (simp add: inv_order_def gs)
    qed
    show "inv_session (m\<lparr>mb_pipeline := mb_encode ?G phase_dirty, mb_producer := p', mb_worker := w'\<rparr>)"
    proof (rule inv_sessionI)
      note q = inv_sessionD[OF b(4)]
      let ?m = "m\<lparr>mb_pipeline := mb_encode ?G phase_dirty, mb_producer := p', mb_worker := w'\<rparr>"
      show "mb_session ?m = (if mb_wgen ?m = 0 then [] else of_gen (mb_wgen ?m) (mb_applied ?m))" using q(1) by simp
      show "fst x = mb_wgen ?m \<and> fst x \<noteq> 0" if "mb_worker ?m = WrApply x \<or> mb_worker ?m = WrFailed x" for x
        using q(2)[of x] that assms(4) by auto
      show "mb_wgen ?m \<noteq> gen_of ?m" using wg by (simp add: gs)
      show "of_gen (gen_of ?m) (mb_applied ?m) = [] \<or> mb_worker ?m = WrDone
          \<or> (\<exists>x\<in>set (of_gen (gen_of ?m) (mb_applied ?m)). snd x = WiCommitAndClose)"
        using n(2) by (simp add: gs)
    qed
    show "inv_close (m\<lparr>mb_pipeline := mb_encode ?G phase_dirty, mb_producer := p', mb_worker := w'\<rparr>)"
    proof -
      have "(?G, WiClose) \<notin> set (held w' @ mb_queue m)"
        using n(3,4) by (fastforce simp: of_gen_def filter_empty_conv)
      then show ?thesis by (auto simp: inv_close_def gs intro: closes_lead_none)
    qed
    show "inv_phase (m\<lparr>mb_pipeline := mb_encode ?G phase_dirty, mb_producer := p', mb_worker := w'\<rparr>)"
      by (rule inv_phaseI) (use n p(3) in \<open>simp_all add: gs\<close>)
    show "inv_shape (m\<lparr>mb_pipeline := mb_encode ?G phase_dirty, mb_producer := p', mb_worker := w'\<rparr>)"
      using assms(3) by (elim disjE) (use b(5) in \<open>simp_all add: inv_shape_def\<close>)
    show "inv_sync (m\<lparr>mb_pipeline := mb_encode ?G phase_dirty, mb_producer := p', mb_worker := w'\<rparr>)"
      using b(6) assms(4) by (auto simp: inv_sync_def gs)
  qed
qed


text \<open>A thread that neither sends nor was rejected may go on to any place that does not send either.\<close>

lemma inv_phase_producer:
  assumes "inv_phase m" "\<forall>i. mb_producer m \<noteq> PrEnqueue (gen_of m) i" "mb_producer m \<noteq> PrRejected"
    and "\<forall>i. p' \<noteq> PrEnqueue (gen_of m) i"
    and "p' = PrPublish (gen_of m) \<or> p' = PrSendClose (gen_of m) \<Longrightarrow> phase_of m = phase_dirty"
  shows "inv_phase (m\<lparr>mb_producer := p'\<rparr>)"
proof (rule inv_phaseI)
  note p = inv_phaseD[OF assms(1)]
  show "phase_of (m\<lparr>mb_producer := p'\<rparr>) = phase_dirty
      \<Longrightarrow> of_gen (gen_of (m\<lparr>mb_producer := p'\<rparr>)) (mb_sent (m\<lparr>mb_producer := p'\<rparr>)) = []"
    using p(1) by simp
  show "of_gen (gen_of (m\<lparr>mb_producer := p'\<rparr>)) (mb_sent (m\<lparr>mb_producer := p'\<rparr>)) \<noteq> []
      \<or> (\<exists>i. mb_producer (m\<lparr>mb_producer := p'\<rparr>) = PrEnqueue (gen_of (m\<lparr>mb_producer := p'\<rparr>)) i \<and> is_reseed i)
      \<or> mb_producer (m\<lparr>mb_producer := p'\<rparr>) = PrRejected"
    if "phase_of (m\<lparr>mb_producer := p'\<rparr>) \<noteq> phase_dirty"
    using p(3) that assms(2,3) by simp
  show "phase_of (m\<lparr>mb_producer := p'\<rparr>) = phase_terminal"
    if "x \<in> set (of_gen (gen_of (m\<lparr>mb_producer := p'\<rparr>)) (mb_sent (m\<lparr>mb_producer := p'\<rparr>)))" "snd x = WiCommitAndClose" for x
    using p(6) that by simp
qed (use assms(4,5) in simp_all)

lemma mb_invD:
  assumes "mb_inv m"
  shows "inv_bounds m" "inv_typed m" "inv_order m" "inv_session m" "inv_close m" "inv_phase m" "inv_shape m" "inv_sync m"
  using assms by (simp_all add: mb_inv_def)

section \<open>The steps of the offering thread\<close>

lemma next_generation: "g + 1 < 2 ^ 62 \<Longrightarrow> Suc g mod 18446744073709551616 = Suc g"
  by simp

lemma inv_begin:
  assumes "mb_inv m" "gen_of m + 1 < 2 ^ 62"
  shows "mb_inv (begin_composition m)"
proof -
  have "begin_composition m
      = m\<lparr>mb_pipeline := mb_encode (gen_of m + 1) phase_dirty, mb_producer := mb_producer m, mb_worker := mb_worker m\<rparr>"
    by (simp add: begin_composition_def advance_to_dirty_def next_generation[OF assms(2)])
  then show ?thesis by (simp only:) (rule new_generation[OF assms], simp_all)
qed

lemma inv_request_close:
  assumes "mb_inv m" "gen_of m + 1 < 2 ^ 62"
  shows "mb_inv (request_close m)"
proof -
  have "request_close m = m\<lparr>mb_pipeline := mb_encode (gen_of m + 1) phase_dirty,
      mb_producer := PrPublish (gen_of m + 1), mb_worker := mb_worker m\<rparr>"
    by (simp add: request_close_def advance_to_dirty_def next_generation[OF assms(2)])
  then show ?thesis by (simp only:) (rule new_generation[OF assms], simp_all)
qed

lemma inv_gone:
  assumes "mb_inv m" "mb_producer m = PrIdle"
  shows "mb_inv (m\<lparr>mb_producer := PrGone\<rparr>)" (is "mb_inv ?m")
proof (rule mb_invI)
  note b = mb_invD[OF assms(1)]
  show "inv_bounds ?m" using b(1) by (simp add: inv_bounds_def)
  show "inv_typed ?m" using b(2) by (simp add: inv_typed_def)
  show "inv_order ?m" using b(3) by (simp add: inv_order_def)
  show "inv_session ?m" using b(4) by (simp add: inv_session_def)
  show "inv_close ?m" using b(5) by (simp add: inv_close_def)
  show "inv_phase ?m" using assms(2) by (intro inv_phase_producer[OF b(6)]) simp_all
  show "inv_shape ?m" using b(7) by (simp add: inv_shape_def)
  show "inv_sync ?m" using b(8) by (simp add: inv_sync_def)
qed

lemma inv_publish_close:
  assumes "mb_inv m" "mb_producer m = PrPublish g"
  shows "mb_inv (publish_close m g)"
proof (rule mb_invI)
  note b = mb_invD[OF assms(1)]
  show "inv_bounds (publish_close m g)" using b(1) assms(2) by (simp add: inv_bounds_def publish_close_def)
  show "inv_typed (publish_close m g)" using b(2) by (simp add: inv_typed_def publish_close_def)
  show "inv_order (publish_close m g)" using b(3) by (simp add: inv_order_def publish_close_def)
  show "inv_session (publish_close m g)" using b(4) by (simp add: inv_session_def publish_close_def)
  show "inv_close (publish_close m g)" using b(5) by (simp add: inv_close_def publish_close_def)
  show "inv_phase (publish_close m g)"
  proof -
    have "inv_phase (m\<lparr>mb_producer := PrSendClose g\<rparr>)"
      using inv_phaseD(4)[OF b(6)] assms(2) by (intro inv_phase_producer[OF b(6)]) simp_all
    then show ?thesis by (rule inv_phase_cong) (simp_all add: publish_close_def)
  qed
  show "inv_shape (publish_close m g)" using b(7) by (simp add: inv_shape_def publish_close_def)
  show "inv_sync (publish_close m g)" using b(8) by (simp add: inv_sync_def publish_close_def)
qed

lemma inv_try_reseed:
  assumes "mb_inv m" "mb_producer m = PrIdle"
  shows "mb_inv (try_reseed m request segments)"
proof (cases "phase_of m = phase_dirty")
  case True
  note b = mb_invD[OF assms(1)]
  let ?i = "WiInsert request segments True"
  let ?m = "m\<lparr>mb_pipeline := mb_encode (gen_of m) phase_reseed_queued, mb_producer := PrEnqueue (gen_of m) ?i\<rparr>"
  have bound: "gen_of m < 2 ^ 62" using b(1) by (simp add: inv_bounds_def)
  then have g: "mb_generation (mb_encode (gen_of m) phase_reseed_queued) = gen_of m"
      "mb_phase (mb_encode (gen_of m) phase_reseed_queued) = phase_reseed_queued"
    by (simp_all add:)
  have none: "of_gen (gen_of m) (mb_sent m) = []" using b(6) True by (simp add: inv_phase_def)
  have "mb_inv ?m"
  proof (rule mb_invI)
    show "inv_bounds ?m" using b(1) by (simp add: inv_bounds_def g)
    show "inv_typed ?m" using b(2) by (simp add: inv_typed_def)
    show "inv_order ?m" using b(3) by (simp add: inv_order_def g)
    show "inv_session ?m" using b(4) by (simp add: inv_session_def g)
    show "inv_close ?m" using b(5) by (simp add: inv_close_def g)
    show "inv_phase ?m" using none by (simp add: inv_phase_def g)
    show "inv_shape ?m" using b(7) none by (simp add: inv_shape_def)
    show "inv_sync ?m" using b(8) by (simp add: inv_sync_def g)
  qed
  then show ?thesis using True by (simp add: try_reseed_def)
qed (simp add: try_reseed_def assms(1))

text \<open>In a phase in which more may be typed, the reseed went before and no commit did.\<close>

lemma typing_phase:
  assumes "mb_inv m" "mb_producer m = PrIdle" "phase_of m = phase_reseed_queued \<or> phase_of m = phase_synced"
  shows "of_gen (gen_of m) (mb_sent m) \<noteq> []" "\<forall>x\<in>set (of_gen (gen_of m) (mb_sent m)). snd x \<noteq> WiCommitAndClose"
proof -
  note p = inv_phaseD[OF mb_invD(6)[OF assms(1)]]
  have ph: "phase_of m \<noteq> phase_dirty" "phase_of m \<noteq> phase_terminal" using assms(3) by auto
  show "of_gen (gen_of m) (mb_sent m) \<noteq> []" using p(3)[OF ph(1)] assms(2) by simp
  show "\<forall>x\<in>set (of_gen (gen_of m) (mb_sent m)). snd x \<noteq> WiCommitAndClose" using p(6) ph(2) by blast
qed

lemma inv_try_delta:
  assumes "mb_inv m" "mb_producer m = PrIdle"
  shows "mb_inv (try_delta m request segments)"
proof (cases "phase_of m = phase_reseed_queued \<or> phase_of m = phase_synced")
  case True
  note b = mb_invD[OF assms(1)] and t = typing_phase[OF assms True]
  let ?i = "WiInsert request segments False"
  let ?m = "m\<lparr>mb_producer := PrEnqueue (gen_of m) ?i\<rparr>"
  have "mb_inv ?m"
  proof (rule mb_invI)
    show "inv_bounds ?m" using b(1) by (simp add: inv_bounds_def)
    show "inv_typed ?m" using b(2) by (simp add: inv_typed_def)
    show "inv_order ?m" using b(3) by (simp add: inv_order_def)
    show "inv_session ?m" using b(4) by (simp add: inv_session_def)
    show "inv_close ?m" using b(5) by (simp add: inv_close_def)
    show "inv_phase ?m" 
    proof (rule inv_phaseI)
      show "phase_of ?m \<noteq> phase_dirty \<Longrightarrow> of_gen (gen_of ?m) (mb_sent ?m) \<noteq> []
          \<or> (\<exists>i. mb_producer ?m = PrEnqueue (gen_of ?m) i \<and> is_reseed i) \<or> mb_producer ?m = PrRejected"
        using t(1) by simp
      show "x \<in> set (of_gen (gen_of ?m) (mb_sent ?m)) \<Longrightarrow> snd x = WiCommitAndClose \<Longrightarrow> phase_of ?m = phase_terminal" for x
        using t(2) by simp
    qed (use True in \<open>elim disjE; simp\<close>)+
    show "inv_shape ?m" using b(7) t by (simp add: inv_shape_def)
    show "inv_sync ?m" using b(8) by (simp add: inv_sync_def)
  qed
  then show ?thesis using True by (auto simp: try_delta_def)
qed (simp add: try_delta_def assms(1))

lemma inv_try_commit:
  assumes "mb_inv m" "mb_producer m = PrIdle" "gen_of m + 1 < 2 ^ 62"
  shows "mb_inv (try_commit_and_close m)"
proof (cases "phase_of m = phase_reseed_queued \<or> phase_of m = phase_synced")
  case True
  note b = mb_invD[OF assms(1)] and t = typing_phase[OF assms(1,2) True]
  let ?m = "m\<lparr>mb_pipeline := mb_encode (gen_of m) phase_terminal, mb_producer := PrEnqueue (gen_of m) WiCommitAndClose\<rparr>"
  have g: "mb_generation (mb_encode (gen_of m) phase_terminal) = gen_of m"
      "mb_phase (mb_encode (gen_of m) phase_terminal) = phase_terminal"
    using assms(3) by (simp_all add:)
  have "mb_inv ?m"
  proof (rule mb_invI)
    show "inv_bounds ?m" using b(1) by (simp add: inv_bounds_def g)
    show "inv_typed ?m" using b(2) by (simp add: inv_typed_def)
    show "inv_order ?m" using b(3) by (simp add: inv_order_def g)
    show "inv_session ?m" using b(4) by (simp add: inv_session_def g)
    show "inv_close ?m" using b(5) by (simp add: inv_close_def g)
    show "inv_phase ?m" using t by (simp add: inv_phase_def g)
    show "inv_shape ?m" using b(7) t by (simp add: inv_shape_def)
    show "inv_sync ?m" using b(8) by (simp add: inv_sync_def g)
  qed
  then show ?thesis using True by (auto simp: try_commit_and_close_def)
next
  case False
  then show ?thesis using inv_request_close[OF assms(1,3)] by (simp add: try_commit_and_close_def)
qed

lemma sent_here:
  assumes "inv_order m" "of_gen (gen_of m) (mb_sent m) = []"
  shows "of_gen (gen_of m) (mb_applied m) = []" "typed (of_gen (gen_of m) (held (mb_worker m) @ mb_queue m)) = []"
  using inv_orderD(1)[OF assms(1)] assms(2) by simp_all

lemma inv_send_close:
  assumes "mb_inv m" "mb_producer m = PrSendClose g"
  shows "mb_inv (send_close capacity m g)"
proof -
  note b = mb_invD[OF assms(1)]
  have "inv_phase (m\<lparr>mb_producer := PrIdle\<rparr>)"
    using assms(2) by (intro inv_phase_producer[OF b(6)]) simp_all
  then have idle: "mb_inv (m\<lparr>mb_producer := PrIdle\<rparr>)"
  proof (intro mb_invI)
    show "inv_bounds (m\<lparr>mb_producer := PrIdle\<rparr>)" using b(1) by (simp add: inv_bounds_def)
    show "inv_typed (m\<lparr>mb_producer := PrIdle\<rparr>)" using b(2) by (simp add: inv_typed_def)
    show "inv_order (m\<lparr>mb_producer := PrIdle\<rparr>)" using b(3) by (simp add: inv_order_def)
    show "inv_session (m\<lparr>mb_producer := PrIdle\<rparr>)" using b(4) by (simp add: inv_session_def)
    show "inv_close (m\<lparr>mb_producer := PrIdle\<rparr>)" using b(5) by (simp add: inv_close_def)
    show "inv_shape (m\<lparr>mb_producer := PrIdle\<rparr>)" using b(7) by (simp add: inv_shape_def)
    show "inv_sync (m\<lparr>mb_producer := PrIdle\<rparr>)" using b(8) by (simp add: inv_sync_def)
  qed
  let ?m = "m\<lparr>mb_queue := mb_queue m @ [(g, WiClose)], mb_producer := PrIdle\<rparr>"
  have "mb_inv ?m"
  proof (rule mb_invI)
    note i = mb_invD[OF idle]
    show "inv_bounds ?m" using b(1) assms(2) by (simp add: inv_bounds_def)
    show "inv_typed ?m" using i(2) by (simp add: inv_typed_def)
    show "inv_order ?m" using i(3) by (simp add: inv_order_def)
    show "inv_session ?m" using i(4) by (simp add: inv_session_def)
    show "inv_close ?m"
    proof (cases "g = gen_of m")
      case True
      have "of_gen (gen_of m) (mb_sent m) = []"
        using inv_phaseD(1,4)[OF b(6)] assms(2) True by simp
      note h = sent_here[OF b(3) this]
      show ?thesis using closes_lead_close[OF h(2)] h(1) True by (simp add: inv_close_def)
    next
      case False
      then show ?thesis
        using b(5) closes_lead_other[of "(g, WiClose)" "gen_of m" "held (mb_worker m) @ mb_queue m"]
        by (simp add: inv_close_def)
    qed
    show "inv_phase ?m" using i(6) by (rule inv_phase_cong) simp_all
    show "inv_shape ?m" using i(7) by (simp add: inv_shape_def)
    show "inv_sync ?m" using i(8) by (simp add: inv_sync_def)
  qed
  then show ?thesis using idle by (simp add: send_close_def)
qed

lemma reseed_first_snoc:
  assumes "reseed_first xs" "is_reseed (snd x) \<longleftrightarrow> xs = []" "\<forall>y\<in>set xs. snd y \<noteq> WiCommitAndClose"
  shows "reseed_first (xs @ [x])"
  using assms by (cases xs) (auto simp: reseed_first_def)

lemma inv_enqueue:
  assumes "mb_inv m" "mb_producer m = PrEnqueue g i"
  shows "mb_inv (enqueue capacity m g i)"
proof -
  note b = mb_invD[OF assms(1)]
  have i: "i \<noteq> WiClose" using b(2) assms(2) by (simp add: inv_typed_def)
  have sh: "is_reseed i \<longleftrightarrow> of_gen g (mb_sent m) = []" "\<forall>x\<in>set (of_gen g (mb_sent m)). snd x \<noteq> WiCommitAndClose"
    using b(7) assms(2) by (simp_all add: inv_shape_def)
  show ?thesis
  proof (cases "send_room capacity m")
    case True
    let ?m = "m\<lparr>mb_queue := mb_queue m @ [(g, i)], mb_sent := mb_sent m @ [(g, i)], mb_producer := PrIdle\<rparr>"
    have "mb_inv ?m"
    proof (rule mb_invI)
      show "inv_bounds ?m" using b(1) assms(2) by (simp add: inv_bounds_def)
      show "inv_typed ?m" using b(2) i by (simp add: inv_typed_def)
      show "inv_order ?m" using b(3) i by (simp add: inv_order_def)
      show "inv_session ?m" using b(4) by (simp add: inv_session_def)
      show "inv_close ?m"
        using b(5) i closes_lead_typed[of "(g, i)" "gen_of m" "held (mb_worker m) @ mb_queue m"]
        by (simp add: inv_close_def)
      show "inv_phase ?m"
      proof (cases "g = gen_of m")
        case True
        note p = inv_phaseD[OF b(6)]
        have d: "phase_of m \<noteq> phase_dirty" using p(2) assms(2) True by simp
        show ?thesis
        proof (rule inv_phaseI)
          show "x \<in> set (of_gen (gen_of ?m) (mb_sent ?m)) \<Longrightarrow> snd x = WiCommitAndClose \<Longrightarrow> phase_of ?m = phase_terminal"
            for x using p(6)[of x] p(7) assms(2) True by (cases x) auto
        qed (use d True in simp_all)
      next
        case False
        then have "inv_phase (m\<lparr>mb_producer := PrIdle\<rparr>)"
          using assms(2) by (intro inv_phase_producer[OF b(6)]) simp_all
        then show ?thesis by (rule inv_phase_cong) (use False in simp_all)
      qed
      show "inv_shape ?m" using b(7) reseed_first_snoc[of "of_gen g (mb_sent m)" "(g, i)"] sh by (simp add: inv_shape_def)
      show "inv_sync ?m" using b(8) by (simp add: inv_sync_def)
    qed
    then show ?thesis using True by (simp add: enqueue_def)
  next
    case False
    let ?m = "m\<lparr>mb_rejected := mb_rejected m + 1, mb_producer := PrRejected\<rparr>"
    have "mb_inv ?m"
    proof (rule mb_invI)
      note p = inv_phaseD[OF b(6)]
      show "inv_bounds ?m" using b(1) by (simp add: inv_bounds_def)
      show "inv_typed ?m" using b(2) by (simp add: inv_typed_def)
      show "inv_order ?m" using b(3) by (simp add: inv_order_def)
      show "inv_session ?m" using b(4) by (simp add: inv_session_def)
      show "inv_close ?m" using b(5) by (simp add: inv_close_def)
      show "inv_phase ?m"
      proof (rule inv_phaseI)
        show "phase_of ?m = phase_dirty \<Longrightarrow> of_gen (gen_of ?m) (mb_sent ?m) = []" using p(1) by simp
        show "x \<in> set (of_gen (gen_of ?m) (mb_sent ?m)) \<Longrightarrow> snd x = WiCommitAndClose \<Longrightarrow> phase_of ?m = phase_terminal"
          for x using p(6) by simp
      qed simp_all
      show "inv_shape ?m" using b(7) by (simp add: inv_shape_def)
      show "inv_sync ?m" using b(8) by (simp add: inv_sync_def)
    qed
    then show ?thesis using False by (simp add: enqueue_def)
  qed
qed

section \<open>The steps of the worker\<close>

lemma inv_phase_worker:
  assumes "inv_phase m" "mb_pipeline m' = mb_pipeline m" "mb_sent m' = mb_sent m" "mb_producer m' = mb_producer m"
  shows "inv_phase m'"
  by (rule inv_phase_cong[OF assms(1)]) (simp_all add: assms)

text \<open>The worker moves on, with or without closing the session.\<close>

lemma inv_worker_move:
  assumes "mb_inv m" "applying w' = []" "worker_gen w' = 0" "\<And>x. w' \<noteq> WrFailed x" "\<And>g. w' \<noteq> WrSync g"
    and "held w' = []" "typed (of_gen (gen_of m) (held (mb_worker m))) = []"
    and "w' = WrClose \<or> w' = WrPublish 0 \<Longrightarrow> mb_wgen m \<noteq> gen_of m" "mb_worker m \<noteq> WrDone"
  shows "mb_inv (m\<lparr>mb_worker := w'\<rparr>)" (is "mb_inv ?m")
proof (rule mb_invI)
  note b = mb_invD[OF assms(1)]
  show "inv_bounds ?m" using b(1) assms(3,6) by (auto simp: inv_bounds_def)
  show "inv_typed ?m" using b(2) assms(2) by (auto simp: inv_typed_def)
  show "inv_order ?m" using inv_orderD(1,3)[OF b(3)] assms(2,6,7) by (simp add: inv_order_def)
  show "inv_session ?m"
  proof (rule inv_sessionI)
    note q = inv_sessionD[OF b(4)]
    show "mb_session ?m = (if mb_wgen ?m = 0 then [] else of_gen (mb_wgen ?m) (mb_applied ?m))" using q(1) by simp
    show "fst x = mb_wgen ?m \<and> fst x \<noteq> 0" if "mb_worker ?m = WrApply x \<or> mb_worker ?m = WrFailed x" for x
      using that assms(2,4) by auto
    show "mb_wgen ?m \<noteq> gen_of ?m" if "mb_worker ?m = WrClose \<or> mb_worker ?m = WrPublish g" for g
      using that assms(3,8) by auto
    show "mb_wgen ?m \<noteq> gen_of ?m \<Longrightarrow> of_gen (gen_of ?m) (mb_applied ?m) = [] \<or> mb_worker ?m = WrDone
        \<or> (\<exists>x\<in>set (of_gen (gen_of ?m) (mb_applied ?m)). snd x = WiCommitAndClose)"
      using q(4) assms(9) by auto
  qed
  show "inv_close ?m"
  proof -
    have "closes_lead g (xs @ ys) \<Longrightarrow> closes_lead g ys" for g xs ys
      by (induction xs) (use closes_lead_tl in auto)
    then show ?thesis using b(5) assms(6) by (auto simp: inv_close_def)
  qed
  show "inv_phase ?m" by (rule inv_phase_worker[OF b(6)]) simp_all
  show "inv_shape ?m" using b(7) by (simp add: inv_shape_def)
  show "inv_sync ?m" using b(8) assms(5) by (simp add: inv_sync_def)
qed

lemma inv_close_session:
  assumes "mb_inv m" "mb_wgen m \<noteq> gen_of m \<or> of_gen (gen_of m) (mb_applied m) = [] \<or> mb_worker m = WrDone
      \<or> (\<exists>x\<in>set (of_gen (gen_of m) (mb_applied m)). snd x = WiCommitAndClose)"
    and "applying (mb_worker m) = []" "\<And>x. mb_worker m \<noteq> WrFailed x"
  shows "mb_inv (engine_close m)" (is "mb_inv ?m")
proof (rule mb_invI)
  note b = mb_invD[OF assms(1)]
  have G: "1 \<le> gen_of m" using b(1) by (simp add: inv_bounds_def)
  show "inv_bounds ?m" using b(1) by (simp add: inv_bounds_def engine_close_def)
  show "inv_typed ?m" using b(2) by (simp add: inv_typed_def engine_close_def)
  show "inv_order ?m" using b(3) by (simp add: inv_order_def engine_close_def)
  show "inv_session ?m"
  proof (rule inv_sessionI)
    show "fst x = mb_wgen ?m \<and> fst x \<noteq> 0" if "mb_worker ?m = WrApply x \<or> mb_worker ?m = WrFailed x" for x
      using that assms(3,4) by (auto simp: engine_close_def)
    show "of_gen (gen_of ?m) (mb_applied ?m) = [] \<or> mb_worker ?m = WrDone
        \<or> (\<exists>x\<in>set (of_gen (gen_of ?m) (mb_applied ?m)). snd x = WiCommitAndClose)"
      using inv_sessionD(4)[OF b(4)] assms(2) by (auto simp: engine_close_def)
  qed (use G in \<open>simp_all add: engine_close_def\<close>)
  show "inv_close ?m" using b(5) by (simp add: inv_close_def engine_close_def)
  show "inv_phase ?m" by (rule inv_phase_worker[OF b(6)]) (simp_all add: engine_close_def)
  show "inv_shape ?m" using b(7) by (simp add: inv_shape_def engine_close_def)
  show "inv_sync ?m" using b(8) by (simp add: inv_sync_def engine_close_def)
qed

text \<open>The counters of rejections and of closes below the generation are free.\<close>

lemma inv_counters:
  assumes "mb_inv m" "c \<le> gen_of m"
  shows "mb_inv (m\<lparr>mb_close_before := c, mb_rejected := r\<rparr>)" (is "mb_inv ?m")
proof (rule mb_invI)
  note b = mb_invD[OF assms(1)]
  show "inv_bounds ?m" using b(1) assms(2) by (simp add: inv_bounds_def)
  show "inv_typed ?m" using b(2) by (simp add: inv_typed_def)
  show "inv_order ?m" using b(3) by (simp add: inv_order_def)
  show "inv_session ?m" using b(4) by (simp add: inv_session_def)
  show "inv_close ?m" using b(5) by (simp add: inv_close_def)
  show "inv_phase ?m" by (rule inv_phase_worker[OF b(6)]) simp_all
  show "inv_shape ?m" using b(7) by (simp add: inv_shape_def)
  show "inv_sync ?m" using b(8) by (simp add: inv_sync_def)
qed

lemma inv_flush: "mb_inv m \<Longrightarrow> mb_inv (flush_rejected m)"
proof -
  assume a: "mb_inv m"
  have "mb_inv (m\<lparr>mb_close_before := mb_close_before m, mb_rejected := 0\<rparr>)"
    by (rule inv_counters[OF a]) (use mb_invD(1)[OF a] in \<open>simp add: inv_bounds_def\<close>)
  then show ?thesis by (simp add: flush_rejected_def)
qed

lemma inv_worker_top:
  assumes "mb_inv m" "mb_worker m = WrTop"
  shows "mb_inv (worker_top m)"
proof -
  have "mb_inv (engine_close m)" if "mb_wgen m < mb_close_before m"
    using that assms(2) mb_invD(1)[OF assms(1)] by (intro inv_close_session[OF assms(1)]) (simp_all add: inv_bounds_def)
  moreover have "mb_inv (m'\<lparr>mb_worker := WrReceive\<rparr>)" if "mb_inv m'" "mb_worker m' = WrTop" for m'
    using that by (intro inv_worker_move) simp_all
  ultimately show ?thesis using assms by (simp add: worker_top_def engine_close_def)
qed

lemma inv_worker_receive:
  assumes "mb_inv m" "mb_worker m = WrReceive"
  shows "mb_inv (worker_receive m timeout)"
proof (cases "mb_queue m")
  case Nil
  have move: "mb_inv (m'\<lparr>mb_worker := WrTop\<rparr>)" if "mb_inv m'" "mb_worker m' = WrReceive" for m'
    using that by (intro inv_worker_move) simp_all
  have d: "mb_inv (m\<lparr>mb_worker := WrDone\<rparr>)"
    using assms by (intro inv_worker_move) simp_all
  have "mb_inv (flush_rejected (engine_close (m\<lparr>mb_worker := WrDone\<rparr>)))"
    by (rule inv_flush, rule inv_close_session[OF d]) simp_all
  moreover have "flush_rejected (engine_close (m\<lparr>mb_worker := WrDone\<rparr>))
      = (flush_rejected (engine_close m))\<lparr>mb_worker := WrDone\<rparr>"
    by (cases m) (simp add: flush_rejected_def engine_close_def)
  ultimately have "mb_inv ((flush_rejected (engine_close m))\<lparr>mb_worker := WrDone\<rparr>)" by simp
  moreover have "mb_inv ((flush_rejected m)\<lparr>mb_worker := WrTop\<rparr>)"
    by (rule move[OF inv_flush[OF assms(1)]]) (simp add: flush_rejected_def assms(2))
  ultimately show ?thesis using Nil assms(1) by (simp add: worker_receive_def)
next
  case (Cons item rest)
  note b = mb_invD[OF inv_flush[OF assms(1)]]
  let ?f = "flush_rejected m"
  let ?m = "?f\<lparr>mb_queue := rest, mb_worker := WrGot item\<rparr>"
  have f: "mb_worker ?f = WrReceive" "mb_queue ?f = item # rest" by (simp_all add: flush_rejected_def assms(2) Cons)
  have "mb_inv ?m"
  proof (rule mb_invI)
    show "inv_bounds ?m" using b(1) f by (auto simp: inv_bounds_def)
    show "inv_typed ?m" using b(2) f by (simp add: inv_typed_def)
    show "inv_order ?m" using b(3) f by (simp add: inv_order_def)
    show "inv_session ?m" using b(4) f by (simp add: inv_session_def)
    show "inv_close ?m" using b(5) f by (simp add: inv_close_def)
    show "inv_phase ?m" by (rule inv_phase_worker[OF b(6)]) simp_all
    show "inv_shape ?m" using b(7) by (simp add: inv_shape_def)
    show "inv_sync ?m" using b(8) by (simp add: inv_sync_def)
  qed
  then show ?thesis using Cons by (simp add: worker_receive_def)
qed

lemma close_then_move:
  "(engine_close m)\<lparr>mb_worker := w\<rparr> = engine_close (m\<lparr>mb_worker := w\<rparr>)"
  by (cases m) (simp add: engine_close_def)

text \<open>What is checked is applied next: it is the next of its generation, in a session of that generation.\<close>

lemma inv_take:
  assumes "mb_inv m" "mb_worker m = WrGot item" "fst item = gen_of m" "snd item \<noteq> WiClose"
    and "m' = m \<and> mb_wgen m = gen_of m
      \<or> m' = m\<lparr>mb_wgen := gen_of m, mb_session := []\<rparr> \<and> mb_wgen m \<noteq> gen_of m"
  shows "mb_inv (m'\<lparr>mb_worker := WrApply item\<rparr>)" (is "mb_inv ?m")
proof -
  note b = mb_invD[OF assms(1)]
  have G: "1 \<le> gen_of m" using b(1) by (simp add: inv_bounds_def)
  have same: "mb_pipeline m' = mb_pipeline m" "mb_sent m' = mb_sent m" "mb_applied m' = mb_applied m"
      "mb_queue m' = mb_queue m" "mb_producer m' = mb_producer m" "mb_close_before m' = mb_close_before m"
      "mb_wgen m' = gen_of m"
    using assms(5) by auto
  have next_item: "of_gen (gen_of m) (mb_sent m)
      = of_gen (gen_of m) (mb_applied m) @ item # typed (of_gen (gen_of m) (mb_queue m))"
    using inv_orderD(1)[OF b(3)] assms(2,3,4) by simp
  have fresh: "of_gen (gen_of m) (mb_applied m) = []" if "mb_wgen m \<noteq> gen_of m"
  proof -
    have "\<forall>x\<in>set (of_gen (gen_of m) (mb_applied m)). snd x \<noteq> WiCommitAndClose"
    proof -
      have "reseed_first (of_gen (gen_of m) (mb_sent m))" using b(7) by (simp add: inv_shape_def)
      then show ?thesis by (simp add: next_item reseed_first_def butlast_append)
    qed
    then show ?thesis using inv_sessionD(4)[OF b(4) that] assms(2) by auto
  qed
  show ?thesis
  proof (rule mb_invI)
    show "inv_bounds ?m" using b(1) assms(2) by (simp add: inv_bounds_def same)
    show "inv_typed ?m" using b(2) assms(4) by (auto simp: inv_typed_def same)
    show "inv_order ?m"
    proof -
      have "prefix (of_gen g (mb_applied m) @ of_gen g [item]) (of_gen g (mb_sent m))" for g
        using inv_orderD(3)[OF b(3)] next_item assms(3) by (cases "g = gen_of m") simp_all
      then show ?thesis using inv_orderD(1)[OF b(3)] assms(2) by (simp add: inv_order_def same)
    qed
    show "inv_session ?m"
    proof (rule inv_sessionI)
      show "mb_session ?m = (if mb_wgen ?m = 0 then [] else of_gen (mb_wgen ?m) (mb_applied ?m))"
        using assms(5) inv_sessionD(1)[OF b(4)] fresh by (elim disjE conjE) simp_all
      show "fst x = mb_wgen ?m \<and> fst x \<noteq> 0" if "mb_worker ?m = WrApply x \<or> mb_worker ?m = WrFailed x" for x
        using that assms(3) G by (simp add: same)
    qed (simp_all add: same)
    show "inv_close ?m" using b(5) assms(2) by (simp add: inv_close_def same)
    show "inv_phase ?m" by (rule inv_phase_worker[OF b(6)]) (simp_all add: same)
    show "inv_shape ?m" using b(7) by (simp add: inv_shape_def same)
    show "inv_sync ?m" using b(8) by (simp add: inv_sync_def same)
  qed
qed

lemma inv_worker_check:
  assumes "mb_inv m" "mb_worker m = WrGot item"
  shows "mb_inv (worker_check m item)"
proof -
  note b = mb_invD[OF assms(1)]
  have drop: "mb_inv (m\<lparr>mb_worker := WrTop\<rparr>)" if "fst item \<noteq> gen_of m \<or> snd item = WiClose"
    using that assms by (intro inv_worker_move) auto
  consider "fst item \<noteq> gen_of m" | "fst item = gen_of m" "snd item = WiClose"
    | "fst item = gen_of m" "snd item \<noteq> WiClose" by blast
  then show ?thesis
  proof cases
    case 1
    then show ?thesis using drop by (simp add: worker_check_def split_beta)
  next
    case 2
    then have "item = (gen_of m, WiClose)" by (cases item) simp
    then have "of_gen (gen_of m) (mb_applied m) = []" using b(5) assms(2) by (simp add: inv_close_def)
    then have "mb_inv (engine_close (m\<lparr>mb_worker := WrTop\<rparr>))"
      using 2 by (intro inv_close_session[OF drop]) simp_all
    then show ?thesis using 2 by (simp add: worker_check_def split_beta close_then_move)
  next
    case 3
    then show ?thesis
      using inv_take[OF assms 3] by (simp add: worker_check_def split_beta engine_close_def)
  qed
qed

lemma inv_worker_apply:
  assumes "mb_inv m" "mb_worker m = WrApply item"
  shows "mb_inv (worker_apply m item applied)"
proof -
  note b = mb_invD[OF assms(1)]
  have w: "fst item = mb_wgen m" "fst item \<noteq> 0" using inv_sessionD(2)[OF b(4), of item] assms(2) by simp_all
  have nc: "snd item \<noteq> WiClose" using b(2) assms(2) by (simp add: inv_typed_def)
  have le: "fst item \<le> gen_of m" using b(1) assms(2) by (simp add: inv_bounds_def)
  have failed: "mb_inv (m\<lparr>mb_worker := WrFailed item\<rparr>)" (is "mb_inv ?f")
  proof (rule mb_invI)
    show "inv_bounds ?f" using b(1) assms(2) by (simp add: inv_bounds_def)
    show "inv_typed ?f" using b(2) by (auto simp add: inv_typed_def)
    show "inv_order ?f" using inv_orderD(1,3)[OF b(3)] assms(2) by (simp add: inv_order_def)
    show "inv_session ?f" using b(4) assms(2) by (simp add: inv_session_def)
    show "inv_close ?f" using b(5) assms(2) by (simp add: inv_close_def)
    show "inv_phase ?f" by (rule inv_phase_worker[OF b(6)]) simp_all
    show "inv_shape ?f" using b(7) by (simp add: inv_shape_def)
    show "inv_sync ?f" using b(8) by (simp add: inv_sync_def)
  qed
  have applied: "mb_inv (m\<lparr>mb_session := mb_session m @ [item], mb_applied := mb_applied m @ [item], mb_worker := w'\<rparr>)"
    (is "mb_inv ?m") if w': "w' = WrTop \<or> w' = WrSync (fst item)" for w'
  proof (rule mb_invI)
    have none: "held w' = []" "applying w' = []" using w' by auto
    show "inv_bounds ?m" using b(1) assms(2) le none w' by (auto simp: inv_bounds_def)
    show "inv_typed ?m" using b(2) nc none by (auto simp add: inv_typed_def)
    show "inv_order ?m"
    proof -
      have "prefix (of_gen g (mb_applied m @ [item])) (of_gen g (mb_sent m))" for g
        using inv_orderD(2)[OF b(3), of g] assms(2) by simp
      then show ?thesis using inv_orderD(1)[OF b(3)] assms(2) none nc by (simp add: inv_order_def)
    qed
    show "inv_session ?m"
    proof (rule inv_sessionI)
      show "mb_session ?m = (if mb_wgen ?m = 0 then [] else of_gen (mb_wgen ?m) (mb_applied ?m))"
        using inv_sessionD(1)[OF b(4)] w by simp
      show "of_gen (gen_of ?m) (mb_applied ?m) = [] \<or> mb_worker ?m = WrDone
          \<or> (\<exists>x\<in>set (of_gen (gen_of ?m) (mb_applied ?m)). snd x = WiCommitAndClose)" if "mb_wgen ?m \<noteq> gen_of ?m"
        using inv_sessionD(4)[OF b(4)] that w(1) assms(2) by auto
    qed (use w' in auto)
    show "inv_close ?m"
    proof -
      have "(gen_of m, WiClose) \<notin> set (mb_queue m)" if "fst item = gen_of m"
        using b(5) assms(2) that nc by (simp add: inv_close_def)
      then show ?thesis using b(5) assms(2) none closes_lead_tl[of "gen_of m" item "mb_queue m"]
        by (auto simp: inv_close_def)
    qed
    show "inv_phase ?m" by (rule inv_phase_worker[OF b(6)]) simp_all
    show "inv_shape ?m" using b(7) by (simp add: inv_shape_def)
    show "inv_sync ?m" using b(8) w' by (auto simp: inv_sync_def)
  qed
  have commit: "mb_inv ((engine_close (m\<lparr>mb_session := mb_session m @ [item], mb_applied := mb_applied m @ [item]\<rparr>))
      \<lparr>mb_worker := WrTop\<rparr>)" if "snd item = WiCommitAndClose"
  proof -
    have "mb_inv (engine_close (m\<lparr>mb_session := mb_session m @ [item], mb_applied := mb_applied m @ [item],
        mb_worker := WrTop\<rparr>))"
      by (rule inv_close_session[OF applied]) (use w that in auto)
    then show ?thesis by (simp add: close_then_move)
  qed
  show ?thesis using failed applied commit by (simp add: worker_apply_def Let_def)
qed

lemma inv_worker_sync:
  assumes "mb_inv m" "mb_worker m = WrSync g"
  shows "mb_inv (worker_sync m g)"
proof -
  note b = mb_invD[OF assms(1)]
  have move: "mb_inv (m'\<lparr>mb_worker := WrTop\<rparr>)" if "mb_inv m'" "mb_worker m' = WrSync g" for m'
    using that by (intro inv_worker_move) simp_all
  have "mb_inv (m\<lparr>mb_pipeline := mb_encode g phase_synced\<rparr>)" (is "mb_inv ?m")
    if eq: "mb_pipeline m = mb_encode g phase_reseed_queued"
  proof -
    have "g < 2 ^ 62" using b(1) assms(2) by (simp add: inv_bounds_def)
    then have g: "gen_of m = g" "phase_of m = phase_reseed_queued" "gen_of ?m = g" "phase_of ?m = phase_synced"
      by (simp_all add: eq)
    show ?thesis
    proof (rule mb_invI)
      show "inv_bounds ?m" using b(1) unfolding inv_bounds_def g by simp
      show "inv_typed ?m" using b(2) by (simp add: inv_typed_def)
      show "inv_order ?m" using b(3) unfolding inv_order_def g by simp
      show "inv_session ?m" using b(4) unfolding inv_session_def g by simp
      show "inv_close ?m" using b(5) unfolding inv_close_def g by simp
      show "inv_phase ?m"
      proof (rule inv_phaseI)
        note p = inv_phaseD[OF b(6)]
        show "of_gen (gen_of ?m) (mb_sent ?m) \<noteq> []
            \<or> (\<exists>i. mb_producer ?m = PrEnqueue (gen_of ?m) i \<and> is_reseed i) \<or> mb_producer ?m = PrRejected"
          using p(3) unfolding g by simp
        show "mb_producer ?m = PrPublish (gen_of ?m) \<or> mb_producer ?m = PrSendClose (gen_of ?m) \<Longrightarrow> phase_of ?m = phase_dirty"
          using p(4) unfolding g by simp
        show "x \<in> set (of_gen (gen_of ?m) (mb_sent ?m)) \<Longrightarrow> snd x = WiCommitAndClose \<Longrightarrow> phase_of ?m = phase_terminal" for x
          using p(6) unfolding g by simp
        show "mb_producer ?m = PrEnqueue (gen_of ?m) WiCommitAndClose \<Longrightarrow> phase_of ?m = phase_terminal"
          using p(7) unfolding g by simp
      qed (unfold g, simp_all)
      show "inv_shape ?m" using b(7) by (simp add: inv_shape_def)
      show "inv_sync ?m" using b(8) assms(2) unfolding inv_sync_def g by simp
    qed
  qed
  then have "mb_inv ((m\<lparr>mb_pipeline := mb_encode g phase_synced\<rparr>)\<lparr>mb_worker := WrTop\<rparr>)"
    if "mb_pipeline m = mb_encode g phase_reseed_queued"
    using that assms(2) by (intro move) simp_all
  then show ?thesis using move[OF assms] by (simp add: worker_sync_def)
qed

lemma inv_mark_failed:
  assumes "mb_inv m" "mb_worker m = WrFailed item" "gen_of m + 1 < 2 ^ 62"
  shows "mb_inv (mark_worker_failed m (fst item))"
proof (cases "gen_of m = fst item")
  case True
  then have "mark_worker_failed m (fst item) = m\<lparr>mb_pipeline := mb_encode (gen_of m + 1) phase_dirty,
      mb_producer := mb_producer m, mb_worker := WrPublish (gen_of m + 1)\<rparr>"
    using next_generation[OF assms(3)] by (cases m) (simp add: mark_worker_failed_def)
  then show ?thesis by (simp only:) (rule new_generation[OF assms(1,3)], simp_all)
next
  case False
  have "fst item = mb_wgen m" using inv_sessionD(2)[OF mb_invD(4)[OF assms(1)], of item] assms(2) by simp
  then have "mb_inv (m\<lparr>mb_worker := WrClose\<rparr>)"
    using False assms(2) by (intro inv_worker_move[OF assms(1)]) simp_all
  then show ?thesis using False by (simp add: mark_worker_failed_def)
qed

lemma inv_publish_failed:
  assumes "mb_inv m" "mb_worker m = WrPublish g"
  shows "mb_inv (publish_failed m g)"
proof -
  note b = mb_invD[OF assms(1)]
  have "mb_inv (m\<lparr>mb_worker := WrClose\<rparr>)" (is "mb_inv ?m")
    using inv_sessionD(3)[OF b(4)] assms(2) by (intro inv_worker_move[OF assms(1)]) simp_all
  then have "mb_inv (?m\<lparr>mb_close_before := max (mb_close_before m) g, mb_rejected := mb_rejected m\<rparr>)"
    using b(1) assms(2) by (intro inv_counters) (simp_all add: inv_bounds_def)
  moreover have "?m\<lparr>mb_close_before := max (mb_close_before m) g, mb_rejected := mb_rejected m\<rparr> = publish_failed m g"
    by (cases m) (simp add: publish_failed_def)
  ultimately show ?thesis by simp
qed

lemma inv_worker_close:
  assumes "mb_inv m" "mb_worker m = WrClose"
  shows "mb_inv (worker_close m)"
proof -
  have "mb_inv (engine_close m)"
    using inv_sessionD(3)[OF mb_invD(4)[OF assms(1)]] assms(2) by (intro inv_close_session[OF assms(1)]) simp_all
  then have "mb_inv ((engine_close m)\<lparr>mb_worker := WrTop\<rparr>)"
    using assms(2) by (intro inv_worker_move) (simp_all add: engine_close_def)
  then show ?thesis by (simp add: worker_close_def)
qed

section \<open>Every run\<close>

lemma mailbox_step_inv:
  assumes "mailbox_step capacity m m'" "mb_inv m" "gen_of m + 1 < 2 ^ 62"
  shows "mb_inv m'"
  using assms(1)
  by (rule mailbox_stepE) (use assms(2,3) in \<open>auto intro: inv_begin inv_request_close inv_try_reseed inv_try_delta
      inv_try_commit inv_gone inv_enqueue inv_publish_close inv_send_close inv_worker_top inv_worker_receive
      inv_worker_check inv_worker_apply inv_worker_sync inv_mark_failed inv_publish_failed inv_worker_close\<close>)

interpretation mailbox_runs: safe_runs "mailbox_reach capacity" "\<lambda>m. m = bounded_mailbox"
    "\<lambda>m m'. mailbox_step capacity m m' \<and> gen_of m + 1 < 2 ^ 62" mb_inv for capacity
proof unfold_locales
  fix P m
  assume "mailbox_reach capacity m" and "\<And>m. m = bounded_mailbox \<Longrightarrow> P m"
    and "\<And>m m'. mailbox_reach capacity m \<Longrightarrow> P m \<Longrightarrow> mailbox_step capacity m m' \<and> gen_of m + 1 < 2 ^ 62 \<Longrightarrow> P m'"
  then show "P m" by (induction rule: mailbox_reach.induct) blast+
qed (auto simp: mb_inv_start intro: mailbox_step_inv)

text \<open>C14: In every interleaving of the text service and the worker, and whatever send or application fails, the
  session the engine has open holds, in order and without a gap, a beginning of what was accepted for one generation:
  first the reseed with the whole text, then only the text typed after it.\<close>

theorem session_is_prefix_of_typed:
  assumes "mailbox_reach capacity m" "mb_session m \<noteq> []"
  shows "prefix (mb_session m) (of_gen (mb_wgen m) (mb_sent m)) \<and> is_reseed (snd (hd (mb_session m)))
    \<and> (\<forall>x\<in>set (tl (mb_session m)). \<not> is_reseed (snd x))"
proof -
  note b = mb_invD[OF mailbox_runs.reach_good[OF assms(1)]]
  have s: "mb_session m = of_gen (mb_wgen m) (mb_applied m)"
    using inv_sessionD(1)[OF b(4)] assms(2) by (auto split: if_splits)
  have p: "prefix (mb_session m) (of_gen (mb_wgen m) (mb_sent m))" using inv_orderD(3)[OF b(3)] s by simp
  have "reseed_first (of_gen (mb_wgen m) (mb_sent m))" using b(7) by (simp add: inv_shape_def)
  then show ?thesis using p assms(2) by (cases "mb_session m") (auto simp: prefix_def reseed_first_def)
qed

lemmas sample_defs = bounded_mailbox_def phase_defs mb_encode_def mb_generation_def mb_phase_def

definition sample_typed :: queued_intent where "sample_typed = (1, WiInsert 7 [] True)"

text \<open>A run that types one text into the engine.\<close>

lemma sample_run:
  "mailbox_reach 4 \<lparr>mb_pipeline = 5, mb_close_before = 0, mb_rejected = 0, mb_queue = [], mb_producer = PrIdle,
     mb_worker = WrSync 1, mb_wgen = 1, mb_session = [sample_typed], mb_applied = [sample_typed], mb_sent = [sample_typed]\<rparr>"
proof -
  let ?m = "\<lambda>q pr w wg s. \<lparr>mb_pipeline = 5, mb_close_before = 0, mb_rejected = 0, mb_queue = q, mb_producer = pr,
      mb_worker = w, mb_wgen = wg, mb_session = s, mb_applied = s, mb_sent = [sample_typed]\<rparr>"
  have "mailbox_reach 4 (try_reseed bounded_mailbox 7 [])"
    by (rule reach_step[OF reach_start step_reseed]) (simp_all add: sample_defs)
  then have "mailbox_reach 4 (enqueue 4 (try_reseed bounded_mailbox 7 []) 1 (WiInsert 7 [] True))"
    by (rule reach_step[OF _ step_enqueue]) (simp_all add: sample_defs try_reseed_def)
  then have "mailbox_reach 4 (?m [sample_typed] PrIdle WrTop 0 [])"
    by (simp add: sample_defs try_reseed_def enqueue_def send_room_def sample_typed_def)
  then have "mailbox_reach 4 (worker_top (?m [sample_typed] PrIdle WrTop 0 []))"
    by (rule reach_step[OF _ step_top]) (simp_all add: sample_defs)
  then have "mailbox_reach 4 (?m [sample_typed] PrIdle WrReceive 0 [])" by (simp add: worker_top_def)
  then have "mailbox_reach 4 (worker_receive (?m [sample_typed] PrIdle WrReceive 0 []) False)"
    by (rule reach_step[OF _ step_receive]) (simp_all add: sample_defs)
  then have "mailbox_reach 4 (?m [] PrIdle (WrGot sample_typed) 0 [])" by (simp add: worker_receive_def flush_rejected_def)
  then have "mailbox_reach 4 (worker_check (?m [] PrIdle (WrGot sample_typed) 0 []) sample_typed)"
    by (rule reach_step[OF _ step_check]) (simp_all add: sample_defs)
  then have "mailbox_reach 4 (?m [] PrIdle (WrApply sample_typed) 1 [])"
    by (simp add: worker_check_def engine_close_def sample_typed_def mb_generation_def)
  then have "mailbox_reach 4 (worker_apply (?m [] PrIdle (WrApply sample_typed) 1 []) sample_typed True)"
    by (rule reach_step[OF _ step_apply]) (simp_all add: sample_defs)
  then show ?thesis by (simp add: worker_apply_def sample_typed_def)
qed

theorem session_is_prefix_of_typed_witness:
  "prefix [sample_typed] (of_gen 1 [sample_typed]) \<and> is_reseed (snd (hd [sample_typed]))"
  using session_is_prefix_of_typed[OF sample_run] by simp

text \<open>C15: Nothing of the current generation is lost or reordered: at every moment what was accepted for it is what
  was applied followed by what the worker holds and what is queued. The phase tells the truth: dirty means that
  nothing was accepted, synced means that the engine has taken the reseed.\<close>

theorem nothing_current_lost:
  assumes "mailbox_reach capacity m"
  shows "of_gen (gen_of m) (mb_sent m)
      = of_gen (gen_of m) (mb_applied m) @ typed (of_gen (gen_of m) (held (mb_worker m) @ mb_queue m))
    \<and> (needs_reseed m \<longrightarrow> of_gen (gen_of m) (mb_sent m) = [])
    \<and> (phase_of m = phase_synced \<longrightarrow> of_gen (gen_of m) (mb_applied m) \<noteq> [])"
proof -
  note b = mb_invD[OF mailbox_runs.reach_good[OF assms]]
  show ?thesis using inv_orderD(1)[OF b(3)] inv_phaseD(1)[OF b(6)] b(8) by (auto simp: needs_reseed_def inv_sync_def)
qed

theorem nothing_current_lost_witness:
  "of_gen 1 [sample_typed] = of_gen 1 [sample_typed] @ typed (of_gen 1 (held (WrSync 1) @ []))"
  using nothing_current_lost[OF sample_run] by (simp add: mb_generation_def)

end
