(* ===== verification/Graphemes.thy ===== *)
theory Graphemes
  imports Clause_Steps
begin

text \<open>
  The start of the last grapheme, \<open>crates/tip/src/grapheme.rs\<close>: an external crate gives the boundaries of the
  graphemes without one rule, and this file takes back the boundaries that rule forbids, by the table of
  \<open>crates/tip/src/grapheme_incb_15_1.rs\<close>. The boundaries of the crate are the parameter \<open>gi\<close>.
\<close>

section \<open>The table\<close>

datatype in_cb = CbNone | CbConsonant | CbLinker | CbExtend

definition incb_ranges :: "(uchar \<times> uchar \<times> in_cb) list" where
  "incb_ranges = [
    (0x300, 0x34e, CbExtend), (0x350, 0x36f, CbExtend), (0x483, 0x487, CbExtend), (0x591, 0x5bd, CbExtend),
    (0x5bf, 0x5bf, CbExtend), (0x5c1, 0x5c2, CbExtend), (0x5c4, 0x5c5, CbExtend), (0x5c7, 0x5c7, CbExtend),
    (0x610, 0x61a, CbExtend), (0x64b, 0x65f, CbExtend), (0x670, 0x670, CbExtend), (0x6d6, 0x6dc, CbExtend),
    (0x6df, 0x6e4, CbExtend), (0x6e7, 0x6e8, CbExtend), (0x6ea, 0x6ed, CbExtend), (0x711, 0x711, CbExtend),
    (0x730, 0x74a, CbExtend), (0x7eb, 0x7f3, CbExtend), (0x7fd, 0x7fd, CbExtend), (0x816, 0x819, CbExtend),
    (0x81b, 0x823, CbExtend), (0x825, 0x827, CbExtend), (0x829, 0x82d, CbExtend), (0x859, 0x85b, CbExtend),
    (0x898, 0x89f, CbExtend), (0x8ca, 0x8e1, CbExtend), (0x8e3, 0x8ff, CbExtend), (0x915, 0x939, CbConsonant),
    (0x93c, 0x93c, CbExtend), (0x94d, 0x94d, CbLinker), (0x951, 0x954, CbExtend), (0x958, 0x95f, CbConsonant),
    (0x978, 0x97f, CbConsonant), (0x995, 0x9a8, CbConsonant), (0x9aa, 0x9b0, CbConsonant),
    (0x9b2, 0x9b2, CbConsonant), (0x9b6, 0x9b9, CbConsonant), (0x9bc, 0x9bc, CbExtend), (0x9cd, 0x9cd, CbLinker),
    (0x9dc, 0x9dd, CbConsonant), (0x9df, 0x9df, CbConsonant), (0x9f0, 0x9f1, CbConsonant),
    (0x9fe, 0x9fe, CbExtend), (0xa3c, 0xa3c, CbExtend), (0xa95, 0xaa8, CbConsonant), (0xaaa, 0xab0, CbConsonant),
    (0xab2, 0xab3, CbConsonant), (0xab5, 0xab9, CbConsonant), (0xabc, 0xabc, CbExtend), (0xacd, 0xacd, CbLinker),
    (0xaf9, 0xaf9, CbConsonant), (0xb15, 0xb28, CbConsonant), (0xb2a, 0xb30, CbConsonant),
    (0xb32, 0xb33, CbConsonant), (0xb35, 0xb39, CbConsonant), (0xb3c, 0xb3c, CbExtend), (0xb4d, 0xb4d, CbLinker),
    (0xb5c, 0xb5d, CbConsonant), (0xb5f, 0xb5f, CbConsonant), (0xb71, 0xb71, CbConsonant),
    (0xc15, 0xc28, CbConsonant), (0xc2a, 0xc39, CbConsonant), (0xc3c, 0xc3c, CbExtend), (0xc4d, 0xc4d, CbLinker),
    (0xc55, 0xc56, CbExtend), (0xc58, 0xc5a, CbConsonant), (0xcbc, 0xcbc, CbExtend), (0xd15, 0xd3a, CbConsonant),
    (0xd3b, 0xd3c, CbExtend), (0xd4d, 0xd4d, CbLinker), (0xe38, 0xe3a, CbExtend), (0xe48, 0xe4b, CbExtend),
    (0xeb8, 0xeba, CbExtend), (0xec8, 0xecb, CbExtend), (0xf18, 0xf19, CbExtend), (0xf35, 0xf35, CbExtend),
    (0xf37, 0xf37, CbExtend), (0xf39, 0xf39, CbExtend), (0xf71, 0xf72, CbExtend), (0xf74, 0xf74, CbExtend),
    (0xf7a, 0xf7d, CbExtend), (0xf80, 0xf80, CbExtend), (0xf82, 0xf84, CbExtend), (0xf86, 0xf87, CbExtend),
    (0xfc6, 0xfc6, CbExtend), (0x1037, 0x1037, CbExtend), (0x1039, 0x103a, CbExtend), (0x108d, 0x108d, CbExtend),
    (0x135d, 0x135f, CbExtend), (0x1714, 0x1714, CbExtend), (0x17d2, 0x17d2, CbExtend),
    (0x17dd, 0x17dd, CbExtend), (0x18a9, 0x18a9, CbExtend), (0x1939, 0x193b, CbExtend),
    (0x1a17, 0x1a18, CbExtend), (0x1a60, 0x1a60, CbExtend), (0x1a75, 0x1a7c, CbExtend),
    (0x1a7f, 0x1a7f, CbExtend), (0x1ab0, 0x1abd, CbExtend), (0x1abf, 0x1ace, CbExtend),
    (0x1b34, 0x1b34, CbExtend), (0x1b6b, 0x1b73, CbExtend), (0x1bab, 0x1bab, CbExtend),
    (0x1be6, 0x1be6, CbExtend), (0x1c37, 0x1c37, CbExtend), (0x1cd0, 0x1cd2, CbExtend),
    (0x1cd4, 0x1ce0, CbExtend), (0x1ce2, 0x1ce8, CbExtend), (0x1ced, 0x1ced, CbExtend),
    (0x1cf4, 0x1cf4, CbExtend), (0x1cf8, 0x1cf9, CbExtend), (0x1dc0, 0x1dff, CbExtend),
    (0x200d, 0x200d, CbExtend), (0x20d0, 0x20dc, CbExtend), (0x20e1, 0x20e1, CbExtend),
    (0x20e5, 0x20f0, CbExtend), (0x2cef, 0x2cf1, CbExtend), (0x2d7f, 0x2d7f, CbExtend),
    (0x2de0, 0x2dff, CbExtend), (0x302a, 0x302d, CbExtend), (0x302e, 0x302f, CbExtend),
    (0x3099, 0x309a, CbExtend), (0xa66f, 0xa66f, CbExtend), (0xa674, 0xa67d, CbExtend),
    (0xa69e, 0xa69f, CbExtend), (0xa6f0, 0xa6f1, CbExtend), (0xa82c, 0xa82c, CbExtend),
    (0xa8e0, 0xa8f1, CbExtend), (0xa92b, 0xa92d, CbExtend), (0xa9b3, 0xa9b3, CbExtend),
    (0xaab0, 0xaab0, CbExtend), (0xaab2, 0xaab4, CbExtend), (0xaab7, 0xaab8, CbExtend),
    (0xaabe, 0xaabf, CbExtend), (0xaac1, 0xaac1, CbExtend), (0xaaf6, 0xaaf6, CbExtend),
    (0xabed, 0xabed, CbExtend), (0xfb1e, 0xfb1e, CbExtend), (0xfe20, 0xfe2f, CbExtend),
    (0x101fd, 0x101fd, CbExtend), (0x102e0, 0x102e0, CbExtend), (0x10376, 0x1037a, CbExtend),
    (0x10a0d, 0x10a0d, CbExtend), (0x10a0f, 0x10a0f, CbExtend), (0x10a38, 0x10a3a, CbExtend),
    (0x10a3f, 0x10a3f, CbExtend), (0x10ae5, 0x10ae6, CbExtend), (0x10d24, 0x10d27, CbExtend),
    (0x10eab, 0x10eac, CbExtend), (0x10efd, 0x10eff, CbExtend), (0x10f46, 0x10f50, CbExtend),
    (0x10f82, 0x10f85, CbExtend), (0x11070, 0x11070, CbExtend), (0x1107f, 0x1107f, CbExtend),
    (0x110ba, 0x110ba, CbExtend), (0x11100, 0x11102, CbExtend), (0x11133, 0x11134, CbExtend),
    (0x11173, 0x11173, CbExtend), (0x111ca, 0x111ca, CbExtend), (0x11236, 0x11236, CbExtend),
    (0x112e9, 0x112ea, CbExtend), (0x1133b, 0x1133c, CbExtend), (0x11366, 0x1136c, CbExtend),
    (0x11370, 0x11374, CbExtend), (0x11446, 0x11446, CbExtend), (0x1145e, 0x1145e, CbExtend),
    (0x114c3, 0x114c3, CbExtend), (0x115c0, 0x115c0, CbExtend), (0x116b7, 0x116b7, CbExtend),
    (0x1172b, 0x1172b, CbExtend), (0x1183a, 0x1183a, CbExtend), (0x1193e, 0x1193e, CbExtend),
    (0x11943, 0x11943, CbExtend), (0x11a34, 0x11a34, CbExtend), (0x11a47, 0x11a47, CbExtend),
    (0x11a99, 0x11a99, CbExtend), (0x11d42, 0x11d42, CbExtend), (0x11d44, 0x11d45, CbExtend),
    (0x11d97, 0x11d97, CbExtend), (0x11f42, 0x11f42, CbExtend), (0x16af0, 0x16af4, CbExtend),
    (0x16b30, 0x16b36, CbExtend), (0x1bc9e, 0x1bc9e, CbExtend), (0x1d165, 0x1d165, CbExtend),
    (0x1d167, 0x1d169, CbExtend), (0x1d16e, 0x1d172, CbExtend), (0x1d17b, 0x1d182, CbExtend),
    (0x1d185, 0x1d18b, CbExtend), (0x1d1aa, 0x1d1ad, CbExtend), (0x1d242, 0x1d244, CbExtend),
    (0x1e000, 0x1e006, CbExtend), (0x1e008, 0x1e018, CbExtend), (0x1e01b, 0x1e021, CbExtend),
    (0x1e023, 0x1e024, CbExtend), (0x1e026, 0x1e02a, CbExtend), (0x1e08f, 0x1e08f, CbExtend),
    (0x1e130, 0x1e136, CbExtend), (0x1e2ae, 0x1e2ae, CbExtend), (0x1e2ec, 0x1e2ef, CbExtend),
    (0x1e4ec, 0x1e4ef, CbExtend), (0x1e8d0, 0x1e8d6, CbExtend), (0x1e944, 0x1e94a, CbExtend)]"

text \<open>\<open>partition_point\<close> of a list the predicate splits.\<close>

definition table_point :: "('a \<Rightarrow> bool) \<Rightarrow> 'a list \<Rightarrow> nat" where
  "table_point p xs = length (takeWhile p xs)"

definition range_value :: "(uchar \<times> uchar \<times> in_cb) list \<Rightarrow> uchar \<Rightarrow> in_cb" where
  "range_value ranges c =
     (let index = table_point (\<lambda>(_, hi, _). hi < c) ranges
      in if index < length ranges \<and> fst (ranges ! index) \<le> c then snd (snd (ranges ! index)) else CbNone)"

definition incb_property :: "uchar \<Rightarrow> in_cb" where
  "incb_property c = range_value incb_ranges c"

section \<open>Conjuncts\<close>

fun linked_back :: "bool \<Rightarrow> ustring \<Rightarrow> bool" where
  "linked_back linker [] = False"
| "linked_back linker (c # before) =
     (case incb_property c of
        CbLinker \<Rightarrow> linked_back True before
      | CbExtend \<Rightarrow> linked_back linker before
      | CbConsonant \<Rightarrow> linker
      | CbNone \<Rightarrow> False)"

definition indic_conjunct :: "ustring \<Rightarrow> nat \<Rightarrow> bool option" where
  "indic_conjunct str boundary =
     (case split_bytes boundary str of
        None \<Rightarrow> None
      | Some (before, onward) \<Rightarrow>
          (case onward of
             [] \<Rightarrow> Some False
           | c # _ \<Rightarrow> if incb_property c \<noteq> CbConsonant then Some False else Some (linked_back False (rev before))))"

fun first_kept :: "ustring \<Rightarrow> nat list \<Rightarrow> nat option option" where
  "first_kept str [] = Some None"
| "first_kept str (start # rest) =
     (case indic_conjunct str start of
        None \<Rightarrow> None
      | Some True \<Rightarrow> first_kept str rest
      | Some False \<Rightarrow> Some (Some start))"

definition last_grapheme_start :: "(ustring \<Rightarrow> nat list) \<Rightarrow> ustring \<Rightarrow> nat option option" where
  "last_grapheme_start gi str = first_kept str (rev (gi str))"

section \<open>The table is read right\<close>

fun ranges_from :: "nat \<Rightarrow> (uchar \<times> uchar \<times> in_cb) list \<Rightarrow> bool" where
  "ranges_from n [] = True"
| "ranges_from n ((lo, hi, v) # rest) = (n \<le> lo \<and> lo \<le> hi \<and> ranges_from (Suc hi) rest)"

lemma incb_ranges_sorted: "ranges_from 0 incb_ranges"
  by (simp add: incb_ranges_def)

lemma ranges_from_le: "ranges_from n ranges \<Longrightarrow> r \<in> set ranges \<Longrightarrow> n \<le> fst r"
proof (induction n ranges rule: ranges_from.induct)
  case (2 n lo hi v rest)
  then show ?case by fastforce
qed simp

lemma range_value_Cons:
  "range_value ((lo, hi, v) # rest) c
     = (if hi < c then range_value rest c else if lo \<le> c then v else CbNone)"
  by (simp add: range_value_def table_point_def Let_def)

lemma range_value_sorted:
  "ranges_from n ranges \<Longrightarrow> (lo, hi, v) \<in> set ranges \<Longrightarrow> lo \<le> c \<Longrightarrow> c \<le> hi \<Longrightarrow> range_value ranges c = v"
proof (induction n ranges rule: ranges_from.induct)
  case (2 n a b w rest)
  show ?case
  proof (cases "(lo, hi, v) = (a, b, w)")
    case True
    then show ?thesis using 2 by (simp add: range_value_Cons)
  next
    case False
    then have m: "(lo, hi, v) \<in> set rest" using 2 by auto
    then have "b < c" using ranges_from_le [of "Suc b" rest "(lo, hi, v)"] 2 by simp
    then show ?thesis using 2 m by (simp add: range_value_Cons)
  qed
qed simp

lemma range_value_outside:
  "\<forall>(lo, hi, v)\<in>set ranges. \<not> (lo \<le> c \<and> c \<le> hi) \<Longrightarrow> range_value ranges c = CbNone"
proof (induction ranges)
  case Nil
  show ?case by (simp add: range_value_def)
next
  case (Cons r rest)
  then show ?case by (cases r) (auto simp: range_value_Cons)
qed

text \<open>The search gives the value of the range a character is in, and none outside all ranges.\<close>

lemma incb_property_exact:
  "(\<forall>(lo, hi, v)\<in>set incb_ranges. lo \<le> c \<and> c \<le> hi \<longrightarrow> incb_property c = v)
   \<and> ((\<forall>(lo, hi, v)\<in>set incb_ranges. \<not> (lo \<le> c \<and> c \<le> hi)) \<longrightarrow> incb_property c = CbNone)"
  unfolding incb_property_def using range_value_sorted [OF incb_ranges_sorted] range_value_outside by blast

section \<open>The rule\<close>

definition joins :: "uchar \<Rightarrow> bool" where
  "joins c \<longleftrightarrow> incb_property c = CbLinker \<or> incb_property c = CbExtend"

definition is_linker :: "uchar \<Rightarrow> bool" where
  "is_linker c \<longleftrightarrow> incb_property c = CbLinker"

text \<open>The rule of the standard: a consonant, joining characters with a linker among them, and then a consonant.\<close>

definition conjunct_before :: "ustring \<Rightarrow> bool" where
  "conjunct_before before \<longleftrightarrow>
     (\<exists>front c middle. before = front @ c # middle \<and> incb_property c = CbConsonant
        \<and> list_all joins middle \<and> list_ex is_linker middle)"

lemma join_step:
  assumes "joins c"
  shows "(\<exists>middle d front. c # bs = middle @ d # front \<and> incb_property d = CbConsonant
        \<and> list_all joins middle \<and> (linker \<or> list_ex is_linker middle)) \<longleftrightarrow>
    (\<exists>middle d front. bs = middle @ d # front \<and> incb_property d = CbConsonant
        \<and> list_all joins middle \<and> ((linker \<or> is_linker c) \<or> list_ex is_linker middle))" (is "?l \<longleftrightarrow> ?r")
proof
  assume ?l
  then obtain middle d front where m: "c # bs = middle @ d # front" "incb_property d = CbConsonant"
      "list_all joins middle" "linker \<or> list_ex is_linker middle" by blast
  then obtain rest where "middle = c # rest" using assms by (cases middle) (auto simp: joins_def)
  then have "bs = rest @ d # front \<and> incb_property d = CbConsonant \<and> list_all joins rest
      \<and> ((linker \<or> is_linker c) \<or> list_ex is_linker rest)" using m by auto
  then show ?r by blast
next
  assume ?r
  then obtain middle d front where m: "bs = middle @ d # front" "incb_property d = CbConsonant"
      "list_all joins middle" "(linker \<or> is_linker c) \<or> list_ex is_linker middle" by blast
  then have "c # bs = (c # middle) @ d # front \<and> incb_property d = CbConsonant \<and> list_all joins (c # middle)
      \<and> (linker \<or> list_ex is_linker (c # middle))" using assms by auto
  then show ?l by blast
qed

lemma linked_back_iff:
  "linked_back linker bs \<longleftrightarrow>
     (\<exists>middle c front. bs = middle @ c # front \<and> incb_property c = CbConsonant
        \<and> list_all joins middle \<and> (linker \<or> list_ex is_linker middle))"
proof (induction linker bs rule: linked_back.induct)
  case (2 linker c before)
  show ?case
  proof (cases "incb_property c")
    case CbConsonant
    have "(\<exists>middle d front. c # before = middle @ d # front \<and> incb_property d = CbConsonant
        \<and> list_all joins middle \<and> (linker \<or> list_ex is_linker middle)) \<longleftrightarrow> linker"
    proof
      assume "\<exists>middle d front. c # before = middle @ d # front \<and> incb_property d = CbConsonant
        \<and> list_all joins middle \<and> (linker \<or> list_ex is_linker middle)"
      then obtain middle d front where m: "c # before = middle @ d # front" "list_all joins middle"
          "linker \<or> list_ex is_linker middle" by blast
      then have "middle = []" using CbConsonant by (cases middle) (auto simp: joins_def)
      then show linker using m(3) by simp
    qed (use CbConsonant in \<open>force\<close>)
    then show ?thesis using CbConsonant by simp
  next
    case CbNone
    have "\<not> (\<exists>middle d front. c # before = middle @ d # front \<and> incb_property d = CbConsonant \<and> list_all joins middle)"
      using CbNone by (auto simp: Cons_eq_append_conv joins_def)
    then show ?thesis using CbNone by auto
  next
    case CbLinker
    then have j: "joins c" "is_linker c" by (simp_all add: joins_def is_linker_def)
    show ?thesis unfolding join_step [OF j(1)] using 2(1) CbLinker j(2) by simp
  next
    case CbExtend
    then have j: "joins c" "\<not> is_linker c" by (simp_all add: joins_def is_linker_def)
    show ?thesis unfolding join_step [OF j(1)] using 2(2) CbExtend j(2) by simp
  qed
qed simp

lemma linked_back_rev: "linked_back False (rev before) \<longleftrightarrow> conjunct_before before"
proof
  assume "linked_back False (rev before)"
  then obtain middle c front where m: "rev before = middle @ c # front" "incb_property c = CbConsonant"
      "list_all joins middle" "list_ex is_linker middle" by (auto simp: linked_back_iff)
  have "before = rev front @ c # rev middle" using arg_cong [OF m(1), of rev] by simp
  then show "conjunct_before before" unfolding conjunct_before_def
    by (intro exI [of _ "rev front"] exI [of _ c] exI [of _ "rev middle"]) (use m in simp)
next
  assume "conjunct_before before"
  then obtain front c middle where m: "before = front @ c # middle" "incb_property c = CbConsonant"
      "list_all joins middle" "list_ex is_linker middle" by (auto simp: conjunct_before_def)
  then show "linked_back False (rev before)" unfolding linked_back_iff
    by (intro exI [of _ "rev middle"] exI [of _ c] exI [of _ "rev front"]) simp
qed

lemma indic_conjunct_slice:
  "indic_conjunct (before @ onward) (byte_len before)
     = Some (conjunct_before before \<and> (\<exists>c rest. onward = c # rest \<and> incb_property c = CbConsonant))"
proof (cases onward)
  case Nil
  then show ?thesis using split_bytes_append [of before "[]"] by (simp add: indic_conjunct_def)
next
  case (Cons c rest)
  then show ?thesis by (simp add: indic_conjunct_def split_bytes_append linked_back_rev)
qed

text \<open>The boundaries the rule takes back: behind them a consonant, before them a conjunct in progress.\<close>

definition taken_back :: "ustring \<Rightarrow> nat \<Rightarrow> bool" where
  "taken_back str k \<longleftrightarrow> (\<exists>before c rest. str = before @ c # rest \<and> k = byte_len before
     \<and> conjunct_before before \<and> incb_property c = CbConsonant)"

lemma indic_conjunct_taken_back: "is_char_boundary str k \<Longrightarrow> indic_conjunct str k = Some (taken_back str k)"
proof -
  assume "is_char_boundary str k"
  then obtain before onward where s: "str = before @ onward" "k = byte_len before" by (auto simp: is_char_boundary_iff)
  have same: "b = before" if "before @ onward = b @ c # rest" "byte_len before = byte_len b" for b c rest
    using that split_bytes_append by (metis option.inject prod.inject)
  have "taken_back str k \<longleftrightarrow> conjunct_before before \<and> (\<exists>c rest. onward = c # rest \<and> incb_property c = CbConsonant)"
    unfolding taken_back_def s using same by (metis append_same_eq same_append_eq)
  then show ?thesis using s by (simp add: indic_conjunct_slice)
qed

section \<open>What the clause model relies on\<close>

definition boundaries :: "(ustring \<Rightarrow> nat list) \<Rightarrow> bool" where
  "boundaries gi \<longleftrightarrow> (\<forall>str. \<forall>k\<in>set (gi str). is_char_boundary str k)"

lemma first_kept_find:
  "\<forall>k\<in>set ks. is_char_boundary str k \<Longrightarrow> first_kept str ks = Some (List.find (\<lambda>k. \<not> taken_back str k) ks)"
  by (induction ks) (simp_all add: indic_conjunct_taken_back split: bool.split)

text \<open>C31: the last grapheme starts where Unicode says: at the last boundary of the external crate that the rule for
  Indic conjuncts does not take back, which is one between two consonants with only joining characters between them,
  one of them a linker. No slice panics when the boundaries of the crate are between characters.\<close>

theorem last_grapheme_start_is_rule:
  assumes "boundaries gi"
  shows "last_grapheme_start gi str = Some (List.find (\<lambda>k. \<not> taken_back str k) (rev (gi str)))"
  using assms by (simp add: last_grapheme_start_def boundaries_def first_kept_find)

definition char_starts :: "ustring \<Rightarrow> nat list" where
  "char_starts str = map (\<lambda>k. byte_len (take k str)) [0..<length str]"

lemma char_starts_boundaries: "boundaries char_starts"
  unfolding boundaries_def char_starts_def is_char_boundary_iff by (auto intro: append_take_drop_id [symmetric])

text \<open>The consonant, virama and consonant of one Devanagari cluster.\<close>

theorem last_grapheme_start_is_rule_witness:
  "last_grapheme_start char_starts [0x915, 0x94d, 0x937]
     = Some (List.find (\<lambda>k. \<not> taken_back [0x915, 0x94d, 0x937] k) (rev (char_starts [0x915, 0x94d, 0x937])))"
  by (rule last_grapheme_start_is_rule [OF char_starts_boundaries])

lemma first_kept_boundary:
  assumes "\<forall>k\<in>set ks. is_char_boundary str k"
  shows "\<exists>r. first_kept str ks = Some r \<and> (\<forall>k. r = Some k \<longrightarrow> k \<in> set ks)"
  using assms
proof (induction ks)
  case (Cons k ks)
  then obtain front behind where "str = front @ behind" "k = byte_len front" by (auto simp: is_char_boundary_iff)
  then obtain b where b: "indic_conjunct str k = Some b" using indic_conjunct_slice by blast
  show ?case using Cons b by (cases b) auto
qed simp

definition grapheme_start :: "(ustring \<Rightarrow> nat list) \<Rightarrow> ustring \<Rightarrow> nat option" where
  "grapheme_start gi str = (case last_grapheme_start gi str of Some r \<Rightarrow> r | None \<Rightarrow> None)"

lemma last_grapheme_start_total: "boundaries gi \<Longrightarrow> \<exists>r. last_grapheme_start gi str = Some r"
  using first_kept_boundary [of "rev (gi str)" str] by (auto simp: last_grapheme_start_def boundaries_def)

lemma grapheme_start_ok: "boundaries gi \<Longrightarrow> last_start_ok (grapheme_start gi)"
  unfolding last_start_ok_def
proof (intro allI impI)
  fix str k
  assume b: "boundaries gi" and k: "grapheme_start gi str = Some k"
  then have ks: "\<forall>k\<in>set (rev (gi str)). is_char_boundary str k" by (simp add: boundaries_def)
  obtain r where "first_kept str (rev (gi str)) = Some r" "\<forall>k. r = Some k \<longrightarrow> k \<in> set (rev (gi str))"
    using first_kept_boundary [OF ks] by blast
  then show "is_char_boundary str k"
    using k ks by (auto simp: grapheme_start_def last_grapheme_start_def)
qed

text \<open>With the boundaries of the external crate at characters, no operation of the clause model panics: the
  hypothesis of the clause model is discharged by this file.\<close>

lemma clauses_return_with_graphemes:
  assumes "boundaries gi" "clause_reach (grapheme_start gi) m"
  shows "\<exists>m'. run_event (grapheme_start gi) e m = Some m'"
  using clauses.reach_returns [OF assms(2) grapheme_start_ok [OF assms(1)]] .

end
