(* ===== verification/Model_Operations.thy ===== *)
theory Model_Operations
  imports Update_Checker
begin

text \<open>
  The record of long running model operations in the settings program, \<open>crates/config/src/operation_state.rs\<close>, and
  the intent of its start, \<open>crates/config/src/activation.rs\<close>. The list behind the lock is the state; a guard is the
  kind and the number of its operation, and it ends by success, by failure or by being dropped.
\<close>

section \<open>Operations\<close>

datatype model_kind = KindZenzai | KindPrediction

datatype operation_phase =
  OpDownloading | OpVerifying | OpPlacementWaiting | OpPlacing | OpActivating | OpCancelling
| OpSucceeded | OpFailed | OpCancelled

record operation_status =
  os_id :: nat
  os_kind :: model_kind
  os_phase :: operation_phase
  os_progress :: "nat option"
  os_cancelable :: bool
  os_activation :: bool
  os_result :: "ustring option"

fun with_record ::
  "model_kind \<Rightarrow> nat \<Rightarrow> (operation_status \<Rightarrow> operation_status) \<Rightarrow> operation_status list \<Rightarrow> operation_status list" where
  "with_record kind i update [] = []"
| "with_record kind i update (s # rest) =
     (if os_kind s = kind then (if os_id s = i then update s # rest else s # rest)
      else s # with_record kind i update rest)"

definition guard_begin :: "model_kind \<Rightarrow> nat \<Rightarrow> bool \<Rightarrow> operation_status list \<Rightarrow> operation_status list" where
  "guard_begin kind i activation ops =
     filter (\<lambda>s. os_kind s \<noteq> kind) ops
       @ [\<lparr>os_id = i, os_kind = kind, os_phase = OpDownloading, os_progress = Some 0, os_cancelable = True,
           os_activation = activation, os_result = None\<rparr>]"

definition guard_progress :: "model_kind \<Rightarrow> nat \<Rightarrow> nat option \<Rightarrow> operation_status list \<Rightarrow> operation_status list" where
  "guard_progress kind i p = with_record kind i (\<lambda>s. s\<lparr>os_progress := p\<rparr>)"

definition guard_phase ::
  "model_kind \<Rightarrow> nat \<Rightarrow> operation_phase \<Rightarrow> bool \<Rightarrow> operation_status list \<Rightarrow> operation_status list" where
  "guard_phase kind i ph cancelable = with_record kind i (\<lambda>s. s\<lparr>os_phase := ph, os_cancelable := cancelable\<rparr>)"

definition guard_succeed :: "model_kind \<Rightarrow> nat \<Rightarrow> ustring \<Rightarrow> operation_status list \<Rightarrow> operation_status list" where
  "guard_succeed kind i r = with_record kind i (\<lambda>s. s\<lparr>os_phase := OpSucceeded, os_progress := Some 100,
     os_cancelable := False, os_result := Some r\<rparr>)"

definition cancel_word :: ustring where
  "cancel_word = [0x30ad, 0x30e3, 0x30f3, 0x30bb, 0x30eb]"

definition guard_fail :: "model_kind \<Rightarrow> nat \<Rightarrow> ustring \<Rightarrow> operation_status list \<Rightarrow> operation_status list" where
  "guard_fail kind i r = with_record kind i (\<lambda>s. s\<lparr>
     os_phase := (if os_phase s = OpCancelling \<or> contains_text r cancel_word then OpCancelled else OpFailed),
     os_cancelable := False, os_result := Some r\<rparr>)"

text \<open>The two messages of a dropped guard are parameters: nothing reads them.\<close>

definition guard_drop ::
  "ustring \<Rightarrow> ustring \<Rightarrow> model_kind \<Rightarrow> nat \<Rightarrow> operation_status list \<Rightarrow> operation_status list" where
  "guard_drop cancelled_text failed_text kind i = with_record kind i (\<lambda>s. s\<lparr>
     os_phase := (if os_phase s = OpCancelling then OpCancelled else OpFailed), os_cancelable := False,
     os_result := Some (if os_phase s = OpCancelling then cancelled_text else failed_text)\<rparr>)"

definition request_cancel :: "model_kind \<Rightarrow> nat \<Rightarrow> operation_status list \<Rightarrow> operation_status list" where
  "request_cancel kind i = with_record kind i (\<lambda>s.
     if os_cancelable s then s\<lparr>os_phase := OpCancelling, os_cancelable := False\<rparr> else s)"

section \<open>One record of a kind\<close>

definition kinds_distinct :: "operation_status list \<Rightarrow> bool" where
  "kinds_distinct ops \<longleftrightarrow> distinct (map os_kind ops)"

definition keeps_identity :: "(operation_status \<Rightarrow> operation_status) \<Rightarrow> bool" where
  "keeps_identity update \<longleftrightarrow> (\<forall>s. os_kind (update s) = os_kind s \<and> os_id (update s) = os_id s)"

lemma with_record_kinds: "keeps_identity update \<Longrightarrow> map os_kind (with_record kind i update ops) = map os_kind ops"
  by (induction ops) (auto simp: keeps_identity_def)

lemma begin_distinct: "kinds_distinct ops \<Longrightarrow> kinds_distinct (guard_begin kind i activation ops)"
  by (auto simp: kinds_distinct_def guard_begin_def distinct_map_filter)

lemma with_record_distinct: "keeps_identity update \<Longrightarrow> kinds_distinct ops \<Longrightarrow> kinds_distinct (with_record kind i update ops)"
  by (simp add: kinds_distinct_def with_record_kinds)

text \<open>The record a guard finds, the one it leaves, and the others: a guard of an older operation changes nothing.\<close>

definition record_of :: "model_kind \<Rightarrow> nat \<Rightarrow> operation_status list \<Rightarrow> operation_status option" where
  "record_of kind i ops = List.find (\<lambda>s. os_kind s = kind \<and> os_id s = i) ops"

lemma with_record_found:
  "keeps_identity update \<Longrightarrow> kinds_distinct ops \<Longrightarrow>
   record_of k j (with_record kind i update ops)
     = (if k = kind \<and> j = i then map_option update (record_of k j ops) else record_of k j ops)"
proof (induction ops)
  case (Cons s ops)
  have none: "record_of (os_kind s) i ops = None"
  proof -
    have "\<forall>x\<in>set ops. os_kind x \<noteq> os_kind s"
      using Cons.prems(2) by (metis distinct.simps(2) image_eqI kinds_distinct_def list.set_map list.simps(9))
    then show ?thesis by (auto simp: record_of_def find_None_iff)
  qed
  have d: "kinds_distinct ops" using Cons.prems(2) by (simp add: kinds_distinct_def)
  have u: "os_kind (update s) = os_kind s" "os_id (update s) = os_id s"
    using Cons.prems(1) by (simp_all add: keeps_identity_def)
  show ?case
  proof (cases "os_kind s = kind")
    case True
    then show ?thesis using none u by (auto simp: record_of_def)
  next
    case False
    then show ?thesis using Cons.IH [OF Cons.prems(1) d] by (auto simp: record_of_def)
  qed
qed (simp add: record_of_def)

lemma stale_guard: "record_of kind i ops = None \<Longrightarrow> with_record kind i update ops = ops"
  by (induction ops) (auto simp: record_of_def split: if_splits)

section \<open>How an operation ends\<close>

definition ended :: "operation_status \<Rightarrow> bool" where
  "ended s \<longleftrightarrow> os_phase s \<in> {OpSucceeded, OpFailed, OpCancelled} \<and> \<not> os_cancelable s \<and> os_result s \<noteq> None"

lemma updates_keep_identity:
  "keeps_identity (\<lambda>s. s\<lparr>os_phase := OpSucceeded, os_progress := Some 100, os_cancelable := False, os_result := Some r\<rparr>)"
  "keeps_identity (\<lambda>s. s\<lparr>os_phase := (if os_phase s = OpCancelling \<or> contains_text r cancel_word then OpCancelled
     else OpFailed), os_cancelable := False, os_result := Some r\<rparr>)"
  "keeps_identity (\<lambda>s. s\<lparr>os_phase := (if os_phase s = OpCancelling then OpCancelled else OpFailed),
     os_cancelable := False, os_result := Some (if os_phase s = OpCancelling then c else f)\<rparr>)"
  "keeps_identity (\<lambda>s. if os_cancelable s then s\<lparr>os_phase := OpCancelling, os_cancelable := False\<rparr> else s)"
  by (simp_all add: keeps_identity_def)

text \<open>However a guard ends, the record of its operation, when it still has one, says so and offers no cancel.\<close>

lemma every_end_is_recorded:
  assumes "kinds_distinct ops"
    and "ops' \<in> {guard_succeed kind i r ops, guard_fail kind i r ops, guard_drop c f kind i ops}"
    and "record_of kind i ops' = Some s"
  shows "ended s"
  using assms(2,3)
  by (elim insertE emptyE) (auto simp: guard_succeed_def guard_fail_def guard_drop_def ended_def
      with_record_found [OF updates_keep_identity(1) assms(1)] with_record_found [OF updates_keep_identity(2) assms(1)]
      with_record_found [OF updates_keep_identity(3) assms(1)])

text \<open>An operation whose cancel was accepted ends as cancelled unless it succeeds or enters another phase.\<close>

lemma cancelled_ends_cancelled:
  assumes "kinds_distinct ops" "record_of kind i ops = Some s" "os_cancelable s"
  shows "map_option os_phase (record_of kind i (guard_drop c f kind i (request_cancel kind i ops))) = Some OpCancelled"
proof -
  have d: "kinds_distinct (request_cancel kind i ops)"
    unfolding request_cancel_def by (rule with_record_distinct [OF updates_keep_identity(4) assms(1)])
  have "record_of kind i (request_cancel kind i ops) = Some (s\<lparr>os_phase := OpCancelling, os_cancelable := False\<rparr>)"
    using assms(2,3) unfolding request_cancel_def with_record_found [OF updates_keep_identity(4) assms(1)] by simp
  then show ?thesis unfolding guard_drop_def with_record_found [OF updates_keep_identity(3) d] by simp
qed

section \<open>The intent of a start\<close>

text \<open>An \<open>isize\<close> is an \<open>i64\<close> on the one platform of the program.\<close>

datatype launch_intent = OpenUpdate | StopEngine | RepairUpdateTask | ParentHwnd int | NoIntent

definition parse_argument :: "ustring \<Rightarrow> launch_intent" where
  "parse_argument value =
     (if value = ascii ''--open-update'' \<or> value = ascii ''nospacekey://update'' \<or> value = ascii ''nospacekey://update/''
      then OpenUpdate
      else if value = ascii ''--stop-engine'' then StopEngine
      else if value = ascii ''--repair-update-task'' then RepairUpdateTask
      else case parse_i64 value of Some h \<Rightarrow> ParentHwnd h | None \<Rightarrow> NoIntent)"

fun parse_args_from :: "launch_intent \<Rightarrow> ustring list \<Rightarrow> launch_intent" where
  "parse_args_from parent [] = parent"
| "parse_args_from parent (a # rest) =
     (case parse_argument a of
        ParentHwnd h \<Rightarrow> parse_args_from (ParentHwnd h) rest
      | NoIntent \<Rightarrow> parse_args_from parent rest
      | intent \<Rightarrow> intent)"

definition parse_args :: "ustring list \<Rightarrow> launch_intent" where
  "parse_args args = parse_args_from NoIntent args"

text \<open>The first argument that asks for something decides, whatever stands around it.\<close>

lemma first_request_decides:
  assumes "\<forall>a\<in>set before. \<exists>h. parse_argument a = ParentHwnd h \<or> parse_argument a = NoIntent"
    and "parse_argument a \<in> {OpenUpdate, StopEngine, RepairUpdateTask}"
  shows "parse_args (before @ a # later) = parse_argument a"
proof -
  have "parse_args_from parent (before @ a # later) = parse_argument a" for parent
    using assms by (induction before arbitrary: parent) (auto split: launch_intent.splits)
  then show ?thesis by (simp add: parse_args_def)
qed

end
