(* ===== verification/Spec2Isabelle.thy ===== *)
theory Spec2Isabelle
  imports Clause_Wire Input_Journal Kana_Composer_Spec Keymap Symbols Conversion_Queue Input_State
    Prediction Apply_State Conversion_Mode Candidate_State Framing Clause_Guarantees Input_Module_Spec Receipt_Outbox
    Dictionary_Commands_Spec Update_Checker_Spec Update_Tasks Background_Mailbox_Spec Graphemes Model_Operations
begin

text \<open>
  Verification library of nospacekey, a Japanese input method for Windows: the Rust crates under \<open>crates/\<close>.

  \<^bold>\<open>The program.\<close> The text service (\<open>crates/tip\<close>) runs inside each application. It turns keys into a reading in
  kana, shows it, asks a conversion engine in another process for kanji, lets the user move between clauses and
  choose candidates, and writes the committed text into the document. Calls to the engine travel over a pipe
  (\<open>crates/ipc\<close>), and replies come back late, out of order or not at all. Settings, key bindings and the user
  dictionary are files (\<open>crates/settings\<close>) that the settings program edits (\<open>crates/config\<close>). A checker
  (\<open>crates/update\<close>) looks for new releases on a schedule.

  \<^bold>\<open>How a key travels.\<close> A key is resolved against the bindings (Keymap_Settings, Keymap). Text goes to the input module
  (Input_Module), which owns the local kana composer (Kana_Table, Kana_Composer), the input state (Input_State), the
  candidate list (Candidate_State) and the tickets of snapshots it sent. What it sends to the engine goes through the
  mailbox (Background_Mailbox). While a conversion is awaited, further operations wait in the queue (Conversion_Queue).
  A converted reading is a clause model (Clause_Model, Clause_Requests) over the wire types of Clause_Wire and
  Intervals. A commit leaves a receipt for learning in the outbox (Receipt_Outbox).

  \<^bold>\<open>Theories and sources.\<close>
  \<^item> Rust_Prelude, Rust_Text: strings of characters, their UTF-8 and UTF-16 lengths, checked and saturating integers,
    and the string routines of the standard library the source calls. Text is a list of code points; offsets in bytes
    or units are computed from it, and a slice off a character boundary is a panic, the value None.
  \<^item> Safe_Runs: the two contracts of state machines as locales. \<open>safe_runs\<close> is a machine whose steps keep a property,
    \<open>event_machine\<close> one whose operations also return. They are interpreted for the composer, the input module, the
    clause model, the conversion queue, the outbox and the mailbox, and the properties use the interpreted facts.
  \<^item> Intervals: consecutive non-empty intervals, and the locales \<open>interval_scan\<close> and \<open>keyed_scan\<close> of the loops that
    check them; Clause_Wire interprets them for the four lists the wire format has (\<open>ipc/src/clause.rs\<close>).
  \<^item> Input_Journal (\<open>tip/src/input_journal.rs\<close>), Kana_Table, Kana_Composer, Kana_Composer_Spec
    (\<open>tip/src/local_kana_composer.rs\<close>): the composer's operations, the equivalence of typing with parsing at once,
    and the invariant of its texts.
  \<^item> Keymap_Settings (\<open>settings/src/keymap.rs\<close>), Keymap (\<open>tip/src/keymap.rs\<close>), Symbols (\<open>settings/src/symbol.rs\<close>),
    Input_State (\<open>tip/src/input_state.rs\<close>), Conversion_Mode, Candidate_State, Apply_State and Framing (the files of
    these names): pure decisions and small records, with a lemma for each branch that matters to a caller.
  \<^item> Input_Module, Input_Module_Spec (\<open>tip/src/input_module.rs\<close>): all events, their runs, and the relation \<open>follows\<close>
    between a state and a later one that carries the freshness of tickets.
  \<^item> Clause_Model, Clause_Requests (\<open>tip/src/clause_conversion.rs\<close>): the operations. Clause_Spec states the invariant,
    Clause_Edits and Clause_Replies prove it of each operation, Clause_Steps runs the operations in any order,
    Clause_Revisions follows the revision, Clause_Deadlines the requests on record, and Clause_Guarantees draws the
    conclusions.
  \<^item> Conversion_Queue, Prediction (\<open>tip/src/conversion_queue.rs\<close>, \<open>prediction_state.rs\<close>): operations and runs with
    ghost histories of what was accepted, delivered or requested.
  \<^item> Receipt_Outbox (\<open>tip/src/receipt_outbox.rs\<close>), Background_Mailbox, Background_Mailbox_Spec
    (\<open>tip/src/background_input.rs\<close>): two threads each, as step relations whose steps are the atomic actions of the
    source, with the places between two actions as program counters.
  \<^item> Dictionary_Encoding, User_Dictionary, User_Dictionary_Spec, Dictionary_Roundtrip
    (\<open>settings/src/user_dictionary.rs\<close>), Dictionary_Commands, Dictionary_Commands_Spec (\<open>config/src/logic.rs\<close>): the
    file as bytes, and the commands against a finite map from lookup keys to entries.
  \<^item> Model_Operations (\<open>config/src/operation_state.rs\<close>, \<open>activation.rs\<close>): the record of running model operations, one
    for each kind, and the intent of a start.
  \<^item> Graphemes (\<open>tip/src/grapheme.rs\<close> and its table): the start of the last grapheme, shown to follow the rule of
    Unicode; it discharges the hypothesis of the clause model on segmentation.
  \<^item> Update_Releases, Update_Releases_Spec (\<open>update/src/release.rs\<close>), Update_Checker, Update_Checker_Spec
    (\<open>state.rs\<close>, \<open>client.rs\<close>, \<open>notification.rs\<close>, \<open>main.rs\<close>), Update_Tasks (\<open>scheduler.rs\<close>).

  \<^bold>\<open>What is shown.\<close> Clauses tile the reading in every reachable state, replies to an older text change nothing, every
  operation of the clause model, the composer, the queue and the input module returns, and what is replayed to the
  engine is what is shown. The engine's open session is always a beginning of what was typed since one reseed. Accepted
  text and receipts are neither lost nor duplicated. A loading window closes once its requests have expired. A
  dictionary that could not be read is never overwritten, and what is exported is imported again. An offered release is
  genuine and announced once, and nothing is requested without consent. A failed wait keeps all that the user did to the
  document. Four facts state how the code falls short: a first or newer learning identity that arrives during a boundary
  conversion strands it; an armed undo answers while composing, so with a shared chord, which the conflict check allows,
  it silences a function of the composition; the lemma \<open>long_wait_panics\<close> follows a response that ends the checker in a
  panic; and the lemma \<open>unkillable_blocks\<close> a command that can neither be killed nor ends, for which the caller waits
  without a bound.

  \<^bold>\<open>Bounds.\<close> Counters keep their width: the wrapping, checked and saturating operations of the source are written out.
  The runs of the input module and the composer are those whose counters and reading fit (\<open>module_fits\<close>, a reading of at
  most \<open>u32_max\<close> characters): a user cannot type more. The runs of the mailbox stay below generation \<open>2 ^ 62\<close>, where the
  packed word is exact. The watch of a command is a recursion on rounds: 152 are enough for three seconds in steps of
  twenty milliseconds on a clock that runs, which is proved; the reaping after the last round has no bound, and a wait
  in it that never ends is a result of its own (\<open>PollBlocked\<close>). Every other recursion ends by its structure or a
  measure.

  \<^bold>\<open>What is assumed of other code.\<close> Libraries and the system are parameters, with what the source relies on as named
  hypotheses: the segmentation into graphemes gives back its text (\<open>segmentation\<close>) and cuts between characters
  (\<open>boundaries\<close>, from which \<open>last_start_ok\<close> follows); the JSON library reads back what it wrote
  (\<open>json_library\<close>, \<open>json_brackets\<close>); semantic versions are ordered (\<open>semver_order\<close>); an address of plain segments is parsed into them (\<open>plain_addresses\<close>); a printed time is read
  back to the second (\<open>whole_seconds\<close>); the clock does not run backwards (\<open>clock_runs\<close>); a process that
  has ended or was killed can be reaped (\<open>kill_ends\<close>). Replies of the engine, results of
  sends and file operations, and the interleaving of threads are arbitrary. The witnesses instantiate each parameter
  with a concrete function.

  \<^bold>\<open>What is not modelled.\<close> The COM objects of the text service and its edit sessions
  (\<open>text_service.rs\<close>, \<open>key_event_sink.rs\<close>, \<open>edit_session.rs\<close>, \<open>commit_session.rs\<close>, \<open>preedit_session.rs\<close>): their steps are calls
  of interfaces of Windows whose behaviour is not in the source. Windows and drawing. Registration, power and focus
  notices. The threads that carry one request to the engine (\<open>clause_worker.rs\<close>, \<open>prediction_worker.rs\<close>,
  \<open>llm_worker.rs\<close>, the snapshot lanes of \<open>background_input.rs\<close>); what may be done with their replies is modelled. The
  segmentation of the external crate. The pipe client, the settings structures with their derived serialisation, the
  commands and downloads of the settings program, the test bench, and the engine itself, which is written in Swift.
  Memory order is not modelled: each atomic action is one step on the shared state.
\<close>

end
